(* ===== verification/Prelude.thy ===== *)
theory Prelude
  imports Main "HOL-Library.Word" "HOL-Library.Monad_Syntax"
begin

unbundle bit_operations_syntax

text \<open>
  Shared vocabulary of the development: the C integer types, bounds-checked C arrays, the
  content of a NUL-terminated character array, and the collections of rewrite rules the
  component theories fill.

  An array is a list. A read or a write outside of it is undefined behaviour in C and is
  \<^term>\<open>None\<close> here, never an unspecified list element: a theorem that a routine returns
  \<^term>\<open>Some x\<close> therefore includes the proof that it stays inside its arrays.
\<close>

named_theorems carr \<comment> \<open>reads and writes of C arrays\<close>
named_theorems cstr \<comment> \<open>content of NUL-terminated arrays\<close>

section \<open>C types\<close>

type_synonym u8 = "8 word"
type_synonym u16 = "16 word"
type_synonym u32 = "32 word"
type_synonym u64 = "64 word"

abbreviation NUL :: char where
  "NUL \<equiv> CHR 0x00"

abbreviation QUOTE :: char where
  "QUOTE \<equiv> CHR 0x22"

abbreviation BACKSLASH :: char where
  "BACKSLASH \<equiv> CHR 0x5C"

abbreviation CR :: char where
  "CR \<equiv> CHR 0x0D"

abbreviation LF :: char where
  "LF \<equiv> CHR 0x0A"

abbreviation crlf :: string where
  "crlf \<equiv> [CR, LF]"

text \<open>Plain \<^verbatim>\<open>char\<close> is signed on i386; \<^verbatim>\<open>unsigned char\<close> is the code itself.\<close>

definition schar :: "char \<Rightarrow> int" where
  "schar c = (let n = (of_char c :: int) in if n < 128 then n else n - 256)"

definition uchar :: "char \<Rightarrow> nat" where
  "uchar c = of_char c"

lemma schar_eq_iff [simp]: "schar c = schar d \<longleftrightarrow> c = d"
proof -
  have "(of_char c :: int) < 256" "(of_char d :: int) < 256" "0 \<le> (of_char c :: int)" "0 \<le> (of_char d :: int)"
    using of_char_mod_256 [of c, where 'a = int] of_char_mod_256 [of d, where 'a = int]
    by (metis pos_mod_bound pos_mod_sign zero_less_numeral)+
  then show ?thesis
    by (auto simp: schar_def Let_def split: if_splits)
qed

lemma uchar_less_256 [simp]: "uchar c < 256"
  unfolding uchar_def by (metis mod_less_divisor of_char_mod_256 zero_less_numeral)

lemma uchar_eq_iff [simp]: "uchar c = uchar d \<longleftrightarrow> c = d"
  by (simp add: uchar_def)

lemma uchar_char_of [simp]: "uchar (char_of n) = n mod 256"
  by (simp add: uchar_def)

lemma char_of_uchar [simp]: "char_of (uchar c) = c"
  by (simp add: uchar_def)

text \<open>Arithmetic on \<^verbatim>\<open>int\<close>: the value wrapped to 32 bits.\<close>

definition swrap32 :: "int \<Rightarrow> int" where
  "swrap32 n = (n + 2 ^ 31) mod 2 ^ 32 - 2 ^ 31"

lemma swrap32_id: "- (2 ^ 31) \<le> n \<Longrightarrow> n < 2 ^ 31 \<Longrightarrow> swrap32 n = n"
  by (simp add: swrap32_def)

lemma swrap32_range: "- (2 ^ 31) \<le> swrap32 n \<and> swrap32 n < 2 ^ 31"
  using pos_mod_sign [of "2 ^ 32 :: int" "n + 2 ^ 31"] pos_mod_bound [of "2 ^ 32 :: int" "n + 2 ^ 31"]
  by (simp add: swrap32_def)

section \<open>Arrays\<close>

definition rd :: "'a list \<Rightarrow> nat \<Rightarrow> 'a option" where
  "rd a i = (if i < length a then Some (a ! i) else None)"

definition wr :: "'a list \<Rightarrow> nat \<Rightarrow> 'a \<Rightarrow> 'a list option" where
  "wr a i x = (if i < length a then Some (a[i := x]) else None)"

lemma rd_in [carr]: "i < length a \<Longrightarrow> rd a i = Some (a ! i)"
  and rd_out [carr]: "\<not> i < length a \<Longrightarrow> rd a i = None"
  by (simp_all add: rd_def)

lemma wr_in [carr]: "i < length a \<Longrightarrow> wr a i x = Some (a[i := x])"
  and wr_out [carr]: "\<not> i < length a \<Longrightarrow> wr a i x = None"
  by (simp_all add: wr_def)

lemma rd_Some_iff: "rd a i = Some x \<longleftrightarrow> i < length a \<and> a ! i = x"
  by (auto simp: rd_def)

lemma wr_Some_iff: "wr a i x = Some b \<longleftrightarrow> i < length a \<and> b = a[i := x]"
  by (auto simp: wr_def)

lemma bind_eq_Some: "(x \<bind> f) = Some r \<longleftrightarrow> (\<exists>y. x = Some y \<and> f y = Some r)"
  by (cases x) auto

text \<open>Overwriting a segment of an array, the effect of a copy loop.\<close>

definition overwrite :: "'a list \<Rightarrow> nat \<Rightarrow> 'a list \<Rightarrow> 'a list" where
  "overwrite a i xs = take i a @ xs @ drop (i + length xs) a"

lemma overwrite_Nil [simp]: "overwrite a i [] = a"
  by (simp add: overwrite_def)

lemma length_overwrite [simp]: "i + length xs \<le> length a \<Longrightarrow> length (overwrite a i xs) = length a"
  by (simp add: overwrite_def)

lemma overwrite_Cons:
  "i < length a \<Longrightarrow> overwrite (a[i := x]) (Suc i) xs = overwrite a i (x # xs)"
  by (simp add: overwrite_def take_Suc_conv_app_nth drop_update_cancel)

lemma overwrite_snoc:
  "i + length xs < length a \<Longrightarrow> (overwrite a i xs)[i + length xs := x] = overwrite a i (xs @ [x])"
  by (auto simp: overwrite_def list_update_append nth_append Cons_nth_drop_Suc [symmetric])

lemma overwrite_append:
  "i + length xs + length ys \<le> length a \<Longrightarrow>
   overwrite (overwrite a i xs) (i + length xs) ys = overwrite a i (xs @ ys)"
  by (simp add: overwrite_def add_ac)

lemma take_overwrite [simp]: "i \<le> length a \<Longrightarrow> take i (overwrite a i xs) = take i a"
  by (simp add: overwrite_def)

section \<open>Content of a character array\<close>

text \<open>The characters before the terminator: what a C string function sees of the array.\<close>

definition cstr_of :: "string \<Rightarrow> string" where
  "cstr_of b = takeWhile (\<lambda>c. c \<noteq> NUL) b"

text \<open>The array holds a terminator, so reading up to it is defined.\<close>

definition terminated :: "string \<Rightarrow> bool" where
  "terminated b \<longleftrightarrow> NUL \<in> set b"

lemma cstr_of_simps [simp]:
  "cstr_of [] = []"
  "cstr_of (c # b) = (if c = NUL then [] else c # cstr_of b)"
  by (simp_all add: cstr_of_def)

lemma terminated_simps [simp]:
  "terminated [] \<longleftrightarrow> False"
  "terminated (c # b) \<longleftrightarrow> c = NUL \<or> terminated b"
  by (auto simp: terminated_def)

lemma NUL_notin_cstr_of [simp]: "NUL \<notin> set (cstr_of b)"
  by (auto simp: cstr_of_def dest: set_takeWhileD)

lemma cstr_of_id [cstr]: "NUL \<notin> set s \<Longrightarrow> cstr_of s = s"
  by (induction s) auto

lemma cstr_of_append [cstr]: "cstr_of (a @ b) = (if NUL \<in> set a then cstr_of a else a @ cstr_of b)"
  by (induction a) auto

lemma cstr_of_idem [simp]: "cstr_of (cstr_of b) = cstr_of b"
  by (simp add: cstr_of_id)

lemma length_cstr_of_le: "length (cstr_of b) \<le> length b"
  by (simp add: cstr_of_def length_takeWhile_le)

lemma terminated_append [simp]: "terminated (a @ b) \<longleftrightarrow> terminated a \<or> terminated b"
  by (auto simp: terminated_def)

lemma terminated_less: "terminated b \<Longrightarrow> length (cstr_of b) < length b"
  by (induction b) auto

lemma take_length_cstr_of [simp]: "take (length (cstr_of b)) b = cstr_of b"
  by (induction b) auto

lemma nth_cstr_of_end: "terminated b \<Longrightarrow> b ! length (cstr_of b) = NUL"
  by (induction b) auto

lemma nth_before_end: "i < length (cstr_of b) \<Longrightarrow> b ! i = cstr_of b ! i \<and> b ! i \<noteq> NUL"
  using nth_mem [of i "cstr_of b"] NUL_notin_cstr_of [of b]
  by (metis cstr_of_def takeWhile_nth)

lemma not_terminated_cstr_of: "\<not> terminated b \<Longrightarrow> cstr_of b = b"
  by (simp add: terminated_def cstr_of_id)

text \<open>
  Reading a NUL-terminated string given by its content: the terminator (and, for a content
  list, everything behind it) reads as NUL.
\<close>

definition chr_at :: "string \<Rightarrow> nat \<Rightarrow> char" where
  "chr_at s i = (if i < length s then s ! i else NUL)"

lemma chr_at_simps [simp]:
  "chr_at [] i = NUL"
  "chr_at (c # s) 0 = c"
  "chr_at (c # s) (Suc i) = chr_at s i"
  by (simp_all add: chr_at_def)

lemma chr_at_in: "i < length s \<Longrightarrow> chr_at s i = s ! i"
  by (simp add: chr_at_def)

lemma chr_at_out: "length s \<le> i \<Longrightarrow> chr_at s i = NUL"
  by (simp add: chr_at_def)

lemma chr_at_drop: "chr_at (drop n s) i = chr_at s (n + i)"
  by (cases "n \<le> length s") (auto simp: chr_at_def)

end
