(* ===== verification/CString.thy ===== *)
theory CString
  imports Prelude
begin

text \<open>
  The libc subset of \<^verbatim>\<open>src/string.c\<close> (everything but the formatter, see
  \<^verbatim>\<open>Printf\<close>) and the bounded helpers of \<^verbatim>\<open>src/safestring.c\<close>.

  Each C loop is one recursive function over the array and the index, with every access
  bounds-checked. The lemmas characterise each routine by the content of its arrays:
  \<^item> a reading routine returns \<^term>\<open>Some\<close> exactly when it stays inside its arrays;
  \<^item> a writing routine returns the destination with a segment overwritten.
  The component theories above use these characterisations only.
\<close>

section \<open>strlen, strcmp, strncmp, memcmp\<close>

function strlen_loop :: "string \<Rightarrow> nat \<Rightarrow> nat option" where
  "strlen_loop str len =
     (if len < length str
      then (if str ! len \<noteq> NUL then strlen_loop str (Suc len) else Some len)
      else None)"
  by pat_completeness auto
termination by (relation "measure (\<lambda>(str, len). length str - len)") auto

definition strlen :: "string \<Rightarrow> nat option" where
  "strlen str = strlen_loop str 0"

function strcmp_loop :: "string \<Rightarrow> string \<Rightarrow> nat \<Rightarrow> int option" where
  "strcmp_loop s1 s2 i =
     (if i < length s1 \<and> i < length s2
      then (if s1 ! i \<noteq> NUL \<and> s1 ! i = s2 ! i then strcmp_loop s1 s2 (Suc i)
            else Some (int (uchar (s1 ! i)) - int (uchar (s2 ! i))))
      else None)"
  by pat_completeness auto
termination by (relation "measure (\<lambda>(s1, s2, i). length s1 - i)") auto

definition strcmp :: "string \<Rightarrow> string \<Rightarrow> int option" where
  "strcmp s1 s2 = strcmp_loop s1 s2 0"

function strncmp_loop :: "string \<Rightarrow> string \<Rightarrow> nat \<Rightarrow> nat \<Rightarrow> int option" where
  "strncmp_loop s1 s2 n i =
     (if i < n then
        (if i < length s1 \<and> i < length s2 then
           (if s1 ! i \<noteq> s2 ! i then Some (schar (s1 ! i) - schar (s2 ! i))
            else if s1 ! i = NUL then Some 0
            else strncmp_loop s1 s2 n (Suc i))
         else None)
      else Some 0)"
  by pat_completeness auto
termination by (relation "measure (\<lambda>(s1, s2, n, i). n - i)") auto

definition strncmp :: "string \<Rightarrow> string \<Rightarrow> nat \<Rightarrow> int option" where
  "strncmp s1 s2 n = strncmp_loop s1 s2 n 0"

function memcmp_loop :: "u8 list \<Rightarrow> u8 list \<Rightarrow> nat \<Rightarrow> nat \<Rightarrow> int option" where
  "memcmp_loop s1 s2 n i =
     (if i < n then
        (if i < length s1 \<and> i < length s2 then
           (if s1 ! i \<noteq> s2 ! i then Some (uint (s1 ! i) - uint (s2 ! i))
            else memcmp_loop s1 s2 n (Suc i))
         else None)
      else Some 0)"
  by pat_completeness auto
termination by (relation "measure (\<lambda>(s1, s2, n, i). n - i)") auto

definition memcmp :: "u8 list \<Rightarrow> u8 list \<Rightarrow> nat \<Rightarrow> int option" where
  "memcmp s1 s2 n = memcmp_loop s1 s2 n 0"

declare strlen_loop.simps [simp del] strcmp_loop.simps [simp del]
  strncmp_loop.simps [simp del] memcmp_loop.simps [simp del]

text \<open>Stepping past the first character, the form in which the loops are reasoned about.\<close>

lemma strlen_loop_Cons: "strlen_loop (c # s) (Suc i) = map_option Suc (strlen_loop s i)"
proof (induction s i rule: strlen_loop.induct)
  case (1 s i)
  then show ?case
    by (subst strlen_loop.simps, subst (2) strlen_loop.simps) auto
qed

lemma strcmp_loop_Cons: "strcmp_loop (c # s) (d # t) (Suc i) = strcmp_loop s t i"
proof (induction s t i rule: strcmp_loop.induct)
  case (1 s t i)
  then show ?case
    by (subst strcmp_loop.simps, subst (2) strcmp_loop.simps) auto
qed

lemma strncmp_loop_Cons: "strncmp_loop (c # s) (d # t) (Suc n) (Suc i) = strncmp_loop s t n i"
proof (induction s t n i rule: strncmp_loop.induct)
  case (1 s t n i)
  then show ?case
    by (subst strncmp_loop.simps, subst (2) strncmp_loop.simps) auto
qed

lemma memcmp_loop_Cons: "memcmp_loop (c # s) (d # t) (Suc n) (Suc i) = memcmp_loop s t n i"
proof (induction s t n i rule: memcmp_loop.induct)
  case (1 s t n i)
  then show ?case
    by (subst memcmp_loop.simps, subst (2) memcmp_loop.simps) auto
qed

lemma strlen_rec [carr]:
  "strlen [] = None"
  "strlen (c # s) = (if c = NUL then Some 0 else map_option Suc (strlen s))"
  by (simp_all add: strlen_def strlen_loop.simps [where len = 0] strlen_loop_Cons)

lemma strcmp_rec [carr]:
  "strcmp [] t = None"
  "strcmp s [] = None"
  "strcmp (c # s) (d # t) =
     (if c \<noteq> NUL \<and> c = d then strcmp s t else Some (int (uchar c) - int (uchar d)))"
  by (simp_all add: strcmp_def strcmp_loop.simps [where i = 0] strcmp_loop_Cons)

lemma strncmp_rec [carr]:
  "strncmp s t 0 = Some 0"
  "strncmp [] t (Suc n) = None"
  "strncmp s [] (Suc n) = None"
  "strncmp (c # s) (d # t) (Suc n) =
     (if c \<noteq> d then Some (schar c - schar d) else if c = NUL then Some 0 else strncmp s t n)"
  by (simp_all add: strncmp_def strncmp_loop.simps [where i = 0] strncmp_loop_Cons)

lemma memcmp_rec [carr]:
  "memcmp s t 0 = Some 0"
  "memcmp [] t (Suc n) = None"
  "memcmp s [] (Suc n) = None"
  "memcmp (c # s) (d # t) (Suc n) = (if c \<noteq> d then Some (uint c - uint d) else memcmp s t n)"
  by (simp_all add: memcmp_def memcmp_loop.simps [where i = 0] memcmp_loop_Cons)

text \<open>The characterisations.\<close>

lemma strlen_eq [cstr]:
  "strlen b = (if terminated b then Some (length (cstr_of b)) else None)"
  by (induction b) (auto simp: carr)

lemma strcmp_zero_iff [cstr]:
  "terminated a \<Longrightarrow> terminated b \<Longrightarrow> strcmp a b = Some 0 \<longleftrightarrow> cstr_of a = cstr_of b"
proof (induction a arbitrary: b)
  case (Cons c a)
  then show ?case by (cases b) (auto simp: carr)
qed simp

lemma strcmp_defined: "terminated a \<Longrightarrow> terminated b \<Longrightarrow> \<exists>r. strcmp a b = Some r"
proof (induction a arbitrary: b)
  case (Cons c a)
  then show ?case by (cases b) (auto simp: carr)
qed simp

lemma strncmp_zero_iff [cstr]:
  "terminated a \<Longrightarrow> terminated b \<Longrightarrow>
   strncmp a b n = Some 0 \<longleftrightarrow> take n (cstr_of a) = take n (cstr_of b)"
proof (induction a arbitrary: b n)
  case (Cons c a)
  then obtain d b' where "b = d # b'" by (cases b) auto
  with Cons show ?case by (cases n) (auto simp: carr)
qed simp

lemma memcmp_zero_iff [carr]:
  "n \<le> length a \<Longrightarrow> n \<le> length b \<Longrightarrow> memcmp a b n = Some 0 \<longleftrightarrow> take n a = take n b"
proof (induction a arbitrary: b n)
  case Nil
  then show ?case by (simp add: carr)
next
  case (Cons c a)
  then show ?case by (cases n; cases b) (auto simp: carr word_uint_eq_iff)
qed

text \<open>
  The two tests the rest of the program makes: \<^verbatim>\<open>strcmp(s, t) == 0\<close> and
  \<^verbatim>\<open>strncmp(s, t, n) == 0\<close> on NUL-terminated strings given by their content.
\<close>

definition str_eq :: "string \<Rightarrow> string \<Rightarrow> bool" where
  "str_eq s t \<longleftrightarrow> strcmp (s @ [NUL]) (t @ [NUL]) = Some 0"

definition str_eqn :: "string \<Rightarrow> string \<Rightarrow> nat \<Rightarrow> bool" where
  "str_eqn s t n \<longleftrightarrow> strncmp (s @ [NUL]) (t @ [NUL]) n = Some 0"

lemma str_eq_iff [cstr]: "str_eq s t \<longleftrightarrow> cstr_of s = cstr_of t"
  by (simp add: str_eq_def strcmp_zero_iff cstr_of_append not_terminated_cstr_of terminated_def)

lemma str_eqn_iff [cstr]: "str_eqn s t n \<longleftrightarrow> take n (cstr_of s) = take n (cstr_of t)"
  by (simp add: str_eqn_def strncmp_zero_iff cstr_of_append not_terminated_cstr_of terminated_def)

section \<open>strncpy, memset, memcpy\<close>

function strncpy_pad :: "string \<Rightarrow> nat \<Rightarrow> nat \<Rightarrow> string option" where
  "strncpy_pad dest n i =
     (if i < n then do { dest \<leftarrow> wr dest i NUL; strncpy_pad dest n (Suc i) } else Some dest)"
  by pat_completeness auto
termination by (relation "measure (\<lambda>(dest, n, i). n - i)") auto

function strncpy_copy :: "string \<Rightarrow> string \<Rightarrow> nat \<Rightarrow> nat \<Rightarrow> string option" where
  "strncpy_copy dest src n i =
     (if i < n then
        do { c \<leftarrow> rd src i;
             if c \<noteq> NUL then do { dest \<leftarrow> wr dest i c; strncpy_copy dest src n (Suc i) }
             else strncpy_pad dest n i }
      else Some dest)"
  by pat_completeness auto
termination by (relation "measure (\<lambda>(dest, src, n, i). n - i)") auto

definition strncpy :: "string \<Rightarrow> string \<Rightarrow> nat \<Rightarrow> string option" where
  "strncpy dest src n = strncpy_copy dest src n 0"

function memset_loop :: "u8 list \<Rightarrow> u8 \<Rightarrow> nat \<Rightarrow> nat \<Rightarrow> u8 list option" where
  "memset_loop s c n i =
     (if i < n then do { s \<leftarrow> wr s i c; memset_loop s c n (Suc i) } else Some s)"
  by pat_completeness auto
termination by (relation "measure (\<lambda>(s, c, n, i). n - i)") auto

definition memset :: "u8 list \<Rightarrow> int \<Rightarrow> nat \<Rightarrow> u8 list option" where
  "memset s c n = memset_loop s (word_of_int c) n 0"

function memcpy_loop :: "u8 list \<Rightarrow> u8 list \<Rightarrow> nat \<Rightarrow> nat \<Rightarrow> u8 list option" where
  "memcpy_loop d s n i =
     (if i < n then do { c \<leftarrow> rd s i; d \<leftarrow> wr d i c; memcpy_loop d s n (Suc i) } else Some d)"
  by pat_completeness auto
termination by (relation "measure (\<lambda>(d, s, n, i). n - i)") auto

definition memcpy :: "u8 list \<Rightarrow> u8 list \<Rightarrow> nat \<Rightarrow> u8 list option" where
  "memcpy dest src n = memcpy_loop dest src n 0"

declare strncpy_pad.simps [simp del] strncpy_copy.simps [simp del]
  memset_loop.simps [simp del] memcpy_loop.simps [simp del]

lemma strncpy_pad_eq:
  "i \<le> n \<Longrightarrow> n \<le> length dest \<Longrightarrow>
   strncpy_pad dest n i = Some (overwrite dest i (replicate (n - i) NUL))"
proof (induction dest n i rule: strncpy_pad.induct)
  case (1 dest n i)
  show ?case
  proof (cases "i < n")
    case True
    with 1 have "strncpy_pad dest n i = Some (overwrite (dest[i := NUL]) (Suc i) (replicate (n - Suc i) NUL))"
      by (subst strncpy_pad.simps) (simp add: carr)
    with True 1(3) show ?thesis
      by (simp add: overwrite_Cons Suc_diff_Suc flip: replicate_Suc)
  qed (use 1 in \<open>subst strncpy_pad.simps, simp\<close>)
qed

text \<open>The bytes \<^verbatim>\<open>strncpy\<close> writes: a truncated copy, padded with NULs to \<open>n\<close>.\<close>

definition strncpy_bytes :: "string \<Rightarrow> nat \<Rightarrow> string" where
  "strncpy_bytes s n = take n s @ replicate (n - length s) NUL"

lemma length_strncpy_bytes [simp]: "length (strncpy_bytes s n) = n"
  by (simp add: strncpy_bytes_def)

lemma strncpy_copy_eq:
  "i \<le> n \<Longrightarrow> n \<le> length dest \<Longrightarrow> i \<le> length (cstr_of src) \<Longrightarrow> terminated src \<or> n \<le> length src \<Longrightarrow>
   strncpy_copy dest src n i = Some (overwrite dest i (strncpy_bytes (drop i (cstr_of src)) (n - i)))"
proof (induction dest src n i rule: strncpy_copy.induct)
  case (1 dest src n i)
  note len = length_cstr_of_le [of src]
  consider (full) "i = n" | (copy) "i < n" "i < length (cstr_of src)"
    | (pad) "i < n" "i = length (cstr_of src)" "terminated src"
    using 1 not_terminated_cstr_of [of src] by fastforce
  then show ?case
  proof cases
    case full
    then show ?thesis by (subst strncpy_copy.simps) (simp add: strncpy_bytes_def)
  next
    case copy
    have "strncpy_copy dest src n i =
        Some (overwrite (dest[i := src ! i]) (Suc i)
          (strncpy_bytes (drop (Suc i) (cstr_of src)) (n - Suc i)))"
      using 1 copy len nth_before_end [of i src]
      by (subst strncpy_copy.simps) (auto simp: carr)
    moreover have "strncpy_bytes (drop i (cstr_of src)) (n - i) =
        src ! i # strncpy_bytes (drop (Suc i) (cstr_of src)) (n - Suc i)"
      using copy nth_before_end [of i src]
      by (simp add: strncpy_bytes_def Cons_nth_drop_Suc [symmetric] take_Cons')
    ultimately show ?thesis using copy 1(3) by (simp add: overwrite_Cons)
  next
    case pad
    then show ?thesis
      using 1(3) terminated_less [of src] nth_cstr_of_end [of src]
      by (subst strncpy_copy.simps) (simp add: carr strncpy_pad_eq strncpy_bytes_def)
  qed
qed

lemma strncpy_eq [cstr]:
  "n \<le> length dest \<Longrightarrow> terminated src \<or> n \<le> length src \<Longrightarrow>
   strncpy dest src n = Some (overwrite dest 0 (strncpy_bytes (cstr_of src) n))"
  by (simp add: strncpy_def strncpy_copy_eq)

lemma memset_loop_eq:
  "i \<le> n \<Longrightarrow> n \<le> length s \<Longrightarrow> memset_loop s c n i = Some (overwrite s i (replicate (n - i) c))"
proof (induction s c n i rule: memset_loop.induct)
  case (1 s c n i)
  show ?case
  proof (cases "i < n")
    case True
    with 1 have "memset_loop s c n i = Some (overwrite (s[i := c]) (Suc i) (replicate (n - Suc i) c))"
      by (subst memset_loop.simps) (simp add: carr)
    with True 1(3) show ?thesis
      by (simp add: overwrite_Cons Suc_diff_Suc flip: replicate_Suc)
  qed (use 1 in \<open>subst memset_loop.simps, simp\<close>)
qed

lemma memset_eq [carr]:
  "n \<le> length s \<Longrightarrow> memset s c n = Some (overwrite s 0 (replicate n (word_of_int c)))"
  by (simp add: memset_def memset_loop_eq)

lemma memcpy_loop_eq:
  "i \<le> n \<Longrightarrow> n \<le> length d \<Longrightarrow> n \<le> length s \<Longrightarrow>
   memcpy_loop d s n i = Some (overwrite d i (take (n - i) (drop i s)))"
proof (induction d s n i rule: memcpy_loop.induct)
  case (1 d s n i)
  show ?case
  proof (cases "i < n")
    case True
    with 1 have "memcpy_loop d s n i =
        Some (overwrite (d[i := s ! i]) (Suc i) (take (n - Suc i) (drop (Suc i) s)))"
      by (subst memcpy_loop.simps) (simp add: carr)
    moreover from True 1(4) have "take (n - i) (drop i s) = s ! i # take (n - Suc i) (drop (Suc i) s)"
      by (simp add: Cons_nth_drop_Suc [symmetric] take_Cons')
    ultimately show ?thesis using True 1(3) by (simp add: overwrite_Cons)
  qed (use 1 in \<open>subst memcpy_loop.simps, simp\<close>)
qed

lemma memcpy_eq [carr]:
  "n \<le> length d \<Longrightarrow> n \<le> length s \<Longrightarrow> memcpy d s n = Some (overwrite d 0 (take n s))"
  by (simp add: memcpy_def memcpy_loop_eq)

end
