(* ===== verification/SafeString.thy ===== *)
theory SafeString
  imports CString
begin

text \<open>
  \<^verbatim>\<open>src/safestring.c\<close>: the bounded copies. A pointer argument that the code tests for
  NULL is an \<^typ>\<open>'a option\<close>. The routines return the C result and the destination array.
  \<^verbatim>\<open>safe_snprintf_append\<close> is in \<^verbatim>\<open>Printf\<close>, next to the formatter it calls.
\<close>

section \<open>The routines\<close>

function safe_strcpy_loop :: "string \<Rightarrow> nat \<Rightarrow> string \<Rightarrow> nat \<Rightarrow> (nat \<times> string) option" where
  "safe_strcpy_loop dst dst_size src i =
     (if i < dst_size - 1 then
        do { c \<leftarrow> rd src i;
             if c \<noteq> NUL
             then do { dst \<leftarrow> wr dst i c; safe_strcpy_loop dst dst_size src (Suc i) }
             else do { dst \<leftarrow> wr dst i NUL; Some (i, dst) } }
      else do { dst \<leftarrow> wr dst i NUL; Some (i, dst) })"
  by pat_completeness auto
termination by (relation "measure (\<lambda>(dst, n, src, i). n - i)") auto

definition safe_strcpy :: "string option \<Rightarrow> nat \<Rightarrow> string option \<Rightarrow> (nat \<times> string option) option" where
  "safe_strcpy dst dst_size src =
     (if dst_size = 0 then Some (0, dst)
      else case (dst, src) of
        (Some d, Some s) \<Rightarrow> do { (i, d) \<leftarrow> safe_strcpy_loop d dst_size s 0; Some (i, Some d) }
      | _ \<Rightarrow> Some (0, dst))"

function safe_strncpy_loop ::
  "string \<Rightarrow> nat \<Rightarrow> string \<Rightarrow> nat \<Rightarrow> nat \<Rightarrow> (nat \<times> string) option" where
  "safe_strncpy_loop dst dst_size src n i =
     (if i < dst_size - 1 \<and> i < n then
        do { c \<leftarrow> rd src i;
             if c \<noteq> NUL
             then do { dst \<leftarrow> wr dst i c; safe_strncpy_loop dst dst_size src n (Suc i) }
             else do { dst \<leftarrow> wr dst i NUL; Some (i, dst) } }
      else do { dst \<leftarrow> wr dst i NUL; Some (i, dst) })"
  by pat_completeness auto
termination by (relation "measure (\<lambda>(dst, m, src, n, i). m - i)") auto

definition safe_strncpy ::
  "string option \<Rightarrow> nat \<Rightarrow> string option \<Rightarrow> nat \<Rightarrow> (nat \<times> string option) option" where
  "safe_strncpy dst dst_size src n =
     (if dst_size = 0 then Some (0, dst)
      else case (dst, src) of
        (Some d, Some s) \<Rightarrow> do { (i, d) \<leftarrow> safe_strncpy_loop d dst_size s n 0; Some (i, Some d) }
      | _ \<Rightarrow> Some (0, dst))"

function safe_strcat_len :: "string \<Rightarrow> nat \<Rightarrow> nat \<Rightarrow> nat option" where
  "safe_strcat_len dst dst_size dst_len =
     (if dst_len < dst_size then
        do { c \<leftarrow> rd dst dst_len;
             if c \<noteq> NUL then safe_strcat_len dst dst_size (Suc dst_len) else Some dst_len }
      else Some dst_len)"
  by pat_completeness auto
termination by (relation "measure (\<lambda>(dst, n, i). n - i)") auto

text \<open>\<^verbatim>\<open>dst + dst_len\<close> is the array from index \<open>dst_len\<close> on.\<close>

definition safe_strcat :: "string option \<Rightarrow> nat \<Rightarrow> string option \<Rightarrow> (nat \<times> string option) option" where
  "safe_strcat dst dst_size src =
     (if dst_size = 0 then Some (0, dst)
      else case (dst, src) of
        (Some d, Some s) \<Rightarrow>
          do { dst_len \<leftarrow> safe_strcat_len d dst_size 0;
               if dst_size \<le> dst_len then Some (0, dst)
               else do { (copied, tail) \<leftarrow>
                           safe_strcpy (Some (drop dst_len d)) (dst_size - dst_len) (Some s);
                         Some (dst_len + copied, map_option (\<lambda>t. take dst_len d @ t) tail) } }
      | _ \<Rightarrow> Some (0, dst))"

declare safe_strcpy_loop.simps [simp del] safe_strncpy_loop.simps [simp del]
  safe_strcat_len.simps [simp del]

section \<open>What they write\<close>

text \<open>
  Both copies write a prefix of the source's content and one terminator. The bounded copy with
  an extra length limit is the general one.
\<close>

lemma safe_strncpy_loop_eq:
  "i \<le> length (cstr_of src) \<Longrightarrow> i \<le> n \<Longrightarrow> i < dst_size \<Longrightarrow> dst_size \<le> length dst \<Longrightarrow>
   terminated src \<or> n \<le> length src \<Longrightarrow>
   safe_strncpy_loop dst dst_size src n i =
     (let s = take (min (dst_size - 1) n) (cstr_of src)
      in Some (length s, overwrite dst i (drop i s @ [NUL])))"
proof (induction dst dst_size src n i rule: safe_strncpy_loop.induct)
  case (1 dst m src n i)
  let ?s = "take (min (m - 1) n) (cstr_of src)"
  note len = length_cstr_of_le [of src]
  have stop: "wr dst i NUL = Some (overwrite dst i [NUL])"
    using 1 by (simp add: carr overwrite_def upd_conv_take_nth_drop)
  show ?case
  proof (cases "i < m - 1 \<and> i < n \<and> i < length (cstr_of src)")
    case True
    then have "safe_strncpy_loop dst m src n i =
        Some (length ?s, overwrite (dst[i := src ! i]) (Suc i) (drop (Suc i) ?s @ [NUL]))"
      using 1 len nth_before_end [of i src]
      by (subst safe_strncpy_loop.simps) (auto simp: carr Let_def)
    moreover have "drop i ?s = src ! i # drop (Suc i) ?s"
      using True nth_before_end [of i src]
      by (simp add: Cons_nth_drop_Suc [symmetric])
    ultimately show ?thesis using True 1 by (simp add: overwrite_Cons)
  next
    case False
    then consider (bound) "\<not> (i < m - 1 \<and> i < n)"
      | (end_of_src) "i < m - 1" "i < n" "i = length (cstr_of src)" "terminated src"
      using 1 not_terminated_cstr_of [of src] by fastforce
    then show ?thesis
    proof cases
      case bound
      then have "i = m - 1 \<or> i = n" using 1 by auto
      with bound 1 show ?thesis
        by (subst safe_strncpy_loop.simps) (auto simp: stop min_def)
    next
      case end_of_src
      with stop have "wr dst (length (cstr_of src)) NUL = Some (overwrite dst (length (cstr_of src)) [NUL])"
        by simp
      with end_of_src show ?thesis
        using terminated_less [of src] nth_cstr_of_end [of src]
        by (subst safe_strncpy_loop.simps) (simp add: carr Let_def)
    qed
  qed
qed

lemma safe_strcpy_loop_is_strncpy:
  "safe_strcpy_loop dst m src i = safe_strncpy_loop dst m src m i"
proof (induction dst m src i rule: safe_strcpy_loop.induct)
  case (1 dst m src i)
  then show ?case
    by (subst safe_strcpy_loop.simps, subst safe_strncpy_loop.simps)
       (auto intro!: Option.bind_cong)
qed

lemma safe_strncpy_eq:
  assumes "0 < m" "m \<le> length dst" "terminated src \<or> n \<le> length src"
  shows "safe_strncpy (Some dst) m (Some src) n =
    (let s = take (min (m - 1) n) (cstr_of src)
     in Some (length s, Some (overwrite dst 0 (s @ [NUL]))))"
  using assms by (simp add: safe_strncpy_def safe_strncpy_loop_eq Let_def)

lemma safe_strcpy_eq:
  assumes "0 < m" "m \<le> length dst" "terminated src \<or> m \<le> length src"
  shows "safe_strcpy (Some dst) m (Some src) =
    (let s = take (m - 1) (cstr_of src) in Some (length s, Some (overwrite dst 0 (s @ [NUL]))))"
  using assms
  by (simp add: safe_strcpy_def safe_strcpy_loop_is_strncpy safe_strncpy_loop_eq Let_def)

lemma safe_strcat_len_eq:
  "i \<le> length (cstr_of (take m dst)) \<Longrightarrow> m \<le> length dst \<Longrightarrow>
   safe_strcat_len dst m i = Some (length (cstr_of (take m dst)))"
proof (induction dst m i rule: safe_strcat_len.induct)
  case (1 dst m i)
  let ?d = "take m dst"
  note len = length_cstr_of_le [of ?d]
  consider (inside) "i < length (cstr_of ?d)"
    | (at_end) "i = length (cstr_of ?d)" "terminated ?d"
    | (no_end) "i = length (cstr_of ?d)" "cstr_of ?d = ?d"
    using 1 not_terminated_cstr_of [of ?d] by fastforce
  then show ?case
  proof cases
    case inside
    then show ?thesis
      using 1 len nth_before_end [of i ?d] by (subst safe_strcat_len.simps) (auto simp: carr)
  next
    case at_end
    then show ?thesis
      using 1 len terminated_less [of ?d] nth_cstr_of_end [of ?d]
      by (subst safe_strcat_len.simps) (auto simp: carr)
  next
    case no_end
    with 1 have "i = m" by simp
    with no_end show ?thesis by (subst safe_strcat_len.simps) simp
  qed
qed

section \<open>Contracts\<close>

lemma cstr_of_overwrite:
  "NUL \<notin> set s \<Longrightarrow> length s < length d \<Longrightarrow> cstr_of (overwrite d 0 (s @ [NUL])) = s"
  by (simp add: overwrite_def cstr_of_append)

lemma terminated_overwrite:
  "length s < m \<Longrightarrow> m \<le> length d \<Longrightarrow> terminated (take m (overwrite d 0 (s @ [NUL])))"
  by (cases "m - length s") (auto simp: overwrite_def)

lemma drop_overwrite:
  "length s < m \<Longrightarrow> drop m (overwrite d 0 (s @ [NUL])) = drop m d"
proof -
  assume "length s < m"
  then obtain k where "m = Suc (length s + k)" by (metis less_iff_Suc_add)
  then show ?thesis by (simp add: overwrite_def add.commute)
qed

lemma safe_strcpy_spec:
  assumes "0 < m" "m \<le> length dst" "terminated src"
  shows "\<exists>dst'. safe_strcpy (Some dst) m (Some src) = Some (min (m - 1) (length (cstr_of src)), Some dst')
    \<and> length dst' = length dst \<and> drop m dst' = drop m dst
    \<and> terminated (take m dst') \<and> cstr_of dst' = take (m - 1) (cstr_of src)"
proof -
  let ?s = "take (m - 1) (cstr_of src)"
  have s: "length ?s < m" "NUL \<notin> set ?s"
    using assms(1) NUL_notin_cstr_of [of src] by (auto dest: in_set_takeD)
  have "safe_strcpy (Some dst) m (Some src) =
      Some (min (m - 1) (length (cstr_of src)), Some (overwrite dst 0 (?s @ [NUL])))"
    using assms by (simp add: safe_strcpy_eq Let_def min.commute)
  then show ?thesis
    using s assms(2) cstr_of_overwrite [of ?s dst] terminated_overwrite [of ?s m dst]
      drop_overwrite [of ?s m dst] length_overwrite [of 0 "?s @ [NUL]" dst]
    by auto
qed

text \<open>
  \<^verbatim>\<open>safe_strcpy\<close> stays inside a destination of the stated size, leaves
  everything beyond that size alone, always terminates it, and stores the longest prefix of the
  source that fits; it returns the number of characters stored.
\<close>

theorem safe_strcpy_contract:
  assumes "0 < m" "m \<le> length dst" "terminated src"
  shows "\<exists>dst'. safe_strcpy (Some dst) m (Some src) = Some (min (m - 1) (length (cstr_of src)), Some dst')
    \<and> length dst' = length dst \<and> drop m dst' = drop m dst
    \<and> terminated (take m dst') \<and> cstr_of dst' = take (m - 1) (cstr_of src)"
  using assms by (rule safe_strcpy_spec)

theorem safe_strcpy_contract_witness:
  "\<exists>d. safe_strcpy (Some ''xxxxxx'') 4 (Some (''hello'' @ [NUL])) = Some (3, Some d) \<and>
       cstr_of d = ''hel''"
  using safe_strcpy_contract [of 4 "''xxxxxx''" "''hello'' @ [NUL]"] by auto

text \<open>
  \<^verbatim>\<open>safe_strcat\<close> appends as much of the source as fits after the
  destination's content and terminates it; a destination with no terminator within its size is
  refused with 0 and left unchanged.
\<close>

theorem safe_strcat_contract:
  assumes "0 < m" "m \<le> length dst" "terminated src"
  shows "if terminated (take m dst) then
      \<exists>dst'. safe_strcat (Some dst) m (Some src) =
          Some (length (cstr_of dst'), Some dst')
        \<and> length dst' = length dst \<and> drop m dst' = drop m dst \<and> terminated (take m dst')
        \<and> cstr_of dst' = take (m - 1) (cstr_of dst @ cstr_of src)
    else safe_strcat (Some dst) m (Some src) = Some (0, Some dst)"
proof (cases "terminated (take m dst)")
  case False
  with assms not_terminated_cstr_of [OF False] show ?thesis
    by (simp add: safe_strcat_def safe_strcat_len_eq)
next
  case True
  let ?l = "length (cstr_of (take m dst))"
  let ?c = "cstr_of dst"
  have c: "cstr_of (take m dst) = ?c"
    using True cstr_of_append [of "take m dst" "drop m dst"] by (simp add: terminated_def)
  have l: "?l < m" using terminated_less [OF True] by simp
  have pre: "take ?l dst = ?c"
    by (simp add: c)
  obtain t where t: "safe_strcpy (Some (drop ?l dst)) (m - ?l) (Some src) =
        Some (min (m - ?l - 1) (length (cstr_of src)), Some t)"
      "length t = length dst - ?l" "drop (m - ?l) t = drop m dst"
      "terminated (take (m - ?l) t)" "cstr_of t = take (m - ?l - 1) (cstr_of src)"
    using safe_strcpy_spec [of "m - ?l" "drop ?l dst" src] l assms diff_le_mono [OF assms(2), of ?l] by auto
  let ?d = "?c @ t"
  have "safe_strcat (Some dst) m (Some src) =
      Some (?l + min (m - ?l - 1) (length (cstr_of src)), Some ?d)"
    using assms l t(1) pre by (simp add: safe_strcat_def safe_strcat_len_eq c)
  moreover have "cstr_of ?d = take (m - 1) (?c @ cstr_of src)"
    using l by (simp add: cstr_of_append c t(5))
  moreover have "length (cstr_of ?d) = ?l + min (m - ?l - 1) (length (cstr_of src))"
    using l by (simp add: cstr_of_append c t(5) min.commute)
  moreover have "length ?d = length dst" "drop m ?d = drop m dst" "terminated (take m ?d)"
    using l t(2-4) assms(2) by (simp_all add: c terminated_append)
  ultimately show ?thesis using True by (metis (no_types, lifting))
qed

theorem safe_strcat_contract_witness:
  "\<exists>d. safe_strcat (Some (''ab'' @ [NUL, NUL, NUL])) 5 (Some (''xyz'' @ [NUL])) = Some (4, Some d) \<and>
       cstr_of d = ''abxy''"
  using safe_strcat_contract [of 5 "''ab'' @ [NUL, NUL, NUL]" "''xyz'' @ [NUL]"] by auto

text \<open>
  The content-level view used by the components above: what a buffer of \<open>size\<close> bytes holds
  after the call.
\<close>

definition scpy :: "nat \<Rightarrow> string \<Rightarrow> string" where
  "scpy sz s = take (sz - 1) (cstr_of s)"

definition scat :: "nat \<Rightarrow> string \<Rightarrow> string \<Rightarrow> string" where
  "scat sz d s = take (sz - 1) (cstr_of d @ cstr_of s)"

lemma length_scpy: "0 < sz \<Longrightarrow> length (scpy sz s) < sz"
  by (cases sz) (auto simp: scpy_def min_def)

lemma length_scat: "0 < sz \<Longrightarrow> length (scat sz d s) < sz"
  by (cases sz) (auto simp: scat_def min_def)

end
