(* ===== verification/Printf.thy ===== *)
theory Printf
  imports SafeString
begin

text \<open>
  The formatter of \<^verbatim>\<open>src/string.c\<close> (\<^verbatim>\<open>vsnprintf\<close>, \<^verbatim>\<open>snprintf\<close>) and
  \<^verbatim>\<open>safe_snprintf_append\<close> of \<^verbatim>\<open>src/safestring.c\<close>.

  A format string and a \<^verbatim>\<open>%s\<close> argument are given by their content (the end of the list is
  the terminator). The variadic arguments are a list of tagged values; fetching an argument that
  is absent or of another type is undefined behaviour, hence \<^term>\<open>None\<close>. The output state is
  the destination array and the running offset, which keeps counting past the end of the array.

  \<open>render\<close> is the specification: the text a format denotes, with no array and no truncation.
\<close>

section \<open>The code\<close>

datatype va =
    VInt u32          \<comment> \<open>any argument of size int\<close>
  | VStr string       \<comment> \<open>char pointer to this content\<close>
  | VNull             \<comment> \<open>null char pointer\<close>
  | VPtr u32          \<comment> \<open>void pointer with this address\<close>
  | VLong u64         \<comment> \<open>long long\<close>

type_synonym out_state = "string \<times> nat"

definition append_char :: "nat \<Rightarrow> out_state \<Rightarrow> char \<Rightarrow> out_state option" where
  "append_char sz st c =
     (let (dst, off) = st in
      if off + 1 < sz then do { dst \<leftarrow> wr dst off c; Some (dst, Suc off) }
      else Some (dst, Suc off))"

fun append_str :: "nat \<Rightarrow> out_state \<Rightarrow> string \<Rightarrow> out_state option" where
  "append_str sz st [] = Some st"
| "append_str sz st (c # s) = do { st \<leftarrow> append_char sz st c; append_str sz st s }"

definition digit_char :: "bool \<Rightarrow> nat \<Rightarrow> char" where
  "digit_char is_upper d =
     (if is_upper then ''0123456789ABCDEF'' else ''0123456789abcdef'') ! d"

text \<open>The digit buffer of \<^verbatim>\<open>append_uint\<close>, least significant digit first; \<open>k\<close> slots are left.\<close>

fun uint_digits :: "nat \<Rightarrow> nat \<Rightarrow> nat \<Rightarrow> bool \<Rightarrow> string" where
  "uint_digits 0 v base is_upper = []"
| "uint_digits (Suc k) v base is_upper =
     (if v = 0 then []
      else digit_char is_upper (v mod base) # uint_digits k (v div base) base is_upper)"

definition uint_text :: "nat \<Rightarrow> nat \<Rightarrow> bool \<Rightarrow> string" where
  "uint_text v base is_upper = (if v = 0 then ''0'' else rev (uint_digits 32 v base is_upper))"

definition append_uint :: "nat \<Rightarrow> out_state \<Rightarrow> nat \<Rightarrow> nat \<Rightarrow> bool \<Rightarrow> out_state option" where
  "append_uint sz st v base is_upper = append_str sz st (uint_text v base is_upper)"

fun vsn_loop :: "nat \<Rightarrow> string \<Rightarrow> va list \<Rightarrow> out_state \<Rightarrow> out_state option" where
  "vsn_loop sz [] ap st = Some st"
| "vsn_loop sz (f # format) ap st =
     (if f \<noteq> CHR ''%'' then
        do { st \<leftarrow> append_char sz st f; vsn_loop sz format ap st }
      else case format of
        [] \<Rightarrow> None
      | d # format \<Rightarrow>
        if d = CHR ''s'' then
          (case ap of
             VStr s # ap \<Rightarrow> do { st \<leftarrow> append_str sz st s; vsn_loop sz format ap st }
           | VNull # ap \<Rightarrow> do { st \<leftarrow> append_str sz st ''(null)''; vsn_loop sz format ap st }
           | _ \<Rightarrow> None)
        else if d = CHR ''d'' \<or> d = CHR ''i'' then
          (case ap of
             VInt v # ap \<Rightarrow>
               (if sint v < 0 then
                  do { st \<leftarrow> append_char sz st CHR ''-'';
                       st \<leftarrow> append_uint sz st (unat (- v)) 10 False;
                       vsn_loop sz format ap st }
                else do { st \<leftarrow> append_uint sz st (unat v) 10 False; vsn_loop sz format ap st })
           | _ \<Rightarrow> None)
        else if d = CHR ''u'' then
          (case ap of
             VInt v # ap \<Rightarrow>
               do { st \<leftarrow> append_uint sz st (unat v) 10 False; vsn_loop sz format ap st }
           | _ \<Rightarrow> None)
        else if d = CHR ''x'' then
          (case ap of
             VInt v # ap \<Rightarrow>
               do { st \<leftarrow> append_uint sz st (unat v) 16 False; vsn_loop sz format ap st }
           | _ \<Rightarrow> None)
        else if d = CHR ''X'' then
          (case ap of
             VInt v # ap \<Rightarrow>
               do { st \<leftarrow> append_uint sz st (unat v) 16 True; vsn_loop sz format ap st }
           | _ \<Rightarrow> None)
        else if d = CHR ''p'' then
          (case ap of
             VPtr v # ap \<Rightarrow>
               do { st \<leftarrow> append_str sz st ''0x'';
                    st \<leftarrow> append_uint sz st (unat v) 16 False;
                    vsn_loop sz format ap st }
           | _ \<Rightarrow> None)
        else if d = CHR ''z'' \<and> (case format of [] \<Rightarrow> False | u # _ \<Rightarrow> u = CHR ''u'') then
          (case ap of
             VInt v # ap \<Rightarrow>
               do { st \<leftarrow> append_uint sz st (unat v) 10 False; vsn_loop sz (tl format) ap st }
           | _ \<Rightarrow> None)
        else if d = CHR ''%'' then
          do { st \<leftarrow> append_char sz st CHR ''%''; vsn_loop sz format ap st }
        else
          do { st \<leftarrow> append_char sz st CHR ''%'';
               st \<leftarrow> append_char sz st d;
               vsn_loop sz format ap st })"

definition vsnprintf :: "string \<Rightarrow> nat \<Rightarrow> string \<Rightarrow> va list \<Rightarrow> (int \<times> string) option" where
  "vsnprintf str sz format ap =
     do { (str, off) \<leftarrow> vsn_loop sz format ap (str, 0);
          str \<leftarrow> (if sz > 0 then wr str (if off < sz then off else sz - 1) NUL else Some str);
          Some (int off, str) }"

definition snprintf :: "string \<Rightarrow> nat \<Rightarrow> string \<Rightarrow> va list \<Rightarrow> (int \<times> string) option" where
  "snprintf str sz format ap = vsnprintf str sz format ap"

section \<open>The specification\<close>

definition int_text :: "u32 \<Rightarrow> string" where
  "int_text v = (if sint v < 0 then CHR ''-'' # uint_text (unat (- v)) 10 False
                 else uint_text (unat v) 10 False)"

text \<open>The text of one conversion, given its letter; \<^term>\<open>None\<close> for a wrong argument.\<close>

fun conv_text :: "char \<Rightarrow> va \<Rightarrow> string option" where
  "conv_text d (VStr s) = (if d = CHR ''s'' then Some s else None)"
| "conv_text d VNull = (if d = CHR ''s'' then Some ''(null)'' else None)"
| "conv_text d (VInt v) =
     (if d = CHR ''d'' \<or> d = CHR ''i'' then Some (int_text v)
      else if d = CHR ''u'' \<or> d = CHR ''z'' then Some (uint_text (unat v) 10 False)
      else if d = CHR ''x'' then Some (uint_text (unat v) 16 False)
      else if d = CHR ''X'' then Some (uint_text (unat v) 16 True)
      else None)"
| "conv_text d (VPtr v) = (if d = CHR ''p'' then Some (''0x'' @ uint_text (unat v) 16 False) else None)"
| "conv_text d (VLong v) = None"

text \<open>
  A directive is the letter after \<^verbatim>\<open>%\<close>: it takes an argument if it is one of the supported
  conversions, and stands for itself otherwise.
\<close>

fun render :: "string \<Rightarrow> va list \<Rightarrow> string option" where
  "render [] ap = Some []"
| "render (f # format) ap =
     (if f \<noteq> CHR ''%'' then map_option (Cons f) (render format ap)
      else case format of
        [] \<Rightarrow> None
      | d # rest \<Rightarrow>
        if d \<in> set ''sdiuxXp'' \<or> d = CHR ''z'' \<and> take 1 rest = ''u'' then
          (case ap of
             [] \<Rightarrow> None
           | a # ap \<Rightarrow>
             do { t \<leftarrow> conv_text d a;
                  u \<leftarrow> render (if d = CHR ''z'' then drop 1 rest else rest) ap;
                  Some (t @ u) })
        else map_option ((@) (if d = CHR ''%'' then ''%'' else [CHR ''%'', d])) (render rest ap))"

section \<open>The formatter implements the specification\<close>

text \<open>The output state after \<open>out\<close> has been emitted into the array \<open>str\<close> of size \<open>sz\<close>.\<close>

definition emitted :: "nat \<Rightarrow> string \<Rightarrow> string \<Rightarrow> out_state" where
  "emitted sz str out = (overwrite str 0 (take (sz - 1) out), length out)"

lemma append_char_emitted:
  assumes "sz \<le> length str"
  shows "append_char sz (emitted sz str out) c = Some (emitted sz str (out @ [c]))"
proof (cases "length out + 1 < sz")
  case True
  with assms overwrite_snoc [of 0 out str c] show ?thesis
    by (simp add: append_char_def emitted_def carr)
next
  case False
  then show ?thesis by (simp add: append_char_def emitted_def)
qed

lemma append_str_emitted:
  "sz \<le> length str \<Longrightarrow> append_str sz (emitted sz str out) s = Some (emitted sz str (out @ s))"
  by (induction s arbitrary: out) (simp_all add: append_char_emitted)

lemma append_uint_emitted:
  "sz \<le> length str \<Longrightarrow>
   append_uint sz (emitted sz str out) v b up = Some (emitted sz str (out @ uint_text v b up))"
  by (simp add: append_uint_def append_str_emitted)

lemmas vsn_loop_Cons = vsn_loop.simps(2)
lemmas render_Cons = render.simps(2)
declare vsn_loop_Cons [simp del] render_Cons [simp del]

lemmas emits = append_char_emitted append_str_emitted append_uint_emitted

lemma vsn_loop_render:
  assumes "sz \<le> length str"
  shows "vsn_loop sz format ap (emitted sz str out) =
    map_option (\<lambda>t. emitted sz str (out @ t)) (render format ap)"
proof (induction "length format" arbitrary: format ap out rule: less_induct)
  case less
  show ?case
  proof (cases format)
    case (Cons f rest)
    note IH = less.hyps [unfolded Cons]
    show ?thesis
    proof (cases "f = CHR ''%''")
      case False
      with Cons IH [of rest ap "out @ [f]"] assms show ?thesis
        by (simp add: vsn_loop_Cons render_Cons emits option.map_comp comp_def)
    next
      case True
      note pct = this
      show ?thesis
      proof (cases rest)
        case Nil
        with Cons True show ?thesis by (simp add: vsn_loop_Cons render_Cons)
      next
        case (Cons d rest')
        have IH1: "vsn_loop sz rest' ap (emitted sz str out) =
            map_option (\<lambda>t. emitted sz str (out @ t)) (render rest' ap)" for ap out
          using Cons by (intro IH) simp
        have IH2: "vsn_loop sz (tl rest') ap (emitted sz str out) =
            map_option (\<lambda>t. emitted sz str (out @ t)) (render (tl rest') ap)" for ap out
          using Cons by (intro IH) simp
        have zu: "(case rest' of [] \<Rightarrow> False | u # _ \<Rightarrow> u = CHR ''u'') \<longleftrightarrow> take 1 rest' = ''u''"
          by (cases rest') auto
        show ?thesis
          unfolding \<open>format = f # rest\<close> Cons vsn_loop_Cons render_Cons
          using pct assms
          by (cases ap; cases "hd ap")
             (simp_all add: zu emits IH1 IH2 int_text_def option.map_comp comp_def
               map_conv_bind_option drop_Suc)
      qed
    qed
  qed (simp add: emitted_def)
qed

text \<open>The characters emitted are those of the rendered text, cut to the buffer.\<close>

lemma vsnprintf_render:
  assumes "sz \<le> length str"
  shows "vsnprintf str sz format ap =
    map_option (\<lambda>t. (int (length t),
        if sz = 0 then str else overwrite str 0 (take (sz - 1) t @ [NUL]))) (render format ap)"
proof -
  have loop: "vsn_loop sz format ap (str, 0) = map_option (emitted sz str) (render format ap)"
    using vsn_loop_render [OF assms, of format ap "[]"] by (simp add: emitted_def [abs_def])
  have stop: "wr (overwrite str 0 (take (sz - 1) t)) (if length t < sz then length t else sz - 1) NUL
      = Some (overwrite str 0 (take (sz - 1) t @ [NUL]))" if "0 < sz" for t
  proof -
    have "(if length t < sz then length t else sz - 1) = length (take (sz - 1) t)" using that by auto
    with overwrite_snoc [of 0 "take (sz - 1) t" str NUL] that assms show ?thesis
      by (auto simp: wr_def)
  qed
  show ?thesis
    unfolding vsnprintf_def loop
    using stop by (cases "render format ap") (simp_all add: emitted_def)
qed

text \<open>
  \<^bold>\<open>C31.\<close> \<^verbatim>\<open>vsnprintf\<close> never writes outside the \<open>sz\<close> bytes it was given. Its
  result is undefined exactly when the format and the arguments disagree; otherwise it returns
  the length of the whole text (as C99 asks) and the array holds the text cut to \<open>sz - 1\<close>
  characters, terminated, with all bytes behind the terminator unchanged.
\<close>

theorem vsnprintf_correct:
  assumes "sz \<le> length str"
  shows "vsnprintf str sz format ap =
    map_option (\<lambda>t. (int (length t),
        if sz = 0 then str else overwrite str 0 (take (sz - 1) t @ [NUL]))) (render format ap)"
  using assms by (rule vsnprintf_render)

theorem vsnprintf_correct_witness:
  "vsnprintf ''........'' 6 ''n=%d!'' [VInt (- 27)] = Some (6, ''n=-27'' @ [NUL] @ ''..'')"
proof -
  have "render ''n=%d!'' [VInt (- 27)] = Some ''n=-27!''" by code_simp
  then show ?thesis
    using vsnprintf_correct [of 6 "''........''" "''n=%d!''" "[VInt (- 27)]"]
    by (simp add: overwrite_def)
qed

section \<open>Numbers\<close>

text \<open>The value of a digit string, most significant digit first.\<close>

definition dec_value :: "string \<Rightarrow> nat" where
  "dec_value s = foldl (\<lambda>n c. n * 10 + (uchar c - 48)) 0 s"

definition is_dec :: "char \<Rightarrow> bool" where
  "is_dec c \<longleftrightarrow> 48 \<le> uchar c \<and> uchar c \<le> 57"

lemma dec_value_snoc [simp]: "dec_value (s @ [c]) = dec_value s * 10 + (uchar c - 48)"
  by (simp add: dec_value_def)

lemma dec_value_Nil [simp]: "dec_value [] = 0"
  by (simp add: dec_value_def)

lemma digit_char_dec:
  assumes "d < 10" shows "uchar (digit_char up d) = 48 + d"
proof -
  have "d \<in> {0, 1, 2, 3, 4, 5, 6, 7, 8, 9}" using assms by auto
  then show ?thesis by (auto simp: digit_char_def uchar_def)
qed

lemma uint_digits_dec:
  "v < 10 ^ k \<Longrightarrow> dec_value (rev (uint_digits k v 10 up)) = v
     \<and> (\<forall>c \<in> set (uint_digits k v 10 up). is_dec c) \<and> length (uint_digits k v 10 up) \<le> k"
proof (induction k arbitrary: v)
  case (Suc k)
  then have "v div 10 < 10 ^ k" by auto
  from Suc.IH [OF this] show ?case by (auto simp: digit_char_dec is_dec_def)
qed simp

lemma uint_digits_more:
  "v < b ^ k \<Longrightarrow> 1 < b \<Longrightarrow> uint_digits (k + m) v b up = uint_digits k v b up"
proof (induction k arbitrary: v)
  case (Suc k)
  then have "v div b < b ^ k"
    by (metis less_mult_imp_div_less mult.commute power_Suc)
  with Suc show ?case by simp
qed (cases m; simp)

lemma uint_digits_head:
  "v \<noteq> 0 \<Longrightarrow> v < 10 ^ k \<Longrightarrow> last (uint_digits k v 10 up) \<noteq> CHR ''0''"
proof (induction k arbitrary: v)
  case (Suc k)
  show ?case
  proof (cases "v div 10 = 0")
    case True
    then have small: "v < 10" by (simp add: div_eq_0_iff)
    then have "v mod 10 = v" by simp
    moreover have "uchar (digit_char up v) \<noteq> uchar (CHR ''0'')"
      using digit_char_dec [OF small] Suc.prems(1) by (simp add: uchar_def)
    moreover from True have "uint_digits k (v div 10) 10 up = []" by (cases k) auto
    ultimately show ?thesis using Suc.prems by simp
  next
    case False
    have "v div 10 < 10 ^ k" using Suc.prems by auto
    from Suc.IH [OF False this] False Suc.prems show ?thesis
      by (cases k) auto
  qed
qed simp

text \<open>The decimal text, as the lemmas below use it.\<close>

lemma uint_text_spec:
  assumes "v < 2 ^ 32"
  shows "dec_value (uint_text v 10 up) = v \<and> (\<forall>c \<in> set (uint_text v 10 up). is_dec c)
    \<and> length (uint_text v 10 up) \<in> {1..10}
    \<and> (hd (uint_text v 10 up) = CHR ''0'' \<longrightarrow> v = 0)"
proof (cases "v = 0")
  case True
  then show ?thesis by (simp add: uint_text_def dec_value_def is_dec_def uchar_def)
next
  case False
  have v: "v < 10 ^ 10" using assms by simp
  then have d: "uint_digits 32 v 10 up = uint_digits 10 v 10 up"
    using uint_digits_more [of v 10 10 22 up] by simp
  moreover have ne: "uint_digits (Suc 9) v 10 up \<noteq> []"
    unfolding uint_digits.simps using False by simp
  ultimately show ?thesis
    using False uint_digits_dec [OF v, of up] uint_digits_head [OF False v, of up]
    by (auto simp: uint_text_def hd_rev Suc_le_eq)
qed

text \<open>
  The number conversion of the formatter: the decimal text of a 32-bit value is
  never empty, consists of at most ten digits (so the 32-byte scratch buffer never cuts it),
  has no leading zero, and denotes the value.
\<close>

theorem uint_text_correct:
  assumes "v < 2 ^ 32"
  shows "dec_value (uint_text v 10 up) = v \<and> (\<forall>c \<in> set (uint_text v 10 up). is_dec c)
    \<and> length (uint_text v 10 up) \<in> {1..10}
    \<and> (hd (uint_text v 10 up) = CHR ''0'' \<longrightarrow> v = 0)"
  using assms by (rule uint_text_spec)

theorem uint_text_correct_witness:
  "dec_value (uint_text 4294967295 10 False) = 4294967295 \<and>
   length (uint_text 4294967295 10 False) \<in> {1..10}"
  using uint_text_correct [of 4294967295 False] by simp

text \<open>A 32-bit value as \<^verbatim>\<open>%d\<close> prints it: at most eleven characters.\<close>

lemma length_uint_text_le: "v < 2 ^ 32 \<Longrightarrow> length (uint_text v 10 up) \<le> 10"
  using uint_text_spec [of v up] by simp

lemma unat_u32_bound: "unat (v :: u32) < 2 ^ 32"
  by (rule order_less_le_trans [OF unsigned_less]) simp

lemma length_int_text_le: "length (int_text v) \<le> 11"
  using length_uint_text_le [OF unat_u32_bound, of v False]
    length_uint_text_le [OF unat_u32_bound, of "- v" False]
  by (simp add: int_text_def)

lemma NUL_notin_uint_text: "v < 2 ^ 32 \<Longrightarrow> NUL \<notin> set (uint_text v 10 up)"
  using uint_text_spec [of v up] by (auto simp: is_dec_def uchar_def)

lemma NUL_notin_int_text: "NUL \<notin> set (int_text v)"
  using NUL_notin_uint_text [OF unat_u32_bound, of v False]
    NUL_notin_uint_text [OF unat_u32_bound, of "- v" False]
  by (simp add: int_text_def)

lemma render_int: "render ''%d'' [VInt v] = Some (int_text v)"
  by (simp add: render_Cons)

text \<open>The content of a buffer of \<open>sz > 0\<close> bytes after \<^verbatim>\<open>snprintf\<close>, and the return value.\<close>

definition snprintf_text :: "nat \<Rightarrow> string \<Rightarrow> va list \<Rightarrow> (int \<times> string) option" where
  "snprintf_text sz format ap = map_option (\<lambda>t. (int (length t), take (sz - 1) t)) (render format ap)"

lemma snprintf_text_eq:
  assumes "0 < sz" "sz \<le> length str"
    and "\<And>t. render format ap = Some t \<Longrightarrow> NUL \<notin> set t"
  shows "map_option (\<lambda>(n, b). (n, cstr_of b)) (snprintf str sz format ap) = snprintf_text sz format ap"
proof (cases "render format ap")
  case (Some t)
  with assms(3) have "NUL \<notin> set (take (sz - 1) t)" by (auto dest: in_set_takeD)
  with Some assms(1,2) show ?thesis
    by (simp add: snprintf_def snprintf_text_def vsnprintf_render overwrite_def cstr_of_append)
qed (simp add: snprintf_def snprintf_text_def vsnprintf_render assms(2))

section \<open>Formatted append\<close>

definition safe_snprintf_append ::
  "string option \<Rightarrow> nat \<Rightarrow> nat option \<Rightarrow> string \<Rightarrow> va list
     \<Rightarrow> (int \<times> string option \<times> nat option) option" where
  "safe_snprintf_append dst dst_size offset format ap =
     (case (dst, offset) of
        (Some d, Some off) \<Rightarrow>
          (if dst_size = 0 \<or> dst_size \<le> off then Some (- 1, dst, offset)
           else do {
             (n, tail) \<leftarrow> vsnprintf (drop off d) (dst_size - off) format ap;
             let d = take off d @ tail;
             if n < 0 then Some (n, Some d, offset)
             else if int (dst_size - off) \<le> n then
               do { let off = dst_size - 1;
                    d \<leftarrow> wr d off NUL;
                    Some (int (dst_size - 1 - off), Some d, Some off) }
             else Some (n, Some d, Some (off + nat n)) })
      | _ \<Rightarrow> Some (- 1, dst, offset))"

text \<open>
  \<^verbatim>\<open>safe_snprintf_append\<close> writes the text from the offset on, cut to the
  size of the destination and terminated, and moves the offset to the terminator. On truncation
  its result is 0, whatever was appended, because the offset is updated before the subtraction;
  the header promises the number of bytes appended.
\<close>

theorem safe_snprintf_append_correct:
  assumes "dst_size \<le> length d" "off < dst_size" "render format ap = Some t"
  shows "safe_snprintf_append (Some d) dst_size (Some off) format ap =
    Some (if length t < dst_size - off then int (length t) else 0,
          Some (overwrite d off (take (dst_size - 1 - off) t @ [NUL])),
          Some (min (off + length t) (dst_size - 1)))"
proof -
  let ?m = "dst_size - off"
  let ?u = "take (?m - 1) t"
  have m: "0 < ?m" "?m \<le> length (drop off d)" using assms by auto
  have v: "vsnprintf (drop off d) ?m format ap =
      Some (int (length t), overwrite (drop off d) 0 (?u @ [NUL]))"
    using vsnprintf_render [OF m(2), of format ap] assms(3) m(1) by simp
  have o: "take off d @ overwrite (drop off d) 0 u = overwrite d off u" for u
    using assms by (simp add: overwrite_def add.commute)
  have w: "wr (overwrite d off (?u @ [NUL])) (dst_size - 1) NUL = Some (overwrite d off (?u @ [NUL]))"
    if "?m \<le> length t"
  proof -
    have "length ?u = ?m - 1" using that by simp
    then have "overwrite d off (?u @ [NUL]) ! (dst_size - 1) = NUL"
      using assms Suc_leI [OF assms(2)] by (auto simp: overwrite_def nth_append)
    moreover have "length (overwrite d off (?u @ [NUL])) = length d"
      using assms by (intro length_overwrite) auto
    ultimately show ?thesis using assms by (simp add: wr_def list_update_same_conv)
  qed
  show ?thesis
    using assms w by (auto simp: safe_snprintf_append_def v o Let_def)
qed

theorem safe_snprintf_append_correct_witness:
  "safe_snprintf_append (Some ''ab......'') 6 (Some 2) ''-%s'' [VStr ''wxyz''] =
     Some (0, Some (''ab-wx'' @ [NUL] @ ''..''), Some 5)"
proof -
  have "render ''-%s'' [VStr ''wxyz''] = Some ''-wxyz''" by code_simp
  then show ?thesis
    using safe_snprintf_append_correct [of 6 "''ab......''" 2 "''-%s''" "[VStr ''wxyz'']" "''-wxyz''"]
    by (simp add: overwrite_def)
qed

end
