(* ===== verification/Floats.thy ===== *)
theory Floats
  imports Prelude Complex_Main
begin

text \<open>
  The floating-point arithmetic the program uses: C \<^verbatim>\<open>double\<close> and \<^verbatim>\<open>float\<close> as
  IEEE 754 binary64 and binary32 with round-to-nearest-even. A finite value is an exact rational;
  every operation computes exactly and rounds once. The two zeros are one value (no code of the
  program distinguishes them), and each operation is evaluated in the format of its operands
  (\<^verbatim>\<open>FLT_EVAL_METHOD\<close> 0); the x87 unit may keep more precision in registers.
\<close>

datatype fval = Fin rat | PInf | NInf | NaN

function bit_length :: "int \<Rightarrow> int" where
  "bit_length n = (if n \<le> 0 then 0 else 1 + bit_length (n div 2))"
  by pat_completeness auto
termination by (relation "measure nat") auto

declare bit_length.simps [simp del]

definition pow2 :: "int \<Rightarrow> rat" where
  "pow2 e = (if 0 \<le> e then 2 ^ nat e else 1 / 2 ^ nat (- e))"

text \<open>\<open>ilog2 x\<close> is the integer part of the binary logarithm of \<open>x > 0\<close>.\<close>

definition ilog2 :: "rat \<Rightarrow> int" where
  "ilog2 x =
     (let (a, b) = quotient_of x;
          e = bit_length a - bit_length b
      in if x < pow2 e then e - 1 else e)"

definition round_even :: "rat \<Rightarrow> int" where
  "round_even q =
     (let f = \<lfloor>q\<rfloor>; r = q - of_int f
      in if r < 1 / 2 then f else if r > 1 / 2 then f + 1 else if even f then f else f + 1)"

definition fround :: "nat \<Rightarrow> int \<Rightarrow> int \<Rightarrow> rat \<Rightarrow> fval" where
  "fround p emin emax x =
     (if x = 0 then Fin 0
      else let e = max (ilog2 \<bar>x\<bar> - (int p - 1)) emin;
               y = of_int (round_even (x / pow2 e)) * pow2 e
           in if y = 0 \<or> ilog2 \<bar>y\<bar> < emax then Fin y else if 0 < x then PInf else NInf)"

definition f64 :: "rat \<Rightarrow> fval" where
  "f64 = fround 53 (- 1074) 1024"

definition f32 :: "rat \<Rightarrow> fval" where
  "f32 = fround 24 (- 149) 128"

fun fneg :: "fval \<Rightarrow> fval" where
  "fneg (Fin x) = Fin (- x)"
| "fneg PInf = NInf"
| "fneg NInf = PInf"
| "fneg NaN = NaN"

fun fadd :: "(rat \<Rightarrow> fval) \<Rightarrow> fval \<Rightarrow> fval \<Rightarrow> fval" where
  "fadd r (Fin x) (Fin y) = r (x + y)"
| "fadd r NaN b = NaN"
| "fadd r a NaN = NaN"
| "fadd r PInf NInf = NaN"
| "fadd r NInf PInf = NaN"
| "fadd r PInf b = PInf"
| "fadd r NInf b = NInf"
| "fadd r a b = b"

text \<open>An infinity with the sign of a non-zero \<open>x\<close>; zero times infinity is not a number.\<close>

definition signed_inf :: "rat \<Rightarrow> fval" where
  "signed_inf x = (if x = 0 then NaN else if 0 < x then PInf else NInf)"

fun fmul :: "(rat \<Rightarrow> fval) \<Rightarrow> fval \<Rightarrow> fval \<Rightarrow> fval" where
  "fmul r (Fin x) (Fin y) = r (x * y)"
| "fmul r NaN b = NaN"
| "fmul r a NaN = NaN"
| "fmul r (Fin x) PInf = signed_inf x"
| "fmul r (Fin x) NInf = signed_inf (- x)"
| "fmul r PInf (Fin y) = signed_inf y"
| "fmul r NInf (Fin y) = signed_inf (- y)"
| "fmul r PInf b = b"
| "fmul r NInf b = fneg b"

text \<open>The divisors of the program are positive (powers of ten, or their overflow).\<close>

fun fdiv :: "(rat \<Rightarrow> fval) \<Rightarrow> fval \<Rightarrow> fval \<Rightarrow> fval" where
  "fdiv r (Fin x) (Fin y) = (if y = 0 then signed_inf x else r (x / y))"
| "fdiv r NaN b = NaN"
| "fdiv r a NaN = NaN"
| "fdiv r (Fin x) b = Fin 0"
| "fdiv r PInf (Fin y) = (if y < 0 then NInf else PInf)"
| "fdiv r NInf (Fin y) = (if y < 0 then PInf else NInf)"
| "fdiv r a b = NaN"

text \<open>
  Conversion to \<^verbatim>\<open>int\<close>: truncation towards zero. Out of range is undefined in C; the x86
  conversion instructions then deliver the integer indefinite value, the least \<^verbatim>\<open>int\<close>.
\<close>

definition int_min :: int where
  "int_min = - (2 ^ 31)"

definition int_max :: int where
  "int_max = 2 ^ 31 - 1"

definition trunc_rat :: "rat \<Rightarrow> int" where
  "trunc_rat x = (if 0 \<le> x then \<lfloor>x\<rfloor> else - \<lfloor>- x\<rfloor>)"

fun f_to_int :: "fval \<Rightarrow> int" where
  "f_to_int (Fin x) = (let t = trunc_rat x in if int_min \<le> t \<and> t \<le> int_max then t else int_min)"
| "f_to_int _ = int_min"

text \<open>Conversion of a \<^verbatim>\<open>double\<close> to \<^verbatim>\<open>float\<close>.\<close>

fun f_to_f32 :: "fval \<Rightarrow> fval" where
  "f_to_f32 (Fin x) = f32 x"
| "f_to_f32 v = v"

section \<open>Integers are exact\<close>

lemma f_to_int_range: "int_min \<le> f_to_int v \<and> f_to_int v \<le> int_max"
  by (cases v) (simp_all add: Let_def int_min_def int_max_def)

lemma bit_length_bound: "n < 2 ^ k \<Longrightarrow> bit_length n \<le> int k"
proof (induction k arbitrary: n)
  case 0
  then show ?case by (simp add: bit_length.simps)
next
  case (Suc k)
  then have "n div 2 < 2 ^ k" by auto
  from Suc.IH [OF this] show ?case by (subst bit_length.simps) simp
qed

lemma round_even_of_int [simp]: "round_even (of_int n) = n"
  by (simp add: round_even_def)

lemma quotient_of_of_int [simp]: "quotient_of (of_int n) = (n, 1)"
  by (simp add: of_int_rat quotient_of_Fract normalize_def Let_def)

lemma ilog2_of_int:
  assumes "0 < n" "n < 2 ^ k"
  shows "ilog2 (of_int n) \<le> int k - 1"
proof -
  have "bit_length n \<le> int k" using assms by (intro bit_length_bound) simp
  moreover have "bit_length 1 = 1" by (simp add: bit_length.simps)
  ultimately show ?thesis by (simp add: ilog2_def Let_def)
qed

lemma fround_of_int:
  assumes n: "\<bar>n\<bar> < 2 ^ p" and p: "int p \<le> emax" "emin \<le> 0"
  shows "fround p emin emax (of_int n) = Fin (of_int n)"
proof (cases "n = 0")
  case False
  let ?e = "max (ilog2 \<bar>of_int n\<bar> - (int p - 1)) emin"
  have "ilog2 (of_int \<bar>n\<bar>) \<le> int p - 1" using n False by (intro ilog2_of_int) auto
  then have e: "?e \<le> 0" using p(2) by simp
  then have q: "of_int n / pow2 ?e = of_int (n * 2 ^ nat (- ?e))" and u: "pow2 ?e = 1 / 2 ^ nat (- ?e)"
    by (auto simp: pow2_def)
  have y: "of_int (round_even (of_int n / pow2 ?e)) * pow2 ?e = (of_int n :: rat)"
    unfolding q round_even_of_int unfolding u by simp
  have "ilog2 (of_int \<bar>n\<bar>) < emax"
    using ilog2_of_int [of "\<bar>n\<bar>" p] n False p(1) by simp
  with False y show ?thesis by (simp add: fround_def Let_def)
qed (simp add: fround_def)

lemma f64_of_int: "\<bar>n\<bar> < 2 ^ 53 \<Longrightarrow> f64 (of_int n) = Fin (of_int n)"
  by (simp add: f64_def fround_of_int)

lemma f64_of_nat: "n < 2 ^ 53 \<Longrightarrow> f64 (of_nat n) = Fin (of_nat n)"
  using f64_of_int [of "int n"] by simp

lemma f_to_int_of_int: "int_min \<le> n \<Longrightarrow> n \<le> int_max \<Longrightarrow> f_to_int (Fin (of_int n)) = n"
  by (simp add: trunc_rat_def Let_def flip: of_int_minus)

end
