(* ===== verification/JsonWriter.thy ===== *)
theory JsonWriter
  imports Printf Floats
begin

text \<open>
  The JSON writer of \<^verbatim>\<open>src/json.c\<close>.

  The writer state holds what has been written so far: \<open>w_out\<close> is the content of the first
  \<^verbatim>\<open>offset\<close> bytes of the buffer (so \<^verbatim>\<open>offset\<close> is its length), and the byte after it
  is the terminator. Every operation returns the C result (0 or -1) and the new state; a failing
  operation keeps what it had already written, as the code does.

  \<open>jval\<close> is the specification: a JSON value and its text. The predicate \<open>writes\<close> says
  what an operation appends when it fits; it composes, so that a whole response is characterised by
  the document it denotes.
\<close>

named_theorems jsafe \<comment> \<open>operations that stay inside the buffer\<close>
named_theorems jwrites \<comment> \<open>what an operation writes when it fits\<close>

section \<open>The code\<close>

record json_writer =
  w_out :: string
  w_size :: nat
  w_needs_comma :: bool
  w_depth :: int

type_synonym jop = "json_writer \<Rightarrow> int \<times> json_writer"

definition json_writer_init :: "nat \<Rightarrow> json_writer" where
  "json_writer_init sz = \<lparr>w_out = [], w_size = sz, w_needs_comma = False, w_depth = 0\<rparr>"

text \<open>\<^verbatim>\<open>if (f(w) != 0) return -1; ...\<close>, and the statement \<^verbatim>\<open>f(w);\<close> that drops the result.\<close>

definition andthen :: "jop \<Rightarrow> jop \<Rightarrow> jop" where
  "andthen f g w = (let (r, w) = f w in if r \<noteq> 0 then (- 1, w) else g w)"

definition ignoring :: "jop \<Rightarrow> jop \<Rightarrow> jop" where
  "ignoring f g w = (let (r, w) = f w in g w)"

definition update_w :: "(json_writer \<Rightarrow> json_writer) \<Rightarrow> jop" where
  "update_w u w = (0, u w)"

definition write_raw :: "string \<Rightarrow> jop" where
  "write_raw str w =
     (if w_size w \<le> length (w_out w) + length str then (- 1, w)
      else (0, w\<lparr>w_out := w_out w @ str\<rparr>))"

definition maybe_comma :: jop where
  "maybe_comma w = (if w_needs_comma w then andthen (write_raw '','') (Pair 0) w else (0, w))"

definition json_write_object_start :: jop where
  "json_write_object_start =
     andthen maybe_comma (andthen (write_raw ''{'')
       (update_w (\<lambda>w. w\<lparr>w_needs_comma := False, w_depth := w_depth w + 1\<rparr>)))"

definition json_write_object_end :: jop where
  "json_write_object_end =
     andthen (write_raw ''}'') (update_w (\<lambda>w. w\<lparr>w_needs_comma := True, w_depth := w_depth w - 1\<rparr>))"

definition json_write_array_start :: jop where
  "json_write_array_start =
     andthen maybe_comma (andthen (write_raw ''['')
       (update_w (\<lambda>w. w\<lparr>w_needs_comma := False, w_depth := w_depth w + 1\<rparr>)))"

definition json_write_array_end :: jop where
  "json_write_array_end =
     andthen (write_raw '']'') (update_w (\<lambda>w. w\<lparr>w_needs_comma := True, w_depth := w_depth w - 1\<rparr>))"

definition json_write_key :: "string \<Rightarrow> jop" where
  "json_write_key key =
     andthen maybe_comma (andthen (write_raw [QUOTE]) (andthen (write_raw key)
       (andthen (write_raw [QUOTE, CHR '':'']) (update_w (\<lambda>w. w\<lparr>w_needs_comma := False\<rparr>)))))"

text \<open>The switch of \<^verbatim>\<open>json_write_string\<close>; \<^term>\<open>None\<close> is a skipped control character.\<close>

definition escape_char :: "char \<Rightarrow> string option" where
  "escape_char c =
     (if c = QUOTE then Some [BACKSLASH, QUOTE]
      else if c = BACKSLASH then Some [BACKSLASH, BACKSLASH]
      else if c = CHR 0x08 then Some [BACKSLASH, CHR ''b'']
      else if c = CHR 0x0C then Some [BACKSLASH, CHR ''f'']
      else if c = LF then Some [BACKSLASH, CHR ''n'']
      else if c = CR then Some [BACKSLASH, CHR ''r'']
      else if c = CHR 0x09 then Some [BACKSLASH, CHR ''t'']
      else if uchar c < 32 then None
      else Some [c])"

fun write_escaped :: "string \<Rightarrow> jop" where
  "write_escaped [] w = (0, w)"
| "write_escaped (c # p) w =
     (case escape_char c of
        None \<Rightarrow> write_escaped p w
      | Some escaped \<Rightarrow> andthen (write_raw escaped) (write_escaped p) w)"

definition json_write_string :: "string \<Rightarrow> jop" where
  "json_write_string value =
     andthen maybe_comma (andthen (write_raw [QUOTE]) (andthen (write_escaped (cstr_of value))
       (andthen (write_raw [QUOTE]) (update_w (\<lambda>w. w\<lparr>w_needs_comma := True\<rparr>)))))"

text \<open>A number: formatted into \<^verbatim>\<open>char num[32]\<close> and written raw.\<close>

definition write_num :: "string \<Rightarrow> va list \<Rightarrow> jop" where
  "write_num format ap =
     andthen maybe_comma (\<lambda>w.
       case snprintf_text 32 format ap of
         None \<Rightarrow> (- 1, w)
       | Some (len, num) \<Rightarrow>
           if len < 0 \<or> 32 \<le> len then (- 1, w)
           else andthen (write_raw num) (update_w (\<lambda>w. w\<lparr>w_needs_comma := True\<rparr>)) w)"

definition json_write_int :: "int \<Rightarrow> jop" where
  "json_write_int value = write_num ''%d'' [VInt (word_of_int value)]"

definition json_write_int64 :: "int \<Rightarrow> jop" where
  "json_write_int64 value = write_num ''%lld'' [VLong (word_of_int value)]"

function trim_zeros :: "int \<Rightarrow> int" where
  "trim_zeros fracpart =
     (if fracpart mod 10 = 0 \<and> fracpart > 0 then trim_zeros (fracpart div 10) else fracpart)"
  by pat_completeness auto
termination by (relation "measure nat") auto

declare trim_zeros.simps [simp del]

definition float_fracpart :: "fval \<Rightarrow> int" where
  "float_fracpart value =
     (let diff = fadd f32 value (fneg (f32 (of_int (f_to_int value))));
          fracpart = f_to_int (fmul f32 diff (Fin 1000000))
      in if fracpart < 0 then swrap32 (- fracpart) else fracpart)"

definition json_write_float :: "fval \<Rightarrow> jop" where
  "json_write_float value =
     (let intpart = f_to_int value; fracpart = float_fracpart value
      in if fracpart = 0 then write_num ''%d.0'' [VInt (word_of_int intpart)]
         else write_num ''%d.%d''
                [VInt (word_of_int intpart), VInt (word_of_int (trim_zeros fracpart))])"

definition json_write_bool :: "bool \<Rightarrow> jop" where
  "json_write_bool value =
     andthen maybe_comma (andthen (if value then write_raw ''true'' else write_raw ''false'')
       (update_w (\<lambda>w. w\<lparr>w_needs_comma := True\<rparr>)))"

definition json_write_null :: jop where
  "json_write_null =
     andthen maybe_comma (andthen (write_raw ''null'') (update_w (\<lambda>w. w\<lparr>w_needs_comma := True\<rparr>)))"

definition json_write_kv_string :: "string \<Rightarrow> string \<Rightarrow> jop" where
  "json_write_kv_string key value = andthen (json_write_key key) (json_write_string value)"

definition json_write_kv_int :: "string \<Rightarrow> int \<Rightarrow> jop" where
  "json_write_kv_int key value = andthen (json_write_key key) (json_write_int value)"

definition json_write_kv_int64 :: "string \<Rightarrow> int \<Rightarrow> jop" where
  "json_write_kv_int64 key value = andthen (json_write_key key) (json_write_int64 value)"

definition json_write_kv_float :: "string \<Rightarrow> fval \<Rightarrow> jop" where
  "json_write_kv_float key value = andthen (json_write_key key) (json_write_float value)"

definition json_write_kv_bool :: "string \<Rightarrow> bool \<Rightarrow> jop" where
  "json_write_kv_bool key value = andthen (json_write_key key) (json_write_bool value)"

definition json_write_kv_null :: "string \<Rightarrow> jop" where
  "json_write_kv_null key = andthen (json_write_key key) json_write_null"

fun write_all_int :: "int list \<Rightarrow> jop" where
  "write_all_int [] w = (0, w)"
| "write_all_int (x # xs) w = andthen (json_write_int x) (write_all_int xs) w"

definition json_write_int_array :: "int list \<Rightarrow> jop" where
  "json_write_int_array arr =
     andthen json_write_array_start (andthen (write_all_int arr) json_write_array_end)"

fun write_all_float :: "fval list \<Rightarrow> jop" where
  "write_all_float [] w = (0, w)"
| "write_all_float (x # xs) w = andthen (json_write_float x) (write_all_float xs) w"

definition json_write_float_array :: "fval list \<Rightarrow> jop" where
  "json_write_float_array arr =
     andthen json_write_array_start (andthen (write_all_float arr) json_write_array_end)"

definition json_writer_length :: "json_writer \<Rightarrow> nat" where
  "json_writer_length w = length (w_out w)"

section \<open>Buffer safety\<close>

definition w_ok :: "json_writer \<Rightarrow> bool" where
  "w_ok w \<longleftrightarrow> length (w_out w) < w_size w"

definition safe_op :: "jop \<Rightarrow> bool" where
  "safe_op f \<longleftrightarrow> (\<forall>w. w_ok w \<longrightarrow>
     w_ok (snd (f w)) \<and> w_size (snd (f w)) = w_size w \<and> fst (f w) \<in> {0, - 1} \<and>
     take (length (w_out w)) (w_out (snd (f w))) = w_out w)"

lemma safe_opD:
  assumes "safe_op f" "w_ok w"
  shows "w_ok (snd (f w))" "w_size (snd (f w)) = w_size w" "fst (f w) \<in> {0, - 1}"
    "take (length (w_out w)) (w_out (snd (f w))) = w_out w"
  using assms by (simp_all add: safe_op_def)

lemma take_prefix_trans: "take (length a) b = a \<Longrightarrow> take (length b) c = b \<Longrightarrow> take (length a) c = a"
  by (metis append_take_drop_id length_append length_take min.absorb_iff1 min_def nat_le_linear take_all take_take)

lemma safe_andthen [jsafe]: "safe_op f \<Longrightarrow> safe_op g \<Longrightarrow> safe_op (andthen f g)"
  unfolding safe_op_def andthen_def
  by (auto simp: split_beta Let_def intro: take_prefix_trans)

lemma safe_ignoring [jsafe]: "safe_op f \<Longrightarrow> safe_op g \<Longrightarrow> safe_op (ignoring f g)"
  unfolding safe_op_def ignoring_def
  by (auto simp: split_beta Let_def intro: take_prefix_trans)

lemma safe_write_raw [jsafe]: "safe_op (write_raw s)"
  by (auto simp: safe_op_def write_raw_def w_ok_def)

lemma safe_Pair [jsafe]: "safe_op (Pair 0)"
  by (simp add: safe_op_def)

lemma safe_update [jsafe]:
  "safe_op (update_w (\<lambda>w. w\<lparr>w_needs_comma := b\<rparr>))"
  "safe_op (update_w (\<lambda>w. w\<lparr>w_needs_comma := b, w_depth := d w\<rparr>))"
  by (simp_all add: safe_op_def update_w_def w_ok_def)

lemma safe_maybe_comma [jsafe]: "safe_op maybe_comma"
  using safe_andthen [OF safe_write_raw safe_Pair]
  by (simp add: safe_op_def maybe_comma_def)

lemma safe_write_escaped [jsafe]: "safe_op (write_escaped p)"
proof (induction p)
  case (Cons c p)
  show ?case
  proof (cases "escape_char c")
    case (Some e)
    from safe_andthen [OF safe_write_raw Cons.IH, of e] Some show ?thesis by (simp add: safe_op_def)
  qed (use Cons.IH in \<open>simp add: safe_op_def\<close>)
qed (simp add: safe_op_def)

lemma safe_write_num [jsafe]: "safe_op (write_num format ap)"
  unfolding write_num_def
proof (rule safe_andthen [OF safe_maybe_comma])
  show "safe_op (\<lambda>w. case snprintf_text 32 format ap of None \<Rightarrow> (- 1, w)
      | Some (len, num) \<Rightarrow> if len < 0 \<or> 32 \<le> len then (- 1, w)
          else andthen (write_raw num) (update_w (\<lambda>w. w\<lparr>w_needs_comma := True\<rparr>)) w)"
    using safe_andthen [OF safe_write_raw safe_update(1)]
    by (auto simp: safe_op_def split: option.splits)
qed

lemma safe_float [jsafe]: "safe_op (json_write_float v)"
  by (simp add: json_write_float_def Let_def jsafe)

lemmas json_ops_defs =
  json_write_object_start_def json_write_object_end_def json_write_array_start_def
  json_write_array_end_def json_write_key_def json_write_string_def json_write_int_def
  json_write_int64_def json_write_bool_def json_write_null_def json_write_kv_string_def
  json_write_kv_int_def json_write_kv_int64_def json_write_kv_float_def json_write_kv_bool_def
  json_write_kv_null_def

lemma safe_ops [jsafe]:
  "safe_op json_write_object_start" "safe_op json_write_object_end"
  "safe_op json_write_array_start" "safe_op json_write_array_end"
  "safe_op (json_write_key key)" "safe_op (json_write_string s)"
  "safe_op (json_write_int i)" "safe_op (json_write_int64 i)"
  "safe_op (json_write_bool b)" "safe_op json_write_null"
  "safe_op (json_write_kv_string key s)" "safe_op (json_write_kv_int key i)"
  "safe_op (json_write_kv_int64 key i)" "safe_op (json_write_kv_float key v)"
  "safe_op (json_write_kv_bool key b)" "safe_op (json_write_kv_null key)"
  by (auto simp: json_ops_defs intro!: jsafe)

lemma safe_write_all_int [jsafe]: "safe_op (write_all_int xs)"
proof (induction xs)
  case (Cons x xs)
  from safe_andthen [OF safe_ops(7) Cons.IH, of x] show ?case by (simp add: safe_op_def)
qed (simp add: safe_op_def)

lemma safe_write_all_float [jsafe]: "safe_op (write_all_float xs)"
proof (induction xs)
  case (Cons x xs)
  from safe_andthen [OF safe_float Cons.IH, of x] show ?case by (simp add: safe_op_def)
qed (simp add: safe_op_def)

lemma safe_arrays [jsafe]:
  "safe_op (json_write_int_array xs)" "safe_op (json_write_float_array ys)"
  by (simp_all add: json_write_int_array_def json_write_float_array_def jsafe)

section \<open>What is written\<close>

text \<open>
  \<open>writes c f t nc d\<close>: when it fits, \<open>f\<close> succeeds and appends \<open>t\<close>, after a comma
  if \<open>c\<close> and one is due; it leaves the comma flag \<open>nc\<close> and moves the depth by \<open>d\<close>.
\<close>

definition sep_if :: "bool \<Rightarrow> string" where
  "sep_if b = (if b then '','' else [])"

definition writes :: "bool \<Rightarrow> jop \<Rightarrow> string \<Rightarrow> bool \<Rightarrow> int \<Rightarrow> bool" where
  "writes c f t nc d \<longleftrightarrow> (\<forall>w. let s = sep_if (c \<and> w_needs_comma w) @ t in
     length (w_out w) + length s < w_size w \<longrightarrow>
     f w = (0, w\<lparr>w_out := w_out w @ s, w_needs_comma := nc, w_depth := w_depth w + d\<rparr>))"

lemma writesD:
  "writes c f t nc d \<Longrightarrow> length (w_out w) + length (sep_if (c \<and> w_needs_comma w) @ t) < w_size w \<Longrightarrow>
   f w = (0, w\<lparr>w_out := w_out w @ sep_if (c \<and> w_needs_comma w) @ t, w_needs_comma := nc,
               w_depth := w_depth w + d\<rparr>)"
  by (simp add: writes_def Let_def)

lemma writes_andthen [jwrites]:
  assumes "writes c f t nc d" "writes c' g t' nc' d'"
  shows "writes c (andthen f g) (t @ sep_if (c' \<and> nc) @ t') nc' (d + d')"
  using writesD [OF assms(1)] writesD [OF assms(2)]
  by (auto simp: writes_def andthen_def Let_def add.assoc)

lemma writes_ignoring [jwrites]:
  assumes "writes c f t nc d" "writes c' g t' nc' d'"
  shows "writes c (ignoring f g) (t @ sep_if (c' \<and> nc) @ t') nc' (d + d')"
  using writesD [OF assms(1)] writesD [OF assms(2)]
  by (auto simp: writes_def ignoring_def Let_def add.assoc)

lemmas op_steps = andthen_def write_raw_def maybe_comma_def update_w_def writes_def sep_if_def Let_def

definition escape_str :: "string \<Rightarrow> string" where
  "escape_str s = concat (map (\<lambda>c. case escape_char c of None \<Rightarrow> [] | Some e \<Rightarrow> e) s)"

lemma escape_str_simps [simp]:
  "escape_str [] = []"
  "escape_str (c # s) = (case escape_char c of None \<Rightarrow> escape_str s | Some e \<Rightarrow> e @ escape_str s)"
  by (simp_all add: escape_str_def split: option.splits)

lemma write_escaped_eq:
  "length (w_out w) + length (escape_str p) < w_size w \<Longrightarrow>
   write_escaped p w = (0, w\<lparr>w_out := w_out w @ escape_str p\<rparr>)"
proof (induction p arbitrary: w)
  case (Cons c p)
  then show ?case
    by (cases "escape_char c") (simp_all add: andthen_def write_raw_def)
qed simp

lemma length_escape_char: "escape_char c = Some e \<Longrightarrow> length e \<le> 2"
  by (auto simp: escape_char_def split: if_splits)

lemma length_escape_str: "length (escape_str s) \<le> 2 * length s"
proof (induction s)
  case (Cons c s)
  then show ?case
    using length_escape_char [of c] by (cases "escape_char c") fastforce+
qed simp

text \<open>The document specification.\<close>

datatype jval =
    JStr string | JInt int | JNull | JBool bool
  | JRaw string  \<comment> \<open>text written by a numeric formatter\<close>
  | JArr "jval list" | JObj "(string \<times> jval) list"

definition quoted :: "string \<Rightarrow> string" where
  "quoted s = QUOTE # s @ [QUOTE]"

fun join_comma :: "string list \<Rightarrow> string" where
  "join_comma [] = []"
| "join_comma (t # ts) = t @ concat (map (\<lambda>u. CHR '','' # u) ts)"

fun ser :: "jval \<Rightarrow> string" where
  "ser (JStr s) = quoted (escape_str (cstr_of s))"
| "ser (JInt i) = int_text (word_of_int i)"
| "ser JNull = ''null''"
| "ser (JBool b) = (if b then ''true'' else ''false'')"
| "ser (JRaw t) = t"
| "ser (JArr vs) = ''['' @ join_comma (map ser vs) @ '']''"
| "ser (JObj kvs) = ''{'' @ join_comma (map (\<lambda>(k, v). quoted k @ '':'' @ ser v) kvs) @ ''}''"

definition float_text :: "fval \<Rightarrow> string" where
  "float_text v =
     (let i = int_text (word_of_int (f_to_int v)); f = float_fracpart v
      in i @ ''.'' @ (if f = 0 then ''0'' else int_text (word_of_int (trim_zeros f))))"

lemma writes_structure [jwrites]:
  "writes True json_write_object_start ''{'' False 1"
  "writes False json_write_object_end ''}'' True (- 1)"
  "writes True json_write_array_start ''['' False 1"
  "writes False json_write_array_end '']'' True (- 1)"
  "writes True (json_write_key key) (quoted key @ '':'') False 0"
  by (simp_all add: json_ops_defs op_steps quoted_def)

lemma writes_num:
  assumes "render format ap = Some t" "length t < 32"
  shows "writes True (write_num format ap) t True 0"
  using assms by (simp add: write_num_def snprintf_text_def op_steps)

lemma render_d_dot: "render ''%d.0'' [VInt i] = Some (int_text i @ ''.0'')"
  "render ''%d.%d'' [VInt i, VInt j] = Some (int_text i @ ''.'' @ int_text j)"
  by (simp_all add: render_Cons)

lemma render_lld: "render ''%lld'' [VLong v] = Some ''%lld''"
  by (simp add: render_Cons)

lemma writes_scalars [jwrites]:
  "writes True (json_write_string s) (ser (JStr s)) True 0"
  "writes True (json_write_int i) (ser (JInt i)) True 0"
  "writes True (json_write_int64 k) (ser (JRaw ''%lld'')) True 0"
  "writes True (json_write_bool b) (ser (JBool b)) True 0"
  "writes True json_write_null (ser JNull) True 0"
  "writes True (json_write_float v) (ser (JRaw (float_text v))) True 0"
proof -
  show "writes True (json_write_string s) (ser (JStr s)) True 0"
    by (simp add: json_write_string_def op_steps quoted_def write_escaped_eq)
  show "writes True (json_write_int i) (ser (JInt i)) True 0"
    using length_int_text_le [of "word_of_int i"]
    by (simp add: json_write_int_def writes_num [OF render_int])
  show "writes True (json_write_int64 k) (ser (JRaw ''%lld'')) True 0"
    by (simp add: json_write_int64_def writes_num [OF render_lld])
  show "writes True (json_write_bool b) (ser (JBool b)) True 0"
    by (simp add: json_write_bool_def op_steps)
  show "writes True json_write_null (ser JNull) True 0"
    by (simp add: json_write_null_def op_steps)
  have "length (int_text i @ ''.'' @ int_text j) < 32" for i j
    using length_int_text_le [of i] length_int_text_le [of j] by simp
  moreover have "length (int_text i @ ''.0'') < 32" for i
    using length_int_text_le [of i] by simp
  ultimately show "writes True (json_write_float v) (ser (JRaw (float_text v))) True 0"
    by (auto simp: json_write_float_def float_text_def Let_def
        intro!: writes_num [OF render_d_dot(1), simplified] writes_num [OF render_d_dot(2), simplified])
qed

text \<open>A member of an object: the key, then the value.\<close>

definition member_text :: "string \<Rightarrow> jval \<Rightarrow> string" where
  "member_text k v = quoted k @ '':'' @ ser v"

lemma writes_kv [jwrites]:
  "writes True (json_write_kv_string key s) (member_text key (JStr s)) True 0"
  "writes True (json_write_kv_int key i) (member_text key (JInt i)) True 0"
  "writes True (json_write_kv_int64 key k) (member_text key (JRaw ''%lld'')) True 0"
  "writes True (json_write_kv_bool key b) (member_text key (JBool b)) True 0"
  "writes True (json_write_kv_null key) (member_text key JNull) True 0"
  "writes True (json_write_kv_float key v) (member_text key (JRaw (float_text v))) True 0"
  using writes_scalars [THEN writes_andthen [OF writes_structure(5) [of key]]]
  by (simp_all add: json_write_kv_string_def json_write_kv_int_def json_write_kv_int64_def
      json_write_kv_bool_def json_write_kv_null_def json_write_kv_float_def member_text_def sep_if_def)

text \<open>A sequence of values or members, with a comma before each but (if none is due) the first.\<close>

definition items :: "bool \<Rightarrow> string list \<Rightarrow> string" where
  "items nc ts = (if nc then concat (map (\<lambda>u. CHR '','' # u) ts) else join_comma ts)"

lemma items_simps [simp]:
  "items nc [] = []"
  "items nc (t # ts) = sep_if nc @ t @ items True ts"
  by (simp_all add: items_def sep_if_def)

lemma join_comma_items: "join_comma ts = items False ts"
  by (simp add: items_def)

lemma writes_int_array [jwrites]:
  "writes True (json_write_int_array xs) (ser (JArr (map JInt xs))) True 0"
proof -
  have all: "write_all_int xs w = (0, w\<lparr>w_out := w_out w @ items (w_needs_comma w) (map (ser \<circ> JInt) xs),
        w_needs_comma := w_needs_comma w \<or> xs \<noteq> []\<rparr>)"
    if "length (w_out w) + length (items (w_needs_comma w) (map (ser \<circ> JInt) xs)) < w_size w" for w
    using that
  proof (induction xs arbitrary: w)
    case (Cons x xs)
    from Cons.prems writesD [OF writes_scalars(2), of w x] show ?case
      by (simp add: andthen_def Cons.IH add.assoc)
  qed simp
  show ?thesis
    using writesD [OF writes_structure(3)] writesD [OF writes_structure(4)]
    by (simp add: json_write_int_array_def writes_def andthen_def Let_def all join_comma_items
        sep_if_def o_def add.assoc)
qed

lemma writes_float_array [jwrites]:
  "writes True (json_write_float_array xs) (ser (JArr (map (JRaw \<circ> float_text) xs))) True 0"
proof -
  have all: "write_all_float xs w = (0, w\<lparr>w_out := w_out w @ items (w_needs_comma w) (map float_text xs),
        w_needs_comma := w_needs_comma w \<or> xs \<noteq> []\<rparr>)"
    if "length (w_out w) + length (items (w_needs_comma w) (map float_text xs)) < w_size w" for w
    using that
  proof (induction xs arbitrary: w)
    case (Cons x xs)
    from Cons.prems writesD [OF writes_scalars(6), of w x] show ?case
      by (simp add: andthen_def Cons.IH add.assoc)
  qed simp
  show ?thesis
    using writesD [OF writes_structure(3)] writesD [OF writes_structure(4)]
    by (simp add: json_write_float_array_def writes_def andthen_def Let_def all join_comma_items
        sep_if_def o_def add.assoc)
qed

section \<open>Sequences of calls\<close>

text \<open>The public operations as calls, and a client that issues them and ignores their results.\<close>

datatype wcall =
    CObjStart | CObjEnd | CArrStart | CArrEnd | CKey string
  | CStr string | CInt int | CInt64 int | CFloat fval | CBool bool | CNull
  | CIntArray "int list" | CFloatArray "fval list"

fun exec_call :: "wcall \<Rightarrow> jop" where
  "exec_call CObjStart = json_write_object_start"
| "exec_call CObjEnd = json_write_object_end"
| "exec_call CArrStart = json_write_array_start"
| "exec_call CArrEnd = json_write_array_end"
| "exec_call (CKey k) = json_write_key k"
| "exec_call (CStr s) = json_write_string s"
| "exec_call (CInt i) = json_write_int i"
| "exec_call (CInt64 i) = json_write_int64 i"
| "exec_call (CFloat v) = json_write_float v"
| "exec_call (CBool b) = json_write_bool b"
| "exec_call CNull = json_write_null"
| "exec_call (CIntArray xs) = json_write_int_array xs"
| "exec_call (CFloatArray vs) = json_write_float_array vs"

fun run_calls :: "wcall list \<Rightarrow> json_writer \<Rightarrow> json_writer" where
  "run_calls [] w = w"
| "run_calls (c # cs) w = run_calls cs (snd (exec_call c w))"

lemma safe_exec_call: "safe_op (exec_call c)"
  by (cases c) (simp_all add: jsafe)

lemma run_calls_safe:
  "w_ok w \<Longrightarrow> w_ok (run_calls cs w) \<and> w_size (run_calls cs w) = w_size w
     \<and> take (length (w_out w)) (w_out (run_calls cs w)) = w_out w"
proof (induction cs arbitrary: w)
  case (Cons c cs)
  note f = safe_opD [OF safe_exec_call Cons.prems, of c]
  show ?case
    using Cons.IH [OF f(1)] f(2) take_prefix_trans [OF f(4)] by simp
qed simp

text \<open>
  \<^bold>\<open>C26.\<close> Whatever sequence of writer operations is issued, in whatever order, balanced or
  not, and however many of them fail: the text never fills the buffer (so the terminator behind it
  is inside too), and text once written is never changed.
\<close>

theorem json_writer_never_overflows:
  assumes "0 < sz"
  shows "json_writer_length (run_calls (cs @ cs') (json_writer_init sz)) < sz
    \<and> take (json_writer_length (run_calls cs (json_writer_init sz)))
        (w_out (run_calls (cs @ cs') (json_writer_init sz)))
      = w_out (run_calls cs (json_writer_init sz))"
proof -
  let ?w = "run_calls cs (json_writer_init sz)"
  have append: "run_calls (as @ bs) w = run_calls bs (run_calls as w)" for as bs w
    by (induction as arbitrary: w) auto
  have "w_ok (json_writer_init sz)" "w_size (json_writer_init sz) = sz"
    using assms by (simp_all add: w_ok_def json_writer_init_def)
  then have "w_ok ?w" "w_size ?w = sz"
    using run_calls_safe [of "json_writer_init sz" cs] by simp_all
  with run_calls_safe [of ?w cs'] show ?thesis
    by (simp add: append w_ok_def json_writer_length_def)
qed

theorem json_writer_never_overflows_witness:
  "json_writer_length (run_calls [CObjStart, CKey ''k'', CStr ''value'', CObjEnd] (json_writer_init 8)) < 8"
  using json_writer_never_overflows [of 8 "[CObjStart, CKey ''k'', CStr ''value'', CObjEnd]" "[]"]
  by simp

text \<open>The calls that write a document, and the documents that are not raw numeric text.\<close>

fun calls :: "jval \<Rightarrow> wcall list" where
  "calls (JStr s) = [CStr s]"
| "calls (JInt i) = [CInt i]"
| "calls JNull = [CNull]"
| "calls (JBool b) = [CBool b]"
| "calls (JRaw t) = []"
| "calls (JArr vs) = CArrStart # concat (map calls vs) @ [CArrEnd]"
| "calls (JObj kvs) = CObjStart # concat (map (\<lambda>(k, v). CKey k # calls v) kvs) @ [CObjEnd]"

fun plain :: "jval \<Rightarrow> bool" where
  "plain (JRaw t) \<longleftrightarrow> False"
| "plain (JArr vs) \<longleftrightarrow> (\<forall>v \<in> set vs. plain v)"
| "plain (JObj kvs) \<longleftrightarrow> (\<forall>(k, v) \<in> set kvs. plain v)"
| "plain v \<longleftrightarrow> True"

text \<open>
  Generalised over the calls that follow: writing a value appends its text, after a comma if one is
  due, and makes one due.
\<close>

abbreviation "grown w t nc \<equiv> w\<lparr>w_out := w_out w @ t, w_needs_comma := nc\<rparr>"

lemma run_calls_scalar:
  assumes "writes True (exec_call c) t True 0"
    and "length (w_out w) + length (sep_if (w_needs_comma w) @ t) < w_size w"
  shows "run_calls (c # cs) w = run_calls cs (grown w (sep_if (w_needs_comma w) @ t) True)"
  using writesD [OF assms(1), of w] assms(2) by simp

lemma run_calls_doc:
  "plain v \<Longrightarrow> length (w_out w) + length (sep_if (w_needs_comma w) @ ser v) < w_size w \<Longrightarrow>
   run_calls (calls v @ cs) w = run_calls cs (grown w (sep_if (w_needs_comma w) @ ser v) True)"
proof (induction v arbitrary: w cs)
  case (JArr vs)
  have all: "run_calls (concat (map calls vs) @ cs) w =
      run_calls cs (grown w (items (w_needs_comma w) (map ser vs)) (w_needs_comma w \<or> vs \<noteq> []))"
    if "length (w_out w) + length (items (w_needs_comma w) (map ser vs)) < w_size w" for w cs
    using JArr.IH JArr.prems(1) that
  proof (induction vs arbitrary: w)
    case (Cons u us)
    from Cons.prems have
      "run_calls (calls u @ concat (map calls us) @ cs) w =
       run_calls (concat (map calls us) @ cs) (grown w (sep_if (w_needs_comma w) @ ser u) True)"
      by (intro Cons.prems(1)) simp_all
    with Cons show ?case by (simp add: add.assoc)
  qed simp
  show ?case
    using JArr.prems(2) writesD [OF writes_structure(3), of w]
      writesD [OF writes_structure(4)]
    by (simp add: all join_comma_items sep_if_def add.assoc)
next
  case (JObj kvs)
  let ?t = "\<lambda>(k, v). quoted k @ '':'' @ ser v"
  have all: "run_calls (concat (map (\<lambda>(k, v). CKey k # calls v) kvs) @ cs) w =
      run_calls cs (grown w (items (w_needs_comma w) (map ?t kvs)) (w_needs_comma w \<or> kvs \<noteq> []))"
    if "length (w_out w) + length (items (w_needs_comma w) (map ?t kvs)) < w_size w" for w cs
    using JObj.IH JObj.prems(1) that
  proof (induction kvs arbitrary: w)
    case (Cons kv us)
    obtain k u where kv: "kv = (k, u)" by (cases kv)
    let ?w = "grown w (sep_if (w_needs_comma w) @ quoted k @ '':'') False"
    have "snd (json_write_key k w) = ?w"
      using Cons.prems writesD [OF writes_structure(5), of w k] kv by simp
    moreover have "run_calls (calls u @ concat (map (\<lambda>(k, v). CKey k # calls v) us) @ cs) ?w =
       run_calls (concat (map (\<lambda>(k, v). CKey k # calls v) us) @ cs) (grown ?w (ser u) True)"
      using Cons.prems kv by (subst Cons.prems(1) [of kv u]) (auto simp: sep_if_def snds.simps)
    moreover have "run_calls (concat (map (\<lambda>(k, v). CKey k # calls v) us) @ cs) (grown ?w (ser u) True)
      = run_calls cs (grown (grown ?w (ser u) True) (items True (map ?t us)) True)"
      using Cons.IH [of "grown ?w (ser u) True"] Cons.prems kv by (force simp: add.assoc)
    ultimately show ?case using kv by (simp add: add.assoc)
  qed simp
  show ?case
    using JObj.prems(2) writesD [OF writes_structure(1), of w]
      writesD [OF writes_structure(2)]
    by (simp add: all join_comma_items sep_if_def add.assoc)
next
  case (JStr s)
  then show ?case
    using run_calls_scalar [of "CStr s" "ser (JStr s)" w cs] writes_scalars(1) by simp
next
  case (JInt i)
  then show ?case
    using run_calls_scalar [of "CInt i" "ser (JInt i)" w cs] writes_scalars(2) by simp
next
  case JNull
  then show ?case
    using run_calls_scalar [of CNull "ser JNull" w cs] writes_scalars(5) by simp
next
  case (JBool b)
  then show ?case
    using run_calls_scalar [of "CBool b" "ser (JBool b)" w cs] writes_scalars(4) by simp
qed simp

text \<open>A whole document on a fresh writer.\<close>

lemma run_calls_depth:
  assumes "plain v" "length (ser v) < sz"
  shows "run_calls (calls v) (json_writer_init sz)
    = \<lparr>w_out = ser v, w_size = sz, w_needs_comma = True, w_depth = 0\<rparr>"
  using run_calls_doc [of v "json_writer_init sz" "[]"] assms
  by (simp add: json_writer_init_def sep_if_def)

text \<open>
  \<^bold>\<open>C25.\<close> The writer implements its document specification: issuing the calls of a
  document (objects, arrays, strings, integers, booleans, null, nested to any depth) on a fresh
  writer with room for it leaves exactly the text of that document, commas, quotes and escapes
  included, and the nesting depth back at 0.
\<close>

theorem json_writer_writes_document:
  assumes "plain v" "length (ser v) < sz"
  shows "run_calls (calls v) (json_writer_init sz)
    = \<lparr>w_out = ser v, w_size = sz, w_needs_comma = True, w_depth = 0\<rparr>"
  using assms by (rule run_calls_depth)

theorem json_writer_writes_document_witness:
  "w_out (run_calls (calls (JObj [(''a'', JArr [JNull, JStr [LF]]), (''b'', JBool True)]))
      (json_writer_init 64)) =
    ''{'' @ [QUOTE] @ ''a'' @ [QUOTE] @ '':[null,'' @ [QUOTE, BACKSLASH, CHR ''n'', QUOTE] @ ''],''
      @ [QUOTE] @ ''b'' @ [QUOTE] @ '':true}''"
proof -
  let ?v = "JObj [(''a'', JArr [JNull, JStr [LF]]), (''b'', JBool True)]"
  have t: "ser ?v = ''{'' @ [QUOTE] @ ''a'' @ [QUOTE] @ '':[null,'' @ [QUOTE, BACKSLASH, CHR ''n'', QUOTE]
      @ ''],'' @ [QUOTE] @ ''b'' @ [QUOTE] @ '':true}''"
    by (simp add: quoted_def escape_char_def)
  show ?thesis using json_writer_writes_document [of ?v 64] unfolding t by simp
qed

section \<open>Defects of the numeric formats\<close>

text \<open>
  The 64-bit integers: the formatter has no \<^verbatim>\<open>%lld\<close>, so whatever the
  value, \<^verbatim>\<open>json_write_int64\<close> writes the four characters of the conversion itself, which
  is no JSON value.
\<close>

theorem json_write_int64_ignores_value:
  assumes "length (w_out w) + 5 < w_size w"
  shows "json_write_int64 k w =
    (0, w\<lparr>w_out := w_out w @ (if w_needs_comma w then '','' else []) @ ''%lld'', w_needs_comma := True\<rparr>)"
  using writesD [OF writes_scalars(3), of w k] assms by (simp add: sep_if_def)

theorem json_write_int64_ignores_value_witness:
  "snd (json_write_int64 1234567890 (json_writer_init 16)) = snd (json_write_int64 7 (json_writer_init 16))"
  using json_write_int64_ignores_value [of "json_writer_init 16" 1234567890]
    json_write_int64_ignores_value [of "json_writer_init 16" 7]
  by (simp add: json_writer_init_def)

end
