(* ===== verification/JsonParser.thy ===== *)
theory JsonParser
  imports JsonWriter
begin

text \<open>
  The JSON tokenizer and reader of \<^verbatim>\<open>src/json.c\<close>.

  The parser state is the C struct: the input array and its length, the position, the current
  token and the last string, number and error text. \<open>p_string\<close> is the first
  \<^verbatim>\<open>string_len\<close> bytes of \<^verbatim>\<open>string_buf\<close>. The tokenizer is total. Skipping a
  value is mutually recursive in the code (the function and its two loops); it is one
  \<^theory_text>\<open>partial_function\<close> here, with a mode that says which of the three is running, so
  that not returning would be \<^term>\<open>None\<close>.
\<close>

named_theorems jlex \<comment> \<open>what the tokenizer keeps and advances\<close>

section \<open>Tokenizer\<close>

datatype json_token =
    JSON_TOK_LBRACE | JSON_TOK_RBRACE | JSON_TOK_LBRACKET | JSON_TOK_RBRACKET
  | JSON_TOK_COLON | JSON_TOK_COMMA | JSON_TOK_STRING | JSON_TOK_NUMBER
  | JSON_TOK_TRUE | JSON_TOK_FALSE | JSON_TOK_NULL | JSON_TOK_EOF | JSON_TOK_ERROR

record json_parser =
  p_input :: string
  p_len :: nat
  p_pos :: nat
  p_current :: json_token
  p_string :: string
  p_number :: fval
  p_error :: string

definition json_parser_init :: "string \<Rightarrow> nat \<Rightarrow> json_parser" where
  "json_parser_init input len =
     \<lparr>p_input = input, p_len = len, p_pos = 0, p_current = JSON_TOK_EOF,
      p_string = [], p_number = Fin 0, p_error = []\<rparr>"

definition is_whitespace :: "char \<Rightarrow> bool" where
  "is_whitespace c \<longleftrightarrow> c = CHR '' '' \<or> c = CHR 0x09 \<or> c = LF \<or> c = CR"

definition is_digit :: "char \<Rightarrow> bool" where
  "is_digit c \<longleftrightarrow> schar (CHR ''0'') \<le> schar c \<and> schar c \<le> schar (CHR ''9'')"

text \<open>\<^verbatim>\<open>while (pos < len && ok(input[pos])) pos++\<close>\<close>

function scan_while :: "(char \<Rightarrow> bool) \<Rightarrow> string \<Rightarrow> nat \<Rightarrow> nat \<Rightarrow> nat" where
  "scan_while ok input len pos =
     (if pos < len \<and> ok (chr_at input pos) then scan_while ok input len (Suc pos) else pos)"
  by pat_completeness auto
termination by (relation "measure (\<lambda>(ok, input, len, pos). len - pos)") auto

declare scan_while.simps [simp del]

definition skip_whitespace :: "json_parser \<Rightarrow> json_parser" where
  "skip_whitespace p = p\<lparr>p_pos := scan_while is_whitespace (p_input p) (p_len p) (p_pos p)\<rparr>"

definition unescape :: "char \<Rightarrow> char" where
  "unescape c =
     (if c = CHR ''b'' then CHR 0x08 else if c = CHR ''f'' then CHR 0x0C
      else if c = CHR ''n'' then LF else if c = CHR ''r'' then CR
      else if c = CHR ''t'' then CHR 0x09 else c)"

text \<open>The loop of \<^verbatim>\<open>parse_string\<close>: the token, the position and the string so far.\<close>

function parse_string_loop ::
  "string \<Rightarrow> nat \<Rightarrow> nat \<Rightarrow> string \<Rightarrow> string \<Rightarrow> json_token \<times> nat \<times> string \<times> string" where
  "parse_string_loop input len pos str err =
     (if pos < len then
        let c = chr_at input pos in
        if c = QUOTE then (JSON_TOK_STRING, Suc pos, str, err)
        else if c = BACKSLASH \<and> pos + 1 < len then
          let pos = Suc pos; c = chr_at input pos in
          if c = CHR ''u'' \<and> len \<le> pos + 4
          then (JSON_TOK_ERROR, pos, str, ''Invalid unicode escape'')
          else let (pos, c) = (if c = CHR ''u'' then (pos + 4, CHR ''?'') else (pos, unescape c))
               in parse_string_loop input len (Suc pos)
                    (if length str < 1023 then str @ [c] else str) err
        else parse_string_loop input len (Suc pos) (if length str < 1023 then str @ [c] else str) err
      else (JSON_TOK_ERROR, pos, str, ''Unterminated string''))"
  by pat_completeness auto
termination
  by (relation "measure (\<lambda>(input, len, pos, str, err). len - pos)") (auto split: if_splits)

declare parse_string_loop.simps [simp del]

definition parse_string :: "json_parser \<Rightarrow> json_token \<times> json_parser" where
  "parse_string p =
     (let (tok, pos, str, err) =
        parse_string_loop (p_input p) (p_len p) (Suc (p_pos p)) [] (p_error p)
      in (tok, p\<lparr>p_pos := pos, p_string := str, p_error := err\<rparr>))"

subsection \<open>Numbers\<close>

definition number_end :: "string \<Rightarrow> nat \<Rightarrow> nat \<Rightarrow> nat" where
  "number_end input len pos =
     (let pos = (if chr_at input pos = CHR ''-'' then Suc pos else pos);
          pos = scan_while is_digit input len pos;
          pos = (if pos < len \<and> chr_at input pos = CHR ''.''
                 then scan_while is_digit input len (Suc pos) else pos)
      in if pos < len \<and> (chr_at input pos = CHR ''e'' \<or> chr_at input pos = CHR ''E'') then
           let pos = Suc pos;
               pos = (if pos < len \<and> (chr_at input pos = CHR ''+'' \<or> chr_at input pos = CHR ''-'')
                      then Suc pos else pos)
           in scan_while is_digit input len pos
         else pos)"

text \<open>The locals of the conversion loop.\<close>

record num_state =
  n_value :: fval
  n_fraction :: fval
  n_divisor :: fval
  n_exponent :: int
  n_exp_negative :: bool
  n_in_decimal :: bool
  n_in_exponent :: bool

definition num_init :: num_state where
  "num_init = \<lparr>n_value = Fin 0, n_fraction = Fin 0, n_divisor = Fin 10, n_exponent = 0,
     n_exp_negative = False, n_in_decimal = False, n_in_exponent = False\<rparr>"

text \<open>One iteration; \<open>first\<close> says that \<^verbatim>\<open>i == start\<close>.\<close>

definition num_step :: "bool \<Rightarrow> char \<Rightarrow> num_state \<Rightarrow> num_state" where
  "num_step first c s =
     (if c = CHR ''-'' \<and> first then s
      else if c = CHR ''.'' then s\<lparr>n_in_decimal := True\<rparr>
      else if c = CHR ''e'' \<or> c = CHR ''E'' then s\<lparr>n_in_exponent := True\<rparr>
      else if c = CHR ''+'' then s
      else if c = CHR ''-'' \<and> n_in_exponent s then s\<lparr>n_exp_negative := True\<rparr>
      else if is_digit c then
        let d = schar c - schar (CHR ''0'') in
        if n_in_exponent s then s\<lparr>n_exponent := swrap32 (n_exponent s * 10 + d)\<rparr>
        else if n_in_decimal s then
          s\<lparr>n_fraction := fadd f64 (n_fraction s) (fdiv f64 (Fin (of_int d)) (n_divisor s)),
            n_divisor := fmul f64 (n_divisor s) (Fin 10)\<rparr>
        else s\<lparr>n_value := fadd f64 (fmul f64 (n_value s) (Fin 10)) (Fin (of_int d))\<rparr>
      else s)"

fun num_loop :: "bool \<Rightarrow> string \<Rightarrow> num_state \<Rightarrow> num_state" where
  "num_loop first [] s = s"
| "num_loop first (c # cs) s = num_loop False cs (num_step first c s)"

definition num_result :: "bool \<Rightarrow> num_state \<Rightarrow> fval" where
  "num_result negative s =
     (let v = fadd f64 (n_value s) (n_fraction s);
          v = (if n_in_exponent s then
                 let e = (if n_exp_negative s then swrap32 (- n_exponent s) else n_exponent s);
                     n = (if 0 < e then e else swrap32 (- e));
                     mult = ((\<lambda>m. fmul f64 m (Fin 10)) ^^ nat n) (Fin 1)
                 in if 0 < e then fmul f64 v mult else fdiv f64 v mult
               else v)
      in if negative then fneg v else v)"

definition parse_number :: "json_parser \<Rightarrow> json_token \<times> json_parser" where
  "parse_number p =
     (let start = p_pos p; stop = number_end (p_input p) (p_len p) start;
          text = map (chr_at (p_input p)) [start ..< stop]
      in (JSON_TOK_NUMBER,
          p\<lparr>p_pos := stop,
            p_number := num_result (chr_at (p_input p) start = CHR ''-'') (num_loop True text num_init)\<rparr>))"

subsection \<open>Tokens\<close>

definition literal_at :: "json_parser \<Rightarrow> string \<Rightarrow> bool" where
  "literal_at p lit \<longleftrightarrow> p_pos p + length lit \<le> p_len p \<and>
     (\<forall>i \<in> {1 ..< length lit}. chr_at (p_input p) (p_pos p + i) = lit ! i)"

definition take_literal :: "json_parser \<Rightarrow> string \<Rightarrow> json_token \<Rightarrow> json_parser" where
  "take_literal p lit tok =
     (if literal_at p lit then p\<lparr>p_pos := p_pos p + length lit, p_current := tok\<rparr>
      else p\<lparr>p_current := JSON_TOK_ERROR, p_error := ''Invalid token''\<rparr>)"

definition take_char :: "json_parser \<Rightarrow> json_token \<Rightarrow> json_parser" where
  "take_char p tok = p\<lparr>p_pos := Suc (p_pos p), p_current := tok\<rparr>"

definition with_token :: "json_token \<times> json_parser \<Rightarrow> json_parser" where
  "with_token tp = (snd tp)\<lparr>p_current := fst tp\<rparr>"

definition json_next_token :: "json_parser \<Rightarrow> json_parser" where
  "json_next_token p =
     (let p = skip_whitespace p in
      if p_len p \<le> p_pos p then p\<lparr>p_current := JSON_TOK_EOF\<rparr>
      else let c = chr_at (p_input p) (p_pos p) in
        if c = CHR ''{'' then take_char p JSON_TOK_LBRACE
        else if c = CHR ''}'' then take_char p JSON_TOK_RBRACE
        else if c = CHR ''['' then take_char p JSON_TOK_LBRACKET
        else if c = CHR '']'' then take_char p JSON_TOK_RBRACKET
        else if c = CHR '':'' then take_char p JSON_TOK_COLON
        else if c = CHR '','' then take_char p JSON_TOK_COMMA
        else if c = QUOTE then with_token (parse_string p)
        else if c = CHR ''t'' then take_literal p ''true'' JSON_TOK_TRUE
        else if c = CHR ''f'' then take_literal p ''false'' JSON_TOK_FALSE
        else if c = CHR ''n'' then take_literal p ''null'' JSON_TOK_NULL
        else if c = CHR ''-'' \<or> is_digit c then with_token (parse_number p)
        else p\<lparr>p_current := JSON_TOK_ERROR,
               p_error := snd (the (snprintf_text 128 ''Unexpected character: %c''
                                 [VInt (word_of_int (schar c))]))\<rparr>)"

definition json_peek_token :: "json_parser \<Rightarrow> json_token" where
  "json_peek_token p = p_current p"

section \<open>Values\<close>

datatype skip_mode = Skip_value | Skip_object | Skip_array

partial_function (option) skip_run :: "skip_mode \<Rightarrow> json_parser \<Rightarrow> (int \<times> json_parser) option" where
  "skip_run m p =
     (case m of
        Skip_value \<Rightarrow>
          (if p_current p = JSON_TOK_LBRACE then skip_run Skip_object (json_next_token p)
           else if p_current p = JSON_TOK_LBRACKET then skip_run Skip_array (json_next_token p)
           else if p_current p \<in> {JSON_TOK_STRING, JSON_TOK_NUMBER, JSON_TOK_TRUE, JSON_TOK_FALSE,
                     JSON_TOK_NULL}
           then Some (0, json_next_token p)
           else Some (- 1, p))
      | Skip_object \<Rightarrow>
          (if p_current p = JSON_TOK_RBRACE then Some (0, json_next_token p)
           else if p_current p = JSON_TOK_EOF then Some (0, p)
           else if p_current p \<noteq> JSON_TOK_STRING then Some (- 1, p)
           else let p = json_next_token p in
             if p_current p \<noteq> JSON_TOK_COLON then Some (- 1, p)
             else Option.bind (skip_run Skip_value (json_next_token p)) (\<lambda>rp.
               if fst rp \<noteq> 0 then Some (- 1, snd rp)
               else skip_run Skip_object
                 (if p_current (snd rp) = JSON_TOK_COMMA then json_next_token (snd rp) else snd rp)))
      | Skip_array \<Rightarrow>
          (if p_current p = JSON_TOK_RBRACKET then Some (0, json_next_token p)
           else if p_current p = JSON_TOK_EOF then Some (0, p)
           else Option.bind (skip_run Skip_value p) (\<lambda>rp.
               if fst rp \<noteq> 0 then Some (- 1, snd rp)
               else skip_run Skip_array
                 (if p_current (snd rp) = JSON_TOK_COMMA then json_next_token (snd rp) else snd rp))))"

definition json_skip_value :: "json_parser \<Rightarrow> (int \<times> json_parser) option" where
  "json_skip_value p = skip_run Skip_value p"

text \<open>
  The typed readers: the result code, the value stored through the pointer (\<^term>\<open>None\<close> when
  nothing is stored), and the parser. The string reader copies into a buffer of \<open>sz\<close> bytes; its
  value is the content of that buffer.
\<close>

definition json_parse_string :: "nat \<Rightarrow> json_parser \<Rightarrow> int \<times> string option \<times> json_parser" where
  "json_parse_string sz p =
     (if p_current p \<noteq> JSON_TOK_STRING then (- 1, None, p)
      else (0, Some (cstr_of (take (sz - 1) (p_string p))), json_next_token p))"

definition json_parse_number :: "json_parser \<Rightarrow> int \<times> fval option \<times> json_parser" where
  "json_parse_number p =
     (if p_current p \<noteq> JSON_TOK_NUMBER then (- 1, None, p)
      else (0, Some (p_number p), json_next_token p))"

definition json_parse_int :: "json_parser \<Rightarrow> int \<times> int option \<times> json_parser" where
  "json_parse_int p =
     (if p_current p \<noteq> JSON_TOK_NUMBER then (- 1, None, p)
      else (0, Some (f_to_int (p_number p)), json_next_token p))"

definition json_parse_bool :: "json_parser \<Rightarrow> int \<times> bool option \<times> json_parser" where
  "json_parse_bool p =
     (if p_current p = JSON_TOK_TRUE then (0, Some True, json_next_token p)
      else if p_current p = JSON_TOK_FALSE then (0, Some False, json_next_token p)
      else (- 1, None, p))"

definition json_expect :: "json_token \<Rightarrow> json_parser \<Rightarrow> int \<times> json_parser" where
  "json_expect expected p = (if p_current p \<noteq> expected then (- 1, p) else (0, json_next_token p))"

section \<open>The tokenizer advances\<close>

lemma scan_while_bounds: "pos \<le> scan_while ok input len pos \<and> scan_while ok input len pos \<le> max pos len"
proof (induction ok input len pos rule: scan_while.induct)
  case (1 ok input len pos)
  then show ?case by (subst (1 2) scan_while.simps) (auto split: if_splits)
qed

lemma scan_while_less:
  "pos < len \<Longrightarrow> ok (chr_at input pos) \<Longrightarrow> pos < scan_while ok input len pos"
  using scan_while_bounds [of "Suc pos" ok input len] by (subst scan_while.simps) auto

lemma parse_string_loop_bounds:
  assumes "parse_string_loop input len pos str err = (tok, pos', str', err')"
  shows "tok \<in> {JSON_TOK_STRING, JSON_TOK_ERROR} \<and> pos \<le> pos' \<and> (tok = JSON_TOK_STRING \<longrightarrow> pos < pos' \<and> pos' \<le> len)
    \<and> (length str \<le> 1023 \<longrightarrow> length str' \<le> 1023)"
  using assms
proof (induction "len - pos" arbitrary: pos str rule: less_induct)
  case less
  note eq = less.prems [unfolded parse_string_loop.simps [of input len pos]]
  let ?c = "chr_at input pos" and ?d = "chr_at input (Suc pos)"
  let ?add = "\<lambda>c. if length str < 1023 then str @ [c] else str"
  have ih: ?case
    if "pos < q" "pos < len" "parse_string_loop input len q (?add c) err = (tok, pos', str', err')" for q c
  proof -
    have "len - q < len - pos" using that by linarith
    from less.hyps [OF this that(3)] that(1) show ?thesis by (auto split: if_splits)
  qed
  consider "len \<le> pos" | "pos < len" "?c = QUOTE"
    | "pos < len" "?c = BACKSLASH" "pos + 1 < len" "?d = CHR ''u''" "len \<le> Suc pos + 4"
    | "pos < len" "?c = BACKSLASH" "pos + 1 < len" "?d = CHR ''u''" "Suc pos + 4 < len"
    | "pos < len" "?c = BACKSLASH" "pos + 1 < len" "?d \<noteq> CHR ''u''"
    | "pos < len" "?c \<noteq> QUOTE" "\<not> (?c = BACKSLASH \<and> pos + 1 < len)"
    by linarith
  then show ?case
  proof cases
    case 4
    with eq show ?thesis by (intro ih [of "Suc (Suc pos + 4)" "CHR ''?''"]) simp_all
  next
    case 5
    with eq show ?thesis by (intro ih [of "Suc (Suc pos)" "unescape ?d"]) simp_all
  next
    case 6
    with eq show ?thesis by (intro ih [of "Suc pos" ?c]) auto
  qed (use eq in auto)
qed

lemma number_end_bounds:
  assumes "pos < len" "chr_at input pos = CHR ''-'' \<or> is_digit (chr_at input pos)"
  shows "pos < number_end input len pos \<and> number_end input len pos \<le> len"
proof -
  let ?p0 = "if chr_at input pos = CHR ''-'' then Suc pos else pos"
  let ?p1 = "scan_while is_digit input len ?p0"
  let ?p2 = "if ?p1 < len \<and> chr_at input ?p1 = CHR ''.'' then scan_while is_digit input len (Suc ?p1) else ?p1"
  have p1: "pos < ?p1" "?p1 \<le> len"
    using assms scan_while_bounds [of ?p0 is_digit input len] scan_while_less [of pos len is_digit input]
    by auto
  have p2: "?p1 \<le> ?p2" "?p2 \<le> len"
    using p1 scan_while_bounds [of "Suc ?p1" is_digit input len] by auto
  have p3: "q \<le> scan_while is_digit input len q \<and> scan_while is_digit input len q \<le> max q len" for q
    by (rule scan_while_bounds)
  define p2 where "p2 = ?p2"
  have "number_end input len pos =
      (if p2 < len \<and> (chr_at input p2 = CHR ''e'' \<or> chr_at input p2 = CHR ''E'')
       then scan_while is_digit input len
         (if Suc p2 < len \<and> (chr_at input (Suc p2) = CHR ''+'' \<or> chr_at input (Suc p2) = CHR ''-'')
          then Suc (Suc p2) else Suc p2)
       else p2)"
    by (simp only: number_end_def Let_def p2_def)
  moreover have "pos < p2" "p2 \<le> len"
    using p1 p2 by (simp_all only: p2_def)
  ultimately show ?thesis
    using p3 [of "Suc p2"] p3 [of "Suc (Suc p2)"] by auto
qed

text \<open>
  What is left to read: nothing at the end of input or after an error, otherwise the current token
  and the unread input.
\<close>

definition stopped :: "json_parser \<Rightarrow> bool" where
  "stopped p \<longleftrightarrow> p_current p = JSON_TOK_EOF \<or> p_current p = JSON_TOK_ERROR"

definition left_of :: "json_parser \<Rightarrow> nat" where
  "left_of p = (if stopped p then 0 else Suc (p_len p - p_pos p))"

lemma skip_whitespace_simps [simp]:
  "p_input (skip_whitespace p) = p_input p" "p_len (skip_whitespace p) = p_len p"
  "p_current (skip_whitespace p) = p_current p" "p_string (skip_whitespace p) = p_string p"
  "p_number (skip_whitespace p) = p_number p" "p_error (skip_whitespace p) = p_error p"
  by (simp_all add: skip_whitespace_def)

lemma parse_string_bounds:
  assumes "p_pos p < p_len p"
  defines "q \<equiv> with_token (parse_string p)"
  shows "p_input q = p_input p \<and> p_len q = p_len p \<and> p_current q \<in> {JSON_TOK_STRING, JSON_TOK_ERROR}
    \<and> p_pos p < p_pos q \<and> (\<not> stopped q \<longrightarrow> p_pos q \<le> p_len p) \<and> length (p_string q) \<le> 1023"
proof -
  obtain tok pos str err where e: "parse_string_loop (p_input p) (p_len p) (Suc (p_pos p)) [] (p_error p)
      = (tok, pos, str, err)" by (metis surj_pair)
  show ?thesis
    using parse_string_loop_bounds [OF e]
    by (auto simp: q_def with_token_def parse_string_def e stopped_def)
qed

lemma parse_number_bounds:
  assumes "p_pos p < p_len p" "chr_at (p_input p) (p_pos p) = CHR ''-'' \<or> is_digit (chr_at (p_input p) (p_pos p))"
  defines "q \<equiv> with_token (parse_number p)"
  shows "p_input q = p_input p \<and> p_len q = p_len p \<and> p_current q = JSON_TOK_NUMBER
    \<and> p_string q = p_string p \<and> p_pos p < p_pos q \<and> p_pos q \<le> p_len p"
  using number_end_bounds [OF assms(1,2)]
  by (simp add: q_def with_token_def parse_number_def Let_def)

lemma json_next_token_bounds:
  fixes p :: json_parser
  defines "q \<equiv> json_next_token p"
  shows "p_input q = p_input p \<and> p_len q = p_len p \<and> p_pos p \<le> p_pos q \<and>
    (\<not> stopped q \<longrightarrow> p_pos p < p_pos q \<and> p_pos q \<le> p_len p) \<and>
    (length (p_string p) \<le> 1023 \<longrightarrow> length (p_string q) \<le> 1023)"
proof -
  let ?p = "skip_whitespace p"
  have ws: "p_pos p \<le> p_pos ?p"
    using scan_while_bounds [of "p_pos p" is_whitespace "p_input p" "p_len p"]
    by (simp add: skip_whitespace_def)
  show ?thesis
  proof (cases "p_pos ?p < p_len p")
    case True
    define P where "P r \<longleftrightarrow> p_input r = p_input p \<and> p_len r = p_len p \<and> p_pos ?p \<le> p_pos r \<and>
        (\<not> stopped r \<longrightarrow> p_pos ?p < p_pos r \<and> p_pos r \<le> p_len p) \<and>
        (length (p_string p) \<le> 1023 \<longrightarrow> length (p_string r) \<le> 1023)" for r
    have P_simple: "P (take_char ?p tok)" "length lit > 0 \<Longrightarrow> P (take_literal ?p lit tok)"
      "P (?p\<lparr>p_current := JSON_TOK_ERROR, p_error := e\<rparr>)" for tok lit e
      using True by (auto simp: P_def take_char_def take_literal_def literal_at_def stopped_def)
    have P_string: "P (with_token (parse_string ?p))"
      using parse_string_bounds [of ?p] True by (simp add: P_def)
    have P_number: "c = CHR ''-'' \<or> is_digit c \<Longrightarrow> P (with_token (parse_number ?p))"
      if "c = chr_at (p_input p) (p_pos ?p)" for c
      using parse_number_bounds [of ?p] True that by (auto simp: P_def)
    have "P q"
      using True P_number [OF refl]
      by (simp add: q_def json_next_token_def Let_def P_simple P_string)
    with ws show ?thesis by (auto simp: P_def)
  next
    case False
    with ws show ?thesis
      by (auto simp: q_def json_next_token_def Let_def stopped_def)
  qed
qed

lemma json_next_token_keeps [simp]:
  "p_input (json_next_token p) = p_input p" "p_len (json_next_token p) = p_len p"
  using json_next_token_bounds [of p] by simp_all

lemma json_next_token_string: "length (p_string p) \<le> 1023 \<Longrightarrow> length (p_string (json_next_token p)) \<le> 1023"
  using json_next_token_bounds [of p] by simp

text \<open>
  The interface the readers use: a stream of tokens whose every step consumes input. Loops over the
  stream terminate by what is left.
\<close>

locale token_stream =
  fixes advance :: "'p \<Rightarrow> 'p"
    and at_stop :: "'p \<Rightarrow> bool"
    and remaining :: "'p \<Rightarrow> nat"
  assumes advance_less: "\<not> at_stop p \<Longrightarrow> remaining (advance p) < remaining p"
begin

lemma advance_twice: "\<not> at_stop p \<Longrightarrow> \<not> at_stop (advance p) \<Longrightarrow> remaining (advance (advance p)) < remaining p - 1"
  using advance_less [of p] advance_less [of "advance p"] by linarith

lemma advance_if: "\<not> at_stop p \<or> \<not> b \<Longrightarrow> remaining (if b then advance p else p) \<le> remaining p"
  using advance_less [of p] by auto

text \<open>Iterating the stream as long as a guard that implies more input holds reaches an end.\<close>

lemma stream_exhausts:
  assumes "\<And>p. guard p \<Longrightarrow> \<not> at_stop p"
  shows "\<exists>n \<le> remaining p. \<not> guard ((advance ^^ n) p)"
proof (induction "remaining p" arbitrary: p rule: less_induct)
  case less
  show ?case
  proof (cases "guard p")
    case False
    then show ?thesis by (intro exI [of _ 0]) simp
  next
    case True
    then have r: "remaining (advance p) < remaining p" using assms advance_less by blast
    from less.hyps [OF r] obtain n where "n \<le> remaining (advance p)" "\<not> guard ((advance ^^ n) (advance p))"
      by blast
    with r show ?thesis by (intro exI [of _ "Suc n"]) (simp add: funpow_swap1)
  qed
qed

end

interpretation lex: token_stream json_next_token stopped left_of
proof
  fix p assume "\<not> stopped p"
  then show "left_of (json_next_token p) < left_of p"
    using json_next_token_bounds [of p] by (auto simp: left_of_def)
qed

section \<open>Skipping a value returns\<close>

text \<open>A later state of the same parser: same input, no more left than before.\<close>

definition moves_on :: "json_parser \<Rightarrow> json_parser \<Rightarrow> bool" where
  "moves_on p q \<longleftrightarrow> p_input q = p_input p \<and> p_len q = p_len p \<and> left_of q \<le> left_of p \<and>
     (length (p_string p) \<le> 1023 \<longrightarrow> length (p_string q) \<le> 1023)"

lemma moves_on_refl [simp, jlex]: "moves_on p p"
  by (simp add: moves_on_def)

lemma moves_on_trans: "moves_on p q \<Longrightarrow> moves_on q r \<Longrightarrow> moves_on p r"
  by (simp add: moves_on_def)

lemma moves_on_left: "moves_on p q \<Longrightarrow> left_of q \<le> left_of p"
  by (simp add: moves_on_def)

lemma moves_on_next [jlex]: "\<not> stopped p \<Longrightarrow> moves_on p (json_next_token p)"
  using lex.advance_less [of p] by (simp add: moves_on_def json_next_token_string)

lemma not_stopped_token [jlex]:
  "p_current p = JSON_TOK_LBRACE \<Longrightarrow> \<not> stopped p" "p_current p = JSON_TOK_RBRACE \<Longrightarrow> \<not> stopped p"
  "p_current p = JSON_TOK_LBRACKET \<Longrightarrow> \<not> stopped p" "p_current p = JSON_TOK_RBRACKET \<Longrightarrow> \<not> stopped p"
  "p_current p = JSON_TOK_COLON \<Longrightarrow> \<not> stopped p" "p_current p = JSON_TOK_COMMA \<Longrightarrow> \<not> stopped p"
  "p_current p = JSON_TOK_STRING \<Longrightarrow> \<not> stopped p" "p_current p = JSON_TOK_NUMBER \<Longrightarrow> \<not> stopped p"
  "p_current p = JSON_TOK_TRUE \<Longrightarrow> \<not> stopped p" "p_current p = JSON_TOK_FALSE \<Longrightarrow> \<not> stopped p"
  "p_current p = JSON_TOK_NULL \<Longrightarrow> \<not> stopped p"
  by (simp_all add: stopped_def)

text \<open>A step that really consumes, for the loops.\<close>

definition moves_past :: "json_parser \<Rightarrow> json_parser \<Rightarrow> bool" where
  "moves_past p q \<longleftrightarrow> moves_on p q \<and> left_of q < left_of p"

lemma moves_past_next [jlex]: "\<not> stopped p \<Longrightarrow> moves_past p (json_next_token p)"
  by (simp add: moves_past_def moves_on_next lex.advance_less)

lemma moves_past_on: "moves_past p q \<Longrightarrow> moves_on q r \<Longrightarrow> moves_past p r"
  and moves_on_past: "moves_on p q \<Longrightarrow> moves_past q r \<Longrightarrow> moves_past p r"
  and moves_past_imp: "moves_past p q \<Longrightarrow> moves_on p q"
  by (auto simp: moves_past_def moves_on_def)

lemma moves_on_comma:
  "moves_on p (if p_current p = JSON_TOK_COMMA then json_next_token p else p)"
  by (simp add: moves_on_next not_stopped_token)

lemma skip_run_returns:
  "\<exists>c q. skip_run m p = Some (c, q) \<and> moves_on p q \<and> (m = Skip_value \<and> c = 0 \<longrightarrow> moves_past p q) \<and> c \<in> {0, - 1}"
proof (induction "(left_of p, m \<noteq> Skip_value)" arbitrary: p m
    rule: wf_induct_rule [OF wf_lex_prod [OF wf_less_than wf_measure [of "\<lambda>b. if b then 1 else 0"]]])
  case 1
  have ih_past: "\<exists>c r. skip_run m' q = Some (c, r) \<and> moves_past p r \<and> c \<in> {0, - 1}"
    if "moves_past p q" for m' q
    using 1 [of q m'] that
    by (auto simp: moves_past_def) (metis moves_past_on moves_past_def that)+
  then have ih: "\<exists>c r. skip_run m' q = Some (c, r) \<and> moves_on p r \<and> (c = 0 \<longrightarrow> moves_past p r) \<and> c \<in> {0, - 1}"
    if "moves_past p q" for m' q
    using that moves_past_imp by blast
  have ih_value: "\<exists>c r. skip_run Skip_value p = Some (c, r) \<and> moves_on p r \<and> (c = 0 \<longrightarrow> moves_past p r) \<and> c \<in> {0, - 1}"
    if "m \<noteq> Skip_value"
    using 1 [of p Skip_value] that by auto
  have again: "\<exists>c r. skip_run m' (if p_current q = JSON_TOK_COMMA then json_next_token q else q) = Some (c, r)
      \<and> moves_on p r \<and> c \<in> {0, - 1}" if "moves_past p q" for m' q
    using ih [OF moves_past_on [OF that moves_on_comma]] by blast
  show ?case
  proof (cases m)
    case Skip_value
    show ?thesis
    proof (cases "p_current p = JSON_TOK_LBRACE \<or> p_current p = JSON_TOK_LBRACKET")
      case True
      then have ns: "moves_past p (json_next_token p)" by (auto simp: jlex)
      have "skip_run m p = skip_run (if p_current p = JSON_TOK_LBRACE then Skip_object else Skip_array) (json_next_token p)"
        using True Skip_value by (subst skip_run.simps) auto
      then show ?thesis using ih [OF ns] Skip_value by auto
    next
      case False
      then show ?thesis using Skip_value
        by (subst skip_run.simps) (auto simp: jlex moves_past_imp)
    qed
  next
    case Skip_object
    consider "p_current p = JSON_TOK_RBRACE" | "p_current p = JSON_TOK_EOF"
      | "p_current p \<notin> {JSON_TOK_RBRACE, JSON_TOK_EOF, JSON_TOK_STRING}"
      | "p_current p = JSON_TOK_STRING" "p_current (json_next_token p) \<noteq> JSON_TOK_COLON"
      | "p_current p = JSON_TOK_STRING" "p_current (json_next_token p) = JSON_TOK_COLON"
      by blast
    then show ?thesis
    proof cases
      case 5
      let ?q = "json_next_token (json_next_token p)"
      have "moves_past p ?q"
        using moves_past_on [OF moves_past_next moves_on_next] 5 by (simp add: not_stopped_token)
      with ih [of ?q Skip_value] obtain c r where r: "skip_run Skip_value ?q = Some (c, r)" "moves_on p r"
        "c = 0 \<longrightarrow> moves_past p r" "c \<in> {0, - 1}" by blast
      have "skip_run m p = (if c \<noteq> 0 then Some (- 1, r) else skip_run Skip_object
          (if p_current r = JSON_TOK_COMMA then json_next_token r else r))"
        using 5 Skip_object r(1) by (subst skip_run.simps) (simp add: Let_def)
      with r again [of r Skip_object] Skip_object show ?thesis by (cases "c = 0") auto
    qed (use Skip_object in \<open>subst skip_run.simps, auto simp: jlex Let_def\<close>)+
  next
    case Skip_array
    consider "p_current p = JSON_TOK_RBRACKET" | "p_current p = JSON_TOK_EOF"
      | "p_current p \<notin> {JSON_TOK_RBRACKET, JSON_TOK_EOF}"
      by blast
    then show ?thesis
    proof cases
      case 3
      from ih_value Skip_array obtain c r where r: "skip_run Skip_value p = Some (c, r)" "moves_on p r"
        "c = 0 \<longrightarrow> moves_past p r" "c \<in> {0, - 1}" by auto
      have "skip_run m p = (if c \<noteq> 0 then Some (- 1, r) else skip_run Skip_array
          (if p_current r = JSON_TOK_COMMA then json_next_token r else r))"
        using 3 Skip_array r(1) by (subst skip_run.simps) simp
      with r again [of r Skip_array] Skip_array show ?thesis by (cases "c = 0") auto
    qed (use Skip_array in \<open>subst skip_run.simps, auto simp: jlex\<close>)+
  qed
qed

text \<open>
  \<^bold>\<open>C27.\<close> Skipping any value, of any token sequence, returns: the recursion of
  \<^verbatim>\<open>json_skip_value\<close> and its two loops end because every step consumes a token. The
  result is 0 or -1, the parser never moves backwards, and on success at least one token is consumed.
\<close>

theorem json_skip_value_returns:
  "\<exists>c q. json_skip_value p = Some (c, q) \<and> c \<in> {0, - 1} \<and> moves_on p q \<and> (c = 0 \<longrightarrow> left_of q < left_of p)"
  using skip_run_returns [of Skip_value p] by (auto simp: json_skip_value_def moves_past_def)

theorem json_skip_value_returns_witness:
  "\<exists>q. json_skip_value (json_next_token (json_parser_init ''{}'' 2)) = Some (0, q)
     \<and> left_of q < left_of (json_next_token (json_parser_init ''{}'' 2))"
proof -
  have "p_current (json_next_token (json_parser_init ''{}'' 2)) = JSON_TOK_LBRACE"
    "p_current (json_next_token (json_next_token (json_parser_init ''{}'' 2))) = JSON_TOK_RBRACE"
    by code_simp+
  then have "\<exists>q. json_skip_value (json_next_token (json_parser_init ''{}'' 2)) = Some (0, q)"
    by (simp add: json_skip_value_def skip_run.simps)
  then show ?thesis
    using json_skip_value_returns [of "json_next_token (json_parser_init ''{}'' 2)"] by auto
qed

end
