(* ===== verification/JsonRoundTrip.thy ===== *)
theory JsonRoundTrip
  imports JsonParser
begin

text \<open>
  The tokenizer of \<^verbatim>\<open>src/json.c\<close> against its writer: tokenizing the text that the
  writer produces gives back the strings and integers that were written, and the reader accepts and
  consumes exactly every document the writer can write.
\<close>

named_theorems lexes \<comment> \<open>the token read from a known text\<close>

section \<open>Unread text\<close>

text \<open>The characters between the position and the length of the input.\<close>

definition unread :: "string \<Rightarrow> nat \<Rightarrow> nat \<Rightarrow> string \<Rightarrow> bool" where
  "unread input len pos rest \<longleftrightarrow> pos \<le> len \<and> len \<le> length input \<and> drop pos (take len input) = rest"

lemma unread_append:
  assumes "unread input len pos (xs @ rest)"
  shows "pos + length xs \<le> len" "unread input len (pos + length xs) rest"
    "i < length xs \<Longrightarrow> chr_at input (pos + i) = xs ! i"
proof -
  have l: "len \<le> length input" "drop pos (take len input) = xs @ rest" "pos \<le> len"
    using assms by (auto simp: unread_def)
  then have len: "len = pos + length xs + length rest"
    by (metis add.assoc le_add_diff_inverse length_append length_drop length_take min.absorb2)
  then show "pos + length xs \<le> len" by simp
  have "drop (pos + length xs) (take len input) = drop (length xs) (drop pos (take len input))"
    by (simp only: drop_drop add.commute)
  also have "\<dots> = rest" by (simp only: l(2)) simp
  finally show "unread input len (pos + length xs) rest" using len l(1) by (simp add: unread_def)
  assume i: "i < length xs"
  have "input ! (pos + i) = take len input ! (pos + i)" using i len by simp
  also have "\<dots> = drop pos (take len input) ! i" using l(1) len by (subst nth_drop) simp_all
  also have "\<dots> = xs ! i" unfolding l(2) using i by (simp add: nth_append)
  finally show "chr_at input (pos + i) = xs ! i" using i len l(1) by (simp add: chr_at_in)
qed

lemma unread_Cons:
  assumes "unread input len pos (c # rest)"
  shows "pos < len" "chr_at input pos = c" "unread input len (Suc pos) rest"
  using unread_append [of input len pos "[c]" rest] assms by auto

lemma unread_Nil: "unread input len pos [] \<Longrightarrow> pos = len"
  by (auto simp: unread_def)

lemma unread_all: "unread input (length input) 0 input"
  by (simp add: unread_def)

lemma unread_hd: "unread input len pos rest \<Longrightarrow> pos < len \<Longrightarrow> rest \<noteq> [] \<and> chr_at input pos = hd rest"
  by (cases rest) (auto dest: unread_Nil unread_Cons)

lemma scan_while_unread:
  assumes "unread input len pos (xs @ rest)" "\<forall>c \<in> set xs. ok c" "rest = [] \<or> \<not> ok (hd rest)"
  shows "scan_while ok input len pos = pos + length xs"
  using assms
proof (induction xs arbitrary: pos)
  case Nil
  then show ?case by (subst scan_while.simps) (auto dest: unread_hd unread_Nil)
next
  case (Cons x xs)
  from Cons.prems(1) have "unread input len pos (x # xs @ rest)" by simp
  note u = unread_Cons [OF this]
  from Cons.IH [OF u(3)] Cons.prems u(1,2) show ?case by (subst scan_while.simps) simp
qed

abbreviation reads :: "json_parser \<Rightarrow> string \<Rightarrow> bool" where
  "reads p rest \<equiv> unread (p_input p) (p_len p) (p_pos p) rest"

lemma skip_whitespace_none:
  assumes "reads p rest" "rest = [] \<or> \<not> is_whitespace (hd rest)"
  shows "skip_whitespace p = p"
proof -
  have "scan_while is_whitespace (p_input p) (p_len p) (p_pos p) = p_pos p"
    using assms scan_while_unread [of _ _ _ "[]" rest] by fastforce
  then show ?thesis by (simp add: skip_whitespace_def)
qed

section \<open>One token\<close>

lemma lex_char [lexes]:
  assumes "reads p (c # rest)"
  shows "c = CHR ''{'' \<Longrightarrow> json_next_token p = take_char p JSON_TOK_LBRACE"
    "c = CHR ''}'' \<Longrightarrow> json_next_token p = take_char p JSON_TOK_RBRACE"
    "c = CHR ''['' \<Longrightarrow> json_next_token p = take_char p JSON_TOK_LBRACKET"
    "c = CHR '']'' \<Longrightarrow> json_next_token p = take_char p JSON_TOK_RBRACKET"
    "c = CHR '':'' \<Longrightarrow> json_next_token p = take_char p JSON_TOK_COLON"
    "c = CHR '','' \<Longrightarrow> json_next_token p = take_char p JSON_TOK_COMMA"
  using skip_whitespace_none [OF assms] unread_Cons [OF assms]
  by (simp_all add: json_next_token_def Let_def is_whitespace_def)

lemma reads_take_char: "reads p (c # rest) \<Longrightarrow> reads (take_char p tok) rest"
  by (auto simp: take_char_def dest: unread_Cons)

lemma take_char_simps [simp]:
  "p_input (take_char p tok) = p_input p" "p_len (take_char p tok) = p_len p"
  "p_current (take_char p tok) = tok" "p_string (take_char p tok) = p_string p"
  by (simp_all add: take_char_def)

lemma lex_end: "reads p [] \<Longrightarrow> p_current (json_next_token p) = JSON_TOK_EOF"
  using skip_whitespace_none [of p "[]"] by (auto simp: json_next_token_def dest: unread_Nil)

definition plain_char :: "char \<Rightarrow> bool" where
  "plain_char c \<longleftrightarrow> escape_char c \<noteq> None"

lemma escape_char_cases:
  "escape_char c = Some e \<Longrightarrow>
     e = [c] \<and> c \<noteq> QUOTE \<and> c \<noteq> BACKSLASH \<or> e = [BACKSLASH, e ! 1] \<and> e ! 1 \<noteq> CHR ''u'' \<and> unescape (e ! 1) = c"
  by (auto simp: escape_char_def unescape_def split: if_split_asm)

text \<open>Reading the text between the quotes undoes the escaping; 1,023 characters are kept.\<close>

lemma parse_string_loop_escape:
  assumes "unread input len pos (escape_str s @ QUOTE # rest)" "\<forall>c \<in> set s. plain_char c" "length acc \<le> 1023"
  shows "parse_string_loop input len pos acc err
    = (JSON_TOK_STRING, pos + length (escape_str s) + 1, take 1023 (acc @ s), err)"
  using assms
proof (induction s arbitrary: pos acc)
  case Nil
  then have "unread input len pos (QUOTE # rest)" by simp
  from unread_Cons [OF this] Nil.prems show ?case
    by (subst parse_string_loop.simps) simp
next
  case (Cons c s)
  define acc' where "acc' = (if length acc < 1023 then acc @ [c] else acc)"
  have acc: "length acc' \<le> 1023" "take 1023 (acc' @ s) = take 1023 (acc @ c # s)"
    using Cons.prems(3) by (auto simp: acc'_def take_Cons' split: if_splits)
  from Cons.prems(2) obtain e where e: "escape_char c = Some e" by (auto simp: plain_char_def)
  show ?case
  proof (cases "e = [c] \<and> c \<noteq> QUOTE \<and> c \<noteq> BACKSLASH")
    case True
    from Cons.prems(1) have "unread input len pos (c # escape_str s @ QUOTE # rest)" using e True by simp
    note u = unread_Cons [OF this]
    have "parse_string_loop input len pos acc err = parse_string_loop input len (Suc pos) acc' err"
      using u True by (subst parse_string_loop.simps) (simp add: acc'_def)
    with Cons.IH [OF u(3) _ acc(1)] Cons.prems(2) acc(2) e True show ?thesis by simp
  next
    case False
    with e obtain d where d: "e = [BACKSLASH, d]" "d \<noteq> CHR ''u''" "unescape d = c"
      using escape_char_cases [OF e] by blast
    with Cons.prems(1) e have "unread input len pos (BACKSLASH # d # escape_str s @ QUOTE # rest)" by simp
    note u1 = unread_Cons [OF this]
    note u2 = unread_Cons [OF u1(3)]
    have "parse_string_loop input len pos acc err = parse_string_loop input len (Suc (Suc pos)) acc' err"
      using u1 u2 d by (subst parse_string_loop.simps) (simp add: acc'_def)
    with Cons.IH [OF u2(3) _ acc(1)] Cons.prems(2) acc(2) d e show ?thesis by simp
  qed
qed

lemma lex_string:
  assumes "reads p (quoted (escape_str s) @ rest)" "\<forall>c \<in> set s. plain_char c"
  shows "json_next_token p = p\<lparr>p_pos := p_pos p + length (quoted (escape_str s)),
     p_string := take 1023 s, p_current := JSON_TOK_STRING\<rparr>"
proof -
  from assms(1) have r: "reads p (QUOTE # escape_str s @ QUOTE # rest)" by (simp add: quoted_def)
  note u = unread_Cons [OF r]
  have "json_next_token p = with_token (parse_string p)"
    using u skip_whitespace_none [OF r] by (simp add: json_next_token_def Let_def is_whitespace_def)
  also have "\<dots> = p\<lparr>p_pos := p_pos p + length (quoted (escape_str s)),
     p_string := take 1023 s, p_current := JSON_TOK_STRING\<rparr>"
    using parse_string_loop_escape [OF u(3) assms(2), of "[]"]
    by (simp add: parse_string_def with_token_def quoted_def)
  finally show ?thesis .
qed

lemma lex_literal:
  assumes "reads p (lit @ rest)"
  shows "lit = ''true'' \<Longrightarrow> json_next_token p = p\<lparr>p_pos := p_pos p + 4, p_current := JSON_TOK_TRUE\<rparr>"
    "lit = ''false'' \<Longrightarrow> json_next_token p = p\<lparr>p_pos := p_pos p + 5, p_current := JSON_TOK_FALSE\<rparr>"
    "lit = ''null'' \<Longrightarrow> json_next_token p = p\<lparr>p_pos := p_pos p + 4, p_current := JSON_TOK_NULL\<rparr>"
proof -
  have step: "skip_whitespace p = p \<and> p_pos p < p_len p \<and> chr_at (p_input p) (p_pos p) = hd lit \<and> literal_at p lit"
    if lit: "lit \<noteq> []" "\<not> is_whitespace (hd lit)"
  proof -
    have "skip_whitespace p = p"
      using skip_whitespace_none [OF assms] lit by (cases lit) auto
    moreover have "chr_at (p_input p) (p_pos p + 0) = lit ! 0"
      using lit by (intro unread_append(3) [OF assms]) simp
    moreover have "p_pos p < p_len p" using unread_append(1) [OF assms] lit by (cases lit) auto
    ultimately show ?thesis
      using unread_append [OF assms] lit by (auto simp: literal_at_def hd_conv_nth)
  qed
  show "lit = ''true'' \<Longrightarrow> json_next_token p = p\<lparr>p_pos := p_pos p + 4, p_current := JSON_TOK_TRUE\<rparr>"
    "lit = ''false'' \<Longrightarrow> json_next_token p = p\<lparr>p_pos := p_pos p + 5, p_current := JSON_TOK_FALSE\<rparr>"
    "lit = ''null'' \<Longrightarrow> json_next_token p = p\<lparr>p_pos := p_pos p + 4, p_current := JSON_TOK_NULL\<rparr>"
    using step by (simp_all add: json_next_token_def Let_def is_whitespace_def take_literal_def)
qed

subsection \<open>Integers\<close>

lemma schar_uchar: "schar c = (if uchar c < 128 then int (uchar c) else int (uchar c) - 256)"
proof -
  have "(of_char c :: int) = int (uchar c)" by (simp add: uchar_def of_nat_of_char)
  then show ?thesis by (simp add: schar_def Let_def)
qed

lemma schar_digits [simp]: "schar (CHR ''0'') = 48" "schar (CHR ''9'') = 57"
  by (simp_all add: schar_def)

lemma is_digit_iff: "is_digit c \<longleftrightarrow> is_dec c"
proof -
  obtain n where n: "n = uchar c" "n < 256" using uchar_less_256 by blast
  show ?thesis
    unfolding is_digit_def is_dec_def schar_digits schar_uchar [of c] n(1) [symmetric]
    using n(2) by (cases "n < 128") auto
qed

lemma schar_dec: "is_dec c \<Longrightarrow> schar c = int (uchar c)"
  by (simp add: is_dec_def schar_uchar)

lemma dec_not_special:
  assumes "is_dec c"
  shows "c \<noteq> CHR ''-''" "c \<noteq> CHR ''.''" "c \<noteq> CHR ''e''" "c \<noteq> CHR ''E''" "c \<noteq> CHR ''+''"
    "c \<noteq> QUOTE" "\<not> is_whitespace c"
  using assms by (auto simp: is_dec_def uchar_def is_whitespace_def)

abbreviation dec_step :: "nat \<Rightarrow> char \<Rightarrow> nat" where
  "dec_step n c \<equiv> n * 10 + (uchar c - 48)"

lemma foldl_dec_mono: "v \<le> foldl dec_step v ds"
proof (induction ds arbitrary: v)
  case (Cons d ds)
  have "v \<le> dec_step v d" by simp
  also have "\<dots> \<le> foldl dec_step (dec_step v d) ds" by (rule Cons.IH)
  finally show ?case by simp
qed simp

lemma num_loop_digits:
  assumes "\<forall>c \<in> set ds. is_dec c" "n_value s = Fin (of_nat v)" "\<not> n_in_exponent s" "\<not> n_in_decimal s"
    "foldl dec_step v ds < 2 ^ 53"
  shows "num_loop first ds s = s\<lparr>n_value := Fin (of_nat (foldl dec_step v ds))\<rparr>"
  using assms
proof (induction ds arbitrary: first s v)
  case Nil
  then show ?case by simp
next
  case (Cons c ds)
  let ?v = "dec_step v c"
  have c: "is_dec c" "is_digit c" using Cons.prems(1) by (simp_all add: is_digit_iff)
  have "?v < 2 ^ 53" using Cons.prems(5) foldl_dec_mono [of ?v ds] by simp
  moreover then have "v * 10 < 2 ^ 53" by simp
  ultimately have v: "f64 (of_nat (v * 10)) = Fin (of_nat (v * 10))" "f64 (of_nat ?v) = Fin (of_nat ?v)"
    by (simp_all only: f64_of_nat)
  have "schar c - 48 = int (uchar c - 48)" using c by (simp add: schar_dec is_dec_def)
  then have d: "of_int (schar c - 48) = (of_nat (uchar c - 48) :: rat)" by simp
  then have d': "rat_of_int (schar c) - 48 = of_nat (uchar c - 48)" by simp
  have "num_step first c s = s\<lparr>n_value := Fin (of_nat ?v)\<rparr>"
    using c Cons.prems v dec_not_special [OF c(1)] by (simp add: num_step_def Let_def d')
  with Cons.IH [of "s\<lparr>n_value := Fin (of_nat ?v)\<rparr>" ?v False] Cons.prems show ?case by simp
qed

text \<open>What may follow a value in a document.\<close>

definition delim :: "string \<Rightarrow> bool" where
  "delim rest \<longleftrightarrow> rest = [] \<or> hd rest \<in> set '',]}''"

lemma delim_not: "delim rest \<Longrightarrow> rest = [] \<or> \<not> is_digit (hd rest) \<and> hd rest \<noteq> CHR ''.'' \<and> hd rest \<noteq> CHR ''e'' \<and> hd rest \<noteq> CHR ''E''"
  by (auto simp: delim_def is_digit_iff is_dec_def uchar_def)

lemma number_end_digits:
  assumes "unread input len pos (ds @ rest)" "\<forall>c \<in> set ds. is_dec c" "delim rest"
  shows "scan_while is_digit input len pos = pos + length ds"
    "ds \<noteq> [] \<Longrightarrow> number_end input len pos = pos + length ds"
proof -
  show s: "scan_while is_digit input len pos = pos + length ds"
    using assms delim_not by (intro scan_while_unread [of _ _ _ _ rest]) (auto simp: is_digit_iff)
  note u = unread_append(2) [OF assms(1)]
  have "pos + length ds < len \<Longrightarrow> chr_at input (pos + length ds) = hd rest \<and> rest \<noteq> []"
    using unread_hd [OF u] by simp
  moreover assume "ds \<noteq> []"
  then have "chr_at input pos \<noteq> CHR ''-''"
    using assms(1,2) unread_Cons(2) [of input len pos "hd ds" "tl ds @ rest"] dec_not_special(1) [of "hd ds"]
    by (cases ds) auto
  ultimately show "number_end input len pos = pos + length ds"
    using s delim_not [OF assms(3)] by (auto simp: number_end_def Let_def)
qed

lemma unread_text: "unread input len pos (xs @ rest) \<Longrightarrow> map (chr_at input) [pos ..< pos + length xs] = xs"
  by (rule nth_equalityI) (auto dest: unread_append(3))

lemma unat_word_of_int: "0 \<le> n \<Longrightarrow> n < 2 ^ 32 \<Longrightarrow> unat (word_of_int n :: u32) = nat n"
  by (simp add: unat_eq_nat_uint uint_word_of_int)

lemma int_text_shape:
  assumes i: "int_min \<le> i" "i \<le> int_max"
  shows "int_text (word_of_int i) = (if i < 0 then CHR ''-'' # uint_text (nat (- i)) 10 False
           else uint_text (nat i) 10 False)"
proof -
  have s: "sint (word_of_int i :: u32) = i"
    using i by (simp add: int_min_def int_max_def signed_take_bit_int_eq_self_iff sint_sbintrunc')
  have m: "i < 0 \<Longrightarrow> unat (- (word_of_int i :: u32)) = nat (- i)"
    using unat_word_of_int [of "- i"] i by (simp add: int_min_def)
  show ?thesis
  proof (cases "i < 0")
    case True
    with i m show ?thesis
      unfolding int_text_def s by simp
  next
    case False
    with i show ?thesis
      unfolding int_text_def s by (simp add: int_max_def unat_word_of_int)
  qed
qed

lemma lex_int:
  assumes r: "reads p (int_text (word_of_int i) @ rest)" and i: "int_min \<le> i" "i \<le> int_max"
    and rest: "delim rest"
  shows "json_next_token p = p\<lparr>p_pos := p_pos p + length (int_text (word_of_int i)),
     p_number := Fin (of_int i), p_current := JSON_TOK_NUMBER\<rparr>"
proof -
  define ds where "ds = uint_text (nat \<bar>i\<bar>) 10 False"
  let ?t = "int_text (word_of_int i)" and ?in = "p_input p"
  have t: "?t = (if i < 0 then CHR ''-'' # ds else ds)"
    using int_text_shape [OF i] by (simp add: ds_def)
  have "nat \<bar>i\<bar> < 2 ^ 32" using i by (simp add: int_min_def int_max_def)
  note spec = uint_text_spec [OF this, of False, folded ds_def]
  then have ds: "ds \<noteq> []" "\<forall>c \<in> set ds. is_dec c" and v: "foldl dec_step 0 ds = nat \<bar>i\<bar>"
    by (auto simp: dec_value_def)
  have num: "num_loop first ds num_init = num_init\<lparr>n_value := Fin (of_int \<bar>i\<bar>)\<rparr>" for first
    using num_loop_digits [OF ds(2), of num_init 0 first] i v
    by (simp add: num_init_def int_min_def int_max_def)
  have f: "f64 (of_int \<bar>i\<bar>) = Fin (of_int \<bar>i\<bar>)"
    using i by (intro f64_of_int) (simp add: int_min_def int_max_def)
  have lt: "p_pos p < p_len p"
    using unread_append(1) [OF r] ds(1) t by (cases ds) (auto split: if_splits)
  with unread_hd [OF r] ds(1) t have hd: "chr_at ?in (p_pos p) = hd ?t" "p_pos p < p_len p"
    by auto
  have ws: "skip_whitespace p = p"
    using ds dec_not_special(7) [of "hd ds"] t
    by (intro skip_whitespace_none [OF r]) (auto simp: is_whitespace_def)
  have stop: "number_end ?in (p_len p) (p_pos p) = p_pos p + length ?t"
  proof (cases "i < 0")
    case True
    then have u: "unread ?in (p_len p) (Suc (p_pos p)) (ds @ rest)" using r t by (auto dest: unread_Cons)
    note n = number_end_digits(1) [OF u ds(2) rest]
    have m: "pos < p_len p \<Longrightarrow> pos = p_pos p + length ?t \<Longrightarrow> chr_at ?in pos = hd rest \<and> rest \<noteq> []" for pos
      using unread_hd [OF unread_append(2) [OF r]] by simp
    show ?thesis using n m delim_not [OF rest] hd True t by (auto simp: number_end_def Let_def)
  next
    case False
    then show ?thesis using number_end_digits(2) [of ?in "p_len p" "p_pos p" ds rest] r t ds rest by simp
  qed
  have loop: "num_loop True ?t num_init = num_init\<lparr>n_value := Fin (of_int \<bar>i\<bar>)\<rparr>"
    using num t by (simp add: num_step_def)
  have neg: "(chr_at ?in (p_pos p) = CHR ''-'') = (i < 0)"
    using hd t ds dec_not_special(1) [of "hd ds"] by auto
  have res: "num_result (i < 0) (num_init\<lparr>n_value := Fin (of_int \<bar>i\<bar>)\<rparr>) = Fin (of_int i)"
    using f by (simp add: num_result_def num_init_def Let_def)
  have start: "hd ?t = CHR ''-'' \<or> is_digit (hd ?t)"
    using t ds by (auto simp: is_digit_iff)
  have "json_next_token p = with_token (parse_number p)"
    using ws hd start by (auto simp: json_next_token_def Let_def is_digit_iff is_dec_def uchar_def)
  also have "\<dots> = p\<lparr>p_pos := p_pos p + length ?t, p_number := Fin (of_int i), p_current := JSON_TOK_NUMBER\<rparr>"
    using unread_text [OF r] by (simp add: parse_number_def stop with_token_def loop neg res del: of_int_abs)
  finally show ?thesis .
qed

section \<open>Documents\<close>

text \<open>Documents whose text the writer reproduces exactly: no dropped control characters, \<^verbatim>\<open>int\<close> numbers.\<close>

definition plain_text :: "string \<Rightarrow> bool" where
  "plain_text s \<longleftrightarrow> (\<forall>c \<in> set s. plain_char c)"

definition key_text :: "string \<Rightarrow> bool" where
  "key_text k \<longleftrightarrow> (\<forall>c \<in> set k. escape_char c = Some [c])"

fun wf_doc :: "jval \<Rightarrow> bool" where
  "wf_doc (JStr s) = plain_text s"
| "wf_doc (JInt i) = (int_min \<le> i \<and> i \<le> int_max)"
| "wf_doc (JRaw t) = False"
| "wf_doc (JArr vs) = (\<forall>v \<in> set vs. wf_doc v)"
| "wf_doc (JObj kvs) = (\<forall>kv \<in> set kvs. key_text (fst kv) \<and> wf_doc (snd kv))"
| "wf_doc v = True"

lemma plain_not_NUL: "plain_text s \<Longrightarrow> NUL \<notin> set s"
  by (auto simp: plain_text_def plain_char_def escape_char_def uchar_def)

lemma key_text_escape: "key_text k \<Longrightarrow> escape_str k = k \<and> plain_text k"
  by (induction k) (auto simp: key_text_def plain_text_def plain_char_def)

lemma join_comma_Cons: "join_comma (t # ts) = t @ (if ts = [] then [] else CHR '','' # join_comma ts)"
  by (cases ts) auto

definition same_input :: "json_parser \<Rightarrow> json_parser \<Rightarrow> bool" where
  "same_input p q \<longleftrightarrow> p_input q = p_input p \<and> p_len q = p_len p"

lemma same_input_trans: "same_input p q \<Longrightarrow> same_input q r \<Longrightarrow> same_input p r"
  by (simp add: same_input_def)

text \<open>Reading the value \<open>t\<close> succeeds and leaves the rest of the text unread.\<close>

definition skips :: "skip_mode \<Rightarrow> string \<Rightarrow> string \<Rightarrow> bool" where
  "skips m t rest \<longleftrightarrow> (\<forall>p. reads p (t @ rest) \<longrightarrow>
     (\<exists>q. skip_run m (json_next_token p) = Some (0, json_next_token q) \<and> reads q rest \<and> same_input p q))"

lemma skipsD:
  assumes "skips m t rest" "reads p (t @ rest)"
  obtains q where "skip_run m (json_next_token p) = Some (0, json_next_token q)" "reads q rest" "same_input p q"
  using assms unfolding skips_def by blast

text \<open>A value that was skipped started with a token of a value.\<close>

lemma skip_value_token:
  "skip_run Skip_value p = Some (0, q) \<Longrightarrow> p_current p \<in> {JSON_TOK_LBRACE, JSON_TOK_LBRACKET,
     JSON_TOK_STRING, JSON_TOK_NUMBER, JSON_TOK_TRUE, JSON_TOK_FALSE, JSON_TOK_NULL}"
  by (subst (asm) skip_run.simps) (auto split: if_splits)

lemma skips_scalar:
  assumes "\<And>p. reads p (t @ rest) \<Longrightarrow> \<exists>q. json_next_token p = q \<and> reads q rest \<and> same_input p q \<and>
     p_current q \<in> {JSON_TOK_STRING, JSON_TOK_NUMBER, JSON_TOK_TRUE, JSON_TOK_FALSE, JSON_TOK_NULL}"
  shows "skips Skip_value t rest"
  unfolding skips_def
proof (intro allI impI)
  fix p assume "reads p (t @ rest)"
  from assms [OF this] have q: "reads (json_next_token p) rest" "same_input p (json_next_token p)"
    "p_current (json_next_token p) \<in> {JSON_TOK_STRING, JSON_TOK_NUMBER, JSON_TOK_TRUE, JSON_TOK_FALSE, JSON_TOK_NULL}"
    by auto
  then have "skip_run Skip_value (json_next_token p) = Some (0, json_next_token (json_next_token p))"
    by (subst skip_run.simps) auto
  with q show "\<exists>q. skip_run Skip_value (json_next_token p) = Some (0, json_next_token q) \<and> reads q rest \<and> same_input p q"
    by blast
qed

lemma after_comma:
  assumes "reads q (if b then c # rest else CHR '','' # t)" "c \<noteq> CHR '',''" "c \<in> set '']}''"
  obtains r where "(if p_current (json_next_token q) = JSON_TOK_COMMA then json_next_token (json_next_token q)
      else json_next_token q) = json_next_token r" "reads r (if b then c # rest else t)" "same_input q r"
proof (cases b)
  case True
  with assms have "p_current (json_next_token q) \<noteq> JSON_TOK_COMMA"
    by (auto simp: lex_char)
  with True assms show ?thesis by (intro that [of q]) (auto simp: same_input_def)
next
  case False
  with assms have "reads q (CHR '','' # t)" by simp
  note l = lex_char(6) [OF this refl] and r = reads_take_char [OF this, of JSON_TOK_COMMA]
  from l r False show ?thesis by (intro that [of "take_char q JSON_TOK_COMMA"]) (auto simp: same_input_def)
qed

lemma skips_array_items:
  assumes "\<And>v rest. v \<in> set vs \<Longrightarrow> delim rest \<Longrightarrow> skips Skip_value (ser v) rest"
  shows "skips Skip_array (join_comma (map ser vs) @ '']'') rest"
  using assms
proof (induction vs)
  case Nil
  show ?case
    unfolding skips_def
  proof (intro allI impI)
    fix p assume "reads p ((join_comma (map ser []) @ '']'') @ rest)"
    then have r: "reads p (CHR '']'' # rest)" by simp
    have "skip_run Skip_array (json_next_token p) = Some (0, json_next_token (take_char p JSON_TOK_RBRACKET))"
      using lex_char(4) [OF r refl] by (subst skip_run.simps) simp
    with reads_take_char [OF r] show "\<exists>q. skip_run Skip_array (json_next_token p) = Some (0, json_next_token q) \<and> reads q rest \<and> same_input p q"
      by (intro exI [of _ "take_char p JSON_TOK_RBRACKET"]) (simp add: same_input_def)
  qed
next
  case (Cons v vs)
  let ?tail = "if vs = [] then CHR '']'' # rest else CHR '','' # join_comma (map ser vs) @ '']'' @ rest"
  show ?case
    unfolding skips_def
  proof (intro allI impI)
    fix p assume "reads p ((join_comma (map ser (v # vs)) @ '']'') @ rest)"
    then have reads: "reads p (ser v @ ?tail)" by (auto simp: join_comma_Cons simp del: join_comma.simps)
    have "skips Skip_value (ser v) ?tail" by (rule Cons.prems) (auto simp: delim_def)
    from skipsD [OF this reads] obtain q where
      q: "skip_run Skip_value (json_next_token p) = Some (0, json_next_token q)"
        "reads q ?tail" "same_input p q" .
    obtain r where r: "(if p_current (json_next_token q) = JSON_TOK_COMMA then json_next_token (json_next_token q)
        else json_next_token q) = json_next_token r" "same_input q r"
      "reads r (if vs = [] then CHR '']'' # rest else join_comma (map ser vs) @ '']'' @ rest)"
      by (rule after_comma [OF q(2)]) auto
    then have "reads r ((join_comma (map ser vs) @ '']'') @ rest)" by (auto split: if_splits)
    then obtain s where s: "skip_run Skip_array (json_next_token r) = Some (0, json_next_token s)"
      "reads s rest" "same_input r s" using skipsD [OF Cons.IH [OF Cons.prems]] by auto
    have "skip_run Skip_array (json_next_token p) = Some (0, json_next_token s)"
      using q(1) r(1) s(1) skip_value_token [OF q(1)] by (subst skip_run.simps) auto
    with q r s show "\<exists>q. skip_run Skip_array (json_next_token p) = Some (0, json_next_token q) \<and> reads q rest \<and> same_input p q"
      by (blast intro: same_input_trans)
  qed
qed

abbreviation ser_member :: "string \<times> jval \<Rightarrow> string" where
  "ser_member kv \<equiv> quoted (fst kv) @ CHR '':'' # ser (snd kv)"

lemma ser_JObj: "ser (JObj kvs) = CHR ''{'' # join_comma (map ser_member kvs) @ ''}''"
  by (simp add: case_prod_unfold)

text \<open>A key and its colon, the start of every member.\<close>

lemma lex_key:
  assumes "reads p (quoted k @ CHR '':'' # rest)" "key_text k"
  obtains q where "p_current (json_next_token p) = JSON_TOK_STRING" "p_string (json_next_token p) = take 1023 k"
    "json_next_token (json_next_token p) = take_char (json_next_token p) JSON_TOK_COLON"
    "q = take_char (json_next_token p) JSON_TOK_COLON" "reads q rest" "same_input p q"
proof -
  have k: "escape_str k = k" "plain_text k" using key_text_escape [OF assms(2)] by simp_all
  let ?p = "json_next_token p"
  have p: "?p = p\<lparr>p_pos := p_pos p + length (quoted k), p_string := take 1023 k, p_current := JSON_TOK_STRING\<rparr>"
    using lex_string [of p k] assms(1) k by (simp add: plain_text_def)
  have "reads ?p (CHR '':'' # rest)" using unread_append(2) [OF assms(1)] by (simp add: p)
  note c = lex_char(5) [OF this refl] and r = reads_take_char [OF this, of JSON_TOK_COLON]
  show thesis by (rule that [OF _ _ c refl r]) (simp_all add: p same_input_def)
qed

lemma skips_object_members:
  assumes "\<And>kv rest. kv \<in> set kvs \<Longrightarrow> delim rest \<Longrightarrow> key_text (fst kv) \<and> skips Skip_value (ser (snd kv)) rest"
  shows "skips Skip_object (join_comma (map ser_member kvs) @ ''}'') rest"
  using assms
proof (induction kvs)
  case Nil
  show ?case
    unfolding skips_def
  proof (intro allI impI)
    fix p assume "reads p ((join_comma (map ser_member []) @ ''}'') @ rest)"
    then have r: "reads p (CHR ''}'' # rest)" by simp
    have "skip_run Skip_object (json_next_token p) = Some (0, json_next_token (take_char p JSON_TOK_RBRACE))"
      using lex_char(2) [OF r refl] by (subst skip_run.simps) simp
    with reads_take_char [OF r] show "\<exists>q. skip_run Skip_object (json_next_token p) = Some (0, json_next_token q) \<and> reads q rest \<and> same_input p q"
      by (intro exI [of _ "take_char p JSON_TOK_RBRACE"]) (simp add: same_input_def)
  qed
next
  case (Cons kv kvs)
  let ?tail = "if kvs = [] then CHR ''}'' # rest else CHR '','' # join_comma (map ser_member kvs) @ ''}'' @ rest"
  have kv: "key_text (fst kv)" "skips Skip_value (ser (snd kv)) ?tail"
    using Cons.prems [of kv ?tail] by (auto simp: delim_def)
  show ?case
    unfolding skips_def
  proof (intro allI impI)
    fix p assume "reads p ((join_comma (map ser_member (kv # kvs)) @ ''}'') @ rest)"
    then have "reads p (quoted (fst kv) @ CHR '':'' # ser (snd kv) @ ?tail)"
      by (auto simp: join_comma_Cons simp del: join_comma.simps)
    from lex_key [OF this kv(1)] obtain p' where p': "p_current (json_next_token p) = JSON_TOK_STRING"
      "json_next_token (json_next_token p) = take_char (json_next_token p) JSON_TOK_COLON"
      "p' = take_char (json_next_token p) JSON_TOK_COLON" "reads p' (ser (snd kv) @ ?tail)" "same_input p p'" by metis
    from skipsD [OF kv(2) p'(4)] obtain q where
      q: "skip_run Skip_value (json_next_token p') = Some (0, json_next_token q)"
        "reads q ?tail" "same_input p' q" .
    obtain r where r: "(if p_current (json_next_token q) = JSON_TOK_COMMA then json_next_token (json_next_token q)
        else json_next_token q) = json_next_token r" "same_input q r"
      "reads r (if kvs = [] then CHR ''}'' # rest else join_comma (map ser_member kvs) @ ''}'' @ rest)"
      by (rule after_comma [OF q(2)]) auto
    then have "reads r ((join_comma (map ser_member kvs) @ ''}'') @ rest)" by (auto split: if_splits)
    then obtain s where s: "skip_run Skip_object (json_next_token r) = Some (0, json_next_token s)"
      "reads s rest" "same_input r s" using skipsD [OF Cons.IH [OF Cons.prems]] by auto
    have "skip_run Skip_object (json_next_token p) = Some (0, json_next_token s)"
      using p'(1-3) q(1) r(1) s(1) by (subst skip_run.simps) (auto simp: Let_def)
    with p' q r s show "\<exists>q. skip_run Skip_object (json_next_token p) = Some (0, json_next_token q) \<and> reads q rest \<and> same_input p q"
      by (blast intro: same_input_trans)
  qed
qed

lemma skips_bracketed:
  assumes "skips m t rest" "c = CHR ''{'' \<and> m = Skip_object \<or> c = CHR ''['' \<and> m = Skip_array"
  shows "skips Skip_value (c # t) rest"
  unfolding skips_def
proof (intro allI impI)
  fix p assume "reads p ((c # t) @ rest)"
  then have r: "reads p (c # t @ rest)" by simp
  define tok where "tok = (if c = CHR ''{'' then JSON_TOK_LBRACE else JSON_TOK_LBRACKET)"
  have nx: "json_next_token p = take_char p tok"
    using assms(2) lex_char(1,3) [OF r] by (auto simp: tok_def)
  from skipsD [OF assms(1) reads_take_char [OF r, of tok]] obtain q where
    q: "skip_run m (json_next_token (take_char p tok)) = Some (0, json_next_token q)" "reads q rest"
      "same_input (take_char p tok) q" .
  have "skip_run Skip_value (json_next_token p) = Some (0, json_next_token q)"
    using nx assms(2) q(1) by (subst skip_run.simps) (auto simp: tok_def)
  with q show "\<exists>q. skip_run Skip_value (json_next_token p) = Some (0, json_next_token q) \<and> reads q rest \<and> same_input p q"
    by (auto simp: same_input_def)
qed

lemma skips_ser:
  "wf_doc v \<Longrightarrow> delim rest \<Longrightarrow> skips Skip_value (ser v) rest"
proof (induction v arbitrary: rest)
  case (JStr s)
  then have "\<exists>q. json_next_token p = q \<and> reads q rest \<and> same_input p q \<and> p_current q = JSON_TOK_STRING"
    if "reads p (ser (JStr s) @ rest)" for p
    using that lex_string [of p s rest] unread_append(2) [OF that] plain_not_NUL [of s]
    by (simp add: cstr_of_id plain_text_def same_input_def)
  then show ?case by (intro skips_scalar) auto
next
  case (JInt i)
  then have "\<exists>q. json_next_token p = q \<and> reads q rest \<and> same_input p q \<and> p_current q = JSON_TOK_NUMBER"
    if "reads p (ser (JInt i) @ rest)" for p
    using that lex_int [of p i rest] unread_append(2) [OF that]
    by (simp add: same_input_def)
  then show ?case by (intro skips_scalar) auto
next
  case JNull
  have "\<exists>q. json_next_token p = q \<and> reads q rest \<and> same_input p q \<and> p_current q = JSON_TOK_NULL"
    if "reads p (''null'' @ rest)" for p
    using lex_literal(3) [OF that refl] unread_append(2) [OF that] by (simp add: same_input_def eval_nat_numeral)
  then show ?case by (intro skips_scalar) auto
next
  case (JBool b)
  have "\<exists>q. json_next_token p = q \<and> reads q rest \<and> same_input p q \<and> p_current q = JSON_TOK_TRUE"
    if "reads p (''true'' @ rest)" for p
    using lex_literal(1) [OF that refl] unread_append(2) [OF that] by (simp add: same_input_def eval_nat_numeral)
  moreover have "\<exists>q. json_next_token p = q \<and> reads q rest \<and> same_input p q \<and> p_current q = JSON_TOK_FALSE"
    if "reads p (''false'' @ rest)" for p
    using lex_literal(2) [OF that refl] unread_append(2) [OF that] by (simp add: same_input_def eval_nat_numeral)
  ultimately show ?case by (cases b) (auto intro!: skips_scalar)
next
  case (JRaw t)
  then show ?case by simp
next
  case (JArr vs)
  then have "skips Skip_array (join_comma (map ser vs) @ '']'') rest"
    by (intro skips_array_items) simp
  then show ?case using skips_bracketed by fastforce
next
  case (JObj kvs)
  then have "skips Skip_object (join_comma (map ser_member kvs) @ ''}'') rest"
    by (intro skips_object_members) (auto simp: snds.simps)
  then show ?case unfolding ser_JObj using skips_bracketed by fastforce
qed

section \<open>Results\<close>

text \<open>The parser set to a text and its first token loaded, as every caller does.\<close>

definition parser_on :: "string \<Rightarrow> json_parser" where
  "parser_on text = json_next_token (json_parser_init text (length text))"

lemma reads_init: "reads (json_parser_init text (length text)) text"
  by (simp add: json_parser_init_def unread_all)



text \<open>
  \<^bold>\<open>C20.\<close> String round trip: a string of at most 1,023 characters, none of them a dropped
  control character, written by \<^verbatim>\<open>json_write_string\<close> and read by
  \<^verbatim>\<open>json_parse_string\<close> into a buffer that has room for it, comes back unchanged; a
  smaller buffer receives its first \<open>sz - 1\<close> characters.
\<close>

theorem json_string_roundtrip:
  assumes "plain_text s" "length s \<le> 1023"
  shows "\<exists>q. json_parse_string sz (parser_on (ser (JStr s))) = (0, Some (take (sz - 1) s), q)
     \<and> p_current q = JSON_TOK_EOF"
proof -
  define p where "p = json_parser_init (ser (JStr s)) (length (ser (JStr s)))"
  note reads_p = reads_init [of "ser (JStr s)", folded p_def]
  have s: "cstr_of s = s" using plain_not_NUL [OF assms(1)] by (simp add: cstr_of_id)
  have r: "reads p (quoted (escape_str s) @ [])" using reads_p by (simp add: s)
  have n: "json_next_token p = p\<lparr>p_pos := p_pos p + length (quoted (escape_str s)),
      p_string := s, p_current := JSON_TOK_STRING\<rparr>"
    using lex_string [OF r] assms by (simp add: plain_text_def)
  have "reads (json_next_token p) []" using unread_append(2) [OF r] by (simp add: n)
  moreover have "cstr_of (take (sz - 1) s) = take (sz - 1) s"
    using plain_not_NUL [OF assms(1)] by (meson cstr_of_id in_set_takeD)
  ultimately show ?thesis
    using lex_end [of "json_next_token p"]
    by (auto simp: json_parse_string_def parser_on_def n simp del: ser.simps simp flip: p_def)
qed

theorem json_string_roundtrip_witness:
  "\<exists>q. json_parse_string 16 (parser_on (ser (JStr [CHR ''a'', LF, QUOTE]))) = (0, Some [CHR ''a'', LF, QUOTE], q)"
  using json_string_roundtrip [of "[CHR ''a'', LF, QUOTE]" 16]
  by (auto simp: plain_text_def plain_char_def escape_char_def uchar_def)

text \<open>
  Integer round trip: every \<^verbatim>\<open>int\<close>, written by
  \<^verbatim>\<open>json_write_int\<close> and read back through the \<^verbatim>\<open>double\<close> arithmetic of
  \<^verbatim>\<open>parse_number\<close> and the cast of \<^verbatim>\<open>json_parse_int\<close>, comes back
  unchanged.
\<close>

theorem json_int_roundtrip:
  assumes "int_min \<le> i" "i \<le> int_max"
  shows "\<exists>q. json_parse_int (parser_on (ser (JInt i))) = (0, Some i, q) \<and> p_current q = JSON_TOK_EOF"
proof -
  define p where "p = json_parser_init (ser (JInt i)) (length (ser (JInt i)))"
  note reads_p = reads_init [of "ser (JInt i)", folded p_def]
  have r: "reads p (int_text (word_of_int i) @ [])" using reads_p by simp
  have n: "json_next_token p = p\<lparr>p_pos := p_pos p + length (int_text (word_of_int i)),
      p_number := Fin (of_int i), p_current := JSON_TOK_NUMBER\<rparr>"
    using lex_int [OF r assms] by (simp add: delim_def)
  have "reads (json_next_token p) []" using unread_append(2) [OF r] by (simp add: n)
  from lex_end [OF this] show ?thesis
    using f_to_int_of_int [OF assms]
    by (simp add: json_parse_int_def parser_on_def n del: f_to_int.simps ser.simps flip: p_def)
qed

theorem json_int_roundtrip_witness:
  "\<exists>q. json_parse_int (parser_on (ser (JInt (- 2147483648)))) = (0, Some (- 2147483648), q)"
  using json_int_roundtrip [of "- 2147483648"] by (auto simp: int_min_def int_max_def)

end
