(* ===== verification/JsonDoc.thy ===== *)
theory JsonDoc
  imports JsonWriter
begin

text \<open>
  Facts on whole documents that the API handlers share: how long the text of a document can get,
  that it has no string terminator inside, and when a sequence of writer calls writes a document.
\<close>

fun text_bound :: "jval \<Rightarrow> nat" where
  "text_bound (JStr s) = 2 * length s + 2"
| "text_bound (JInt i) = 11"
| "text_bound JNull = 4"
| "text_bound (JBool b) = 5"
| "text_bound (JRaw t) = length t"
| "text_bound (JArr vs) = sum_list (map (\<lambda>v. text_bound v + 1) vs) + 2"
| "text_bound (JObj kvs) = sum_list (map (\<lambda>(k, v). length k + 4 + text_bound v) kvs) + 2"

lemma length_join_comma: "length (join_comma ts) \<le> sum_list (map (\<lambda>t. length t + 1) ts)"
proof -
  have "length (concat (map (\<lambda>u. CHR '','' # u) ts)) = sum_list (map (\<lambda>t. length t + 1) ts)" for ts
    by (induction ts) simp_all
  then show ?thesis by (cases ts) simp_all
qed

lemma length_ser: "length (ser v) \<le> text_bound v"
proof (induction v rule: ser.induct)
  case (1 s)
  show ?case
    using length_escape_str [of "cstr_of s"] length_cstr_of_le [of s] by (simp add: quoted_def)
next
  case (6 vs)
  have "sum_list (map (\<lambda>t. length t + 1) (map ser vs)) \<le> sum_list (map (\<lambda>v. text_bound v + 1) vs)"
    unfolding map_map using 6 by (intro sum_list_mono) auto
  with length_join_comma [of "map ser vs"] show ?case by simp
next
  case (7 kvs)
  let ?t = "\<lambda>(k, v). quoted k @ '':'' @ ser v"
  have "sum_list (map (\<lambda>t. length t + 1) (map ?t kvs)) \<le> sum_list (map (\<lambda>(k, v). length k + 4 + text_bound v) kvs)"
    unfolding map_map using 7 by (intro sum_list_mono) (fastforce simp: quoted_def)
  with length_join_comma [of "map ?t kvs"] show ?case by simp
qed (simp_all add: length_int_text_le)

text \<open>Documents whose keys and raw texts have no terminator.\<close>

fun clean :: "jval \<Rightarrow> bool" where
  "clean (JRaw t) \<longleftrightarrow> NUL \<notin> set t"
| "clean (JArr vs) \<longleftrightarrow> (\<forall>v \<in> set vs. clean v)"
| "clean (JObj kvs) \<longleftrightarrow> (\<forall>(k, v) \<in> set kvs. NUL \<notin> set k \<and> clean v)"
| "clean v \<longleftrightarrow> True"

lemma NUL_notin_escape_str: "NUL \<notin> set (escape_str s)"
proof -
  have "NUL \<notin> set e" if "escape_char c = Some e" for c e
    using that by (auto simp: escape_char_def uchar_def split: if_splits)
  then show ?thesis by (auto simp: escape_str_def split: option.splits)
qed

lemma set_join_comma: "set (join_comma ts) \<subseteq> insert CHR '','' (\<Union> (set ` set ts))"
  by (cases ts) auto

lemma NUL_notin_join_comma: "(\<And>t. t \<in> set ts \<Longrightarrow> NUL \<notin> set t) \<Longrightarrow> NUL \<notin> set (join_comma ts)"
  using set_join_comma [of ts] by auto

lemma NUL_notin_ser: "clean v \<Longrightarrow> NUL \<notin> set (ser v)"
proof (induction v rule: ser.induct)
  case (6 vs)
  have "NUL \<notin> set (join_comma (map ser vs))"
    using 6 by (intro NUL_notin_join_comma) auto
  then show ?case by simp
next
  case (7 kvs)
  have "NUL \<notin> set (quoted k @ '':'' @ ser v)" if "(k, v) \<in> set kvs" for k v
    using 7(1) [OF that refl] 7(2) that by (auto simp: quoted_def)
  then have "NUL \<notin> set (join_comma (map (\<lambda>(k, v). quoted k @ '':'' @ ser v) kvs))"
    by (intro NUL_notin_join_comma) auto
  then show ?case by simp
qed (simp_all add: quoted_def NUL_notin_escape_str NUL_notin_int_text)

lemma NUL_notin_float_text: "NUL \<notin> set (float_text v)"
  by (simp add: float_text_def Let_def NUL_notin_int_text)

lemma length_float_text: "length (float_text v) \<le> 23"
  using length_int_text_le [of "word_of_int (f_to_int v)"]
    length_int_text_le [of "word_of_int (trim_zeros (float_fracpart v))"]
  by (simp add: float_text_def Let_def)

section \<open>Calls that write a document\<close>

definition writes_doc :: "jop \<Rightarrow> jval \<Rightarrow> bool" where
  "writes_doc f v \<longleftrightarrow> (\<exists>d. writes True f (ser v) True d)"

lemma writes_docI: "writes True f t True d \<Longrightarrow> t = ser v \<Longrightarrow> writes_doc f v"
  by (auto simp: writes_doc_def)

lemma writes_docD:
  "writes_doc f v \<Longrightarrow> length (ser v) < sz \<Longrightarrow> w_out (snd (f (json_writer_init sz))) = ser v"
  by (auto simp: writes_doc_def json_writer_init_def sep_if_def
      dest!: writesD [of True f _ _ _ "json_writer_init sz"])

lemmas doc_text = member_text_def ser.simps(6,7) list.map prod.case join_comma.simps concat.simps append_assoc
  sep_if_def append_Cons append_Nil simp_thms if_True if_False append_Nil2

end
