(* ===== verification/ApiParse.thy ===== *)
theory ApiParse
  imports JsonRoundTrip
begin

text \<open>
  The request types of \<^verbatim>\<open>include/api_types.h\<close> and their parsers in
  \<^verbatim>\<open>src/api_v1.c\<close>.

  The five parsers share one loop over the members of an object, written out in each C function and
  here once, with the field dispatch as its argument; so does the loop over a chat message, with a
  shorter key buffer. Returning -1 is \<^term>\<open>Inl Reject\<close>; not returning at all would be
  \<^term>\<open>None\<close>. A character array field is its content, an array with a count its used
  part (the count is its length).
\<close>

datatype parse_error = Reject

type_synonym 'r parsed = "(parse_error + 'r \<times> json_parser) option"

abbreviation reject :: "'r parsed" where
  "reject \<equiv> Some (Inl Reject)"

abbreviation accept :: "'r \<Rightarrow> json_parser \<Rightarrow> 'r parsed" where
  "accept r p \<equiv> Some (Inr (r, p))"

section \<open>Limits and defaults\<close>

definition MAX_PROMPT_LENGTH :: nat where [simp]: "MAX_PROMPT_LENGTH = 4096"
definition MAX_TOKENS :: nat where [simp]: "MAX_TOKENS = 2048"
definition MAX_CHAT_MESSAGES :: nat where [simp]: "MAX_CHAT_MESSAGES = 32"
definition MAX_MODEL_ID_LENGTH :: nat where [simp]: "MAX_MODEL_ID_LENGTH = 64"
definition MAX_GENERATION_TOKENS :: int where [simp]: "MAX_GENERATION_TOKENS = 512"
definition DEFAULT_MAX_TOKENS :: int where [simp]: "DEFAULT_MAX_TOKENS = 64"
definition DEFAULT_TEMPERATURE :: fval where [simp]: "DEFAULT_TEMPERATURE = f32 (8 / 10)"
definition DEFAULT_TOP_P :: fval where [simp]: "DEFAULT_TOP_P = f32 (95 / 100)"
definition DEFAULT_TOP_K :: int where [simp]: "DEFAULT_TOP_K = 40"
definition DEFAULT_FREQ_PENALTY :: fval where [simp]: "DEFAULT_FREQ_PENALTY = Fin 0"
definition DEFAULT_PRES_PENALTY :: fval where [simp]: "DEFAULT_PRES_PENALTY = Fin 0"
definition DEFAULT_SEED :: int where [simp]: "DEFAULT_SEED = - 1"

lemmas limits = MAX_PROMPT_LENGTH_def MAX_MODEL_ID_LENGTH_def MAX_GENERATION_TOKENS_def

section \<open>Request types\<close>

record completion_request =
  cr_prompt :: string
  cr_model :: string
  cr_max_tokens :: int
  cr_temperature :: fval
  cr_top_p :: fval
  cr_top_k :: int
  cr_frequency_penalty :: fval
  cr_presence_penalty :: fval
  cr_stop :: "string list"
  cr_stream :: bool
  cr_seed :: int
  cr_echo :: bool
  cr_n :: int

record chat_message =
  m_role :: string
  m_content :: string

record chat_request =
  ch_messages :: "chat_message list"
  ch_model :: string
  ch_max_tokens :: int
  ch_temperature :: fval
  ch_top_p :: fval
  ch_top_k :: int
  ch_frequency_penalty :: fval
  ch_presence_penalty :: fval
  ch_stop :: "string list"
  ch_stream :: bool
  ch_seed :: int
  ch_n :: int

record embedding_request =
  e_input :: string
  e_model :: string

record tokenize_request =
  t_content :: string
  add_special :: bool

record detokenize_request =
  d_tokens :: "int list"

definition completion_request_init :: completion_request where
  "completion_request_init =
     \<lparr>cr_prompt = [], cr_model = [], cr_max_tokens = DEFAULT_MAX_TOKENS, cr_temperature = DEFAULT_TEMPERATURE,
      cr_top_p = DEFAULT_TOP_P, cr_top_k = DEFAULT_TOP_K, cr_frequency_penalty = DEFAULT_FREQ_PENALTY,
      cr_presence_penalty = DEFAULT_PRES_PENALTY, cr_stop = [], cr_stream = False, cr_seed = DEFAULT_SEED, cr_echo = False, cr_n = 1\<rparr>"

definition chat_completion_request_init :: chat_request where
  "chat_completion_request_init =
     \<lparr>ch_messages = [], ch_model = [], ch_max_tokens = DEFAULT_MAX_TOKENS, ch_temperature = DEFAULT_TEMPERATURE,
      ch_top_p = DEFAULT_TOP_P, ch_top_k = DEFAULT_TOP_K, ch_frequency_penalty = DEFAULT_FREQ_PENALTY,
      ch_presence_penalty = DEFAULT_PRES_PENALTY, ch_stop = [], ch_stream = False, ch_seed = DEFAULT_SEED, ch_n = 1\<rparr>"

definition embedding_request_init :: embedding_request where
  "embedding_request_init = \<lparr>e_input = [], e_model = []\<rparr>"

definition tokenize_request_init :: tokenize_request where
  "tokenize_request_init = \<lparr>t_content = [], add_special = True\<rparr>"

definition detokenize_request_init :: detokenize_request where
  "detokenize_request_init = \<lparr>d_tokens = []\<rparr>"

text \<open>The error type has an initializer too; the responses are written without it.\<close>

record api_error =
  ae_message :: string
  ae_type :: string
  ae_param :: string
  ae_code :: string

definition api_error_init :: api_error where
  "api_error_init = \<lparr>ae_message = [], ae_type = [], ae_param = [], ae_code = []\<rparr>"

section \<open>Members of an object\<close>

text \<open>Reading one field: \<^verbatim>\<open>if (json_parse_...(&p, &req->field) != 0) return -1\<close>.\<close>

definition take_field ::
  "(json_parser \<Rightarrow> int \<times> 'v option \<times> json_parser) \<Rightarrow> ('v \<Rightarrow> 'r \<Rightarrow> 'r) \<Rightarrow> 'r \<Rightarrow> json_parser \<Rightarrow> 'r parsed" where
  "take_field reader store r p =
     (let (rc, v, p) = reader p
      in if rc \<noteq> 0 then reject else accept (case v of Some v \<Rightarrow> store v r | None \<Rightarrow> r) p)"

definition skip_field :: "'r \<Rightarrow> json_parser \<Rightarrow> 'r parsed" where
  "skip_field r p =
     Option.bind (json_skip_value p) (\<lambda>(rc, p). if rc \<noteq> 0 then reject else accept r p)"

definition skip_comma :: "json_parser \<Rightarrow> json_parser" where
  "skip_comma p = (if p_current p = JSON_TOK_COMMA then json_next_token p else p)"

text \<open>The loop over the members; \<open>ksz\<close> is the size of the key buffer.\<close>

partial_function (option) members ::
  "nat \<Rightarrow> (string \<Rightarrow> 'r \<Rightarrow> json_parser \<Rightarrow> 'r parsed) \<Rightarrow> 'r \<Rightarrow> json_parser \<Rightarrow> 'r parsed" where
  "members ksz field r p =
     (if p_current p = JSON_TOK_RBRACE \<or> p_current p = JSON_TOK_EOF then accept r p
      else if p_current p \<noteq> JSON_TOK_STRING then reject
      else let (rc, key, p) = json_parse_string ksz p in
        if rc \<noteq> 0 then reject
        else if p_current p \<noteq> JSON_TOK_COLON then reject
        else Option.bind (field (the key) r (json_next_token p))
               (\<lambda>res. case res of Inl e \<Rightarrow> Some (Inl e)
                       | Inr (r, p) \<Rightarrow> members ksz field r (skip_comma p)))"

definition parse_object ::
  "(string \<Rightarrow> 'r \<Rightarrow> json_parser \<Rightarrow> 'r parsed) \<Rightarrow> 'r \<Rightarrow> string \<Rightarrow> nat \<Rightarrow> 'r parsed" where
  "parse_object field r body len =
     (let p = json_next_token (json_parser_init body len)
      in if p_current p \<noteq> JSON_TOK_LBRACE then reject
         else members 64 field r (json_next_token p))"

section \<open>The parsers\<close>

definition clamp_max_tokens :: "int \<Rightarrow> int" where
  "clamp_max_tokens n = (if n < 0 \<or> MAX_GENERATION_TOKENS < n then MAX_GENERATION_TOKENS else n)"

definition completion_field ::
  "string \<Rightarrow> completion_request \<Rightarrow> json_parser \<Rightarrow> completion_request parsed" where
  "completion_field key =
     (if str_eq key ''prompt'' then take_field (json_parse_string MAX_PROMPT_LENGTH) (\<lambda>v. cr_prompt_update (\<lambda>_. v))
      else if str_eq key ''model'' then take_field (json_parse_string MAX_MODEL_ID_LENGTH) (\<lambda>v. cr_model_update (\<lambda>_. v))
      else if str_eq key ''max_tokens''
      then take_field json_parse_int (\<lambda>v. cr_max_tokens_update (\<lambda>_. clamp_max_tokens v))
      else if str_eq key ''temperature''
      then take_field json_parse_number (\<lambda>v. cr_temperature_update (\<lambda>_. f_to_f32 v))
      else if str_eq key ''top_p'' then take_field json_parse_number (\<lambda>v. cr_top_p_update (\<lambda>_. f_to_f32 v))
      else if str_eq key ''top_k'' then take_field json_parse_int (\<lambda>v. cr_top_k_update (\<lambda>_. v))
      else if str_eq key ''frequency_penalty''
      then take_field json_parse_number (\<lambda>v. cr_frequency_penalty_update (\<lambda>_. f_to_f32 v))
      else if str_eq key ''presence_penalty''
      then take_field json_parse_number (\<lambda>v. cr_presence_penalty_update (\<lambda>_. f_to_f32 v))
      else if str_eq key ''stream'' then take_field json_parse_bool (\<lambda>v. cr_stream_update (\<lambda>_. v))
      else if str_eq key ''seed'' then take_field json_parse_int (\<lambda>v. cr_seed_update (\<lambda>_. v))
      else if str_eq key ''echo'' then take_field json_parse_bool (\<lambda>v. cr_echo_update (\<lambda>_. v))
      else if str_eq key ''n'' then take_field json_parse_int (\<lambda>v. cr_n_update (\<lambda>_. v))
      else skip_field)"

definition parse_completion_request :: "string \<Rightarrow> nat \<Rightarrow> completion_request parsed" where
  "parse_completion_request = parse_object completion_field completion_request_init"

definition message_field :: "string \<Rightarrow> chat_message \<Rightarrow> json_parser \<Rightarrow> chat_message parsed" where
  "message_field key =
     (if str_eq key ''role'' then take_field (json_parse_string 16) (\<lambda>v. m_role_update (\<lambda>_. v))
      else if str_eq key ''content'' then take_field (json_parse_string MAX_PROMPT_LENGTH) (\<lambda>v. m_content_update (\<lambda>_. v))
      else skip_field)"

partial_function (option) message_loop :: "chat_message list \<Rightarrow> json_parser \<Rightarrow> chat_message list parsed" where
  "message_loop ms p =
     (if p_current p = JSON_TOK_RBRACKET \<or> p_current p = JSON_TOK_EOF then accept ms p
      else if MAX_CHAT_MESSAGES \<le> length ms then accept ms p
      else if p_current p \<noteq> JSON_TOK_LBRACE then reject
      else Option.bind (members 32 message_field \<lparr>m_role = [], m_content = []\<rparr> (json_next_token p))
        (\<lambda>res. case res of Inl e \<Rightarrow> Some (Inl e)
           | Inr (m, p) \<Rightarrow>
               if p_current p = JSON_TOK_RBRACE then message_loop (ms @ [m]) (skip_comma (json_next_token p))
               else message_loop ms (skip_comma p)))"

definition after_array :: "json_parser \<Rightarrow> json_parser" where
  "after_array p = (if p_current p = JSON_TOK_RBRACKET then json_next_token p else p)"

definition messages_field :: "chat_request \<Rightarrow> json_parser \<Rightarrow> chat_request parsed" where
  "messages_field r p =
     (if p_current p \<noteq> JSON_TOK_LBRACKET then reject
      else Option.bind (message_loop (ch_messages r) (json_next_token p))
        (\<lambda>res. case res of Inl e \<Rightarrow> Some (Inl e)
           | Inr (ms, p) \<Rightarrow> accept (r\<lparr>ch_messages := ms\<rparr>) (after_array p)))"

definition chat_field :: "string \<Rightarrow> chat_request \<Rightarrow> json_parser \<Rightarrow> chat_request parsed" where
  "chat_field key =
     (if str_eq key ''messages'' then messages_field
      else if str_eq key ''model'' then take_field (json_parse_string MAX_MODEL_ID_LENGTH) (\<lambda>v. ch_model_update (\<lambda>_. v))
      else if str_eq key ''max_tokens''
      then take_field json_parse_int (\<lambda>v. ch_max_tokens_update (\<lambda>_. clamp_max_tokens v))
      else if str_eq key ''temperature''
      then take_field json_parse_number (\<lambda>v. ch_temperature_update (\<lambda>_. f_to_f32 v))
      else if str_eq key ''top_p'' then take_field json_parse_number (\<lambda>v. ch_top_p_update (\<lambda>_. f_to_f32 v))
      else if str_eq key ''stream'' then take_field json_parse_bool (\<lambda>v. ch_stream_update (\<lambda>_. v))
      else skip_field)"

definition parse_chat_request :: "string \<Rightarrow> nat \<Rightarrow> chat_request parsed" where
  "parse_chat_request = parse_object chat_field chat_completion_request_init"

definition tokenize_field :: "string \<Rightarrow> tokenize_request \<Rightarrow> json_parser \<Rightarrow> tokenize_request parsed" where
  "tokenize_field key =
     (if str_eq key ''content'' then take_field (json_parse_string MAX_PROMPT_LENGTH) (\<lambda>v. t_content_update (\<lambda>_. v))
      else if str_eq key ''add_special'' then take_field json_parse_bool (\<lambda>v. add_special_update (\<lambda>_. v))
      else skip_field)"

definition parse_tokenize_request :: "string \<Rightarrow> nat \<Rightarrow> tokenize_request parsed" where
  "parse_tokenize_request = parse_object tokenize_field tokenize_request_init"

partial_function (option) token_loop :: "int list \<Rightarrow> json_parser \<Rightarrow> int list parsed" where
  "token_loop ts p =
     (if p_current p = JSON_TOK_RBRACKET \<or> p_current p = JSON_TOK_EOF then accept ts p
      else if MAX_TOKENS \<le> length ts then accept ts p
      else if p_current p = JSON_TOK_NUMBER then
        let (rc, token, p) = json_parse_int p
        in if rc \<noteq> 0 then reject else token_loop (ts @ [the token]) (skip_comma p)
      else reject)"

definition tokens_field :: "detokenize_request \<Rightarrow> json_parser \<Rightarrow> detokenize_request parsed" where
  "tokens_field r p =
     (if p_current p \<noteq> JSON_TOK_LBRACKET then reject
      else Option.bind (token_loop (d_tokens r) (json_next_token p))
        (\<lambda>res. case res of Inl e \<Rightarrow> Some (Inl e)
           | Inr (ts, p) \<Rightarrow> accept (r\<lparr>d_tokens := ts\<rparr>) (after_array p)))"

definition detokenize_field :: "string \<Rightarrow> detokenize_request \<Rightarrow> json_parser \<Rightarrow> detokenize_request parsed" where
  "detokenize_field key = (if str_eq key ''tokens'' then tokens_field else skip_field)"

definition parse_detokenize_request :: "string \<Rightarrow> nat \<Rightarrow> detokenize_request parsed" where
  "parse_detokenize_request = parse_object detokenize_field detokenize_request_init"

definition embedding_field :: "string \<Rightarrow> embedding_request \<Rightarrow> json_parser \<Rightarrow> embedding_request parsed" where
  "embedding_field key =
     (if str_eq key ''input'' then take_field (json_parse_string MAX_PROMPT_LENGTH) (\<lambda>v. e_input_update (\<lambda>_. v))
      else if str_eq key ''model'' then take_field (json_parse_string MAX_MODEL_ID_LENGTH) (\<lambda>v. e_model_update (\<lambda>_. v))
      else skip_field)"

definition parse_embedding_request :: "string \<Rightarrow> nat \<Rightarrow> embedding_request parsed" where
  "parse_embedding_request = parse_object embedding_field embedding_request_init"

section \<open>Every parser returns\<close>

text \<open>A result that is a value, within the invariant, and further on in the input.\<close>

definition handled :: "('r \<Rightarrow> bool) \<Rightarrow> json_parser \<Rightarrow> 'r parsed \<Rightarrow> bool" where
  "handled I p res \<longleftrightarrow>
     (case res of None \<Rightarrow> False | Some (Inl e) \<Rightarrow> True | Some (Inr (r, q)) \<Rightarrow> I r \<and> moves_on p q)"

lemma handled_simps [simp]:
  "handled I p reject" "handled I p (accept r q) \<longleftrightarrow> I r \<and> moves_on p q" "\<not> handled I p None"
  by (simp_all add: handled_def)

lemma handled_mono: "handled I q res \<Longrightarrow> moves_on p q \<Longrightarrow> handled I p res"
  by (auto simp: handled_def split: option.splits sum.splits intro: moves_on_trans)

lemma handled_cases:
  assumes "handled I p res"
  obtains "res = reject" | r q where "res = accept r q" "I r" "moves_on p q"
proof -
  have "e = Reject" for e by (cases e) simp
  with assms that show thesis by (auto simp: handled_def split: option.splits sum.splits)
qed

lemma handled_bind:
  assumes "handled J p x" "\<And>r q. J r \<Longrightarrow> moves_on p q \<Longrightarrow> handled I p' (k r q)"
  shows "handled I p' (Option.bind x (\<lambda>res. case res of Inl e \<Rightarrow> Some (Inl e) | Inr (r, q) \<Rightarrow> k r q))"
  using assms(1) by (rule handled_cases) (simp_all add: assms(2))

abbreviation small_string :: "json_parser \<Rightarrow> bool" where
  "small_string p \<equiv> length (p_string p) \<le> 1023"

lemma moves_on_small: "moves_on p q \<Longrightarrow> small_string p \<Longrightarrow> small_string q"
  by (simp add: moves_on_def)

lemma moves_on_skip_comma: "moves_on p (skip_comma p)"
  unfolding skip_comma_def by (rule moves_on_comma)

lemma moves_on_after_array: "moves_on p (after_array p)"
  by (simp add: after_array_def moves_on_next not_stopped_token)

lemma handled_string:
  assumes "\<And>v. length v \<le> min 1023 (sz - 1) \<Longrightarrow> NUL \<notin> set v \<Longrightarrow> I (store v r)" "small_string p"
  shows "handled I p (take_field (json_parse_string sz) store r p)"
proof -
  have "length (cstr_of (take (sz - 1) (p_string p))) \<le> min 1023 (sz - 1)"
    using length_cstr_of_le [of "take (sz - 1) (p_string p)"] assms(2) by simp
  with assms(1) show ?thesis
    by (auto simp: take_field_def json_parse_string_def moves_on_next not_stopped_token)
qed

lemma handled_int:
  assumes "\<And>v. int_min \<le> v \<Longrightarrow> v \<le> int_max \<Longrightarrow> I (store v r)"
  shows "handled I p (take_field json_parse_int store r p)"
  using assms f_to_int_range
  by (auto simp: take_field_def json_parse_int_def moves_on_next not_stopped_token)

lemma handled_number:
  assumes "\<And>v. I (store v r)"
  shows "handled I p (take_field json_parse_number store r p)"
  using assms by (auto simp: take_field_def json_parse_number_def moves_on_next not_stopped_token)

lemma handled_bool:
  assumes "\<And>v. I (store v r)"
  shows "handled I p (take_field json_parse_bool store r p)"
  using assms by (auto simp: take_field_def json_parse_bool_def moves_on_next not_stopped_token)

lemma handled_skip: "I r \<Longrightarrow> handled I p (skip_field r p)"
  using skip_run_returns [of Skip_value p] by (auto simp: skip_field_def json_skip_value_def)

lemma handled_if:
  "(b \<Longrightarrow> handled I p (f r p)) \<Longrightarrow> (\<not> b \<Longrightarrow> handled I p (g r p)) \<Longrightarrow> handled I p ((if b then f else g) r p)"
  by simp

lemmas handled_fields = handled_if handled_string handled_int handled_number handled_bool handled_skip

text \<open>
  The contract between the member loop and the dispatch of one parser: every field is handled within
  the invariant of the request.
\<close>

locale field_handler =
  fixes field :: "string \<Rightarrow> 'r \<Rightarrow> json_parser \<Rightarrow> 'r parsed"
    and I :: "'r \<Rightarrow> bool"
  assumes handles: "I r \<Longrightarrow> small_string p \<Longrightarrow> handled I p (field k r p)"
begin

lemma members_handled: "I r \<Longrightarrow> small_string p \<Longrightarrow> handled I p (members ksz field r p)"
proof (induction "left_of p" arbitrary: p r rule: less_induct)
  case less
  let ?q = "json_next_token (json_next_token p)"
  show ?case
  proof (cases "p_current p = JSON_TOK_STRING \<and> p_current (json_next_token p) = JSON_TOK_COLON")
    case True
    have q: "moves_past p ?q"
      using moves_past_on [OF moves_past_next moves_on_next] True by (simp add: not_stopped_token)
    then have small: "small_string ?q" by (metis less.prems(2) moves_on_small moves_past_imp)
    let ?key = "cstr_of (take (ksz - 1) (p_string p))"
    have "handled I p (members ksz field s (skip_comma u))" if "I s" "moves_on ?q u" for s u
    proof -
      have u: "moves_past p (skip_comma u)"
        by (rule moves_past_on [OF q]) (blast intro: moves_on_trans that(2) moves_on_skip_comma)
      then have "handled I (skip_comma u) (members ksz field s (skip_comma u))"
        using less.prems(2) that(1) by (intro less.hyps) (auto simp: moves_past_def moves_on_def)
      with u show ?thesis by (blast intro: handled_mono moves_past_imp)
    qed
    moreover have "handled I ?q (field ?key r ?q)" using handles less.prems(1) small by blast
    ultimately have "handled I p (Option.bind (field ?key r ?q) (\<lambda>res. case res of Inl e \<Rightarrow> Some (Inl e)
        | Inr (r, p) \<Rightarrow> members ksz field r (skip_comma p)))"
      by (intro handled_bind)
    then show ?thesis using True by (subst members.simps) (simp add: json_parse_string_def)
  next
    case False
    with less.prems show ?thesis by (subst members.simps) (auto simp: json_parse_string_def)
  qed
qed

lemma parse_object_handled:
  assumes "I r"
  shows "handled I (json_next_token (json_parser_init body len)) (parse_object field r body len)"
proof -
  let ?p = "json_next_token (json_parser_init body len)"
  have "small_string ?p" by (rule json_next_token_string) (simp add: json_parser_init_def)
  moreover then have "small_string (json_next_token ?p)" by (rule json_next_token_string)
  ultimately show ?thesis
    using handled_mono [OF members_handled [OF assms, of "json_next_token ?p" 64] moves_on_next]
    by (auto simp: parse_object_def Let_def not_stopped_token)
qed

end

definition text_field :: "nat \<Rightarrow> string \<Rightarrow> bool" where
  "text_field sz s \<longleftrightarrow> length s \<le> min 1023 (sz - 1) \<and> NUL \<notin> set s"

definition is_int :: "int \<Rightarrow> bool" where
  "is_int n \<longleftrightarrow> int_min \<le> n \<and> n \<le> int_max"

definition completion_ok :: "completion_request \<Rightarrow> bool" where
  "completion_ok r \<longleftrightarrow> text_field 4096 (cr_prompt r) \<and> text_field 64 (cr_model r) \<and>
     0 \<le> cr_max_tokens r \<and> cr_max_tokens r \<le> 512 \<and> is_int (cr_top_k r) \<and> is_int (cr_seed r) \<and>
     is_int (cr_n r) \<and> cr_stop r = []"

definition message_ok :: "chat_message \<Rightarrow> bool" where
  "message_ok m \<longleftrightarrow> text_field 16 (m_role m) \<and> text_field 4096 (m_content m)"

definition messages_ok :: "chat_message list \<Rightarrow> bool" where
  "messages_ok ms \<longleftrightarrow> length ms \<le> 32 \<and> (\<forall>m \<in> set ms. message_ok m)"

definition chat_ok :: "chat_request \<Rightarrow> bool" where
  "chat_ok r \<longleftrightarrow> messages_ok (ch_messages r) \<and> text_field 64 (ch_model r) \<and>
     0 \<le> ch_max_tokens r \<and> ch_max_tokens r \<le> 512"

definition tokenize_ok :: "tokenize_request \<Rightarrow> bool" where
  "tokenize_ok r \<longleftrightarrow> text_field 4096 (t_content r)"

definition tokens_ok :: "int list \<Rightarrow> bool" where
  "tokens_ok ts \<longleftrightarrow> length ts \<le> 2048 \<and> (\<forall>t \<in> set ts. is_int t)"

definition embedding_ok :: "embedding_request \<Rightarrow> bool" where
  "embedding_ok r \<longleftrightarrow> text_field 4096 (e_input r) \<and> text_field 64 (e_model r)"

lemmas request_ok_defs = completion_ok_def message_ok_def chat_ok_def tokenize_ok_def embedding_ok_def
  text_field_def is_int_def

interpretation completion: field_handler completion_field completion_ok
proof
  fix r p k assume "completion_ok r" "small_string p"
  then show "handled completion_ok p (completion_field k r p)"
    unfolding completion_field_def
    by (intro handled_fields) (simp_all add: request_ok_defs clamp_max_tokens_def)
qed

interpretation message: field_handler message_field message_ok
proof
  fix r p k assume "message_ok r" "small_string p"
  then show "handled message_ok p (message_field k r p)"
    unfolding message_field_def by (auto intro!: handled_fields simp: request_ok_defs)
qed

lemma message_loop_handled: "messages_ok ms \<Longrightarrow> small_string p \<Longrightarrow> handled messages_ok p (message_loop ms p)"
proof (induction "left_of p" arbitrary: p ms rule: less_induct)
  case less
  let ?q = "json_next_token p"
  show ?case
  proof (cases "p_current p = JSON_TOK_LBRACE \<and> length ms < 32")
    case True
    then have q: "moves_past p ?q" by (simp add: moves_past_next not_stopped_token)
    have small: "small_string ?q" using less.prems(2) by (rule json_next_token_string)
    have rest: "handled messages_ok p (message_loop ns u)" if "messages_ok ns" "moves_on ?q u" for ns u
    proof -
      have u: "moves_past p u" by (rule moves_past_on [OF q that(2)])
      then have "handled messages_ok u (message_loop ns u)"
        using less.prems(2) that(1) by (intro less.hyps) (auto simp: moves_past_def moves_on_def)
      with u show ?thesis by (blast intro: handled_mono moves_past_imp)
    qed
    have "message_ok \<lparr>m_role = [], m_content = []\<rparr>" by (simp add: request_ok_defs)
    note m = message.members_handled [OF this small, of 32]
    have "handled messages_ok p (if p_current u = JSON_TOK_RBRACE
        then message_loop (ms @ [m]) (skip_comma (json_next_token u)) else message_loop ms (skip_comma u))"
      if "message_ok m" "moves_on ?q u" for m u
    proof -
      have "p_current u = JSON_TOK_RBRACE \<Longrightarrow> moves_on ?q (skip_comma (json_next_token u))"
        using that(2) by (meson moves_on_trans moves_on_next moves_on_skip_comma not_stopped_token(2))
      moreover have "moves_on ?q (skip_comma u)"
        using that(2) moves_on_skip_comma moves_on_trans by blast
      ultimately show ?thesis
        using that(1) less.prems(1) True by (auto intro!: rest simp: messages_ok_def)
    qed
    from handled_bind [OF m this] show ?thesis
      using True by (subst message_loop.simps) simp
  next
    case False
    with less.prems show ?thesis by (subst message_loop.simps) auto
  qed
qed

interpretation chat: field_handler chat_field chat_ok
proof
  fix r p k assume r: "chat_ok r" and p: "small_string p"
  have "handled chat_ok p (messages_field r p)"
  proof (cases "p_current p = JSON_TOK_LBRACKET")
    case True
    then have q: "moves_on p (json_next_token p)" by (simp add: moves_on_next not_stopped_token)
    have "handled messages_ok (json_next_token p) (message_loop (ch_messages r) (json_next_token p))"
      using r by (intro message_loop_handled json_next_token_string p) (simp add: chat_ok_def)
    moreover have "handled chat_ok p (accept (r\<lparr>ch_messages := ms\<rparr>) (after_array u))"
      if "messages_ok ms" "moves_on (json_next_token p) u" for ms u
      using that r moves_on_trans [OF moves_on_trans [OF q that(2)] moves_on_after_array]
      by (simp add: chat_ok_def)
    ultimately have "handled chat_ok p (Option.bind (message_loop (ch_messages r) (json_next_token p))
        (\<lambda>res. case res of Inl e \<Rightarrow> Some (Inl e) | Inr (ms, p) \<Rightarrow> accept (r\<lparr>ch_messages := ms\<rparr>) (after_array p)))"
      by (rule handled_bind)
    with True show ?thesis by (simp add: messages_field_def)
  qed (simp add: messages_field_def)
  with r p show "handled chat_ok p (chat_field k r p)"
    unfolding chat_field_def
    by (intro handled_fields) (simp_all add: request_ok_defs clamp_max_tokens_def)
qed

interpretation tokenize: field_handler tokenize_field tokenize_ok
proof
  fix r p k assume "tokenize_ok r" "small_string p"
  then show "handled tokenize_ok p (tokenize_field k r p)"
    unfolding tokenize_field_def by (auto intro!: handled_fields simp: request_ok_defs)
qed

interpretation embedding: field_handler embedding_field embedding_ok
proof
  fix r p k assume "embedding_ok r" "small_string p"
  then show "handled embedding_ok p (embedding_field k r p)"
    unfolding embedding_field_def by (auto intro!: handled_fields simp: request_ok_defs)
qed

lemma token_loop_handled: "tokens_ok ts \<Longrightarrow> handled tokens_ok p (token_loop ts p)"
proof (induction "left_of p" arbitrary: p ts rule: less_induct)
  case less
  let ?q = "skip_comma (json_next_token p)"
  show ?case
  proof (cases "p_current p = JSON_TOK_NUMBER \<and> length ts < 2048")
    case True
    then have q: "moves_past p ?q"
      using moves_past_on [OF moves_past_next moves_on_skip_comma] by (simp add: not_stopped_token)
    moreover have "tokens_ok (ts @ [f_to_int (p_number p)])"
      using less.prems True f_to_int_range [of "p_number p"] by (auto simp: tokens_ok_def is_int_def simp del: f_to_int.simps)
    ultimately have "handled tokens_ok ?q (token_loop (ts @ [f_to_int (p_number p)]) ?q)"
      by (intro less.hyps) (simp_all add: moves_past_def)
    with q have "handled tokens_ok p (token_loop (ts @ [f_to_int (p_number p)]) ?q)"
      by (blast intro: handled_mono moves_past_imp)
    with True show ?thesis by (subst token_loop.simps) (simp add: json_parse_int_def del: f_to_int.simps)
  next
    case False
    with less.prems show ?thesis by (subst token_loop.simps) auto
  qed
qed

interpretation detokenize: field_handler detokenize_field "\<lambda>r. tokens_ok (d_tokens r)"
proof
  fix r :: detokenize_request and p k assume r: "tokens_ok (d_tokens r)" and p: "small_string p"
  have "handled (\<lambda>r. tokens_ok (d_tokens r)) p (tokens_field r p)"
  proof (cases "p_current p = JSON_TOK_LBRACKET")
    case True
    then have q: "moves_on p (json_next_token p)" by (simp add: moves_on_next not_stopped_token)
    have "handled (\<lambda>r. tokens_ok (d_tokens r)) p (accept (r\<lparr>d_tokens := ts\<rparr>) (after_array u))"
      if "tokens_ok ts" "moves_on (json_next_token p) u" for ts u
      using that moves_on_trans [OF moves_on_trans [OF q that(2)] moves_on_after_array] by simp
    with token_loop_handled [OF r] have "handled (\<lambda>r. tokens_ok (d_tokens r)) p
        (Option.bind (token_loop (d_tokens r) (json_next_token p))
        (\<lambda>res. case res of Inl e \<Rightarrow> Some (Inl e) | Inr (ts, p) \<Rightarrow> accept (r\<lparr>d_tokens := ts\<rparr>) (after_array p)))"
      by (rule handled_bind)
    with True show ?thesis by (simp add: tokens_field_def)
  qed (simp add: tokens_field_def)
  with r show "handled (\<lambda>r. tokens_ok (d_tokens r)) p (detokenize_field k r p)"
    unfolding detokenize_field_def by (auto intro!: handled_skip)
qed

end
