(* ===== verification/ApiDecode.thy ===== *)
theory ApiDecode
  imports ApiParse
begin

text \<open>
  What the request parsers of \<^verbatim>\<open>src/api_v1.c\<close> compute, against an abstract reading of
  the document: a request is the fold of its members over the defaults, one assignment per field, with
  the type errors and the array limits that make the parser answer -1.
\<close>

section \<open>Values as the readers see them\<close>

definition val_string :: "nat \<Rightarrow> jval \<Rightarrow> string option" where
  "val_string sz v = (case v of JStr s \<Rightarrow> Some (take (min (sz - 1) 1023) s) | _ \<Rightarrow> None)"

definition val_int :: "jval \<Rightarrow> int option" where
  "val_int v = (case v of JInt i \<Rightarrow> Some i | _ \<Rightarrow> None)"

definition val_number :: "jval \<Rightarrow> fval option" where
  "val_number v = (case v of JInt i \<Rightarrow> Some (Fin (of_int i)) | _ \<Rightarrow> None)"

definition val_bool :: "jval \<Rightarrow> bool option" where
  "val_bool v = (case v of JBool b \<Rightarrow> Some b | _ \<Rightarrow> None)"

text \<open>The first token of a written value.\<close>

lemma first_token:
  assumes "wf_doc v" "delim rest" "reads p (ser v @ rest)"
  defines "n \<equiv> json_next_token p"
  shows "case v of JStr s \<Rightarrow> p_current n = JSON_TOK_STRING \<and> p_string n = take 1023 s \<and> reads n rest
    | JInt i \<Rightarrow> p_current n = JSON_TOK_NUMBER \<and> p_number n = Fin (of_int i) \<and> reads n rest
    | JBool b \<Rightarrow> p_current n = (if b then JSON_TOK_TRUE else JSON_TOK_FALSE) \<and> reads n rest
    | JNull \<Rightarrow> p_current n = JSON_TOK_NULL \<and> reads n rest
    | JArr vs \<Rightarrow> p_current n = JSON_TOK_LBRACKET \<and> reads n (join_comma (map ser vs) @ CHR '']'' # rest)
    | JObj kvs \<Rightarrow> p_current n = JSON_TOK_LBRACE \<and> reads n (join_comma (map ser_member kvs) @ CHR ''}'' # rest)
    | JRaw t \<Rightarrow> True"
proof (cases v)
  case (JStr s)
  with assms(1) have s: "plain_text s" "cstr_of s = s" using plain_not_NUL by (auto simp: cstr_of_id)
  with JStr assms(3) have r: "reads p (quoted (escape_str s) @ rest)" by simp
  from lex_string [OF r] unread_append(2) [OF r] s JStr show ?thesis by (simp add: n_def plain_text_def)
next
  case (JInt i)
  with assms(3) have r: "reads p (int_text (word_of_int i) @ rest)" by simp
  from lex_int [OF r _ _ assms(2)] unread_append(2) [OF r] JInt assms(1) show ?thesis by (simp add: n_def)
next
  case JNull
  with assms(3) have r: "reads p (''null'' @ rest)" by simp
  from lex_literal(3) [OF r refl] unread_append(2) [OF r] JNull show ?thesis
    by (simp add: n_def eval_nat_numeral)
next
  case (JBool b)
  show ?thesis
  proof (cases b)
    case True
    with JBool assms(3) have r: "reads p (''true'' @ rest)" by simp
    from lex_literal(1) [OF r refl] unread_append(2) [OF r] JBool True show ?thesis
      by (simp add: n_def eval_nat_numeral)
  next
    case False
    with JBool assms(3) have r: "reads p (''false'' @ rest)" by simp
    from lex_literal(2) [OF r refl] unread_append(2) [OF r] JBool False show ?thesis
      by (simp add: n_def eval_nat_numeral)
  qed
next
  case (JArr vs)
  with assms(3) have r: "reads p (CHR ''['' # join_comma (map ser vs) @ CHR '']'' # rest)" by simp
  from lex_char(3) [OF r refl] reads_take_char [OF r] JArr show ?thesis by (simp add: n_def)
next
  case (JObj kvs)
  with assms(3) have r: "reads p (CHR ''{'' # join_comma (map ser_member kvs) @ CHR ''}'' # rest)"
    by (simp only: ser_JObj) simp
  from lex_char(1) [OF r refl] reads_take_char [OF r] JObj show ?thesis by (simp add: n_def)
qed (use assms(1) in simp)

text \<open>Tokens at which the member loop gives up.\<close>

definition stuck :: "json_parser \<Rightarrow> bool" where
  "stuck p \<longleftrightarrow> p_current p \<notin> {JSON_TOK_RBRACE, JSON_TOK_RBRACKET, JSON_TOK_EOF, JSON_TOK_COMMA} \<and>
     (p_current p = JSON_TOK_STRING \<longrightarrow> p_current (json_next_token p) \<noteq> JSON_TOK_COLON)"

lemma members_stuck: "stuck p \<Longrightarrow> members ksz field r (skip_comma p) = reject"
  by (subst members.simps) (auto simp: stuck_def skip_comma_def json_parse_string_def)

lemma delim_not_colon:
  assumes "reads p rest" "delim rest"
  shows "p_current (json_next_token p) \<noteq> JSON_TOK_COLON"
proof (cases rest)
  case Nil
  with assms show ?thesis by (simp add: lex_end)
next
  case (Cons c cs)
  with assms have "reads p (c # cs)" "c = CHR '','' \<or> c = CHR '']'' \<or> c = CHR ''}''" by (auto simp: delim_def)
  then show ?thesis by (auto simp: lex_char)
qed

lemma value_stuck:
  assumes "wf_doc v" "delim rest" "reads p (ser v @ rest)"
  shows "stuck (json_next_token p)"
  using first_token [OF assms] assms(1,2) delim_not_colon
  by (cases v) (auto simp: stuck_def)

section \<open>Assignments\<close>

text \<open>A field that was read as the abstract assignment says; \<^term>\<open>None\<close> when the request fails.\<close>

definition assigned :: "'r option \<Rightarrow> json_parser \<Rightarrow> string \<Rightarrow> 'r parsed \<Rightarrow> bool" where
  "assigned a p rest x \<longleftrightarrow>
     (case a of None \<Rightarrow> x = reject \<or> (\<exists>r q. x = accept r q \<and> stuck q)
      | Some r \<Rightarrow> \<exists>q. x = accept r (json_next_token q) \<and> reads q rest \<and> same_input p q)"

lemma assigned_simps [simp]:
  "assigned None p rest reject"
  "assigned None p rest (accept r q) \<longleftrightarrow> stuck q"
  by (simp_all add: assigned_def)

lemma assigned_SomeI: "reads q rest \<Longrightarrow> same_input p q \<Longrightarrow> assigned (Some r) p rest (accept r (json_next_token q))"
  by (auto simp: assigned_def)

lemma assigned_next: "reads (json_next_token p) rest \<Longrightarrow> assigned (Some r) p rest (accept r (json_next_token (json_next_token p)))"
  by (rule assigned_SomeI) (simp_all add: same_input_def)

lemma assigned_string:
  assumes "wf_doc v" "delim rest" "reads p (ser v @ rest)"
  shows "assigned (map_option (\<lambda>x. store x r) (val_string sz v)) p rest
     (take_field (json_parse_string sz) store r (json_next_token p))"
proof (cases v)
  case (JStr s)
  with assms(1) have "NUL \<notin> set (take (sz - 1) (take 1023 s))"
    using plain_not_NUL [of s] by (auto dest!: in_set_takeD)
  then have "cstr_of (take (sz - 1) (take 1023 s)) = take (min (sz - 1) 1023) s"
    by (simp add: cstr_of_id)
  with JStr first_token [OF assms] show ?thesis
    by (simp add: take_field_def json_parse_string_def val_string_def assigned_next)
qed (use first_token [OF assms] assms(1) in \<open>auto simp: take_field_def json_parse_string_def val_string_def\<close>)

lemma assigned_int:
  assumes "wf_doc v" "delim rest" "reads p (ser v @ rest)"
  shows "assigned (map_option (\<lambda>x. store x r) (val_int v)) p rest
     (take_field json_parse_int store r (json_next_token p))"
  using first_token [OF assms] assms(1) f_to_int_of_int
  by (cases v) (auto simp: take_field_def json_parse_int_def val_int_def assigned_next simp del: f_to_int.simps)

lemma assigned_number:
  assumes "wf_doc v" "delim rest" "reads p (ser v @ rest)"
  shows "assigned (map_option (\<lambda>x. store x r) (val_number v)) p rest
     (take_field json_parse_number store r (json_next_token p))"
  using first_token [OF assms] assms(1)
  by (cases v) (auto simp: take_field_def json_parse_number_def val_number_def assigned_next)

lemma assigned_bool:
  assumes "wf_doc v" "delim rest" "reads p (ser v @ rest)"
  shows "assigned (map_option (\<lambda>x. store x r) (val_bool v)) p rest
     (take_field json_parse_bool store r (json_next_token p))"
  using first_token [OF assms] assms(1)
  by (cases v) (auto simp: take_field_def json_parse_bool_def val_bool_def assigned_next split: if_splits)

lemma assigned_skip:
  assumes "wf_doc v" "delim rest" "reads p (ser v @ rest)"
  shows "assigned (Some r) p rest (skip_field r (json_next_token p))"
proof -
  from skipsD [OF skips_ser [OF assms(1,2)] assms(3)] obtain q where
    "skip_run Skip_value (json_next_token p) = Some (0, json_next_token q)" "reads q rest" "same_input p q" .
  then show ?thesis by (simp add: skip_field_def json_skip_value_def assigned_SomeI)
qed

fun fold_assign :: "(string \<Rightarrow> jval \<Rightarrow> 'r \<Rightarrow> 'r option) \<Rightarrow> (string \<times> jval) list \<Rightarrow> 'r \<Rightarrow> 'r option" where
  "fold_assign assign [] r = Some r"
| "fold_assign assign ((k, v) # kvs) r = Option.bind (assign k v r) (fold_assign assign kvs)"

text \<open>The value a parser returns, without the position.\<close>

definition parse_result :: "'r parsed \<Rightarrow> (parse_error + 'r) option" where
  "parse_result x = map_option (map_sum id fst) x"

definition as_result :: "'r option \<Rightarrow> (parse_error + 'r) option" where
  "as_result a = Some (case a of None \<Rightarrow> Inl Reject | Some r \<Rightarrow> Inr r)"

text \<open>The contract of a dispatch with its abstract assignment.\<close>

locale field_reader =
  fixes field :: "string \<Rightarrow> 'r \<Rightarrow> json_parser \<Rightarrow> 'r parsed"
    and assign :: "string \<Rightarrow> jval \<Rightarrow> 'r \<Rightarrow> 'r option"
  assumes assigns: "key_text k \<Longrightarrow> wf_doc v \<Longrightarrow> delim rest \<Longrightarrow> reads p (ser v @ rest) \<Longrightarrow>
    assigned (assign k v r) p rest (field k r (json_next_token p))"
    and key_cut: "31 \<le> m \<Longrightarrow> assign (take m k) = assign k"
begin

lemma members_assign:
  assumes "reads p (join_comma (map ser_member kvs) @ CHR ''}'' # rest)"
    "wf_doc (JObj kvs)" "32 \<le> ksz"
  shows "case fold_assign assign kvs r of None \<Rightarrow> members ksz field r (json_next_token p) = reject
    | Some r' \<Rightarrow> \<exists>q. members ksz field r (json_next_token p) = accept r' (json_next_token q)
        \<and> reads q (CHR ''}'' # rest) \<and> same_input p q"
  using assms
proof (induction kvs arbitrary: p r)
  case Nil
  then have r: "reads p (CHR ''}'' # rest)" by simp
  have "members ksz field r (json_next_token p) = accept r (json_next_token p)"
    using lex_char(2) [OF r refl] by (subst members.simps) simp
  with r show ?case by (auto simp: same_input_def)
next
  case (Cons kv kvs)
  obtain k v where kv: "kv = (k, v)" by (cases kv)
  let ?tail = "if kvs = [] then CHR ''}'' # rest else CHR '','' # join_comma (map ser_member kvs) @ CHR ''}'' # rest"
  have k: "key_text k" "wf_doc v" using Cons.prems(2) kv by auto
  let ?k = "take (ksz - 1) (take 1023 k)"
  have "reads p (quoted k @ CHR '':'' # ser v @ ?tail)"
    using Cons.prems(1) kv by (auto simp: join_comma_Cons simp del: join_comma.simps split: if_splits)
  from lex_key [OF this k(1)] obtain p' where p': "p_current (json_next_token p) = JSON_TOK_STRING"
    "p_string (json_next_token p) = take 1023 k" "json_next_token (json_next_token p) = take_char (json_next_token p) JSON_TOK_COLON"
    "p' = take_char (json_next_token p) JSON_TOK_COLON" "reads p' (ser v @ ?tail)" "same_input p p'"
    by metis
  have kt: "key_text ?k" using k(1) by (auto simp: key_text_def dest!: in_set_takeD)
  then have key: "cstr_of ?k = ?k"
    using plain_not_NUL [of ?k] key_text_escape by (simp add: cstr_of_id)
  have step: "members ksz field r (json_next_token p) = Option.bind (field ?k r (json_next_token p'))
      (\<lambda>res. case res of Inl e \<Rightarrow> Some (Inl e) | Inr (r, p) \<Rightarrow> members ksz field r (skip_comma p))"
    using p'(1-4) key by (subst members.simps) (simp add: json_parse_string_def del: take_take)
  have "delim ?tail" by (auto simp: delim_def)
  from assigns [OF kt k(2) this p'(5), of r]
  have a: "assigned (assign k v r) p' ?tail (field ?k r (json_next_token p'))"
    using Cons.prems(3) by (simp add: key_cut)
  show ?case
  proof (cases "assign k v r")
    case None
    with a have "members ksz field r (json_next_token p) = reject"
      by (auto simp: step assigned_def members_stuck)
    with None kv show ?thesis by simp
  next
    case (Some s)
    with a obtain q where q: "field ?k r (json_next_token p') = accept s (json_next_token q)" "reads q ?tail"
      "same_input p' q" by (auto simp: assigned_def)
    obtain u where u: "(if p_current (json_next_token q) = JSON_TOK_COMMA then json_next_token (json_next_token q)
        else json_next_token q) = json_next_token u" "same_input q u"
      "reads u (if kvs = [] then CHR ''}'' # rest else join_comma (map ser_member kvs) @ CHR ''}'' # rest)"
      by (rule after_comma [OF q(2)]) auto
    then have "reads u (join_comma (map ser_member kvs) @ CHR ''}'' # rest)" by (auto split: if_splits)
    note IH = Cons.IH [OF this, of s]
    have "members ksz field r (json_next_token p) = members ksz field s (json_next_token u)"
      using q(1) u(1) by (simp add: step skip_comma_def)
    moreover have "same_input p u" using p'(6) q(3) u(2) by (blast intro: same_input_trans)
    ultimately show ?thesis using IH Cons.prems kv Some
      by (auto split: option.splits) (blast intro: same_input_trans)
  qed
qed

text \<open>The whole request, on the text of an object.\<close>

lemma parse_object_assign:
  assumes "wf_doc (JObj kvs)"
  shows "parse_result (parse_object field r (ser (JObj kvs)) (length (ser (JObj kvs))))
    = as_result (fold_assign assign kvs r)"
proof -
  define p where "p = json_parser_init (ser (JObj kvs)) (length (ser (JObj kvs)))"
  have r: "reads p (CHR ''{'' # join_comma (map ser_member kvs) @ CHR ''}'' # [])"
    using reads_init [of "ser (JObj kvs)"] unfolding p_def ser_JObj by simp
  note n = lex_char(1) [OF r refl] and r' = reads_take_char [OF r, of JSON_TOK_LBRACE]
  have "parse_object field r (ser (JObj kvs)) (length (ser (JObj kvs)))
      = members 64 field r (json_next_token (take_char p JSON_TOK_LBRACE))"
    unfolding parse_object_def p_def [symmetric] by (simp add: n)
  with members_assign [OF r' assms, of 64 r] show ?thesis
    by (auto simp: parse_result_def as_result_def split: option.splits)
qed

end

section \<open>The request types\<close>

definition completion_assign :: "string \<Rightarrow> jval \<Rightarrow> completion_request \<Rightarrow> completion_request option" where
  "completion_assign k v r =
     (if k = ''prompt'' then map_option (\<lambda>x. r\<lparr>cr_prompt := x\<rparr>) (val_string 4096 v)
      else if k = ''model'' then map_option (\<lambda>x. r\<lparr>cr_model := x\<rparr>) (val_string 64 v)
      else if k = ''max_tokens''
      then map_option (\<lambda>x. r\<lparr>cr_max_tokens := if x < 0 \<or> 512 < x then 512 else x\<rparr>) (val_int v)
      else if k = ''temperature'' then map_option (\<lambda>x. r\<lparr>cr_temperature := f_to_f32 x\<rparr>) (val_number v)
      else if k = ''top_p'' then map_option (\<lambda>x. r\<lparr>cr_top_p := f_to_f32 x\<rparr>) (val_number v)
      else if k = ''top_k'' then map_option (\<lambda>x. r\<lparr>cr_top_k := x\<rparr>) (val_int v)
      else if k = ''frequency_penalty''
      then map_option (\<lambda>x. r\<lparr>cr_frequency_penalty := f_to_f32 x\<rparr>) (val_number v)
      else if k = ''presence_penalty''
      then map_option (\<lambda>x. r\<lparr>cr_presence_penalty := f_to_f32 x\<rparr>) (val_number v)
      else if k = ''stream'' then map_option (\<lambda>x. r\<lparr>cr_stream := x\<rparr>) (val_bool v)
      else if k = ''seed'' then map_option (\<lambda>x. r\<lparr>cr_seed := x\<rparr>) (val_int v)
      else if k = ''echo'' then map_option (\<lambda>x. r\<lparr>cr_echo := x\<rparr>) (val_bool v)
      else if k = ''n'' then map_option (\<lambda>x. r\<lparr>cr_n := x\<rparr>) (val_int v)
      else Some r)"

definition message_assign :: "string \<Rightarrow> jval \<Rightarrow> chat_message \<Rightarrow> chat_message option" where
  "message_assign k v m =
     (if k = ''role'' then map_option (\<lambda>x. m\<lparr>m_role := x\<rparr>) (val_string 16 v)
      else if k = ''content'' then map_option (\<lambda>x. m\<lparr>m_content := x\<rparr>) (val_string 4096 v)
      else Some m)"

text \<open>The messages of a chat request: objects, at most 32 in all.\<close>

fun messages_assign :: "jval list \<Rightarrow> chat_message list \<Rightarrow> chat_message list option" where
  "messages_assign [] ms = Some ms"
| "messages_assign (v # vs) ms =
     (if 32 \<le> length ms then None
      else case v of
        JObj kvs \<Rightarrow> Option.bind (fold_assign message_assign kvs \<lparr>m_role = [], m_content = []\<rparr>)
          (\<lambda>m. messages_assign vs (ms @ [m]))
      | _ \<Rightarrow> None)"

definition chat_assign :: "string \<Rightarrow> jval \<Rightarrow> chat_request \<Rightarrow> chat_request option" where
  "chat_assign k v r =
     (if k = ''messages''
      then case v of
             JArr vs \<Rightarrow> map_option (\<lambda>ms. r\<lparr>ch_messages := ms\<rparr>) (messages_assign vs (ch_messages r))
           | _ \<Rightarrow> None
      else if k = ''model'' then map_option (\<lambda>x. r\<lparr>ch_model := x\<rparr>) (val_string 64 v)
      else if k = ''max_tokens''
      then map_option (\<lambda>x. r\<lparr>ch_max_tokens := if x < 0 \<or> 512 < x then 512 else x\<rparr>) (val_int v)
      else if k = ''temperature'' then map_option (\<lambda>x. r\<lparr>ch_temperature := f_to_f32 x\<rparr>) (val_number v)
      else if k = ''top_p'' then map_option (\<lambda>x. r\<lparr>ch_top_p := f_to_f32 x\<rparr>) (val_number v)
      else if k = ''stream'' then map_option (\<lambda>x. r\<lparr>ch_stream := x\<rparr>) (val_bool v)
      else Some r)"

definition tokenize_assign :: "string \<Rightarrow> jval \<Rightarrow> tokenize_request \<Rightarrow> tokenize_request option" where
  "tokenize_assign k v r =
     (if k = ''content'' then map_option (\<lambda>x. r\<lparr>t_content := x\<rparr>) (val_string 4096 v)
      else if k = ''add_special'' then map_option (\<lambda>x. r\<lparr>add_special := x\<rparr>) (val_bool v)
      else Some r)"

text \<open>The token list: numbers, at most 2,048 in all.\<close>

fun tokens_assign :: "jval list \<Rightarrow> int list \<Rightarrow> int list option" where
  "tokens_assign [] ts = Some ts"
| "tokens_assign (v # vs) ts =
     (if 2048 \<le> length ts then None
      else Option.bind (val_int v) (\<lambda>t. tokens_assign vs (ts @ [t])))"

definition detokenize_assign :: "string \<Rightarrow> jval \<Rightarrow> detokenize_request \<Rightarrow> detokenize_request option" where
  "detokenize_assign k v r =
     (if k = ''tokens''
      then case v of
             JArr vs \<Rightarrow> map_option (\<lambda>ts. r\<lparr>d_tokens := ts\<rparr>) (tokens_assign vs (d_tokens r))
           | _ \<Rightarrow> None
      else Some r)"

definition embedding_assign :: "string \<Rightarrow> jval \<Rightarrow> embedding_request \<Rightarrow> embedding_request option" where
  "embedding_assign k v r =
     (if k = ''input'' then map_option (\<lambda>x. r\<lparr>e_input := x\<rparr>) (val_string 4096 v)
      else if k = ''model'' then map_option (\<lambda>x. r\<lparr>e_model := x\<rparr>) (val_string 64 v)
      else Some r)"

lemma str_eq_key: "key_text k \<Longrightarrow> NUL \<notin> set lit \<Longrightarrow> str_eq k lit \<longleftrightarrow> k = lit"
  using plain_not_NUL [of k] key_text_escape [of k] by (simp add: str_eq_iff cstr_of_id)

lemma assigned_key:
  assumes "key_text k" "NUL \<notin> set lit"
    "assigned x p rest (f r m)" "assigned y p rest (g r m)"
  shows "assigned (if k = lit then x else y) p rest ((if str_eq k lit then f else g) r m)"
  using assms by (simp add: str_eq_key)

lemma take_eq_short: "length lit < m \<Longrightarrow> take m k = lit \<longleftrightarrow> k = lit"
  by (metis length_take min_less_iff_conj nat_neq_iff take_all_iff not_less)

lemmas assigned_fields = assigned_skip assigned_string assigned_int assigned_number assigned_bool

interpretation completion_reader: field_reader completion_field completion_assign
proof
  fix k v rest p r
  assume k: "key_text k" and v: "wf_doc v" "delim rest" "reads p (ser v @ rest)"
  show "assigned (completion_assign k v r) p rest (completion_field k r (json_next_token p))"
    unfolding completion_field_def completion_assign_def clamp_max_tokens_def limits
    by (intro assigned_key [OF k] assigned_fields [OF v]) simp_all
next
  fix k :: string and m :: nat assume "31 \<le> m"
  then show "completion_assign (take m k) = completion_assign k"
    by (intro ext) (simp add: completion_assign_def take_eq_short)
qed

interpretation message_reader: field_reader message_field message_assign
proof
  fix k v rest p r
  assume k: "key_text k" and v: "wf_doc v" "delim rest" "reads p (ser v @ rest)"
  show "assigned (message_assign k v r) p rest (message_field k r (json_next_token p))"
    unfolding message_field_def message_assign_def limits
    by (intro assigned_key [OF k] assigned_fields [OF v]) simp_all
next
  fix k :: string and m :: nat assume "31 \<le> m"
  then show "message_assign (take m k) = message_assign k"
    by (intro ext) (simp add: message_assign_def take_eq_short)
qed

interpretation tokenize_reader: field_reader tokenize_field tokenize_assign
proof
  fix k v rest p r
  assume k: "key_text k" and v: "wf_doc v" "delim rest" "reads p (ser v @ rest)"
  show "assigned (tokenize_assign k v r) p rest (tokenize_field k r (json_next_token p))"
    unfolding tokenize_field_def tokenize_assign_def limits
    by (intro assigned_key [OF k] assigned_fields [OF v]) simp_all
next
  fix k :: string and m :: nat assume "31 \<le> m"
  then show "tokenize_assign (take m k) = tokenize_assign k"
    by (intro ext) (simp add: tokenize_assign_def take_eq_short)
qed

interpretation embedding_reader: field_reader embedding_field embedding_assign
proof
  fix k v rest p r
  assume k: "key_text k" and v: "wf_doc v" "delim rest" "reads p (ser v @ rest)"
  show "assigned (embedding_assign k v r) p rest (embedding_field k r (json_next_token p))"
    unfolding embedding_field_def embedding_assign_def limits
    by (intro assigned_key [OF k] assigned_fields [OF v]) simp_all
next
  fix k :: string and m :: nat assume "31 \<le> m"
  then show "embedding_assign (take m k) = embedding_assign k"
    by (intro ext) (simp add: embedding_assign_def take_eq_short)
qed

section \<open>Arrays of messages and of tokens\<close>

lemma array_tail_reads:
  "reads p (join_comma (map ser (v # vs)) @ CHR '']'' # rest) \<Longrightarrow>
   reads p (ser v @ (if vs = [] then CHR '']'' # rest else CHR '','' # join_comma (map ser vs) @ CHR '']'' # rest))"
  by (auto simp: join_comma_Cons simp del: join_comma.simps split: if_splits)

lemma delim_tail: "delim (if vs = [] then CHR '']'' # rest else CHR '','' # t)"
  by (auto simp: delim_def)

text \<open>The value after which the loop goes on, and what it then sees.\<close>

lemma array_next:
  assumes "reads q (if vs = [] then CHR '']'' # rest else CHR '','' # join_comma (map ser vs) @ CHR '']'' # rest)"
  obtains u where "skip_comma (json_next_token q) = json_next_token u" "same_input q u"
    "reads u (join_comma (map ser vs) @ CHR '']'' # rest)"
proof -
  obtain u where "(if p_current (json_next_token q) = JSON_TOK_COMMA then json_next_token (json_next_token q)
      else json_next_token q) = json_next_token u" "same_input q u"
    "reads u (if vs = [] then CHR '']'' # rest else join_comma (map ser vs) @ CHR '']'' # rest)"
    by (rule after_comma [OF assms]) auto
  with that [of u] show thesis by (auto simp: skip_comma_def split: if_splits)
qed

lemma assigned_same: "assigned a u rest x \<Longrightarrow> same_input p u \<Longrightarrow> assigned a p rest x"
  by (auto simp: assigned_def split: option.splits intro: same_input_trans)

lemma message_loop_assign:
  assumes "reads p (join_comma (map ser vs) @ CHR '']'' # rest)" "\<forall>v \<in> set vs. wf_doc v"
  shows "assigned (messages_assign vs ms) p (CHR '']'' # rest) (message_loop ms (json_next_token p))"
  using assms
proof (induction vs arbitrary: p ms)
  case Nil
  then have r: "reads p (CHR '']'' # rest)" by simp
  have "message_loop ms (json_next_token p) = accept ms (json_next_token p)"
    using lex_char(4) [OF r refl] by (subst message_loop.simps) simp
  with r show ?case by (simp add: assigned_SomeI same_input_def)
next
  case (Cons v vs)
  let ?tail = "if vs = [] then CHR '']'' # rest else CHR '','' # join_comma (map ser vs) @ CHR '']'' # rest"
  note r = array_tail_reads [OF Cons.prems(1)]
  have v: "wf_doc v" using Cons.prems(2) by simp
  note tok = first_token [OF v delim_tail r] and st = value_stuck [OF v delim_tail r]
  show ?case
  proof (cases "32 \<le> length ms \<or> (\<forall>kvs. v \<noteq> JObj kvs)")
    case True
    with tok st v show ?thesis
      by (subst message_loop.simps) (cases v, auto simp: stuck_def split: if_splits)
  next
    case False
    then obtain kvs where kvs: "v = JObj kvs" "length ms < 32" by auto
    let ?n = "json_next_token p" and ?m0 = "\<lparr>m_role = [], m_content = []\<rparr>"
    from tok kvs have n: "p_current ?n = JSON_TOK_LBRACE"
      "reads ?n (join_comma (map ser_member kvs) @ CHR ''}'' # ?tail)" by simp_all
    note m = message_reader.members_assign [OF n(2), of 32 ?m0]
    show ?thesis
    proof (cases "fold_assign message_assign kvs ?m0")
      case None
      with m v kvs n(1) show ?thesis by (subst message_loop.simps) simp
    next
      case (Some msg)
      with m v kvs obtain q where q: "members 32 message_field ?m0 (json_next_token ?n) = accept msg (json_next_token q)"
        "reads q (CHR ''}'' # ?tail)" "same_input ?n q" by auto
      let ?q = "take_char q JSON_TOK_RBRACE"
      have nq: "json_next_token q = ?q" "reads ?q ?tail"
        using lex_char(2) [OF q(2) refl] reads_take_char [OF q(2)] by simp_all
      obtain u where u: "skip_comma (json_next_token ?q) = json_next_token u" "same_input ?q u"
        "reads u (join_comma (map ser vs) @ CHR '']'' # rest)" by (rule array_next [OF nq(2)])
      have "message_loop ms ?n = message_loop (ms @ [msg]) (json_next_token u)"
        using n(1) kvs q(1) nq(1) u(1) by (subst message_loop.simps) simp
      moreover have "same_input p u" using q(3) u(2) by (simp add: same_input_def)
      ultimately show ?thesis
        using Cons.IH [OF u(3), of "ms @ [msg]"] Cons.prems(2) kvs Some by (auto intro: assigned_same)
    qed
  qed
qed

lemma token_loop_assign:
  assumes "reads p (join_comma (map ser vs) @ CHR '']'' # rest)" "\<forall>v \<in> set vs. wf_doc v"
  shows "assigned (tokens_assign vs ts) p (CHR '']'' # rest) (token_loop ts (json_next_token p))"
  using assms
proof (induction vs arbitrary: p ts)
  case Nil
  then have r: "reads p (CHR '']'' # rest)" by simp
  have "token_loop ts (json_next_token p) = accept ts (json_next_token p)"
    using lex_char(4) [OF r refl] by (subst token_loop.simps) simp
  with r show ?case by (simp add: assigned_SomeI same_input_def)
next
  case (Cons v vs)
  let ?tail = "if vs = [] then CHR '']'' # rest else CHR '','' # join_comma (map ser vs) @ CHR '']'' # rest"
  note r = array_tail_reads [OF Cons.prems(1)]
  have v: "wf_doc v" using Cons.prems(2) by simp
  note tok = first_token [OF v delim_tail r] and st = value_stuck [OF v delim_tail r]
  let ?n = "json_next_token p"
  show ?case
  proof (cases "2048 \<le> length ts \<or> (\<forall>i. v \<noteq> JInt i)")
    case True
    with tok st v show ?thesis
      by (subst token_loop.simps) (cases v, auto simp: stuck_def val_int_def split: if_splits)
  next
    case False
    then obtain i where i: "v = JInt i" "length ts < 2048" by auto
    with tok have n: "p_current ?n = JSON_TOK_NUMBER" "p_number ?n = Fin (of_int i)" "reads ?n ?tail" by simp_all
    obtain u where u: "skip_comma (json_next_token ?n) = json_next_token u" "same_input ?n u"
      "reads u (join_comma (map ser vs) @ CHR '']'' # rest)" by (rule array_next [OF n(3)])
    have "token_loop ts ?n = token_loop (ts @ [i]) (json_next_token u)"
      using n i v u(1) f_to_int_of_int [of i]
      by (subst token_loop.simps) (simp add: json_parse_int_def del: f_to_int.simps)
    moreover have "same_input p u" using u(2) by (simp add: same_input_def)
    ultimately show ?thesis
      using Cons.IH [OF u(3), of "ts @ [i]"] Cons.prems(2) i by (auto simp: val_int_def intro: assigned_same)
  qed
qed

text \<open>A field holding an array: the loop, then the closing bracket.\<close>

lemma assigned_array:
  assumes "assigned a p (CHR '']'' # rest) x"
  shows "assigned (map_option store a) p rest (Option.bind x (\<lambda>res. case res of Inl e \<Rightarrow> Some (Inl e)
     | Inr (y, q) \<Rightarrow> accept (store y) (after_array q)))"
proof (cases a)
  case None
  with assms show ?thesis by (auto simp: assigned_def after_array_def stuck_def)
next
  case (Some y)
  with assms obtain q where q: "x = accept y (json_next_token q)" "reads q (CHR '']'' # rest)" "same_input p q"
    by (auto simp: assigned_def)
  let ?q = "take_char q JSON_TOK_RBRACKET"
  have "json_next_token q = ?q" "reads ?q rest" "same_input p ?q"
    using lex_char(4) [OF q(2) refl] reads_take_char [OF q(2)] q(3) by (simp_all add: same_input_def)
  with q Some show ?thesis by (auto simp: after_array_def intro: assigned_SomeI)
qed

interpretation chat_reader: field_reader chat_field chat_assign
proof
  fix k v rest p r
  assume k: "key_text k" and v: "wf_doc v" "delim rest" "reads p (ser v @ rest)"
  have "assigned (case v of JArr vs \<Rightarrow> map_option (\<lambda>ms. r\<lparr>ch_messages := ms\<rparr>) (messages_assign vs (ch_messages r))
      | _ \<Rightarrow> None) p rest (messages_field r (json_next_token p))"
  proof (cases "\<exists>vs. v = JArr vs")
    case True
    then obtain vs where vs: "v = JArr vs" by blast
    with first_token [OF v] have n: "p_current (json_next_token p) = JSON_TOK_LBRACKET"
      "reads (json_next_token p) (join_comma (map ser vs) @ CHR '']'' # rest)" by simp_all
    have "assigned (messages_assign vs (ch_messages r)) (json_next_token p) (CHR '']'' # rest)
        (message_loop (ch_messages r) (json_next_token (json_next_token p)))"
      using message_loop_assign [OF n(2)] v(1) vs by simp
    then have "assigned (messages_assign vs (ch_messages r)) p (CHR '']'' # rest)
        (message_loop (ch_messages r) (json_next_token (json_next_token p)))"
      by (rule assigned_same) (simp add: same_input_def)
    from assigned_array [OF this] n(1) vs show ?thesis by (simp add: messages_field_def)
  next
    case False
    with first_token [OF v] v(1) have "p_current (json_next_token p) \<noteq> JSON_TOK_LBRACKET" by (cases v) auto
    with False show ?thesis by (cases v) (simp_all add: messages_field_def)
  qed
  then show "assigned (chat_assign k v r) p rest (chat_field k r (json_next_token p))"
    unfolding chat_field_def chat_assign_def clamp_max_tokens_def limits
    by (intro assigned_key [OF k] assigned_fields [OF v]) simp_all
next
  fix k :: string and m :: nat assume "31 \<le> m"
  then show "chat_assign (take m k) = chat_assign k"
    by (intro ext) (simp add: chat_assign_def take_eq_short)
qed

interpretation detokenize_reader: field_reader detokenize_field detokenize_assign
proof
  fix k v rest p r
  assume k: "key_text k" and v: "wf_doc v" "delim rest" "reads p (ser v @ rest)"
  have "assigned (case v of JArr vs \<Rightarrow> map_option (\<lambda>ts. r\<lparr>d_tokens := ts\<rparr>) (tokens_assign vs (d_tokens r))
      | _ \<Rightarrow> None) p rest (tokens_field r (json_next_token p))"
  proof (cases "\<exists>vs. v = JArr vs")
    case True
    then obtain vs where vs: "v = JArr vs" by blast
    with first_token [OF v] have n: "p_current (json_next_token p) = JSON_TOK_LBRACKET"
      "reads (json_next_token p) (join_comma (map ser vs) @ CHR '']'' # rest)" by simp_all
    have "assigned (tokens_assign vs (d_tokens r)) (json_next_token p) (CHR '']'' # rest)
        (token_loop (d_tokens r) (json_next_token (json_next_token p)))"
      using token_loop_assign [OF n(2)] v(1) vs by simp
    then have "assigned (tokens_assign vs (d_tokens r)) p (CHR '']'' # rest)
        (token_loop (d_tokens r) (json_next_token (json_next_token p)))"
      by (rule assigned_same) (simp add: same_input_def)
    from assigned_array [OF this] n(1) vs show ?thesis by (simp add: tokens_field_def)
  next
    case False
    with first_token [OF v] v(1) have "p_current (json_next_token p) \<noteq> JSON_TOK_LBRACKET" by (cases v) auto
    with False show ?thesis by (cases v) (simp_all add: tokens_field_def)
  qed
  then show "assigned (detokenize_assign k v r) p rest (detokenize_field k r (json_next_token p))"
    unfolding detokenize_field_def detokenize_assign_def limits
    by (intro assigned_key [OF k] assigned_fields [OF v]) simp_all
next
  fix k :: string and m :: nat assume "31 \<le> m"
  then show "detokenize_assign (take m k) = detokenize_assign k"
    by (intro ext) (simp add: detokenize_assign_def take_eq_short)
qed

section \<open>Results\<close>



text \<open>
  \<^verbatim>\<open>parse_chat_request\<close> decodes every JSON object: the fold of the
  members over the defaults, where \<^verbatim>\<open>messages\<close> is an array of objects decoded one by
  one (role cut at 15 characters); more than 32 messages in all, an element that is no object, or a
  member of the wrong type make the result -1.
\<close>

theorem parse_chat_decodes:
  assumes "wf_doc (JObj kvs)"
  shows "parse_result (parse_chat_request (ser (JObj kvs)) (length (ser (JObj kvs))))
    = as_result (fold_assign chat_assign kvs chat_completion_request_init)"
  unfolding parse_chat_request_def by (rule chat_reader.parse_object_assign [OF assms])

theorem parse_chat_decodes_witness:
  "parse_result (parse_chat_request
     (ser (JObj [(''messages'', JArr [JObj [(''role'', JStr ''user''), (''content'', JStr ''hi'')]])]))
     (length (ser (JObj [(''messages'', JArr [JObj [(''role'', JStr ''user''), (''content'', JStr ''hi'')]])]))))
   = Some (Inr (chat_completion_request_init\<lparr>ch_messages := [\<lparr>m_role = ''user'', m_content = ''hi''\<rparr>]\<rparr>))"
proof -
  have "wf_doc (JObj [(''messages'', JArr [JObj [(''role'', JStr ''user''), (''content'', JStr ''hi'')]])])"
    by (simp add: key_text_def plain_text_def plain_char_def escape_char_def uchar_def)
  from parse_chat_decodes [OF this] show ?thesis
    by (simp add: chat_assign_def message_assign_def val_string_def as_result_def chat_completion_request_init_def)
qed

text \<open>
  \<^verbatim>\<open>parse_detokenize_request\<close> decodes every JSON object to the list
  of its tokens, and answers -1 when there are more than 2,048 of them or one is no number.
\<close>

theorem parse_detokenize_decodes:
  assumes "wf_doc (JObj kvs)"
  shows "parse_result (parse_detokenize_request (ser (JObj kvs)) (length (ser (JObj kvs))))
    = as_result (fold_assign detokenize_assign kvs detokenize_request_init)"
  unfolding parse_detokenize_request_def by (rule detokenize_reader.parse_object_assign [OF assms])

theorem parse_detokenize_decodes_witness:
  "parse_result (parse_detokenize_request (ser (JObj [(''tokens'', JArr [JInt 72, JInt 105])]))
     (length (ser (JObj [(''tokens'', JArr [JInt 72, JInt 105])]))))
   = Some (Inr \<lparr>d_tokens = [72, 105]\<rparr>)"
proof -
  have "wf_doc (JObj [(''tokens'', JArr [JInt 72, JInt 105])])"
    by (simp add: key_text_def escape_char_def uchar_def int_min_def int_max_def)
  from parse_detokenize_decodes [OF this] show ?thesis
    by (simp add: detokenize_assign_def val_int_def as_result_def detokenize_request_init_def)
qed

text \<open>Each parser is handled by the contract of its dispatch.\<close>

lemma all_parsers_handled:
  "handled completion_ok (json_next_token (json_parser_init body len)) (parse_completion_request body len) \<and>
   handled chat_ok (json_next_token (json_parser_init body len)) (parse_chat_request body len) \<and>
   handled tokenize_ok (json_next_token (json_parser_init body len)) (parse_tokenize_request body len) \<and>
   handled (\<lambda>r. tokens_ok (d_tokens r)) (json_next_token (json_parser_init body len)) (parse_detokenize_request body len) \<and>
   handled embedding_ok (json_next_token (json_parser_init body len)) (parse_embedding_request body len)"
  unfolding parse_completion_request_def parse_chat_request_def parse_tokenize_request_def
    parse_detokenize_request_def parse_embedding_request_def
  by (intro conjI completion.parse_object_handled chat.parse_object_handled tokenize.parse_object_handled
        detokenize.parse_object_handled embedding.parse_object_handled)
     (simp_all add: completion_request_init_def chat_completion_request_init_def tokenize_request_init_def
        detokenize_request_init_def embedding_request_init_def request_ok_defs messages_ok_def tokens_ok_def
        int_min_def int_max_def)

lemmas parsers_handled =
  all_parsers_handled [THEN conjunct1]
  all_parsers_handled [THEN conjunct2, THEN conjunct1]
  all_parsers_handled [THEN conjunct2, THEN conjunct2, THEN conjunct1]
  all_parsers_handled [THEN conjunct2, THEN conjunct2, THEN conjunct2, THEN conjunct1]
  all_parsers_handled [THEN conjunct2, THEN conjunct2, THEN conjunct2, THEN conjunct2]

text \<open>
  \<^bold>\<open>C21.\<close> On any body at all, well-formed or not, each of the five parsers returns; what
  it accepts is within the limits of the request type: texts shorter than their buffers and without
  terminator inside, \<^verbatim>\<open>max_tokens\<close> between 0 and 512, at most 32 messages and 2,048
  tokens.
\<close>

theorem request_parsers_return:
  "handled completion_ok (json_next_token (json_parser_init body len)) (parse_completion_request body len) \<and>
   handled chat_ok (json_next_token (json_parser_init body len)) (parse_chat_request body len) \<and>
   handled tokenize_ok (json_next_token (json_parser_init body len)) (parse_tokenize_request body len) \<and>
   handled (\<lambda>r. tokens_ok (d_tokens r)) (json_next_token (json_parser_init body len)) (parse_detokenize_request body len) \<and>
   handled embedding_ok (json_next_token (json_parser_init body len)) (parse_embedding_request body len)"
  by (rule all_parsers_handled)

end
