(* ===== verification/Http.thy ===== *)
theory Http
  imports SafeString Printf
begin

text \<open>
  The HTTP request parser and response generator, \<^verbatim>\<open>src/http.c\<close>, with the request and
  response types of \<^verbatim>\<open>include/network.h\<close>.

  A character array of a request or response is its content; the body is its first
  \<^verbatim>\<open>body_length\<close> bytes. The raw request is a list with its length; a suffix of it stands for
  a pointer into it. A parse that returns -1 is \<^term>\<open>None\<close>.
\<close>

section \<open>Requests\<close>

record http_request =
  rq_method :: string
  rq_path :: string
  rq_version :: string
  rq_headers :: string
  rq_body :: string
  rq_body_length :: nat
  rq_content_type :: string
  rq_content_length :: u32

record http_response =
  rs_status :: int
  rs_headers :: string
  rs_body :: string
  rs_body_length :: nat

definition ascii_lower :: "char \<Rightarrow> char" where
  "ascii_lower c =
     (if schar (CHR ''A'') \<le> schar c \<and> schar c \<le> schar (CHR ''Z'') then char_of (uchar c + 32) else c)"

fun str_starts_with_ci :: "string \<Rightarrow> string \<Rightarrow> bool" where
  "str_starts_with_ci s [] = True"
| "str_starts_with_ci s (p # ps) =
     (ascii_lower (chr_at s 0) = ascii_lower p \<and> str_starts_with_ci (tl s) ps)"

definition is_number_char :: "char \<Rightarrow> bool" where
  "is_number_char c \<longleftrightarrow> schar (CHR ''0'') \<le> schar c \<and> schar c \<le> schar (CHR ''9'')"

text \<open>\<^verbatim>\<open>content_length\<close> is a 32-bit \<^verbatim>\<open>size_t\<close>: the digits wrap.\<close>

definition decimal_u32 :: "string \<Rightarrow> u32" where
  "decimal_u32 ds = foldl (\<lambda>n c. n * 10 + word_of_int (schar c - schar (CHR ''0''))) 0 ds"

definition parse_header :: "string \<Rightarrow> http_request \<Rightarrow> http_request" where
  "parse_header header r =
     (if str_starts_with_ci header ''Content-Length:'' then
        let value = dropWhile (\<lambda>c. c = CHR '' '') (drop 15 header)
        in r\<lparr>rq_content_length := decimal_u32 (takeWhile is_number_char value)\<rparr>
      else if str_starts_with_ci header ''Content-Type:'' then
        let value = dropWhile (\<lambda>c. c = CHR '' '') (drop 13 header)
        in r\<lparr>rq_content_type :=
               take 63 (takeWhile (\<lambda>c. c \<noteq> NUL \<and> c \<noteq> CR \<and> c \<noteq> LF \<and> c \<noteq> CHR '';'') value)\<rparr>
      else r)"

text \<open>The first index from \<open>i\<close> on where \<open>found\<close> holds, or \<open>bound\<close>.\<close>

function seek :: "(nat \<Rightarrow> bool) \<Rightarrow> nat \<Rightarrow> nat \<Rightarrow> nat" where
  "seek found bound i = (if i < bound \<and> \<not> found i then seek found bound (Suc i) else i)"
  by pat_completeness auto
termination by (relation "measure (\<lambda>(found, bound, i). bound - i)") auto

declare seek.simps [simp del]

definition parse_request_line :: "string \<Rightarrow> http_request \<Rightarrow> http_request option" where
  "parse_request_line line r =
     (let stop = (\<lambda>i. chr_at line i = CHR '' '' \<or> chr_at line i = NUL);
          method_end = seek stop (length line) 0
      in if chr_at line method_end = NUL then None
         else if 16 \<le> method_end then None
         else let r = r\<lparr>rq_method := take method_end line\<rparr>;
                  path_start = method_end + 1;
                  path_end = seek stop (length line) path_start
           in if chr_at line path_end = NUL then None
              else if 256 \<le> path_end - path_start then None
              else let r = r\<lparr>rq_path := take (path_end - path_start) (drop path_start line)\<rparr>;
                       version = cstr_of (drop (path_end + 1) line)
                in if 16 \<le> length version then None else Some (r\<lparr>rq_version := version\<rparr>))"

definition crlf_at :: "string \<Rightarrow> nat \<Rightarrow> bool" where
  "crlf_at raw i \<longleftrightarrow> chr_at raw i = CR \<and> chr_at raw (i + 1) = LF"

text \<open>The inner loop: the lines between \<open>start\<close> and \<open>pos\<close>.\<close>

function parse_lines :: "string \<Rightarrow> nat \<Rightarrow> nat \<Rightarrow> http_request \<Rightarrow> http_request" where
  "parse_lines raw pos start r =
     (if start < pos then
        let stop = seek (crlf_at raw) pos start
        in parse_lines raw pos (stop + 2) (if start < stop then parse_header (drop start raw) r else r)
      else r)"
  by pat_completeness auto

lemma seek_ge: "i \<le> seek found bound i"
proof (induction found bound i rule: seek.induct)
  case (1 found bound i)
  then show ?case by (subst seek.simps) auto
qed

termination parse_lines
proof (relation "measure (\<lambda>(raw, pos, start, r). pos - start)", goal_cases)
  case (2 raw pos start r x)
  with seek_ge [of start "crlf_at raw" pos] show ?case by simp
qed simp

declare parse_lines.simps [simp del]

text \<open>The scan for the end of the headers: \<open>body_start\<close>, \<open>headers_start\<close> and the request.\<close>

function header_loop :: "string \<Rightarrow> nat \<Rightarrow> nat \<Rightarrow> nat \<Rightarrow> http_request \<Rightarrow> nat \<times> nat \<times> http_request" where
  "header_loop raw len pos headers_start r =
     (if pos + 1 < len then
        if crlf_at raw pos then
          if pos + 3 < len \<and> crlf_at raw (pos + 2) then (pos + 4, headers_start, r)
          else header_loop raw len (Suc pos) (pos + 2) (parse_lines raw pos headers_start r)
        else header_loop raw len (Suc pos) headers_start r
      else (0, headers_start, r))"
  by pat_completeness auto
termination by (relation "measure (\<lambda>(raw, len, pos, hs, r). len - pos)") auto

declare header_loop.simps [simp del]

definition is_eol :: "char \<Rightarrow> bool" where
  "is_eol c \<longleftrightarrow> c = CR \<or> c = LF"

text \<open>The last loop over the copied headers.\<close>

function remaining_headers :: "string \<Rightarrow> http_request \<Rightarrow> http_request" where
  "remaining_headers h r =
     (if h = [] then r
      else remaining_headers (dropWhile is_eol (dropWhile (\<lambda>c. \<not> is_eol c) h))
             (if is_eol (hd h) then r else parse_header h r))"
  by pat_completeness auto
termination
proof (relation "measure (\<lambda>(h, r). length h)", goal_cases)
  case (2 h r)
  obtain c cs where h: "h = c # cs" using 2 by (cases h) auto
  show ?case
  proof (cases "is_eol c")
    case True
    then show ?thesis using length_dropWhile_le [of is_eol cs] h by (simp add: le_imp_less_Suc)
  next
    case False
    then show ?thesis
      using length_dropWhile_le [of is_eol "dropWhile (\<lambda>c. \<not> is_eol c) cs"]
        length_dropWhile_le [of "\<lambda>c. \<not> is_eol c" cs] h
      by simp
  qed
qed simp

declare remaining_headers.simps [simp del]

definition empty_request :: http_request where
  "empty_request = \<lparr>rq_method = [], rq_path = [], rq_version = [], rq_headers = [], rq_body = [],
     rq_body_length = 0, rq_content_type = [], rq_content_length = 0\<rparr>"

definition copy_headers :: "string \<Rightarrow> nat \<Rightarrow> nat \<Rightarrow> nat \<Rightarrow> http_request \<Rightarrow> http_request" where
  "copy_headers raw line_end body_start headers_start r =
     (let n = (if headers_start + 4 < body_start then body_start - headers_start - 4 else 0)
      in if 0 < n
         then r\<lparr>rq_headers := cstr_of (take (if 1024 \<le> n then 1023 else n) (drop (line_end + 2) raw))\<rparr>
         else r)"

definition copy_body :: "string \<Rightarrow> nat \<Rightarrow> nat \<Rightarrow> http_request \<Rightarrow> http_request" where
  "copy_body raw len body_start r =
     (if body_start < len then
        let n = len - body_start;
            n = (if 0 < rq_content_length r \<and> unat (rq_content_length r) < n
                 then unat (rq_content_length r) else n);
            n = (if 8192 \<le> n then 8191 else n)
        in r\<lparr>rq_body := strncpy_bytes (cstr_of (drop body_start raw)) n, rq_body_length := n\<rparr>
      else r)"

definition http_parse_request :: "string \<Rightarrow> nat \<Rightarrow> http_request option" where
  "http_parse_request raw len =
     (if len = 0 \<or> 8192 + 4096 < len then None
      else let line_end = seek (crlf_at raw) (len - 1) 0
        in if len \<le> line_end + 1 then None
           else if 256 \<le> line_end then None
           else case parse_request_line (cstr_of (take line_end raw)) empty_request of
                  None \<Rightarrow> None
                | Some r \<Rightarrow>
                    let (body_start, headers_start, r) =
                          header_loop raw len (line_end + 2) (line_end + 2) r;
                        body_start = (if body_start = 0 then len else body_start);
                        r = copy_headers raw line_end body_start headers_start r;
                        r = remaining_headers (rq_headers r) r;
                        r = copy_body raw len body_start r
                    in if 8192 - 1 < rq_body_length r then None else Some r)"

section \<open>Responses\<close>

definition status_line :: "int \<Rightarrow> string" where
  "status_line code =
     (if code = 200 then ''HTTP/1.1 200 OK'' @ crlf
      else if code = 400 then ''HTTP/1.1 400 Bad Request'' @ crlf
      else if code = 404 then ''HTTP/1.1 404 Not Found'' @ crlf
      else if code = 405 then ''HTTP/1.1 405 Method Not Allowed'' @ crlf
      else if code = 422 then ''HTTP/1.1 422 Unprocessable Entity'' @ crlf
      else if code = 500 then ''HTTP/1.1 500 Internal Server Error'' @ crlf
      else if code = 503 then ''HTTP/1.1 503 Service Unavailable'' @ crlf
      else ''HTTP/1.1 200 OK'' @ crlf)"

text \<open>\<open>cap\<close> is the size of the buffer; the result is the text written and its length.\<close>

definition http_generate_response :: "http_response \<Rightarrow> nat \<Rightarrow> string option" where
  "http_generate_response response cap =
     Option.bind (snprintf_text 64 (status_line (rs_status response)) []) (\<lambda>(status_len, line).
       if status_len < 0 \<or> 64 \<le> status_len then None
       else let out = line; headers = cstr_of (rs_headers response) in
         if 0 < length headers \<and> cap \<le> length out + length headers then None
         else let out = out @ headers in
           Option.bind (snprintf_text 64 (''Content-Length: %zu'' @ crlf)
               [VInt (of_nat (rs_body_length response))]) (\<lambda>(n, header).
             if n < 0 \<or> 64 \<le> n then None
             else if cap \<le> length out + nat n then None
             else let out = out @ header in
               if cap \<le> length out + 2 then None
               else let out = out @ crlf in
                 if 0 < rs_body_length response then
                   if cap \<le> length out + rs_body_length response then None
                   else Some (out @ strncpy_bytes (cstr_of (rs_body response)) (rs_body_length response))
                 else Some out))"

section \<open>Parsing a well-formed request\<close>

lemma seek_eq:
  assumes "i \<le> j" "j \<le> bound" "\<And>k. i \<le> k \<Longrightarrow> k < j \<Longrightarrow> \<not> found k" "j = bound \<or> found j"
  shows "seek found bound i = j"
  using assms
proof (induction "j - i" arbitrary: i)
  case 0
  then show ?case by (subst seek.simps) auto
next
  case (Suc d)
  then have "i < bound" "\<not> found i" by auto
  moreover have "seek found bound (Suc i) = j"
    using Suc.hyps(2) Suc.prems by (intro Suc.hyps(1)) auto
  ultimately show ?case by (subst seek.simps) simp
qed

text \<open>The header scan leaves the request line and the body alone.\<close>

definition same_line :: "http_request \<Rightarrow> http_request \<Rightarrow> bool" where
  "same_line r s \<longleftrightarrow> rq_method s = rq_method r \<and> rq_path s = rq_path r \<and> rq_version s = rq_version r \<and>
     rq_body s = rq_body r \<and> rq_body_length s = rq_body_length r"

lemma same_line_trans: "same_line r s \<Longrightarrow> same_line s u \<Longrightarrow> same_line r u"
  by (simp add: same_line_def)

lemma same_line_refl [simp]: "same_line r r"
  by (simp add: same_line_def)

lemma parse_header_same: "same_line r (parse_header h r)"
  by (simp add: same_line_def parse_header_def Let_def)

lemma parse_lines_same: "same_line r (parse_lines raw pos start r)"
proof (induction raw pos start r rule: parse_lines.induct)
  case (1 raw pos start r)
  show ?case
  proof (cases "start < pos")
    case True
    from 1 [OF True refl] parse_header_same show ?thesis
      using True by (subst parse_lines.simps) (auto simp: Let_def split: if_splits intro: same_line_trans)
  qed (subst parse_lines.simps, simp)
qed

lemma remaining_headers_same: "same_line r (remaining_headers h r)"
proof (induction h r rule: remaining_headers.induct)
  case (1 h r)
  show ?case
  proof (cases "h = []")
    case False
    from 1 [OF False] parse_header_same show ?thesis
      using False by (subst remaining_headers.simps) (auto split: if_splits intro: same_line_trans)
  qed (subst remaining_headers.simps, simp)
qed

lemma copy_headers_same: "same_line r (copy_headers raw le bs hs r)"
  by (simp add: copy_headers_def same_line_def Let_def)

lemma header_loop_same: "same_line r (snd (snd (header_loop raw len pos hs r)))"
proof (induction raw len pos hs r rule: header_loop.induct)
  case (1 raw len pos hs r)
  then show ?case
    using parse_lines_same [of r raw pos hs]
    by (subst header_loop.simps) (auto intro: same_line_trans)
qed

text \<open>A blank line: two line ends in a row within the text.\<close>

definition blank_at :: "string \<Rightarrow> nat \<Rightarrow> nat \<Rightarrow> bool" where
  "blank_at raw len i \<longleftrightarrow> i + 3 < len \<and> crlf_at raw i \<and> crlf_at raw (i + 2)"

text \<open>The end of the headers is the first blank line.\<close>

lemma header_loop_first_blank:
  assumes "pos \<le> q" "blank_at raw len q" "\<And>k. pos \<le> k \<Longrightarrow> k < q \<Longrightarrow> \<not> blank_at raw len k"
  shows "fst (header_loop raw len pos hs r) = q + 4"
  using assms
proof (induction "q - pos" arbitrary: pos hs r)
  case 0
  then show ?case by (subst header_loop.simps) (simp add: blank_at_def)
next
  case (Suc d)
  have "\<not> blank_at raw len pos" "pos + 1 < len" using Suc.hyps(2) Suc.prems by (auto simp: blank_at_def)
  moreover have "fst (header_loop raw len (Suc pos) hs' r') = q + 4" for hs' r'
    using Suc.hyps(2) Suc.prems by (intro Suc.hyps(1)) auto
  ultimately show ?case
    by (subst header_loop.simps) (auto simp: blank_at_def)
qed

lemma header_loop_no_blank:
  assumes "\<And>k. pos \<le> k \<Longrightarrow> \<not> blank_at raw len k"
  shows "fst (header_loop raw len pos hs r) = 0"
  using assms
proof (induction raw len pos hs r rule: header_loop.induct)
  case (1 raw len pos hs r)
  have "\<not> blank_at raw len pos" using 1 by simp
  moreover have "\<And>k. Suc pos \<le> k \<Longrightarrow> \<not> blank_at raw len k" using "1.prems" by simp
  ultimately show ?case
    using "1.IH" by (subst header_loop.simps) (auto simp: blank_at_def)
qed

text \<open>The body of a parsed request, given where the headers end.\<close>

definition body_cut :: "nat \<Rightarrow> nat \<Rightarrow> nat" where
  "body_cut cl n = min 8191 (if 0 < cl \<and> cl < n then cl else n)"

lemma copy_body_eq:
  assumes "body_start < len"
  shows "copy_body raw len body_start r =
    r\<lparr>rq_body := strncpy_bytes (cstr_of (drop body_start raw)) (body_cut (unat (rq_content_length r)) (len - body_start)),
      rq_body_length := body_cut (unat (rq_content_length r)) (len - body_start)\<rparr>"
proof -
  have "0 < unat (rq_content_length r) \<longleftrightarrow> 0 < rq_content_length r"
    by (metis not_gr_zero unat_0 unat_eq_zero word_neq_0_conv)
  moreover have "(if 8192 \<le> n then 8191 else n) = min 8191 n" for n :: nat by simp
  ultimately show ?thesis
    using assms by (simp add: copy_body_def body_cut_def Let_def)
qed

lemma body_cut_le: "body_cut cl n \<le> 8191"
  by (simp add: body_cut_def)

lemma parse_request_line_body:
  "parse_request_line line r = Some s \<Longrightarrow> rq_body s = rq_body r \<and> rq_body_length s = rq_body_length r
     \<and> rq_content_length s = rq_content_length r \<and> rq_headers s = rq_headers r"
  by (auto simp: parse_request_line_def Let_def split: if_splits)

text \<open>The stages of the parser after the request line.\<close>

definition finish_request :: "string \<Rightarrow> nat \<Rightarrow> nat \<Rightarrow> http_request \<Rightarrow> http_request" where
  "finish_request raw len line_end r =
     (let (b, hs, r) = header_loop raw len (line_end + 2) (line_end + 2) r;
          b = (if b = 0 then len else b);
          r = copy_headers raw line_end b hs r
      in copy_body raw len b (remaining_headers (rq_headers r) r))"

lemma finish_request_body:
  fixes raw :: string and len line_end :: nat
  assumes "rq_body_length r = 0" "rq_body r = []"
  defines "b \<equiv> fst (header_loop raw len (line_end + 2) (line_end + 2) r)"
    and "s \<equiv> finish_request raw len line_end r"
  shows "rq_method s = rq_method r" "rq_path s = rq_path r" "rq_version s = rq_version r"
    "b = 0 \<or> len \<le> b \<Longrightarrow> rq_body_length s = 0 \<and> rq_body s = []"
    "0 < b \<Longrightarrow> b < len \<Longrightarrow>
       rq_body_length s = body_cut (unat (rq_content_length s)) (len - b) \<and>
       rq_body s = strncpy_bytes (cstr_of (drop b raw)) (rq_body_length s)"
    "rq_body_length s \<le> 8191"
proof -
  obtain b' hs r1 where l: "header_loop raw len (line_end + 2) (line_end + 2) r = (b', hs, r1)"
    by (cases "header_loop raw len (line_end + 2) (line_end + 2) r") blast
  define b2 where "b2 = (if b' = 0 then len else b')"
  define r2 where "r2 = copy_headers raw line_end b2 hs r1"
  define r3 where "r3 = remaining_headers (rq_headers r2) r2"
  have s: "s = copy_body raw len b2 r3" "b = b'"
    by (simp_all only: s_def b_def finish_request_def l b2_def r2_def r3_def prod.case Let_def fst_conv)
  have "same_line r r1"
    using header_loop_same [of r raw len "line_end + 2" "line_end + 2"] unfolding l by simp
  then have same: "same_line r r3"
    unfolding r3_def r2_def by (blast intro: same_line_trans copy_headers_same remaining_headers_same)
  have cl: "rq_content_length s = rq_content_length r3" by (simp add: s copy_body_def Let_def)
  show "rq_method s = rq_method r" "rq_path s = rq_path r" "rq_version s = rq_version r"
    using same by (simp_all add: s copy_body_def Let_def same_line_def)
  show "rq_body_length s = 0 \<and> rq_body s = []" if "b = 0 \<or> len \<le> b"
    using that same assms(1,2) by (auto simp: s b2_def copy_body_def same_line_def)
  show "rq_body_length s = body_cut (unat (rq_content_length s)) (len - b) \<and>
       rq_body s = strncpy_bytes (cstr_of (drop b raw)) (rq_body_length s)" if "0 < b" "b < len"
    using that copy_body_eq [of b len raw r3] unfolding cl by (simp add: s b2_def)
  show "rq_body_length s \<le> 8191"
    using same assms(1) copy_body_eq [of b2 len raw r3] body_cut_le
    by (cases "b2 < len") (simp_all add: s copy_body_def same_line_def)
qed

lemma http_parse_request_eq:
  "http_parse_request raw len =
     (let line_end = seek (crlf_at raw) (len - 1) 0
      in if len = 0 \<or> 12288 < len \<or> len \<le> line_end + 1 \<or> 256 \<le> line_end then None
         else map_option (finish_request raw len line_end)
                (parse_request_line (cstr_of (take line_end raw)) empty_request))"
proof -
  define le where "le = seek (crlf_at raw) (len - 1) 0"
  show ?thesis
  proof (cases "parse_request_line (cstr_of (take le raw)) empty_request")
    case None
    then show ?thesis unfolding http_parse_request_def Let_def le_def [symmetric] by simp
  next
    case (Some r)
    obtain b hs r1 where l: "header_loop raw len (le + 2) (le + 2) r = (b, hs, r1)"
      by (cases "header_loop raw len (le + 2) (le + 2) r") blast
    have f: "finish_request raw len le r = (let b = if b = 0 then len else b; r = copy_headers raw le b hs r1
        in copy_body raw len b (remaining_headers (rq_headers r) r))"
      by (simp only: finish_request_def l Let_def prod.case)
    have "\<not> 8191 < rq_body_length (finish_request raw len le r)"
      using finish_request_body(6) [of r raw len le] parse_request_line_body [OF Some]
      by (simp add: empty_request_def)
    then show ?thesis
      unfolding http_parse_request_def Let_def le_def [symmetric] Some option.case l prod.case option.map f
      by simp
  qed
qed

text \<open>The text of a request: the request line, header lines, a blank line and the body.\<close>

definition request_text :: "string \<Rightarrow> string \<Rightarrow> string \<Rightarrow> string list \<Rightarrow> string \<Rightarrow> string" where
  "request_text meth path version headers body =
     meth @ CHR '' '' # path @ CHR '' '' # version @ crlf @
     concat (map (\<lambda>h. h @ crlf) headers) @ crlf @ body"

definition request_ok :: "string \<Rightarrow> string \<Rightarrow> string \<Rightarrow> string list \<Rightarrow> bool" where
  "request_ok meth path version headers \<longleftrightarrow>
     (\<forall>c \<in> set (meth @ path). c \<noteq> CHR '' '' \<and> c \<noteq> NUL \<and> c \<noteq> CR) \<and>
     (\<forall>c \<in> set version. c \<noteq> NUL \<and> c \<noteq> CR) \<and>
     length meth < 16 \<and> length path < 256 \<and> length version < 16 \<and>
     length meth + length path + length version + 2 < 256 \<and>
     headers \<noteq> [] \<and> (\<forall>h \<in> set headers. h \<noteq> [] \<and> CR \<notin> set h)"

lemma request_okD:
  assumes "request_ok meth path version headers"
  shows "\<forall>c \<in> set (meth @ path). c \<noteq> CHR '' '' \<and> c \<noteq> NUL \<and> c \<noteq> CR"
    "\<forall>c \<in> set version. c \<noteq> NUL \<and> c \<noteq> CR" "headers \<noteq> []" "\<forall>h \<in> set headers. h \<noteq> [] \<and> CR \<notin> set h"
  using assms unfolding request_ok_def by blast+

lemma chr_at_append: "chr_at (a @ b) i = (if i < length a then a ! i else chr_at b (i - length a))"
  by (auto simp: chr_at_def nth_append)

lemma crlf_at_append: "crlf_at (a @ b) (length a + k) = crlf_at b k"
  by (simp add: crlf_at_def chr_at_append add.assoc)

lemma not_crlf_at: "k < length a \<Longrightarrow> CR \<notin> set a \<Longrightarrow> \<not> crlf_at (a @ b) k"
  by (metis chr_at_append crlf_at_def nth_mem)

abbreviation header_block :: "string list \<Rightarrow> string" where
  "header_block headers \<equiv> concat (map (\<lambda>h. h @ crlf) headers)"

lemma header_block_no_blank:
  assumes "\<forall>h \<in> set headers. h \<noteq> [] \<and> CR \<notin> set h" "k + 2 < length (header_block headers)"
  shows "\<not> (crlf_at (header_block headers @ rest) k \<and> crlf_at (header_block headers @ rest) (k + 2))"
  using assms
proof (induction headers arbitrary: k)
  case (Cons h hs)
  let ?t = "header_block hs @ rest"
  have eq: "header_block (h # hs) @ rest = h @ crlf @ ?t" by simp
  have h: "h \<noteq> []" "CR \<notin> set h" using Cons.prems(1) by auto
  consider "k < length h" | "k = length h" | "k = length h + 1" | j where "k = length h + (2 + j)"
    by (metis add.commute add_2_eq_Suc' le_Suc_ex less_Suc_eq not_less_eq_eq One_nat_def add_Suc_right
        add_0_right nat_less_le not_le_imp_less)
  then show ?case
  proof cases
    case 1
    then show ?thesis unfolding eq using not_crlf_at h(2) by blast
  next
    case 2
    with Cons.prems(2) obtain g gs where hs: "hs = g # gs" by (cases hs) auto
    then have g: "g \<noteq> []" "CR \<notin> set g" using Cons.prems(1) by auto
    have "crlf_at (h @ crlf @ ?t) (length h + 2) = crlf_at ?t 0"
      using crlf_at_append [of "h @ crlf" ?t 0] by simp
    moreover have "\<not> crlf_at (g @ crlf @ header_block gs @ rest) 0"
      using g by (intro not_crlf_at) simp_all
    ultimately show ?thesis unfolding eq using 2 hs by simp
  next
    case 3
    have "\<not> crlf_at (h @ crlf @ ?t) (length h + 1)"
      unfolding crlf_at_append by (simp add: crlf_at_def)
    with 3 show ?thesis unfolding eq by simp
  next
    case 4
    have "crlf_at (h @ crlf @ ?t) (length h + (2 + i)) = crlf_at ?t i" for i
      using crlf_at_append [of "h @ crlf" ?t i] by (simp add: add.assoc)
    from this [of j] this [of "j + 2"] Cons.IH [of j] Cons.prems 4 show ?thesis
      unfolding eq by (simp add: add.assoc)
  qed
qed simp

lemma parse_request_line_text:
  assumes "\<forall>c \<in> set (meth @ path). c \<noteq> CHR '' '' \<and> c \<noteq> NUL" "NUL \<notin> set version"
    "length meth < 16" "length path < 256" "length version < 16"
  shows "parse_request_line (meth @ CHR '' '' # path @ CHR '' '' # version) r
    = Some (r\<lparr>rq_method := meth, rq_path := path, rq_version := version\<rparr>)"
proof -
  let ?line = "meth @ CHR '' '' # path @ CHR '' '' # version"
  let ?stop = "\<lambda>i. chr_at ?line i = CHR '' '' \<or> chr_at ?line i = NUL"
  have "seek ?stop (length ?line) 0 = length meth"
    using assms(1) by (intro seek_eq) (auto simp: chr_at_append)
  moreover have "seek ?stop (length ?line) (length meth + 1) = length meth + 1 + length path"
  proof (intro seek_eq)
    fix k assume k: "length meth + 1 \<le> k" "k < length meth + 1 + length path"
    then obtain j where j: "k = length meth + Suc j" "j < length path"
      by (metis add_Suc_right add_less_cancel_left less_iff_Suc_add less_or_eq_imp_le Suc_eq_plus1 add.assoc le_Suc_ex plus_1_eq_Suc)
    then have "chr_at ?line k = path ! j" by (simp add: chr_at_append)
    with j assms(1) show "\<not> ?stop k" by auto
  qed (auto simp: chr_at_append)
  ultimately show ?thesis
    using assms(2-) by (simp add: parse_request_line_def Let_def chr_at_append cstr_of_id)
qed

lemma http_parse_request_text:
  assumes ok: "request_ok meth path version headers"
    and len: "length (request_text meth path version headers body) \<le> 12288"
  defines "raw \<equiv> request_text meth path version headers body"
  shows "\<exists>r. http_parse_request raw (length raw) = Some r \<and>
     rq_method r = meth \<and> rq_path r = path \<and> rq_version r = version \<and>
     rq_body_length r = body_cut (unat (rq_content_length r)) (length body) \<and>
     rq_body r = strncpy_bytes (cstr_of body) (rq_body_length r)"
proof -
  let ?line = "meth @ CHR '' '' # path @ CHR '' '' # version" and ?H = "header_block headers"
  have raw: "raw = ?line @ crlf @ ?H @ crlf @ body" by (simp add: raw_def request_text_def)
  have le: "seek (crlf_at raw) (length raw - 1) 0 = length ?line"
  proof (intro seek_eq)
    fix k assume k: "k < length ?line"
    have "CR \<notin> set ?line" using request_okD(1,2) [OF ok] by auto
    with k show "\<not> crlf_at raw k" unfolding raw by (rule not_crlf_at)
  next
    have "crlf_at (?line @ crlf @ ?H @ crlf @ body) (length ?line + 0)"
      unfolding crlf_at_append by (simp add: crlf_at_def)
    then show "length ?line = length raw - 1 \<or> crlf_at raw (length ?line)" by (simp add: raw)
  qed (simp_all add: raw)
  define q where "q = length ?line + length ?H"
  have H: "length ?H \<ge> 2" using ok by (cases headers) (auto simp: request_ok_def)
  have off: "crlf_at raw (length ?line + 2 + k) = crlf_at (?H @ crlf @ body) k" for k
    using crlf_at_append [of "?line @ crlf" "?H @ crlf @ body" k] by (simp add: raw)
  have blank: "blank_at raw (length raw) q"
  proof -
    obtain hs h where hs: "headers = hs @ [h]" using request_okD(3) [OF ok] by (metis rev_exhaust)
    have "crlf_at raw q"
      using off [of "length ?H - 2"] H crlf_at_append [of "header_block hs @ h" "crlf @ crlf @ body" 0]
      by (simp add: q_def hs crlf_at_def)
    moreover have "crlf_at raw (q + 2)"
      using off [of "length ?H"] crlf_at_append [of ?H "crlf @ body" 0] by (simp add: q_def crlf_at_def add_ac)
    ultimately show ?thesis by (simp add: blank_at_def q_def raw)
  qed
  have first: "\<not> blank_at raw (length raw) k" if k: "length ?line + 2 \<le> k" "k < q" for k
  proof -
    obtain j where j: "k = length ?line + 2 + j" using le_Suc_ex [OF k(1)] by blast
    with k(2) have "j + 2 < length ?H" by (simp add: q_def)
    note nb = header_block_no_blank [OF request_okD(4) [OF ok] this, of "crlf @ body"]
    have "crlf_at raw (k + 2) = crlf_at (?H @ crlf @ body) (j + 2)"
      using off [of "j + 2"] unfolding j by (simp only: add.assoc)
    with nb off [of j] j show ?thesis unfolding blank_at_def by blast
  qed
  define r0 where "r0 = empty_request\<lparr>rq_method := meth, rq_path := path, rq_version := version\<rparr>"
  have "take (length ?line) raw = ?line" by (simp add: raw)
  moreover have "NUL \<notin> set ?line" using request_okD(1,2) [OF ok] by auto
  ultimately have line: "parse_request_line (cstr_of (take (length ?line) raw)) empty_request = Some r0"
    using parse_request_line_text [of meth path version empty_request] request_okD(1,2) [OF ok] ok
    by (simp add: cstr_of_id r0_def request_ok_def)
  let ?r = "finish_request raw (length raw) (length ?line) r0"
  have "length ?line < 256" "length raw \<noteq> 0" "length ?line + 1 < length raw" "length raw \<le> 12288"
    using ok len by (simp_all add: request_ok_def raw raw_def [symmetric])
  then have parse: "http_parse_request raw (length raw) = Some ?r"
    unfolding http_parse_request_eq Let_def le line by simp
  have b: "fst (header_loop raw (length raw) (length ?line + 2) (length ?line + 2) r0) = q + 4"
    using H by (intro header_loop_first_blank blank first) (simp_all add: q_def)
  define head where "head = ?line @ crlf @ ?H @ crlf"
  have "raw = head @ body" "q + 4 = length head"
    by (simp_all add: q_def raw head_def)
  then have qb: "q + 4 \<le> length raw" "length raw - (q + 4) = length body" "drop (q + 4) raw = body"
    by simp_all
  note fr = finish_request_body [of r0 raw "length raw" "length ?line", unfolded b]
  have r0: "rq_body_length r0 = 0" "rq_body r0 = []" by (simp_all add: r0_def empty_request_def)
  have "rq_body_length ?r = body_cut (unat (rq_content_length ?r)) (length body) \<and>
     rq_body ?r = strncpy_bytes (cstr_of body) (rq_body_length ?r)"
  proof (cases "body = []")
    case True
    with qb have "length raw \<le> q + 4" by simp
    with fr(4) [OF r0] have "rq_body_length ?r = 0 \<and> rq_body ?r = []" by blast
    with True show ?thesis by (simp add: body_cut_def strncpy_bytes_def)
  next
    case False
    with qb have "q + 4 < length raw" by (metis diff_is_0_eq' length_0_conv not_le_imp_less)
    with fr(5) [OF r0] show ?thesis by (simp only: qb)
  qed
  with parse fr(1-3) [OF r0] show ?thesis
    by (intro exI [of _ ?r]) (simp add: r0_def)
qed



lemma header_loop_result:
  "fst (header_loop raw len pos hs r) = 0 \<or>
   (\<exists>q. blank_at raw len q \<and> fst (header_loop raw len pos hs r) = q + 4)"
proof (induction raw len pos hs r rule: header_loop.induct)
  case (1 raw len pos hs r)
  then show ?case
    by (subst (1 2) header_loop.simps) (auto simp: blank_at_def)
qed

lemma http_cut_no_body:
  assumes "http_parse_request raw len = Some r" and "\<And>i. blank_at raw len i \<Longrightarrow> len \<le> i + 4"
  shows "rq_body_length r = 0 \<and> rq_body r = []"
proof -
  define le where "le = seek (crlf_at raw) (len - 1) 0"
  obtain r0 where r0: "parse_request_line (cstr_of (take le raw)) empty_request = Some r0"
    "r = finish_request raw len le r0"
    using assms(1) by (auto simp: http_parse_request_eq Let_def le_def split: if_splits)
  have "rq_body_length r0 = 0" "rq_body r0 = []"
    using parse_request_line_body [OF r0(1)] by (simp_all add: empty_request_def)
  moreover have "fst (header_loop raw len (le + 2) (le + 2) r0) = 0 \<or> len \<le> fst (header_loop raw len (le + 2) (le + 2) r0)"
    using header_loop_result [of raw len "le + 2" "le + 2" r0] assms(2) by auto
  ultimately show ?thesis using r0(2) finish_request_body(4) [of r0 raw len le] by simp
qed

text \<open>
  A request cut off at its first blank line has no body: whatever its headers
  announce, when every blank line of the text is at its very end (the way
  \<^verbatim>\<open>tcp_receive\<close> passes it on), the parsed body is empty and its length 0.
\<close>

theorem http_request_cut_at_blank_line:
  assumes "http_parse_request raw len = Some r" and "\<And>i. blank_at raw len i \<Longrightarrow> len \<le> i + 4"
  shows "rq_body_length r = 0 \<and> rq_body r = []"
  using assms by (rule http_cut_no_body)

theorem http_request_cut_at_blank_line_witness:
  "\<exists>r. http_parse_request (''POST /t HTTP/1.1'' @ crlf @ ''Content-Length: 9'' @ crlf @ crlf) 39 = Some r
     \<and> rq_body_length r = 0"
proof -
  let ?raw = "''POST /t HTTP/1.1'' @ crlf @ ''Content-Length: 9'' @ crlf @ crlf"
  have "\<not> Option.is_none (http_parse_request ?raw 39)" by code_simp
  then obtain r where r: "http_parse_request ?raw 39 = Some r" by (auto simp: Option.is_none_def)
  have "\<forall>i \<in> set [0..<35]. \<not> blank_at ?raw 39 i" by (simp add: blank_at_def crlf_at_def upt_rec chr_at_def)
  then have "39 \<le> i + 4" if "blank_at ?raw 39 i" for i using that by (cases "i < 35") auto
  from http_request_cut_at_blank_line [OF r this] r show ?thesis by blast
qed

text \<open>
  With several headers the last one is not scanned, and the prefix of the header
  block that is copied instead (as long as the last header) is scanned a second time: here it cuts
  \<^verbatim>\<open>Content-Length: 15\<close> after its first digit, so a body of 15 bytes is received as its
  first byte.
\<close>

theorem http_content_length_truncated:
  "map_option (\<lambda>r. (rq_content_length r, rq_body_length r, rq_body r))
     (http_parse_request
       (request_text ''POST'' ''/tokenize'' ''HTTP/1.1'' [''Content-Length: 15'', ''Connection: close''] ''{\"content\": \"a\"'')
       (length (request_text ''POST'' ''/tokenize'' ''HTTP/1.1'' [''Content-Length: 15'', ''Connection: close''] ''{\"content\": \"a\"'')))
   = Some (1, 1, ''{'')"
  by code_simp

section \<open>The response text\<close>

definition response_text :: "http_response \<Rightarrow> string" where
  "response_text rs = status_line (rs_status rs) @ cstr_of (rs_headers rs) @
     ''Content-Length: '' @ uint_text (rs_body_length rs) 10 False @ crlf @ crlf @
     strncpy_bytes (cstr_of (rs_body rs)) (rs_body_length rs)"

lemma render_plain: "CHR ''%'' \<notin> set s \<Longrightarrow> render s ap = Some s"
  by (induction s) (auto simp: render_Cons)

lemma status_line_plain: "CHR ''%'' \<notin> set (status_line code)" "length (status_line code) < 64"
  by (simp_all add: status_line_def)

lemma render_content_length:
  "render (''Content-Length: %zu'' @ crlf) [VInt n] = Some (''Content-Length: '' @ uint_text (unat n) 10 False @ crlf)"
  by (simp add: render_Cons)

lemma http_generate_response_eq:
  assumes "rs_body_length rs < 2 ^ 32"
  shows "http_generate_response rs cap = (if cap \<le> length (response_text rs) then None else Some (response_text rs))"
proof -
  have n: "unat (of_nat (rs_body_length rs) :: u32) = rs_body_length rs"
    using assms by (simp add: unat_of_nat)
  have line: "snprintf_text 64 (status_line (rs_status rs)) []
      = Some (int (length (status_line (rs_status rs))), status_line (rs_status rs))"
    using status_line_plain [of "rs_status rs"] by (simp add: snprintf_text_def render_plain)
  let ?h = "''Content-Length: '' @ uint_text (rs_body_length rs) 10 False @ crlf"
  have h: "length ?h < 64" using length_uint_text_le [OF assms, of False] by simp
  then have header: "snprintf_text 64 (''Content-Length: %zu'' @ crlf) [VInt (of_nat (rs_body_length rs))]
      = Some (int (length ?h), ?h)"
    unfolding snprintf_text_def render_content_length n by simp
  show ?thesis
    using status_line_plain(2) [of "rs_status rs"] h
    unfolding http_generate_response_def line header response_text_def Option.bind.simps prod.case Let_def
    by (auto simp: strncpy_bytes_def)
qed



end
