(* ===== verification/Allocator.thy ===== *)
theory Allocator
  imports Prelude
begin

text \<open>
  The heap of \<^verbatim>\<open>src/allocator.c\<close>: first fit with splitting and coalescing over a 4 MB
  arena, at the level of its pointers.

  A pointer into the arena is its offset; the state is the block headers in memory (by offset), the head
  of the free list and the initialization flag. The payload bytes are the client's. Following a pointer
  to where no header was ever written is undefined and \<^term>\<open>None\<close>; so is a walk along
  the free list that would not end. On i386 a header takes 12 bytes, rounded up to 16, and
  \<^verbatim>\<open>size_t\<close> has 32 bits.
\<close>

named_theorems heap_simps

section \<open>State and operations\<close>

record mem_block =
  b_size :: nat
  b_free :: bool
  b_next :: "nat option"

record heap =
  hdr :: "nat \<Rightarrow> mem_block option"
  free_list_head :: "nat option"
  heap_initialized :: bool

definition HEAP_SIZE :: nat where
  "HEAP_SIZE = 4 * 1024 * 1024"

definition HEADER_SIZE :: nat where
  "HEADER_SIZE = 16"

text \<open>The state at boot: static data, all zero.\<close>

definition boot_heap :: heap where
  "boot_heap = \<lparr>hdr = (\<lambda>_. None), free_list_head = None, heap_initialized = False\<rparr>"

definition memory_init_heap :: "heap \<Rightarrow> heap" where
  "memory_init_heap st =
     (if heap_initialized st then st
      else st\<lparr>hdr := (hdr st)(0 \<mapsto> \<lparr>b_size = HEAP_SIZE - HEADER_SIZE, b_free = True, b_next = None\<rparr>),
             free_list_head := Some 0, heap_initialized := True\<rparr>)"

text \<open>\<^verbatim>\<open>(size + 7) & ~7\<close> on 32 bits.\<close>

definition align8 :: "nat \<Rightarrow> nat" where
  "align8 n = (let m = ((n + 7) mod 2 ^ 32) div 8 * 8 in if m = 0 then 8 else m)"

text \<open>The search loop: the block found and its predecessor in the list.\<close>

partial_function (option) find_fit ::
  "(nat \<Rightarrow> mem_block option) \<Rightarrow> nat \<Rightarrow> nat option \<Rightarrow> nat option \<Rightarrow> (nat option \<times> nat option) option" where
  "find_fit h n prev current =
     (if current = None then Some (prev, None)
      else Option.bind (h (the current)) (\<lambda>b.
          if b_free b \<and> n \<le> b_size b then Some (prev, current)
          else find_fit h n current (b_next b)))"

text \<open>\<^verbatim>\<open>while (*pos != NULL && *pos < block) pos = &(*pos)->next\<close>: the block whose
  \<^verbatim>\<open>next\<close> is \<open>*pos\<close>, or the head, and the value of \<open>*pos\<close>.\<close>

partial_function (option) find_pos ::
  "(nat \<Rightarrow> mem_block option) \<Rightarrow> nat \<Rightarrow> nat option \<Rightarrow> nat option \<Rightarrow> (nat option \<times> nat option) option" where
  "find_pos h block owner current =
     (if current \<noteq> None \<and> the current < block
      then Option.bind (h (the current)) (\<lambda>b. find_pos h block current (b_next b))
      else Some (owner, current))"

text \<open>Writing through the link: the head of the list or the \<^verbatim>\<open>next\<close> of a block.\<close>

definition set_link :: "nat option \<Rightarrow> nat option \<Rightarrow> heap \<Rightarrow> heap option" where
  "set_link owner x st =
     (case owner of
        None \<Rightarrow> Some (st\<lparr>free_list_head := x\<rparr>)
      | Some a \<Rightarrow> map_option (\<lambda>b. st\<lparr>hdr := (hdr st)(a \<mapsto> b\<lparr>b_next := x\<rparr>)\<rparr>) (hdr st a))"

definition set_hdr :: "nat \<Rightarrow> mem_block \<Rightarrow> heap \<Rightarrow> heap" where
  "set_hdr a b st = st\<lparr>hdr := (hdr st)(a \<mapsto> b)\<rparr>"

definition insert_block :: "nat \<Rightarrow> heap \<Rightarrow> heap option" where
  "insert_block a st =
     Option.bind (find_pos (hdr st) a None (free_list_head st)) (\<lambda>(owner, at_pos).
     Option.bind (hdr st a) (\<lambda>b.
       set_link owner (Some a) (set_hdr a (b\<lparr>b_next := at_pos\<rparr>) st)))"

definition alloc_block :: "nat \<Rightarrow> nat option \<Rightarrow> nat \<Rightarrow> heap \<Rightarrow> heap option" where
  "alloc_block n prev c st =
     Option.bind (hdr st c) (\<lambda>b.
     Option.bind (set_link prev (b_next b) st) (\<lambda>st.
     Option.bind
       (if n + HEADER_SIZE + HEADER_SIZE + 8 \<le> b_size b then
          let new_block = c + (n + HEADER_SIZE) in
          Option.bind (insert_block new_block
             (set_hdr new_block \<lparr>b_size = b_size b - (n + HEADER_SIZE), b_free = True, b_next = None\<rparr> st))
            (\<lambda>st. map_option (\<lambda>b. set_hdr c (b\<lparr>b_size := n\<rparr>) st) (hdr st c))
        else Some st)
       (\<lambda>st. map_option (\<lambda>b. set_hdr c (b\<lparr>b_free := False, b_next := None\<rparr>) st) (hdr st c))))"

definition malloc :: "nat \<Rightarrow> heap \<Rightarrow> (nat option \<times> heap) option" where
  "malloc n st =
     (if n = 0 then Some (None, st)
      else let st = memory_init_heap st; n = align8 n in
        Option.bind (find_fit (hdr st) n None (free_list_head st)) (\<lambda>(prev, found).
          case found of
            None \<Rightarrow> Some (None, st)
          | Some c \<Rightarrow> map_option (\<lambda>st. (Some (c + HEADER_SIZE), st)) (alloc_block n prev c st)))"

partial_function (option) coalesce ::
  "nat option \<Rightarrow> (nat \<Rightarrow> mem_block option) \<Rightarrow> (nat \<Rightarrow> mem_block option) option" where
  "coalesce current h =
     (case current of
        None \<Rightarrow> Some h
      | Some c \<Rightarrow> Option.bind (h c) (\<lambda>b.
          case b_next b of
            None \<Rightarrow> Some h
          | Some m \<Rightarrow>
              if c + HEADER_SIZE + b_size b = m then
                Option.bind (h m) (\<lambda>bm.
                  coalesce (Some c)
                    (h(c \<mapsto> b\<lparr>b_size := b_size b + (HEADER_SIZE + b_size bm), b_next := b_next bm\<rparr>)))
              else coalesce (Some m) h))"

definition free :: "nat option \<Rightarrow> heap \<Rightarrow> heap option" where
  "free ptr st =
     (case ptr of
        None \<Rightarrow> Some st
      | Some p \<Rightarrow>
          if p < HEADER_SIZE then None
          else let a = p - HEADER_SIZE in
            Option.bind (hdr st a) (\<lambda>b.
              if b_free b then Some st
              else Option.bind (insert_block a (set_hdr a (b\<lparr>b_free := True, b_next := None\<rparr>) st)) (\<lambda>st.
                map_option (\<lambda>h. st\<lparr>hdr := h\<rparr>) (coalesce (free_list_head st) (hdr st)))))"

text \<open>
  The third component says which bytes were copied: from, to, count.
\<close>

definition realloc ::
  "nat option \<Rightarrow> nat \<Rightarrow> heap \<Rightarrow> (nat option \<times> heap \<times> (nat \<times> nat \<times> nat) option) option" where
  "realloc ptr n st =
     (case ptr of
        None \<Rightarrow> map_option (\<lambda>(p, st). (p, st, None)) (malloc n st)
      | Some p \<Rightarrow>
          if n = 0 then map_option (\<lambda>st. (None, st, None)) (free ptr st)
          else if p < HEADER_SIZE then None
          else let a = p - HEADER_SIZE in
            Option.bind (hdr st a) (\<lambda>b.
              let current_size = b_size b in
              if n \<le> current_size then Some (ptr, set_hdr a (b\<lparr>b_size := n\<rparr>) st, None)
              else Option.bind (malloc n st) (\<lambda>(new_ptr, st).
                case new_ptr of
                  None \<Rightarrow> Some (None, st, None)
                | Some q \<Rightarrow> map_option (\<lambda>st. (new_ptr, st, Some (p, q, current_size))) (free ptr st))))"

section \<open>The free list as a list\<close>

text \<open>A block is its offset and payload size; it occupies its header and its payload.\<close>

type_synonym block = "nat \<times> nat"

definition block_end :: "block \<Rightarrow> nat" where
  "block_end x = fst x + HEADER_SIZE + snd x"

definition before :: "block \<Rightarrow> block \<Rightarrow> bool" where
  "before x y \<longleftrightarrow> block_end x \<le> fst y"

definition apart :: "block \<Rightarrow> block \<Rightarrow> bool" where
  "apart x y \<longleftrightarrow> before x y \<or> before y x"

fun first :: "block list \<Rightarrow> nat option" where
  "first [] = None"
| "first (x # xs) = Some (fst x)"

text \<open>The headers of the blocks of \<open>fl\<close> are linked in this order, ending in \<open>nx\<close>.\<close>

fun chain :: "(nat \<Rightarrow> mem_block option) \<Rightarrow> block list \<Rightarrow> nat option \<Rightarrow> bool" where
  "chain h [] nx = True"
| "chain h (x # xs) nx =
     (h (fst x) = Some \<lparr>b_size = snd x, b_free = True, b_next = (if xs = [] then nx else first xs)\<rparr> \<and> chain h xs nx)"

definition in_arena :: "block \<Rightarrow> bool" where
  "in_arena x \<longleftrightarrow> block_end x \<le> HEAP_SIZE"

text \<open>The invariant, with the free blocks \<open>fl\<close> in list order and the blocks \<open>al\<close> in use.\<close>

definition heap_inv :: "heap \<Rightarrow> block list \<Rightarrow> block list \<Rightarrow> bool" where
  "heap_inv st fl al \<longleftrightarrow>
     heap_initialized st \<and> free_list_head st = first fl \<and> chain (hdr st) fl None \<and>
     (\<forall>x \<in> set al. \<exists>nx. hdr st (fst x) = Some \<lparr>b_size = snd x, b_free = False, b_next = nx\<rparr>) \<and>
     sorted_wrt before fl \<and> sorted_wrt apart al \<and>
     (\<forall>x \<in> set al. \<forall>y \<in> set fl. apart x y) \<and> (\<forall>x \<in> set (fl @ al). in_arena x)"

lemma chain_append:
  "chain h (xs @ ys) nx \<longleftrightarrow> chain h xs (if ys = [] then nx else first ys) \<and> chain h ys nx"
  by (induction xs) (auto simp: neq_Nil_conv)

lemma chain_cong: "(\<And>x. x \<in> set xs \<Longrightarrow> h' (fst x) = h (fst x)) \<Longrightarrow> chain h' xs nx = chain h xs nx"
  by (induction xs) auto

lemma chain_other: "a \<notin> fst ` set xs \<Longrightarrow> chain (h(a := b)) xs nx = chain h xs nx"
  by (rule chain_cong) auto

lemma before_less: "before x y \<Longrightarrow> fst x < fst y"
  by (simp add: before_def block_end_def HEADER_SIZE_def)

lemma apart_neq: "apart x y \<Longrightarrow> fst x \<noteq> fst y"
  by (auto simp: apart_def dest: before_less)

lemma apart_sym: "apart x y \<longleftrightarrow> apart y x"
  by (auto simp: apart_def)

lemma before_trans: "before x y \<Longrightarrow> before y z \<Longrightarrow> before x z"
  by (simp add: before_def block_end_def)

text \<open>The block that owns the link behind \<open>xs\<close>.\<close>

definition owner_of :: "block list \<Rightarrow> nat option \<Rightarrow> nat option" where
  "owner_of xs d = (if xs = [] then d else Some (fst (last xs)))"

lemma find_fit_none:
  "chain h fl None \<Longrightarrow> \<forall>x \<in> set fl. snd x < n \<Longrightarrow> \<exists>p. find_fit h n prev (first fl) = Some (p, None)"
proof (induction fl arbitrary: prev)
  case Nil
  then show ?case by (subst find_fit.simps) simp
next
  case (Cons x fl)
  then have "find_fit h n prev (first (x # fl)) = find_fit h n (Some (fst x)) (first fl)"
    by (subst find_fit.simps) (cases fl, auto)
  with Cons show ?case by simp
qed

lemma find_fit_some:
  "chain h (xs @ x # ys) None \<Longrightarrow> \<forall>y \<in> set xs. snd y < n \<Longrightarrow> n \<le> snd x \<Longrightarrow>
   find_fit h n prev (first (xs @ x # ys)) = Some (owner_of xs prev, Some (fst x))"
proof (induction xs arbitrary: prev)
  case Nil
  then show ?case by (subst find_fit.simps) (simp add: owner_of_def)
next
  case (Cons y xs)
  have "find_fit h n prev (first ((y # xs) @ x # ys)) = find_fit h n (Some (fst y)) (first (xs @ x # ys))"
    using Cons.prems by (subst find_fit.simps) simp
  with Cons.IH [of "Some (fst y)"] Cons.prems show ?case by (simp add: owner_of_def)
qed

lemma find_pos_chain:
  "chain h (xs @ ys) None \<Longrightarrow> \<forall>x \<in> set xs. fst x < a \<Longrightarrow> ys = [] \<or> a \<le> fst (hd ys) \<Longrightarrow>
   find_pos h a d (first (xs @ ys)) = Some (owner_of xs d, first ys)"
proof (induction xs arbitrary: d)
  case Nil
  then show ?case by (subst find_pos.simps) (cases ys, auto simp: owner_of_def)
next
  case (Cons x xs)
  have "find_pos h a d (first ((x # xs) @ ys)) = find_pos h a (Some (fst x)) (first (xs @ ys))"
    using Cons.prems by (subst find_pos.simps) (cases "xs @ ys", auto)
  with Cons.IH [of "Some (fst x)"] Cons.prems show ?case by (simp add: owner_of_def)
qed

lemma chain_relink:
  assumes "chain h xs nx" "xs \<noteq> []" "distinct (map fst xs)"
  shows "\<exists>b. h (fst (last xs)) = Some b \<and> chain (h(fst (last xs) \<mapsto> b\<lparr>b_next := v\<rparr>)) xs v"
  using assms
proof (induction xs)
  case (Cons x xs)
  show ?case
  proof (cases "xs = []")
    case False
    have "chain h xs nx" "distinct (map fst xs)" using Cons.prems False by simp_all
    from Cons.IH [OF this(1) False this(2)] obtain b where
      b: "h (fst (last xs)) = Some b" "chain (h(fst (last xs) \<mapsto> b\<lparr>b_next := v\<rparr>)) xs v" by blast
    have x: "fst x \<noteq> fst (last xs)" using Cons.prems False by auto
    then have "chain (h(fst (last xs) \<mapsto> b\<lparr>b_next := v\<rparr>)) (x # xs) v"
      using Cons.prems False b(2) by simp
    moreover have "last (x # xs) = last xs" using False by simp
    ultimately show ?thesis using b(1) by metis
  qed (use Cons in simp)
qed simp

lemma set_link_chain:
  assumes "chain (hdr st) xs nx" "distinct (map fst xs)" "d = None"
  obtains st' where "set_link (owner_of xs d) v st = Some st'" "chain (hdr st') xs v"
    "free_list_head st' = (if xs = [] then v else free_list_head st)"
    "heap_initialized st' = heap_initialized st"
    "\<And>a. a \<notin> fst ` set xs \<Longrightarrow> hdr st' a = hdr st a"
proof (cases "xs = []")
  case True
  with assms(3) that show ?thesis by (auto simp: set_link_def owner_of_def)
next
  case False
  from chain_relink [OF assms(1) False assms(2), of v] obtain b where
    b: "hdr st (fst (last xs)) = Some b" "chain ((hdr st)(fst (last xs) \<mapsto> b\<lparr>b_next := v\<rparr>)) xs v" by blast
  show ?thesis
    by (rule that [of "st\<lparr>hdr := (hdr st)(fst (last xs) \<mapsto> b\<lparr>b_next := v\<rparr>)\<rparr>"])
       (use b False in \<open>auto simp: set_link_def owner_of_def\<close>)
qed

lemma sorted_distinct: "sorted_wrt before xs \<Longrightarrow> distinct (map fst xs)"
proof (induction xs)
  case (Cons x xs)
  then have "\<forall>y \<in> set xs. fst x < fst y" by (simp add: before_less)
  with Cons show ?case by fastforce
qed simp

lemma sorted_middle:
  assumes "sorted_wrt before (xs @ x # ys)"
  shows "\<forall>y \<in> set xs. fst y < fst x" "\<forall>y \<in> set ys. fst x < fst y"
  using assms by (simp_all add: sorted_wrt_append before_less)

lemma first_append: "first (xs @ ys) = (if xs = [] then first ys else first xs)"
  by (cases xs) auto

lemma insert_block_chain:
  assumes "free_list_head st = first (xs @ ys)" "chain (hdr st) (xs @ ys) None"
    "sorted_wrt before (xs @ (a, s) # ys)" "hdr st a = Some \<lparr>b_size = s, b_free = True, b_next = nx\<rparr>"
  obtains st' where "insert_block a st = Some st'" "free_list_head st' = first (xs @ (a, s) # ys)"
    "chain (hdr st') (xs @ (a, s) # ys) None" "heap_initialized st' = heap_initialized st"
    "\<And>b. b \<notin> fst ` set (xs @ (a, s) # ys) \<Longrightarrow> hdr st' b = hdr st b"
proof -
  have a: "\<forall>x \<in> set xs. fst x < a" "\<forall>y \<in> set ys. a < fst y"
    using sorted_middle [OF assms(3)] by simp_all
  then have fresh: "a \<notin> fst ` set xs" "a \<notin> fst ` set ys" by fastforce+
  have ys: "ys = [] \<or> a \<le> fst (hd ys)" using a(2) by (cases ys) auto
  note pos = find_pos_chain [OF assms(2) a(1) ys, of None]
  let ?b = "\<lparr>b_size = s, b_free = True, b_next = first ys\<rparr>"
  let ?st = "set_hdr a ?b st"
  have c: "chain (hdr ?st) xs (if ys = [] then None else first ys)" "chain (hdr ?st) ys None"
    using assms(2) fresh by (auto simp: chain_append set_hdr_def chain_other)
  have "sorted_wrt before xs" using assms(3) by (simp add: sorted_wrt_append)
  from set_link_chain [OF c(1) sorted_distinct [OF this] refl, of "Some a"] obtain st' where
    st': "set_link (owner_of xs None) (Some a) ?st = Some st'" "chain (hdr st') xs (Some a)"
      "free_list_head st' = (if xs = [] then Some a else free_list_head ?st)"
      "heap_initialized st' = heap_initialized ?st" "\<And>b. b \<notin> fst ` set xs \<Longrightarrow> hdr st' b = hdr ?st b" by blast
  show ?thesis
  proof (rule that [of st'])
    show "insert_block a st = Some st'"
      using pos st'(1) assms(1,4) by (simp add: insert_block_def)
    show "free_list_head st' = first (xs @ (a, s) # ys)"
      using st'(3) assms(1) by (simp add: first_append set_hdr_def)
    have "hdr st' y = hdr ?st y" if "y \<in> fst ` set ((a, s) # ys)" for y
      using a that by (intro st'(5)) force
    then have "chain (hdr st') ys None" "hdr st' a = hdr ?st a"
      using c(2) by (auto cong: chain_cong)
    then show "chain (hdr st') (xs @ (a, s) # ys) None"
      using st'(2) by (auto simp: chain_append set_hdr_def)
  qed (use st'(4,5) in \<open>auto simp: set_hdr_def image_Un\<close>)
qed

section \<open>malloc\<close>

text \<open>What the split leaves of a free block, and the block handed out.\<close>

definition split_rest :: "nat \<Rightarrow> block \<Rightarrow> block list" where
  "split_rest n x =
     (if n + 40 \<le> snd x then [(fst x + HEADER_SIZE + n, snd x - (n + HEADER_SIZE))] else [])"

definition split_taken :: "nat \<Rightarrow> block \<Rightarrow> block" where
  "split_taken n x = (fst x, if n + 40 \<le> snd x then n else snd x)"

lemma apart_split_rest: "apart y x \<Longrightarrow> z \<in> set (split_rest n x) \<Longrightarrow> apart y z"
proof -
  assume a: "apart y x" and z: "z \<in> set (split_rest n x)"
  then have "n + 40 \<le> snd x" "z = (fst x + HEADER_SIZE + n, snd x - (n + HEADER_SIZE))"
    by (cases "n + 40 \<le> snd x"; simp add: split_rest_def)+
  then have "fst x \<le> fst z" "block_end z \<le> block_end x"
    by (simp_all add: block_end_def HEADER_SIZE_def)
  with a show ?thesis by (auto simp: apart_def before_def)
qed

lemma heap_invD:
  assumes "heap_inv st fl al"
  shows "heap_initialized st" "free_list_head st = first fl" "chain (hdr st) fl None"
    "sorted_wrt before fl" "sorted_wrt apart al" "\<And>x y. x \<in> set al \<Longrightarrow> y \<in> set fl \<Longrightarrow> apart x y"
    "\<And>x. x \<in> set al \<Longrightarrow> \<exists>nx. hdr st (fst x) = Some \<lparr>b_size = snd x, b_free = False, b_next = nx\<rparr>"
    "\<And>x. x \<in> set (fl @ al) \<Longrightarrow> in_arena x"
  using assms unfolding heap_inv_def by blast+

lemma alloc_block_chain:
  assumes inv: "heap_inv st (xs @ x # ys) al" and n: "n \<le> snd x" "0 < n"
  obtains st' where "alloc_block n (owner_of xs None) (fst x) st = Some st'"
    "heap_inv st' (xs @ split_rest n x @ ys) (split_taken n x # al)"
proof -
  note i = heap_invD [OF inv]
  obtain c sz where x: "x = (c, sz)" by (cases x)
  have srt: "sorted_wrt before (xs @ ys)" "sorted_wrt before xs"
    using i(4) by (auto simp: sorted_wrt_append)
  have xs: "\<forall>y \<in> set xs. fst y < c" "\<forall>y \<in> set ys. c < fst y" using sorted_middle [OF i(4)] x by auto
  have c_out: "c \<notin> fst ` set xs" "c \<notin> fst ` set ys" using xs by fastforce+
  have b: "hdr st c = Some \<lparr>b_size = sz, b_free = True, b_next = first ys\<rparr>"
    using i(3) x by (cases ys) (auto simp: chain_append)
  have "chain (hdr st) xs (Some c)" using i(3) x by (simp add: chain_append)
  from set_link_chain [OF this sorted_distinct [OF srt(2)] refl, of "first ys"] obtain st1 where
    st1: "set_link (owner_of xs None) (first ys) st = Some st1" "chain (hdr st1) xs (first ys)"
      "free_list_head st1 = (if xs = [] then first ys else free_list_head st)"
      "heap_initialized st1 = heap_initialized st" "\<And>a. a \<notin> fst ` set xs \<Longrightarrow> hdr st1 a = hdr st a" by blast
  have "chain (hdr st1) ys None \<longleftrightarrow> chain (hdr st) ys None"
    using sorted_middle [OF i(4)] by (intro chain_cong st1(5)) force
  with i(3) x have ch1: "chain (hdr st1) (xs @ ys) None"
    using st1(2) by (cases "ys = []") (auto simp: chain_append)
  have head1: "free_list_head st1 = first (xs @ ys)"
    using st1(3) i(2) by (cases xs) auto
  let ?taken = "split_taken n x" and ?rest = "split_rest n x"
  define st2 where "st2 = (if n + HEADER_SIZE + HEADER_SIZE + 8 \<le> sz
      then Option.bind (insert_block (c + (n + HEADER_SIZE))
             (set_hdr (c + (n + HEADER_SIZE)) \<lparr>b_size = sz - (n + HEADER_SIZE), b_free = True, b_next = None\<rparr> st1))
            (\<lambda>st. map_option (\<lambda>b. set_hdr c (b\<lparr>b_size := n\<rparr>) st) (hdr st c))
      else Some st1)"
  have rest_sorted: "sorted_wrt before (xs @ ?rest @ ys)"
    using i(4) x by (auto simp: split_rest_def sorted_wrt_append before_def block_end_def HEADER_SIZE_def)
  have al_out: "fst y \<notin> fst ` set (xs @ ?rest @ ys)" "fst y \<noteq> c" if "y \<in> set al" for y
  proof -
    have "apart y z" if "z \<in> set (xs @ x # ys)" for z using i(6) that \<open>y \<in> set al\<close> by blast
    then have "\<forall>z \<in> set (xs @ ys). apart y z" "apart y x" by auto
    moreover then have "\<forall>z \<in> set ?rest. apart y z"
      using apart_split_rest by blast
    ultimately have "\<forall>z \<in> set (xs @ ?rest @ ys). apart y z" by auto
    then show "fst y \<notin> fst ` set (xs @ ?rest @ ys)" using apart_neq by blast
    show "fst y \<noteq> c" using \<open>apart y x\<close> apart_neq [of y x] x by simp
  qed
  obtain s2 where s2: "st2 = Some s2" "free_list_head s2 = first (xs @ ?rest @ ys)"
    "chain (hdr s2) (xs @ ?rest @ ys) None" "heap_initialized s2 = heap_initialized st"
    "\<exists>nx. hdr s2 c = Some \<lparr>b_size = snd ?taken, b_free = True, b_next = nx\<rparr>"
    "\<And>y. y \<in> set al \<Longrightarrow> hdr s2 (fst y) = hdr st (fst y)"
  proof (cases "n + 40 \<le> sz")
    case False
    have al: "hdr st1 (fst y) = hdr st (fst y)" if "y \<in> set al" for y
      using al_out(1) [OF that] by (intro st1(5)) (simp add: image_Un)
    show ?thesis
    proof (rule that [of st1])
      show "\<exists>nx. hdr st1 c = Some \<lparr>b_size = snd ?taken, b_free = True, b_next = nx\<rparr>"
        using b st1(5) [OF c_out(1)] False x by (simp add: split_taken_def)
    qed (use False ch1 head1 st1(4) x al in \<open>simp_all add: st2_def split_rest_def HEADER_SIZE_def\<close>)
  next
    case True
    define m where "m = c + (n + HEADER_SIZE)"
    let ?s = "sz - (n + HEADER_SIZE)"
    let ?st = "set_hdr m \<lparr>b_size = ?s, b_free = True, b_next = None\<rparr> st1"
    have rest: "?rest = [(m, ?s)]" using True x by (simp add: split_rest_def m_def)
    have srt': "sorted_wrt before (xs @ (m, ?s) # ys)" using rest_sorted rest by simp
    note mid = sorted_middle [OF srt']
    then have m_out: "m \<notin> fst ` set (xs @ ys)" by fastforce
    have "free_list_head ?st = first (xs @ ys)" "chain (hdr ?st) (xs @ ys) None"
      using head1 ch1 m_out by (simp_all add: set_hdr_def chain_other)
    from insert_block_chain [OF this srt', of None] obtain s' where
      s': "insert_block m ?st = Some s'" "free_list_head s' = first (xs @ (m, ?s) # ys)"
        "chain (hdr s') (xs @ (m, ?s) # ys) None" "heap_initialized s' = heap_initialized ?st"
        "\<And>b. b \<notin> fst ` set (xs @ (m, ?s) # ys) \<Longrightarrow> hdr s' b = hdr ?st b" by (auto simp: set_hdr_def)
    have c_m: "c \<notin> fst ` set (xs @ (m, ?s) # ys)" using c_out n(2) by (auto simp: m_def)
    have hc: "hdr s' c = Some \<lparr>b_size = sz, b_free = True, b_next = first ys\<rparr>"
      using s'(5) [OF c_m] st1(5) [OF c_out(1)] b c_m by (simp add: set_hdr_def)
    have al: "hdr s' (fst y) = hdr st (fst y)" if "y \<in> set al" for y
      using al_out [OF that] s'(5) [of "fst y"] st1(5) [of "fst y"] by (auto simp: rest set_hdr_def image_Un)
    show ?thesis
    proof (rule that [of "set_hdr c \<lparr>b_size = n, b_free = True, b_next = first ys\<rparr> s'"])
      show "st2 = Some (set_hdr c \<lparr>b_size = n, b_free = True, b_next = first ys\<rparr> s')"
        using True s'(1) hc by (simp add: st2_def HEADER_SIZE_def m_def)
    qed (use s' c_m al al_out True x rest st1(4) in
        \<open>auto simp: set_hdr_def chain_other split_taken_def simp del: fun_upd_apply, auto\<close>)
  qed
  from s2(5) obtain nx where hc: "hdr s2 c = Some \<lparr>b_size = snd ?taken, b_free = True, b_next = nx\<rparr>" by blast
  define st' where "st' = set_hdr c \<lparr>b_size = snd ?taken, b_free = False, b_next = None\<rparr> s2"
  have c_rest: "c \<notin> fst ` set (xs @ ?rest @ ys)"
    using c_out x by (auto simp: split_rest_def HEADER_SIZE_def)
  show ?thesis
  proof (rule that [of st'])
    show "alloc_block n (owner_of xs None) (fst x) st = Some st'"
    proof -
      have "alloc_block n (owner_of xs None) c st =
          Option.bind st2 (\<lambda>st. map_option (\<lambda>b. set_hdr c (b\<lparr>b_free := False, b_next := None\<rparr>) st) (hdr st c))"
        by (simp add: alloc_block_def Let_def b st1(1) st2_def)
      with s2(1) hc x show ?thesis by (simp add: st'_def)
    qed
    have taken: "block_end ?taken \<le> block_end x" "fst ?taken = c"
      using n(1) x by (auto simp: split_taken_def block_end_def)
    have "apart ?taken z" if "apart x z" for z
      using that taken x by (auto simp: apart_def before_def)
    then have taken_al: "\<forall>y \<in> set al. apart ?taken y"
      using i(6) apart_sym by (metis in_set_conv_decomp)
    have al_fl: "\<forall>y \<in> set al. \<forall>z \<in> set (xs @ ?rest @ ys). apart y z"
    proof (intro ballI)
      fix y z assume y: "y \<in> set al" and z: "z \<in> set (xs @ ?rest @ ys)"
      from z consider "z \<in> set (xs @ x # ys)" | "z \<in> set ?rest" by auto
      then show "apart y z"
      proof cases
        case 1
        then show ?thesis by (rule i(6) [OF y])
      next
        case 2
        have "apart y x" by (rule i(6) [OF y]) simp
        from apart_split_rest [OF this 2] show ?thesis .
      qed
    qed
    have taken_fl: "\<forall>z \<in> set (xs @ ?rest @ ys). apart ?taken z"
      using i(4) x n(1) by (auto simp: split_rest_def split_taken_def sorted_wrt_append apart_def before_def
          block_end_def HEADER_SIZE_def)
    have arena: "\<forall>z \<in> set (xs @ ?rest @ ys) \<union> {?taken}. in_arena z"
      using i(8) [of x] i(8) x n(1)
      by (auto simp: split_rest_def split_taken_def in_arena_def block_end_def HEADER_SIZE_def)
    have ch: "chain (hdr st') (xs @ ?rest @ ys) None"
      using s2(3) c_rest by (simp add: st'_def set_hdr_def chain_other)
    have used: "\<exists>nx. hdr st' (fst y) = Some \<lparr>b_size = snd y, b_free = False, b_next = nx\<rparr>"
      if "y \<in> set (?taken # al)" for y
    proof (cases "y = ?taken")
      case True
      then show ?thesis using taken(2) by (simp add: st'_def set_hdr_def)
    next
      case False
      with that have y: "y \<in> set al" by simp
      have "hdr st' (fst y) = hdr st (fst y)"
        using s2(6) [OF y] al_out(2) [OF y] by (simp add: st'_def set_hdr_def)
      with i(7) [OF y] show ?thesis by simp
    qed
    have al': "\<forall>z \<in> set al. in_arena z" using i(8) by simp
    show "heap_inv st' (xs @ ?rest @ ys) (?taken # al)"
      unfolding heap_inv_def
    proof (intro conjI)
      show "heap_initialized st'" "free_list_head st' = first (xs @ ?rest @ ys)"
        using s2(2,4) i(1) by (simp_all add: st'_def set_hdr_def)
      show "sorted_wrt apart (?taken # al)" using i(5) taken_al by simp
      show "\<forall>y \<in> set (?taken # al). \<forall>z \<in> set (xs @ ?rest @ ys). apart y z" using al_fl taken_fl by simp
      show "\<forall>z \<in> set ((xs @ ?rest @ ys) @ ?taken # al). in_arena z" using arena al' by auto
    qed (use ch used rest_sorted in blast)+
  qed
qed

text \<open>\<^verbatim>\<open>malloc\<close> on an initialized heap: no block is large enough, or the first one that is.\<close>

lemma malloc_none:
  assumes "heap_inv st fl al" "0 < n" "\<forall>x \<in> set fl. snd x < align8 n"
  shows "malloc n st = Some (None, st)"
proof -
  note i = heap_invD [OF assms(1)]
  from find_fit_none [OF i(3) assms(3), of None] i(1,2) assms(2) show ?thesis
    by (auto simp: malloc_def memory_init_heap_def)
qed

lemma align8_pos: "0 < align8 n"
  by (simp add: align8_def Let_def)

lemma malloc_some:
  assumes "heap_inv st (xs @ x # ys) al" "0 < n" "\<forall>y \<in> set xs. snd y < align8 n" "align8 n \<le> snd x"
  obtains st' where "malloc n st = Some (Some (fst x + HEADER_SIZE), st')"
    "heap_inv st' (xs @ split_rest (align8 n) x @ ys) (split_taken (align8 n) x # al)"
proof -
  note i = heap_invD [OF assms(1)]
  from alloc_block_chain [OF assms(1,4) align8_pos] obtain st' where
    st': "alloc_block (align8 n) (owner_of xs None) (fst x) st = Some st'"
      "heap_inv st' (xs @ split_rest (align8 n) x @ ys) (split_taken (align8 n) x # al)" .
  with find_fit_some [OF i(3) assms(3,4), of None] i(1,2) assms(2) that show thesis
    by (auto simp: malloc_def memory_init_heap_def)
qed

lemma first_fit_split:
  fixes fl :: "block list"
  shows "(\<forall>x \<in> set fl. snd x < n) \<or> (\<exists>xs x ys. fl = xs @ x # ys \<and> (\<forall>y \<in> set xs. snd y < n) \<and> n \<le> snd x)"
proof (induction fl)
  case (Cons x fl)
  then show ?case
  proof (cases "n \<le> snd x")
    case True
    then show ?thesis by (intro disjI2 exI [of _ "[]"] exI [of _ x] exI [of _ fl]) simp
  next
    case False
    from Cons.IH show ?thesis
    proof
      assume "\<exists>xs y ys. fl = xs @ y # ys \<and> (\<forall>y \<in> set xs. snd y < n) \<and> n \<le> snd y"
      then obtain xs y ys where "fl = xs @ y # ys" "\<forall>y \<in> set xs. snd y < n" "n \<le> snd y" by blast
      with False have "x # fl = (x # xs) @ y # ys \<and> (\<forall>y \<in> set (x # xs). snd y < n) \<and> n \<le> snd y" by simp
      then show ?thesis by blast
    qed (use False in simp)
  qed
qed simp

section \<open>free\<close>

text \<open>Coalescing on the list: neighbours that touch become one block.\<close>

function merge :: "block list \<Rightarrow> block list" where
  "merge [] = []"
| "merge [x] = [x]"
| "merge (x # y # ys) =
     (if block_end x = fst y then merge ((fst x, snd x + (HEADER_SIZE + snd y)) # ys)
      else x # merge (y # ys))"
  by pat_completeness auto
termination by (relation "measure length") auto

lemma merge_nonempty: "xs \<noteq> [] \<Longrightarrow> merge xs \<noteq> [] \<and> first (merge xs) = first xs"
  by (induction xs rule: merge.induct) auto

lemma coalesce_merge:
  assumes "chain h fl None" "distinct (map fst fl)"
  shows "\<exists>h'. coalesce (first fl) h = Some h' \<and> chain h' (merge fl) None \<and>
     (\<forall>b. b \<notin> fst ` set fl \<longrightarrow> h' b = h b)"
  using assms
proof (induction fl arbitrary: h rule: merge.induct)
  case 1
  then show ?case by (subst coalesce.simps) simp
next
  case (2 x)
  then show ?case by (subst coalesce.simps) simp
next
  case (3 x y ys)
  let ?bx = "\<lparr>b_size = snd x, b_free = True, b_next = Some (fst y)\<rparr>"
  let ?by = "\<lparr>b_size = snd y, b_free = True, b_next = first ys\<rparr>"
  have hx: "h (fst x) = Some ?bx" and hy: "h (fst y) = Some ?by" and ys: "chain h ys None"
    using "3.prems"(1) by (cases ys; simp)+
  show ?case
  proof (cases "block_end x = fst y")
    case True
    let ?h = "h(fst x \<mapsto> ?bx\<lparr>b_size := snd x + (HEADER_SIZE + snd y), b_next := first ys\<rparr>)"
    let ?x = "(fst x, snd x + (HEADER_SIZE + snd y))"
    have "chain ?h (?x # ys) None" "distinct (map fst (?x # ys))"
      using ys "3.prems"(2) by (cases ys; auto simp: chain_other)+
    from "3.IH"(1) [OF True this] obtain h' where
      h': "coalesce (first (?x # ys)) ?h = Some h'" "chain h' (merge (?x # ys)) None"
        "\<forall>b. b \<notin> fst ` set (?x # ys) \<longrightarrow> h' b = ?h b" by blast
    have "coalesce (Some (fst x)) h = coalesce (Some (fst x)) ?h"
      using hx hy True by (subst coalesce.simps) (simp add: block_end_def)
    then have "coalesce (first (x # y # ys)) h = Some h'" using h'(1) by simp
    moreover have "chain h' (merge (x # y # ys)) None" using h'(2) True by simp
    moreover have "\<forall>b. b \<notin> fst ` set (x # y # ys) \<longrightarrow> h' b = h b" using h'(3) by simp
    ultimately show ?thesis by blast
  next
    case False
    have "chain h (y # ys) None" "distinct (map fst (y # ys))"
      using "3.prems" by auto
    from "3.IH"(2) [OF False this] obtain h' where
      h': "coalesce (first (y # ys)) h = Some h'" "chain h' (merge (y # ys)) None"
        "\<forall>b. b \<notin> fst ` set (y # ys) \<longrightarrow> h' b = h b" by blast
    have "coalesce (Some (fst x)) h = coalesce (Some (fst y)) h"
      using hx False by (subst coalesce.simps) (simp add: block_end_def)
    moreover have "h' (fst x) = Some ?bx" using h'(3) hx "3.prems"(2) by auto
    ultimately show ?thesis using h' False merge_nonempty [of "y # ys"] by (intro exI [of _ h']) auto
  qed
qed

text \<open>What a block covers, kept by merging.\<close>

lemma merge_induct_keep:
  assumes "sorted_wrt before fl"
  shows "sorted_wrt before (merge fl) \<and>
     (\<forall>z. (\<forall>x \<in> set fl. before z x) \<longrightarrow> (\<forall>x \<in> set (merge fl). before z x)) \<and>
     (\<forall>z. (\<forall>x \<in> set fl. apart z x) \<longrightarrow> (\<forall>x \<in> set (merge fl). apart z x)) \<and>
     ((\<forall>x \<in> set fl. in_arena x) \<longrightarrow> (\<forall>x \<in> set (merge fl). in_arena x))"
  using assms
proof (induction fl rule: merge.induct)
  case (3 x y ys)
  show ?case
  proof (cases "block_end x = fst y")
    case True
    let ?x = "(fst x, snd x + (HEADER_SIZE + snd y))"
    have e: "block_end ?x = block_end y" using True by (simp add: block_end_def)
    then have "before ?x z" if "before y z" for z using that by (simp add: before_def)
    then have s: "sorted_wrt before (?x # ys)" using "3.prems" by simp
    have a: "apart z ?x" if "apart z x" "apart z y" for z
      using that e True by (auto simp: apart_def before_def block_end_def HEADER_SIZE_def)
    have b: "before z ?x" if "before z x" for z using that by (simp add: before_def)
    have m: "merge (x # y # ys) = merge (?x # ys)" using True by simp
    have arena: "in_arena ?x" if "in_arena y" using that e by (simp add: in_arena_def)
    note ih = "3.IH"(1) [OF True s]
    show ?thesis unfolding m
    proof (intro conjI allI impI)
      show "sorted_wrt before (merge (?x # ys))" using ih by blast
    next
      fix z assume "\<forall>u \<in> set (x # y # ys). before z u"
      with b have "\<forall>u \<in> set (?x # ys). before z u" by simp
      with ih show "\<forall>u \<in> set (merge (?x # ys)). before z u" by blast
    next
      fix z assume "\<forall>u \<in> set (x # y # ys). apart z u"
      with a have "\<forall>u \<in> set (?x # ys). apart z u" by simp
      with ih show "\<forall>u \<in> set (merge (?x # ys)). apart z u" by blast
    next
      assume "\<forall>u \<in> set (x # y # ys). in_arena u"
      with arena have "\<forall>u \<in> set (?x # ys). in_arena u" by simp
      with ih show "\<forall>u \<in> set (merge (?x # ys)). in_arena u" by blast
    qed
  next
    case False
    have "sorted_wrt before (y # ys)" using "3.prems" by simp
    note ih = "3.IH"(2) [OF False this]
    have m: "merge (x # y # ys) = x # merge (y # ys)" using False by simp
    have "\<forall>u \<in> set (y # ys). before x u" using "3.prems" by simp
    with ih have x: "\<forall>u \<in> set (merge (y # ys)). before x u" by blast
    show ?thesis unfolding m
    proof (intro conjI allI impI)
      show "sorted_wrt before (x # merge (y # ys))" using ih x by simp
    next
      fix z assume z: "\<forall>u \<in> set (x # y # ys). before z u"
      then have "\<forall>u \<in> set (y # ys). before z u" by simp
      with ih have "\<forall>u \<in> set (merge (y # ys)). before z u" by blast
      with z show "\<forall>u \<in> set (x # merge (y # ys)). before z u" by simp
    next
      fix z assume z: "\<forall>u \<in> set (x # y # ys). apart z u"
      then have "\<forall>u \<in> set (y # ys). apart z u" by simp
      with ih have "\<forall>u \<in> set (merge (y # ys)). apart z u" by blast
      with z show "\<forall>u \<in> set (x # merge (y # ys)). apart z u" by simp
    next
      assume z: "\<forall>u \<in> set (x # y # ys). in_arena u"
      then have "\<forall>u \<in> set (y # ys). in_arena u" by simp
      with ih have "\<forall>u \<in> set (merge (y # ys)). in_arena u" by blast
      with z show "\<forall>u \<in> set (x # merge (y # ys)). in_arena u" by simp
    qed
  qed
qed simp_all

text \<open>The arena bytes a list of blocks covers.\<close>

definition covers :: "block list \<Rightarrow> nat" where
  "covers bs = (\<Sum>x\<leftarrow>bs. HEADER_SIZE + snd x)"

lemma covers_simps [simp]:
  "covers [] = 0" "covers (x # xs) = HEADER_SIZE + snd x + covers xs" "covers (xs @ ys) = covers xs + covers ys"
  by (simp_all add: covers_def)

lemma covers_merge: "covers (merge fl) = covers fl"
  by (induction fl rule: merge.induct) simp_all

lemma covers_split: "n \<le> snd x \<Longrightarrow> covers (split_rest n x) + (HEADER_SIZE + snd (split_taken n x)) = HEADER_SIZE + snd x"
  by (simp add: split_rest_def split_taken_def HEADER_SIZE_def)

text \<open>No two neighbours of a coalesced list touch.\<close>

fun coalesced :: "block list \<Rightarrow> bool" where
  "coalesced (x # y # ys) = (block_end x \<noteq> fst y \<and> coalesced (y # ys))"
| "coalesced xs = True"

lemma coalesced_merge: "coalesced (merge fl)"
proof (induction fl rule: merge.induct)
  case (3 x y ys)
  show ?case
  proof (cases "block_end x = fst y")
    case False
    obtain z zs where z: "merge (y # ys) = z # zs" "fst z = fst y"
      using merge_nonempty [of "y # ys"] by (cases "merge (y # ys)") auto
    with 3(2) [OF False] False show ?thesis by simp
  qed (use 3(1) in simp)
qed simp_all

text \<open>The sorted free list around a block that is given back.\<close>

lemma sorted_insert_split:
  assumes "sorted_wrt before fl" "\<forall>y \<in> set fl. apart x y"
  obtains xs ys where "fl = xs @ ys" "sorted_wrt before (xs @ x # ys)"
proof -
  define xs where "xs = takeWhile (\<lambda>y. before y x) fl"
  define ys where "ys = dropWhile (\<lambda>y. before y x) fl"
  have fl: "fl = xs @ ys" by (simp add: xs_def ys_def)
  have xs: "\<forall>y \<in> set xs. before y x" by (auto simp: xs_def dest: set_takeWhileD)
  have ys: "\<forall>y \<in> set ys. before x y"
  proof (cases ys)
    case (Cons z zs)
    have "\<not> before z x" using Cons hd_dropWhile [of "\<lambda>y. before y x" fl] by (simp add: ys_def)
    moreover have "apart x z" using assms(2) fl Cons by simp
    ultimately have "before x z" by (simp add: apart_def)
    moreover have "\<forall>y \<in> set zs. before z y" using assms(1) fl Cons by (simp add: sorted_wrt_append)
    ultimately show ?thesis using Cons before_trans by auto
  qed simp
  show thesis
    by (rule that [OF fl]) (use assms(1) fl xs ys in \<open>auto simp: sorted_wrt_append\<close>)
qed

lemma free_gives_back:
  assumes inv: "heap_inv st fl (xs @ x # ys)"
  obtains st' us vs where "free (Some (fst x + HEADER_SIZE)) st = Some st'" "fl = us @ vs"
    "heap_inv st' (merge (us @ x # vs)) (xs @ ys)"
proof -
  note i = heap_invD [OF inv]
  have x_fl: "\<forall>y \<in> set fl. apart x y" using i(6) by simp
  from sorted_insert_split [OF i(4) x_fl] obtain us vs where
    fl: "fl = us @ vs" and srt: "sorted_wrt before (us @ x # vs)" .
  obtain nx where hx: "hdr st (fst x) = Some \<lparr>b_size = snd x, b_free = False, b_next = nx\<rparr>"
    using i(7) [of x] by auto
  have x_out: "fst x \<notin> fst ` set fl" using x_fl apart_neq by blast
  let ?st = "set_hdr (fst x) \<lparr>b_size = snd x, b_free = True, b_next = None\<rparr> st"
  have "free_list_head ?st = first (us @ vs)" "chain (hdr ?st) (us @ vs) None"
    "hdr ?st (fst x) = Some \<lparr>b_size = snd x, b_free = True, b_next = None\<rparr>"
    "sorted_wrt before (us @ (fst x, snd x) # vs)"
    using i(2,3) x_out fl srt by (simp_all add: set_hdr_def chain_other)
  from insert_block_chain [OF this(1,2,4,3)] obtain s1 where
    s1: "insert_block (fst x) ?st = Some s1" "free_list_head s1 = first (us @ x # vs)"
      "chain (hdr s1) (us @ x # vs) None" "heap_initialized s1 = heap_initialized ?st"
      "\<And>b. b \<notin> fst ` set (us @ x # vs) \<Longrightarrow> hdr s1 b = hdr ?st b" by auto
  from coalesce_merge [OF s1(3) sorted_distinct [OF srt]] obtain h where
    h: "coalesce (free_list_head s1) (hdr s1) = Some h" "chain h (merge (us @ x # vs)) None"
      "\<forall>b. b \<notin> fst ` set (us @ x # vs) \<longrightarrow> h b = hdr s1 b" using s1(2) by auto
  let ?st' = "s1\<lparr>hdr := h\<rparr>"
  note keep = merge_induct_keep [OF srt]
  have rest: "sorted_wrt apart (xs @ ys)" "\<forall>y \<in> set (xs @ ys). apart y x"
    using i(5) apart_sym by (auto simp: sorted_wrt_append)
  show thesis
  proof (rule that [of ?st' us vs])
    show "free (Some (fst x + HEADER_SIZE)) st = Some ?st'"
      using hx s1(1) h(1) by (simp add: free_def)
    show "heap_inv ?st' (merge (us @ x # vs)) (xs @ ys)"
      unfolding heap_inv_def
    proof (intro conjI ballI)
      show "heap_initialized ?st'" "free_list_head ?st' = first (merge (us @ x # vs))"
        using s1(2,4) i(1) merge_nonempty [of "us @ x # vs"] by (simp_all add: set_hdr_def)
      show "chain (hdr ?st') (merge (us @ x # vs)) None" using h(2) by simp
      show "sorted_wrt before (merge (us @ x # vs))" using keep by blast
      show "sorted_wrt apart (xs @ ys)" by (rule rest(1))
      fix y assume y: "y \<in> set (xs @ ys)"
      then have y': "\<forall>z \<in> set (us @ x # vs). apart y z" using i(6) rest(2) fl by auto
      then have "fst y \<notin> fst ` set (us @ x # vs)" using apart_neq by blast
      then have "hdr ?st' (fst y) = hdr st (fst y)" using h(3) s1(5) by (simp add: set_hdr_def)
      with i(7) [of y] y show "\<exists>nx. hdr ?st' (fst y) = Some \<lparr>b_size = snd y, b_free = False, b_next = nx\<rparr>"
        by auto
      fix z assume "z \<in> set (merge (us @ x # vs))"
      with keep y' show "apart y z" by blast
    next
      fix z assume z: "z \<in> set (merge (us @ x # vs) @ xs @ ys)"
      have "\<forall>u \<in> set (us @ x # vs). in_arena u" "\<forall>u \<in> set (xs @ ys). in_arena u"
        using i(8) fl by auto
      with keep z show "in_arena z" by auto
    qed
  qed (rule fl)
qed

section \<open>Reachable heaps\<close>

text \<open>
  The heaps a program reaches from boot with its own allocations and releases; the second argument is
  the list of blocks it holds.
\<close>

inductive heap_reach :: "heap \<Rightarrow> block list \<Rightarrow> bool" where
  boot: "heap_reach boot_heap []"
| alloc: "heap_reach st al \<Longrightarrow> malloc n st = Some (Some p, st') \<Longrightarrow> HEADER_SIZE \<le> p \<Longrightarrow>
    hdr st' (p - HEADER_SIZE) = Some b \<Longrightarrow> heap_reach st' ((p - HEADER_SIZE, b_size b) # al)"
| alloc_fails: "heap_reach st al \<Longrightarrow> malloc n st = Some (None, st') \<Longrightarrow> heap_reach st' al"
| release: "heap_reach st (xs @ x # ys) \<Longrightarrow> free (Some (fst x + HEADER_SIZE)) st = Some st' \<Longrightarrow>
    heap_reach st' (xs @ ys)"

inductive_cases heap_reach_nilE: "heap_reach st []"

text \<open>The invariant of a reachable heap: nothing of the arena is lost, and no free neighbours touch.\<close>

definition heap_full :: "heap \<Rightarrow> block list \<Rightarrow> block list \<Rightarrow> bool" where
  "heap_full st fl al \<longleftrightarrow> heap_inv st fl al \<and> covers fl + covers al = HEAP_SIZE \<and> coalesced fl \<and>
     (\<forall>x \<in> set (fl @ al). 8 dvd fst x)"

lemma heap_full_init: "heap_full (memory_init_heap boot_heap) [(0, HEAP_SIZE - HEADER_SIZE)] []"
  by (simp add: heap_full_def heap_inv_def memory_init_heap_def boot_heap_def in_arena_def block_end_def
      HEAP_SIZE_def HEADER_SIZE_def)

lemma coalesced_append:
  "coalesced (xs @ ys) \<longleftrightarrow> coalesced xs \<and> coalesced ys \<and>
     (xs = [] \<or> ys = [] \<or> block_end (last xs) \<noteq> fst (hd ys))"
  by (induction xs rule: coalesced.induct; cases ys) auto

lemma coalesced_taken:
  assumes "coalesced (xs @ x # ys)" "sorted_wrt before (xs @ x # ys)" "n \<le> snd x"
  shows "coalesced (xs @ split_rest n x @ ys)"
proof -
  have parts: "coalesced xs" "coalesced ys" "ys = [] \<or> block_end x \<noteq> fst (hd ys)"
    using assms(1) by (cases ys; auto simp: coalesced_append)+
  have l: "xs \<noteq> [] \<Longrightarrow> block_end (last xs) \<le> fst x"
    using assms(2) by (auto simp: sorted_wrt_append before_def)
  have h: "ys \<noteq> [] \<Longrightarrow> block_end x \<le> fst (hd ys)"
    using assms(2) by (auto simp: sorted_wrt_append before_def)
  show ?thesis
  proof (cases "n + 40 \<le> snd x")
    case True
    then have r: "split_rest n x = [(fst x + HEADER_SIZE + n, snd x - (n + HEADER_SIZE))]"
      "block_end (fst x + HEADER_SIZE + n, snd x - (n + HEADER_SIZE)) = block_end x"
      by (simp_all add: split_rest_def block_end_def HEADER_SIZE_def)
    have "coalesced ((fst x + HEADER_SIZE + n, snd x - (n + HEADER_SIZE)) # ys)"
      using parts(2,3) r(2) by (cases ys) auto
    with parts(1) l show ?thesis unfolding r(1)
      by (auto simp: coalesced_append HEADER_SIZE_def)
  next
    case False
    have "fst x < block_end x" by (simp add: block_end_def HEADER_SIZE_def)
    with False parts l h show ?thesis by (auto simp: split_rest_def coalesced_append)
  qed
qed

lemma align8_dvd: "8 dvd align8 n"
  by (simp add: align8_def Let_def)

lemma malloc_full_at:
  assumes "heap_full st (xs @ x # ys) al" "0 < n" "\<forall>y \<in> set xs. snd y < align8 n" "align8 n \<le> snd x"
  obtains st' where "malloc n st = Some (Some (fst x + HEADER_SIZE), st')"
    "heap_full st' (xs @ split_rest (align8 n) x @ ys) (split_taken (align8 n) x # al)"
proof -
  let ?m = "align8 n"
  have inv: "heap_inv st (xs @ x # ys) al" using assms(1) by (simp add: heap_full_def)
  from malloc_some [OF inv assms(2-4)] obtain st' where
    st': "malloc n st = Some (Some (fst x + HEADER_SIZE), st')"
      "heap_inv st' (xs @ split_rest ?m x @ ys) (split_taken ?m x # al)" by blast
  have "coalesced (xs @ split_rest ?m x @ ys)"
    by (rule coalesced_taken) (use assms(1,4) heap_invD(4) [OF inv] in \<open>simp_all add: heap_full_def\<close>)
  moreover have "8 dvd fst x" using assms(1) by (simp add: heap_full_def)
  then have dvd: "8 dvd fst x + HEADER_SIZE + ?m"
    by (intro dvd_add align8_dvd) (simp_all add: HEADER_SIZE_def)
  then have "\<forall>y \<in> set (split_rest ?m x). 8 dvd fst y"
    by (auto simp only: split_rest_def list.set fst_conv split: if_splits)
  moreover have "fst (split_taken ?m x) = fst x" by (simp add: split_taken_def)
  ultimately have "heap_full st' (xs @ split_rest ?m x @ ys) (split_taken ?m x # al)"
    using assms(1,4) st'(2) covers_split [of ?m x] by (auto simp: heap_full_def)
  with st'(1) show ?thesis by (rule that)
qed

lemma malloc_full:
  assumes "heap_full st fl al" "0 < n"
  shows "(malloc n st = Some (None, st)) \<or>
    (\<exists>st' fl' x. malloc n st = Some (Some (fst x + HEADER_SIZE), st') \<and> heap_full st' fl' (x # al) \<and> align8 n \<le> snd x)"
proof -
  have inv: "heap_inv st fl al" using assms(1) by (simp add: heap_full_def)
  from first_fit_split [of fl "align8 n"] show ?thesis
  proof
    assume "\<exists>xs x ys. fl = xs @ x # ys \<and> (\<forall>y \<in> set xs. snd y < align8 n) \<and> align8 n \<le> snd x"
    then obtain xs x ys where fl: "fl = xs @ x # ys" "\<forall>y \<in> set xs. snd y < align8 n" "align8 n \<le> snd x" by blast
    from malloc_full_at [OF assms(1) [unfolded fl(1)] assms(2) fl(2,3)] obtain st' where
      "malloc n st = Some (Some (fst x + HEADER_SIZE), st')"
      "heap_full st' (xs @ split_rest (align8 n) x @ ys) (split_taken (align8 n) x # al)" by blast
    moreover have "fst (split_taken (align8 n) x) = fst x" "align8 n \<le> snd (split_taken (align8 n) x)"
      using fl(3) by (simp_all add: split_taken_def)
    ultimately show ?thesis by (intro disjI2) metis
  qed (use malloc_none [OF inv assms(2)] in blast)
qed

lemma merge_dvd: "\<forall>x \<in> set fl. 8 dvd fst x \<Longrightarrow> \<forall>x \<in> set (merge fl). 8 dvd fst x"
  by (induction fl rule: merge.induct) auto

lemma free_full:
  assumes "heap_full st fl (xs @ x # ys)"
  shows "\<exists>st' fl'. free (Some (fst x + HEADER_SIZE)) st = Some st' \<and> heap_full st' fl' (xs @ ys)"
proof -
  have inv: "heap_inv st fl (xs @ x # ys)" using assms by (simp add: heap_full_def)
  from free_gives_back [OF inv] obtain st' us vs where
    st': "free (Some (fst x + HEADER_SIZE)) st = Some st'" "fl = us @ vs"
      "heap_inv st' (merge (us @ x # vs)) (xs @ ys)" .
  have "\<forall>y \<in> set (merge (us @ x # vs)). 8 dvd fst y"
    using assms st'(2) by (intro merge_dvd) (auto simp: heap_full_def)
  with assms st' have "heap_full st' (merge (us @ x # vs)) (xs @ ys)"
    by (auto simp: heap_full_def covers_merge coalesced_merge)
  with st'(1) show ?thesis by blast
qed

lemma malloc_uninit:
  "\<not> heap_initialized st \<Longrightarrow> malloc n st = (if n = 0 then Some (None, st) else malloc n (memory_init_heap st))"
  by (simp add: malloc_def memory_init_heap_def)

lemma heap_reach_full:
  "heap_reach st al \<Longrightarrow> st = boot_heap \<and> al = [] \<or> (\<exists>fl. heap_full st fl al)"
proof (induction rule: heap_reach.induct)
  case (alloc st al n p st' b)
  have n: "0 < n" using alloc.hyps(2) by (cases "n = 0") (simp_all add: malloc_def)
  obtain s fl where s: "malloc n st = malloc n s" "heap_full s fl al"
    using alloc.IH heap_full_init malloc_uninit [of boot_heap n] n by (auto simp: boot_heap_def)
  from malloc_full [OF s(2) n] alloc.hyps(2) s(1) obtain fl' x where
    x: "p = fst x + HEADER_SIZE" "heap_full st' fl' (x # al)" by auto
  then have "hdr st' (fst x) = Some b" using alloc.hyps(4) by simp
  moreover have "\<exists>nx. hdr st' (fst x) = Some \<lparr>b_size = snd x, b_free = False, b_next = nx\<rparr>"
    using x(2) heap_invD(7) [of st' fl' "x # al" x] by (simp add: heap_full_def)
  ultimately have "b_size b = snd x" by auto
  with x show ?case by auto
next
  case (alloc_fails st al n st')
  show ?case
  proof (cases "n = 0")
    case True
    with alloc_fails.hyps(2) have "st' = st" by (simp add: malloc_def)
    with alloc_fails.IH show ?thesis by simp
  next
    case False
    obtain s fl where s: "malloc n st = malloc n s" "heap_full s fl al"
      using alloc_fails.IH heap_full_init malloc_uninit [of boot_heap n] False by (auto simp: boot_heap_def)
    from malloc_full [OF s(2), of n] False s(1) alloc_fails.hyps(2) have "st' = s" by auto
    with s(2) show ?thesis by blast
  qed
next
  case (release st xs x ys st')
  then obtain fl where "heap_full st fl (xs @ x # ys)" by auto
  from free_full [OF this] release.hyps(2) show ?case by auto
qed simp

text \<open>Free blocks that cover the whole arena and do not touch are one block.\<close>

lemma covers_bound:
  assumes "sorted_wrt before fl" "\<forall>x \<in> set fl. lo \<le> fst x \<and> in_arena x" "fl \<noteq> []"
  shows "covers fl + lo \<le> HEAP_SIZE \<and>
    (covers fl + lo = HEAP_SIZE \<and> coalesced fl \<longrightarrow> fl = [(lo, HEAP_SIZE - HEADER_SIZE - lo)])"
  using assms
proof (induction fl arbitrary: lo)
  case (Cons x fl)
  show ?case
  proof (cases "fl = []")
    case True
    with Cons.prems show ?thesis by (cases x) (auto simp: in_arena_def block_end_def)
  next
    case False
    then obtain y ys where fl: "fl = y # ys" by (cases fl) auto
    have "covers fl + block_end x \<le> HEAP_SIZE \<and>
        (covers fl + block_end x = HEAP_SIZE \<and> coalesced fl \<longrightarrow> fl = [(block_end x, HEAP_SIZE - HEADER_SIZE - block_end x)])"
      using Cons.prems False by (intro Cons.IH) (auto simp: before_def)
    moreover have "lo + (HEADER_SIZE + snd x) \<le> block_end x" using Cons.prems by (simp add: block_end_def)
    ultimately show ?thesis using fl by auto
  qed
qed simp

section \<open>The interface\<close>

text \<open>
  What a client relies on: memory it was given is large enough, stays its own until released, and
  releasing it succeeds. \<open>owns st ps\<close> says that the client holds the pointers \<open>ps\<close>
  with their capacities.
\<close>

locale allocator =
  fixes alloc :: "nat \<Rightarrow> 's \<Rightarrow> (nat option \<times> 's) option"
    and release :: "nat option \<Rightarrow> 's \<Rightarrow> 's option"
    and owns :: "'s \<Rightarrow> (nat \<times> nat) list \<Rightarrow> bool"
  assumes alloc_ok: "owns st ps \<Longrightarrow> 0 < n \<Longrightarrow> n \<le> 2 ^ 32 - 8 \<Longrightarrow>
      \<exists>r st'. alloc n st = Some (r, st') \<and>
        (case r of None \<Rightarrow> owns st' ps | Some p \<Rightarrow> \<exists>c. n \<le> c \<and> owns st' ((p, c) # ps))"
    and release_ok: "owns st (ps @ (p, c) # qs) \<Longrightarrow> \<exists>st'. release (Some p) st = Some st' \<and> owns st' (ps @ qs)"
    and release_null: "release None st = Some st"
    and owns_distinct: "owns st ps \<Longrightarrow> distinct (map fst ps)"
begin

text \<open>Taking memory and giving it back leaves the client with what it had.\<close>

lemma alloc_release:
  assumes "owns st ps" "0 < n" "n \<le> 2 ^ 32 - 8" "alloc n st = Some (r, st')"
  shows "\<exists>st''. release r st' = Some st'' \<and> owns st'' ps"
proof (cases r)
  case None
  with alloc_ok [OF assms(1-3)] assms(4) show ?thesis by (auto simp: release_null)
next
  case (Some p)
  with alloc_ok [OF assms(1-3)] assms(4) obtain c where "owns st' ([] @ (p, c) # ps)" by auto
  from release_ok [OF this] Some show ?thesis by simp
qed

lemma alloc_fresh:
  assumes "owns st ps" "0 < n" "n \<le> 2 ^ 32 - 8" "alloc n st = Some (Some p, st')"
  shows "p \<notin> fst ` set ps"
proof -
  from alloc_ok [OF assms(1-3)] assms(4) obtain c where "owns st' ((p, c) # ps)" by auto
  from owns_distinct [OF this] show ?thesis by simp
qed

end

definition heap_owns :: "heap \<Rightarrow> (nat \<times> nat) list \<Rightarrow> bool" where
  "heap_owns st ps \<longleftrightarrow> st = boot_heap \<and> ps = [] \<or>
     (\<exists>fl al. heap_full st fl al \<and> ps = map (\<lambda>x. (fst x + HEADER_SIZE, snd x)) al)"

lemma align8_ge: "n \<le> 2 ^ 32 - 8 \<Longrightarrow> n \<le> align8 n"
  by (simp add: align8_def Let_def) linarith

interpretation heap: allocator malloc free heap_owns
proof
  fix st ps and n :: nat
  assume o: "heap_owns st ps" and n: "0 < n" "n \<le> 2 ^ 32 - 8"
  obtain s fl al where s: "malloc n st = malloc n s" "heap_full s fl al" "ps = map (\<lambda>x. (fst x + HEADER_SIZE, snd x)) al"
    using o heap_full_init malloc_uninit [of boot_heap n] n by (auto simp: heap_owns_def boot_heap_def)
  from malloc_full [OF s(2) n(1)] show "\<exists>r st'. malloc n st = Some (r, st') \<and>
        (case r of None \<Rightarrow> heap_owns st' ps | Some p \<Rightarrow> \<exists>c. n \<le> c \<and> heap_owns st' ((p, c) # ps))"
  proof
    assume "malloc n s = Some (None, s)"
    with s show ?thesis by (auto simp: heap_owns_def)
  next
    assume "\<exists>st' fl' x. malloc n s = Some (Some (fst x + HEADER_SIZE), st') \<and> heap_full st' fl' (x # al) \<and> align8 n \<le> snd x"
    then obtain st' fl' x where x: "malloc n s = Some (Some (fst x + HEADER_SIZE), st')" "heap_full st' fl' (x # al)"
      "align8 n \<le> snd x" by blast
    then have "heap_owns st' ((fst x + HEADER_SIZE, snd x) # ps)"
      unfolding heap_owns_def using s(3) by (intro disjI2 exI [of _ fl'] exI [of _ "x # al"]) simp
    with x s(1) align8_ge [OF n(2)] show ?thesis by (auto intro: le_trans)
  qed
next
  fix st :: heap and ps p c qs assume o: "heap_owns st (ps @ (p, c) # qs)"
  then obtain fl al where al: "heap_full st fl al" "ps @ (p, c) # qs = map (\<lambda>x. (fst x + HEADER_SIZE, snd x)) al"
    by (auto simp: heap_owns_def)
  then obtain xs x ys where x: "al = xs @ x # ys" "ps = map (\<lambda>x. (fst x + HEADER_SIZE, snd x)) xs"
    "p = fst x + HEADER_SIZE" "qs = map (\<lambda>x. (fst x + HEADER_SIZE, snd x)) ys"
    by (auto simp: append_eq_map_conv Cons_eq_map_conv)
  from free_full [of st fl xs x ys] al(1) x(1) obtain st' fl' where
    "free (Some (fst x + HEADER_SIZE)) st = Some st'" "heap_full st' fl' (xs @ ys)" by auto
  with x show "\<exists>st'. free (Some p) st = Some st' \<and> heap_owns st' (ps @ qs)"
    unfolding heap_owns_def
    by (intro exI [of _ st'] conjI disjI2 exI [of _ fl'] exI [of _ "xs @ ys"]) auto
next
  fix st show "free None st = Some st" by (simp add: free_def)
next
  fix st ps assume "heap_owns st ps"
  then show "distinct (map fst ps)"
  proof (unfold heap_owns_def, elim disjE exE conjE)
    fix fl al assume al: "heap_full st fl al" "ps = map (\<lambda>x. (fst x + HEADER_SIZE, snd x)) al"
    then have "sorted_wrt apart al" by (simp add: heap_full_def heap_inv_def)
    then have "distinct (map fst al)"
    proof (induction al)
      case (Cons x xs)
      then have "fst x \<notin> fst ` set xs" using apart_neq by fastforce
      with Cons show ?case by simp
    qed simp
    then have "distinct (map (\<lambda>a. a + HEADER_SIZE) (map fst al))" by (simp add: distinct_map inj_on_def)
    with al(2) show ?thesis by (simp add: comp_def)
  qed simp
qed

section \<open>Results\<close>

text \<open>
  \<^bold>\<open>C16.\<close> \<^verbatim>\<open>malloc\<close> is first fit: on a heap with free list \<open>fl\<close> and
  blocks \<open>al\<close> in use it always returns; it fails, changing nothing, exactly when no free block is
  large enough, and otherwise takes the first one that is, splits off what is left when that is worth a block
  of its own, and keeps the invariant: the list stays sorted, every block stays inside the arena, and
  the new block is apart from every other.
\<close>

theorem malloc_correct:
  assumes "heap_inv st fl al" "0 < n"
  shows "(\<forall>x \<in> set fl. snd x < align8 n) \<and> malloc n st = Some (None, st) \<or>
    (\<exists>xs x ys st'. fl = xs @ x # ys \<and> (\<forall>y \<in> set xs. snd y < align8 n) \<and> align8 n \<le> snd x \<and>
       malloc n st = Some (Some (fst x + HEADER_SIZE), st') \<and>
       heap_inv st' (xs @ split_rest (align8 n) x @ ys) (split_taken (align8 n) x # al))"
proof -
  from first_fit_split [of fl "align8 n"] show ?thesis
  proof
    assume "\<exists>xs x ys. fl = xs @ x # ys \<and> (\<forall>y \<in> set xs. snd y < align8 n) \<and> align8 n \<le> snd x"
    then obtain xs x ys where fl: "fl = xs @ x # ys" "\<forall>y \<in> set xs. snd y < align8 n" "align8 n \<le> snd x" by blast
    from malloc_some [OF assms(1) [unfolded fl(1)] assms(2) fl(2,3)] fl show ?thesis by metis
  qed (use malloc_none [OF assms] in blast)
qed

theorem malloc_correct_witness:
  "\<exists>st'. malloc 10 (memory_init_heap boot_heap) = Some (Some 16, st') \<and>
     heap_inv st' [(32, 4194256)] [(0, 16)]"
proof -
  let ?st = "memory_init_heap boot_heap"
  have "heap_inv ?st [(0, HEAP_SIZE - HEADER_SIZE)] []" using heap_full_init by (simp add: heap_full_def)
  moreover have "align8 10 = 16" by (simp add: align8_def)
  ultimately show ?thesis
    using malloc_correct [of ?st "[(0, HEAP_SIZE - HEADER_SIZE)]" "[]" 10]
    by (auto simp: HEAP_SIZE_def HEADER_SIZE_def split_rest_def split_taken_def Cons_eq_append_conv)
qed

text \<open>
  \<^bold>\<open>C17.\<close> \<^verbatim>\<open>free\<close> of a block in use always returns and gives the block back: the new
  free list is the old one with the block inserted in address order and all neighbours that touch merged; the
  invariant holds, the other blocks in use are untouched, and no byte of the arena is lost.
\<close>

theorem free_correct:
  assumes "heap_inv st fl (xs @ x # ys)"
  shows "\<exists>st' us vs. free (Some (fst x + HEADER_SIZE)) st = Some st' \<and> fl = us @ vs \<and>
    heap_inv st' (merge (us @ x # vs)) (xs @ ys) \<and> coalesced (merge (us @ x # vs)) \<and>
    covers (merge (us @ x # vs)) + covers (xs @ ys) = covers fl + covers (xs @ x # ys)"
proof -
  from free_gives_back [OF assms] obtain st' us vs where
    "free (Some (fst x + HEADER_SIZE)) st = Some st'" "fl = us @ vs" "heap_inv st' (merge (us @ x # vs)) (xs @ ys)" .
  then show ?thesis
    by (intro exI [of _ st'] exI [of _ us] exI [of _ vs]) (simp add: coalesced_merge covers_merge)
qed

theorem free_correct_witness:
  "\<exists>st st' us vs. malloc 10 (memory_init_heap boot_heap) = Some (Some 16, st) \<and> free (Some 16) st = Some st' \<and>
     heap_inv st' (merge (us @ (0, 16) # vs)) []"
proof -
  let ?st = "memory_init_heap boot_heap"
  have inv: "heap_inv ?st ([] @ (0, HEAP_SIZE - HEADER_SIZE) # []) []" using heap_full_init by (simp add: heap_full_def)
  have a: "align8 10 = 16" by (simp add: align8_def)
  from malloc_some [OF inv, of 10] obtain st where st: "malloc 10 ?st = Some (Some 16, st)"
    "heap_inv st [(32, 4194256)] ([] @ (0, 16) # [])"
    by (auto simp: a HEAP_SIZE_def HEADER_SIZE_def split_rest_def split_taken_def)
  from free_correct [OF st(2)] st(1) show ?thesis by (auto simp: HEADER_SIZE_def)
qed

lemma heap_full_empty:
  assumes "heap_full st fl []"
  shows "fl = [(0, HEAP_SIZE - HEADER_SIZE)]"
proof -
  have inv: "heap_inv st fl []" and c: "covers fl = HEAP_SIZE" "coalesced fl" using assms by (simp_all add: heap_full_def)
  note i = heap_invD [OF inv]
  have "fl \<noteq> []" using c(1) by (auto simp: HEAP_SIZE_def)
  with covers_bound [OF i(4), of 0] i(8) c show ?thesis by simp
qed

lemma free_last:
  assumes "heap_full h fl [x]"
  obtains h' where "free (Some (fst x + HEADER_SIZE)) h = Some h'" "heap_full h' [(0, HEAP_SIZE - HEADER_SIZE)] []"
  using free_full [of h fl "[]" x "[]"] assms heap_full_empty by auto



text \<open>
  The rounding of the size wraps around: asked for the largest 32-bit size,
  \<^verbatim>\<open>malloc\<close> does not fail but returns a block of 8 bytes.
\<close>

theorem malloc_size_wraps:
  "\<exists>st. malloc (2 ^ 32 - 1) boot_heap = Some (Some 16, st) \<and>
     hdr st 0 = Some \<lparr>b_size = 8, b_free = False, b_next = None\<rparr>"
proof -
  let ?st = "memory_init_heap boot_heap"
  have inv: "heap_inv ?st ([] @ (0, HEAP_SIZE - HEADER_SIZE) # []) []" using heap_full_init by (simp add: heap_full_def)
  have a: "align8 (2 ^ 32 - 1) = 8" by (simp add: align8_def)
  then show ?thesis
    by (simp add: malloc_def memory_init_heap_def boot_heap_def find_fit.simps alloc_block_def set_link_def
        HEAP_SIZE_def HEADER_SIZE_def insert_block_def set_hdr_def find_pos.simps)
qed

text \<open>
  \<^verbatim>\<open>realloc\<close> to a smaller size keeps the block where it is and
  the heap sound, but the bytes cut off belong to no block any more: they are neither in use nor free, and
  stay lost when the block is released.
\<close>

theorem realloc_shrink_loses_memory:
  assumes "heap_inv st fl (xs @ x # ys)" "0 < n" "n \<le> snd x"
  shows "\<exists>st'. realloc (Some (fst x + HEADER_SIZE)) n st = Some (Some (fst x + HEADER_SIZE), st', None) \<and>
    heap_inv st' fl (xs @ (fst x, n) # ys) \<and>
    covers fl + covers (xs @ (fst x, n) # ys) + (snd x - n) = covers fl + covers (xs @ x # ys)"
proof -
  note i = heap_invD [OF assms(1)]
  obtain nx where hx: "hdr st (fst x) = Some \<lparr>b_size = snd x, b_free = False, b_next = nx\<rparr>"
    using i(7) [of x] by auto
  let ?x = "(fst x, n)" and ?st = "set_hdr (fst x) \<lparr>b_size = n, b_free = False, b_next = nx\<rparr> st"
  have e: "block_end ?x \<le> block_end x" using assms(3) by (simp add: block_end_def)
  have ap: "apart ?x y \<and> apart y ?x" if "apart x y \<or> apart y x" for y
    using that e by (auto simp: apart_def before_def)
  have x_fl: "\<forall>y \<in> set fl. apart x y" using i(6) by simp
  then have out: "fst x \<notin> fst ` set fl" using apart_neq by blast
  have al: "\<forall>y \<in> set (xs @ ys). apart y x \<or> apart x y" "sorted_wrt apart (xs @ ys)"
    using i(5) by (auto simp: sorted_wrt_append)
  have "heap_inv ?st fl (xs @ ?x # ys)"
    unfolding heap_inv_def
  proof (intro conjI)
    show "heap_initialized ?st" "free_list_head ?st = first fl" "chain (hdr ?st) fl None" "sorted_wrt before fl"
      using i(1-4) out by (simp_all add: set_hdr_def chain_other)
    show "sorted_wrt apart (xs @ ?x # ys)" using al ap by (auto simp: sorted_wrt_append)
    show "\<forall>y \<in> set (xs @ ?x # ys). \<forall>z \<in> set fl. apart y z" using i(6) x_fl ap by auto
    have "in_arena ?x" using i(8) [of x] e by (simp add: in_arena_def)
    then show "\<forall>y \<in> set (fl @ xs @ ?x # ys). in_arena y" using i(8) by auto
    show "\<forall>y \<in> set (xs @ ?x # ys). \<exists>nx. hdr ?st (fst y) = Some \<lparr>b_size = snd y, b_free = False, b_next = nx\<rparr>"
    proof
      fix y assume y: "y \<in> set (xs @ ?x # ys)"
      show "\<exists>nx. hdr ?st (fst y) = Some \<lparr>b_size = snd y, b_free = False, b_next = nx\<rparr>"
      proof (cases "y = ?x")
        case False
        with y have y': "y \<in> set (xs @ ys)" by auto
        with al apart_neq have "fst y \<noteq> fst x" by metis
        with i(7) [of y] y' show ?thesis by (auto simp: set_hdr_def)
      qed (simp add: set_hdr_def)
    qed
  qed
  with hx assms(2,3) show ?thesis by (auto simp: realloc_def Let_def)
qed

theorem realloc_shrink_loses_memory_witness:
  "\<exists>st st'. malloc 100 (memory_init_heap boot_heap) = Some (Some 16, st) \<and>
     realloc (Some 16) 1 st = Some (Some 16, st', None) \<and> heap_inv st' [(120, 4194168)] [(0, 1)]"
proof -
  let ?st = "memory_init_heap boot_heap"
  have inv: "heap_inv ?st ([] @ (0, HEAP_SIZE - HEADER_SIZE) # []) []" using heap_full_init by (simp add: heap_full_def)
  have a: "align8 100 = 104" by (simp add: align8_def)
  from malloc_some [OF inv, of 100] obtain st where st: "malloc 100 ?st = Some (Some 16, st)"
    "heap_inv st [(120, 4194168)] ([] @ (0, 104) # [])"
    by (auto simp: a HEAP_SIZE_def HEADER_SIZE_def split_rest_def split_taken_def)
  from realloc_shrink_loses_memory [OF st(2), of 1] st(1) show ?thesis by (auto simp: HEADER_SIZE_def)
qed

end
