(* ===== verification/Llm.thy ===== *)
theory Llm
  imports Allocator CString
begin

text \<open>
  The inference interface: \<^verbatim>\<open>src/llm.c\<close> (a placeholder model that continues a text by
  counting up from its last byte), the model checks of \<^verbatim>\<open>src/c_model_interface.c\<close> and
  those of \<^verbatim>\<open>src/model_embedding.c\<close>.

  A context is reached through its address in the heap; its record holds the fields of
  \<^verbatim>\<open>struct llm_context\<close>, with the token buffer as its address and contents. Null arguments
  are \<^term>\<open>None\<close>. An outer \<^term>\<open>None\<close> is undefined behaviour.
\<close>

section \<open>Model bytes\<close>

definition gguf_magic :: "u8 list" where
  "gguf_magic = [0x47, 0x47, 0x55, 0x46]"

definition embedded_model_bytes :: "u8 list" where
  "embedded_model_bytes =
     [0x47, 0x47, 0x55, 0x46, 3, 0, 0, 0, 0, 0, 0, 0, 0, 0, 0, 0,
      0, 1, 2, 3, 4, 5, 6, 7, 8, 9, 0xA, 0xB]"

definition crc32_bit :: "u32 \<Rightarrow> u32" where
  "crc32_bit crc = (if crc AND 1 \<noteq> 0 then drop_bit 1 crc XOR 0xEDB88320 else drop_bit 1 crc)"

definition crc32_calc :: "u8 list \<Rightarrow> u32" where
  "crc32_calc data = foldl (\<lambda>crc b. (crc32_bit ^^ 8) (crc XOR ucast b)) 0xFFFFFFFF data XOR 0xFFFFFFFF"

definition c_validate_gguf_format :: "u8 list option \<Rightarrow> nat \<Rightarrow> int" where
  "c_validate_gguf_format data sz =
     (case data of
        None \<Rightarrow> 0
      | Some d \<Rightarrow> if sz < 4 then 0 else if take 4 d = gguf_magic then 1 else 0)"

definition c_get_embedded_model :: "u8 list" where
  [simp]: "c_get_embedded_model = embedded_model_bytes"

definition c_get_embedded_model_size :: nat where
  [simp]: "c_get_embedded_model_size = length embedded_model_bytes"

definition c_validate_embedded_model :: int where
  "c_validate_embedded_model =
     (let d = c_get_embedded_model; n = c_get_embedded_model_size
      in if n < 4 then 0 else if take 4 d = gguf_magic then 1 else 0)"

record embedded_model_info =
  em_data :: "u8 list"
  em_size :: nat
  em_is_valid :: int

definition c_load_embedded_model :: embedded_model_info where
  "c_load_embedded_model =
     \<lparr>em_data = c_get_embedded_model, em_size = c_get_embedded_model_size,
      em_is_valid = c_validate_embedded_model\<rparr>"

definition c_validate_header :: "u8 list option \<Rightarrow> nat \<Rightarrow> int" where
  "c_validate_header data sz =
     (if data = None \<or> sz < 16 then 0 else if c_validate_gguf_format data sz = 0 then 0 else 1)"

record model_metadata =
  md_magic :: "u8 list"
  md_version :: u32
  md_tensor_count :: u32
  md_kv_count :: u32
  md_architecture :: string
  md_context_length :: u32

definition c_get_model_metadata :: model_metadata where
  "c_get_model_metadata =
     \<lparr>md_magic = take 4 embedded_model_bytes, md_version = 3, md_tensor_count = 0, md_kv_count = 0,
      md_architecture = ''llama'', md_context_length = 2048\<rparr>"

definition c_calculate_model_checksum :: "u8 list option \<Rightarrow> nat \<Rightarrow> u32" where
  "c_calculate_model_checksum data sz =
     (case data of None \<Rightarrow> 0 | Some d \<Rightarrow> if sz = 0 then 0 else crc32_calc (take sz d))"

definition c_verify_model_integrity :: "u8 list option \<Rightarrow> nat \<Rightarrow> int" where
  "c_verify_model_integrity data sz =
     (if data = None \<or> sz = 0 then 0 else c_validate_gguf_format data sz)"

text \<open>\<^verbatim>\<open>src/model_embedding.c\<close>, without its log lines.\<close>

record model_embedding_info =
  me_data :: "u8 list option"
  me_size :: nat
  me_is_valid :: int
  me_checksum :: u32

definition load_embedded_model :: model_embedding_info where
  "load_embedded_model = \<lparr>me_data = None, me_size = 0, me_is_valid = 0, me_checksum = 0\<rparr>"

definition validate_embedded_model :: "model_embedding_info option \<Rightarrow> int" where
  "validate_embedded_model model_info =
     (case model_info of
        None \<Rightarrow> 0
      | Some i \<Rightarrow>
          (case me_data i of
             None \<Rightarrow> 0
           | Some d \<Rightarrow>
               if me_size i = 0 then 0
               else if me_size i < 4 then 0
               else if take 4 d \<noteq> gguf_magic then 0
               else if me_size i < 16 then 0
               else 1))"

definition calculate_model_checksum :: "u8 list option \<Rightarrow> nat \<Rightarrow> u32" where
  "calculate_model_checksum data sz =
     (case data of None \<Rightarrow> 0 | Some d \<Rightarrow> if sz = 0 then 0 else foldl (\<lambda>c b. c XOR ucast b) 0 (take sz d))"

definition verify_model_integrity :: "model_embedding_info option \<Rightarrow> int" where
  "verify_model_integrity model_info =
     (case model_info of
        None \<Rightarrow> 0
      | Some i \<Rightarrow> if calculate_model_checksum (me_data i) (me_size i) = 0x12345678 then 1 else 0)"

definition verify_embedded_model :: "u8 list option \<Rightarrow> nat \<Rightarrow> int" where
  "verify_embedded_model data sz =
     (case data of
        None \<Rightarrow> - 1
      | Some d \<Rightarrow>
          if sz = 0 then - 1
          else if sz < 4 \<or> d ! 0 \<noteq> 0x47 \<or> d ! 1 \<noteq> 0x47 \<or> d ! 2 \<noteq> 0x55 \<or> d ! 3 \<noteq> 0x46 then - 1
          else 0)"

section \<open>Contexts\<close>

record llm_params =
  lp_context_size :: int
  lp_threads :: int
  lp_gpu_layers :: int

record llm_context =
  l_model_data :: "u8 list"
  l_model_size :: nat
  l_context_size :: int
  l_threads :: int
  l_tokens :: "(nat \<times> int list) option"
  l_token_count :: int

definition llm_default_params :: llm_params where
  "llm_default_params = \<lparr>lp_context_size = 2048, lp_threads = 1, lp_gpu_layers = 0\<rparr>"

text \<open>\<^verbatim>\<open>sizeof(llm_context_t)\<close> on i386: six words.\<close>

definition llm_init ::
  "u8 list option \<Rightarrow> nat \<Rightarrow> llm_params option \<Rightarrow> heap \<Rightarrow> ((nat \<times> llm_context) option \<times> heap) option" where
  "llm_init model_data model_size params st =
     (case model_data of
        None \<Rightarrow> Some (None, st)
      | Some d \<Rightarrow>
          if model_size = 0 then Some (None, st)
          else Option.bind (malloc 24 st) (\<lambda>(p, st).
            case p of
              None \<Rightarrow> Some (None, st)
            | Some a \<Rightarrow>
                let ctx = \<lparr>l_model_data = d, l_model_size = model_size,
                    l_context_size = (case params of Some q \<Rightarrow> lp_context_size q | None \<Rightarrow> 2048),
                    l_threads = (case params of Some q \<Rightarrow> lp_threads q | None \<Rightarrow> 1),
                    l_tokens = None, l_token_count = 0\<rparr>
                in if c_validate_gguf_format model_data model_size = 0
                   then map_option (\<lambda>st. (None, st)) (free (Some a) st)
                   else Some (Some (a, ctx), st)))"

definition llm_free :: "(nat \<times> llm_context) option \<Rightarrow> heap \<Rightarrow> heap option" where
  "llm_free ctx st =
     (case ctx of
        None \<Rightarrow> Some st
      | Some (a, c) \<Rightarrow>
          Option.bind (case l_tokens c of Some (t, _) \<Rightarrow> free (Some t) st | None \<Rightarrow> Some st)
            (free (Some a)))"

text \<open>The result and the tokens written to the caller's array.\<close>

definition llm_tokenize :: "llm_context option \<Rightarrow> string option \<Rightarrow> int \<Rightarrow> int \<times> int list" where
  "llm_tokenize ctx text max_tokens =
     (if ctx = None \<or> text = None \<or> max_tokens \<le> 0 then (- 1, [])
      else let s = cstr_of (the text);
               token_count = (if length s < nat max_tokens then length s else nat max_tokens)
           in (int token_count, map (\<lambda>i. int (uchar (s ! i))) [0 ..< token_count]))"

text \<open>The result and the bytes written before the terminator; reading past the tokens is undefined.\<close>

definition llm_detokenize ::
  "llm_context option \<Rightarrow> int list option \<Rightarrow> int \<Rightarrow> nat \<Rightarrow> (int \<times> string) option" where
  "llm_detokenize ctx tokens token_count text_size =
     (if ctx = None \<or> tokens = None \<or> token_count \<le> 0 \<or> text_size = 0 then Some (- 1, [])
      else let cap = swrap32 (int text_size) - 1;
               char_count = (if token_count < cap then token_count else cap)
           in if length (the tokens) < nat char_count then None
              else Some (char_count, map (\<lambda>t. char_of (nat (t mod 256))) (take (nat char_count) (the tokens))))"

definition llm_eval ::
  "llm_context option \<Rightarrow> int list option \<Rightarrow> int \<Rightarrow> heap \<Rightarrow> (int \<times> llm_context option \<times> heap) option" where
  "llm_eval ctx tokens token_count st =
     (case (ctx, tokens) of
        (Some c, Some ts) \<Rightarrow>
          if token_count \<le> 0 then Some (- 1, ctx, st)
          else Option.bind (case l_tokens c of Some (t, _) \<Rightarrow> free (Some t) st | None \<Rightarrow> Some st) (\<lambda>st.
            Option.bind (malloc (nat (token_count * 4) mod 2 ^ 32) st) (\<lambda>(p, st).
              case p of
                None \<Rightarrow> Some (- 1, Some (c\<lparr>l_tokens := None\<rparr>), st)
              | Some a \<Rightarrow>
                  if length ts < nat token_count then None
                  else Some (0, Some (c\<lparr>l_tokens := Some (a, take (nat token_count) ts),
                                       l_token_count := token_count\<rparr>), st)))
      | _ \<Rightarrow> Some (- 1, ctx, st))"

definition llm_sample :: "llm_context option \<Rightarrow> (int \<times> int) option" where
  "llm_sample ctx =
     (case ctx of
        None \<Rightarrow> Some (- 1, 0)
      | Some c \<Rightarrow>
          if 0 < l_token_count c then
            Option.bind (l_tokens c) (\<lambda>(_, ts).
              map_option (\<lambda>t. (0, swrap32 (t + 1))) (rd ts (nat (l_token_count c - 1))))
          else Some (0, 65))"

text \<open>
  The generation loop, with the iterations left, the token window and the bytes written so far.
\<close>

fun gen_loop ::
  "nat \<Rightarrow> nat \<Rightarrow> llm_context \<Rightarrow> heap \<Rightarrow> int list \<Rightarrow> string \<Rightarrow> (int \<times> string \<times> llm_context \<times> heap) option" where
  "gen_loop 0 output_size c st tokens out = Some (swrap32 (int (length out)), out, c, st)"
| "gen_loop (Suc k) output_size c st tokens out =
     (if length out + 1 < output_size then
        Option.bind (llm_eval (Some c) (Some tokens) (int (length tokens)) st) (\<lambda>(rc, c', st).
          if rc \<noteq> 0 then Some (- 1, out, the c', st)
          else Option.bind (llm_sample c') (\<lambda>(rc, next_token).
            if rc \<noteq> 0 then Some (- 1, out, the c', st)
            else gen_loop k output_size (the c') st
                   (if length tokens < 512 then tokens @ [next_token] else tl tokens @ [next_token])
                   (out @ [char_of (nat (next_token mod 256))])))
      else Some (swrap32 (int (length out)), out, c, st))"

definition llm_generate ::
  "llm_context option \<Rightarrow> string option \<Rightarrow> int \<Rightarrow> nat \<Rightarrow> heap
     \<Rightarrow> (int \<times> string \<times> llm_context option \<times> heap) option" where
  "llm_generate ctx prompt max_tokens output_size st =
     (if ctx = None \<or> prompt = None \<or> max_tokens \<le> 0 \<or> output_size = 0 then Some (- 1, [], ctx, st)
      else let (n_tokens, tokens) = llm_tokenize ctx prompt 512
           in if n_tokens < 0 then Some (- 1, [], ctx, st)
              else map_option (\<lambda>(r, out, c, st). (r, out, Some c, st))
                     (gen_loop (nat max_tokens) output_size (the ctx) st tokens []))"

section \<open>Model checks\<close>

lemma xor_bytes_small: "take_bit 8 c = c \<Longrightarrow> take_bit 8 (foldl (\<lambda>c b. c XOR ucast (b :: u8)) (c :: u32) bs) = foldl (\<lambda>c b. c XOR ucast b) c bs"
proof (induction bs arbitrary: c)
  case (Cons b bs)
  have "take_bit 8 (ucast b :: u32) = ucast b"
    by (rule bit_word_eqI) (auto simp: bit_simps dest: bit_imp_le_length)
  with Cons.prems have "take_bit 8 (c XOR ucast b) = c XOR ucast b" by (simp add: take_bit_xor)
  from Cons.IH [OF this] show ?case by simp
qed simp

text \<open>
  No model passes \<^verbatim>\<open>verify_model_integrity\<close>: the checksum is the
  exclusive or of single bytes and below 256, and is compared with
  \<^verbatim>\<open>0x12345678\<close>.
\<close>

theorem verify_model_integrity_always_fails:
  "verify_model_integrity info = 0"
proof (cases info)
  case (Some i)
  have "take_bit 8 (calculate_model_checksum (me_data i) (me_size i)) = calculate_model_checksum (me_data i) (me_size i)"
    by (auto simp: calculate_model_checksum_def xor_bytes_small split: option.splits)
  moreover have "take_bit 8 (0x12345678 :: u32) \<noteq> 0x12345678" by simp
  ultimately have "calculate_model_checksum (me_data i) (me_size i) \<noteq> 0x12345678" by metis
  with Some show ?thesis by (simp add: verify_model_integrity_def)
qed (simp add: verify_model_integrity_def)

section \<open>Tokens\<close>

lemma llm_tokenize_eq:
  "0 < max_tokens \<Longrightarrow> llm_tokenize (Some c) (Some s) max_tokens =
     (int (min (length (cstr_of s)) (nat max_tokens)),
      map (\<lambda>ch. int (uchar ch)) (take (nat max_tokens) (cstr_of s)))"
  by (auto simp: llm_tokenize_def Let_def min_def intro!: nth_equalityI)

text \<open>
  Tokenizing a text and detokenizing the tokens gives the text back, when it fits
  the token limit and, with its terminator, the output buffer.
\<close>

theorem llm_token_roundtrip:
  assumes "NUL \<notin> set s" "s \<noteq> []" "int (length s) \<le> max_tokens" "length s < sz" "sz < 2 ^ 31"
  shows "\<exists>n ts. llm_tokenize (Some c) (Some s) max_tokens = (n, ts) \<and>
    llm_detokenize (Some c) (Some ts) n sz = Some (int (length s), s)"
proof -
  have "0 < max_tokens" using assms(2,3) by (cases s) auto
  moreover have "length s \<le> nat max_tokens" using assms(3) by linarith
  ultimately have tok: "llm_tokenize (Some c) (Some s) max_tokens = (int (length s), map (\<lambda>ch. int (uchar ch)) s)"
    using assms(1) by (simp add: llm_tokenize_eq cstr_of_id)
  have "swrap32 (int sz) = int sz" using assms(5) by (intro swrap32_id) simp_all
  moreover have "char_of (nat (int (uchar ch) mod 256)) = ch" for ch
    using char_of_uchar [of ch] uchar_less_256 [of ch] by simp
  then have "map (\<lambda>t. char_of (nat (t mod 256))) (map (\<lambda>ch. int (uchar ch)) s) = s"
    by (simp add: comp_def)
  ultimately have "llm_detokenize (Some c) (Some (map (\<lambda>ch. int (uchar ch)) s)) (int (length s)) sz = Some (int (length s), s)"
    using assms(2,4) by (auto simp: llm_detokenize_def Let_def)
  with tok show ?thesis by blast
qed

theorem llm_token_roundtrip_witness:
  "\<exists>n ts. llm_tokenize (Some \<lparr>l_model_data = [], l_model_size = 0, l_context_size = 2048, l_threads = 1,
       l_tokens = None, l_token_count = 0\<rparr>) (Some ''hey'') 512 = (n, ts) \<and>
     llm_detokenize (Some \<lparr>l_model_data = [], l_model_size = 0, l_context_size = 2048, l_threads = 1,
       l_tokens = None, l_token_count = 0\<rparr>) (Some ts) n 64 = Some (3, ''hey'')"
  using llm_token_roundtrip [of "''hey''" 512 64] by simp

section \<open>Generation\<close>

text \<open>The client holds \<open>ps\<close> and, if there is one, the token buffer of the context.\<close>

definition ctx_owned :: "llm_context \<Rightarrow> heap \<Rightarrow> (nat \<times> nat) list \<Rightarrow> bool" where
  "ctx_owned c st ps \<longleftrightarrow>
     (case l_tokens c of None \<Rightarrow> heap_owns st ps | Some (t, ts) \<Rightarrow> \<exists>cap. heap_owns st ((t, cap) # ps))"

lemma llm_eval_owned:
  assumes "ctx_owned c st ps" "ts \<noteq> []" "length ts \<le> 512"
  shows "\<exists>rc c' st'. llm_eval (Some c) (Some ts) (int (length ts)) st = Some (rc, Some c', st') \<and>
    ctx_owned c' st' ps \<and>
    (rc = - 1 \<and> l_tokens c' = None \<and> l_token_count c' = l_token_count c \<or>
     rc = 0 \<and> (\<exists>a. l_tokens c' = Some (a, ts)) \<and> l_token_count c' = int (length ts))"
proof -
  define x where "x = (case l_tokens c of Some (t, _) \<Rightarrow> free (Some t) st | None \<Rightarrow> Some st)"
  have "\<exists>st1. x = Some st1 \<and> heap_owns st1 ps"
    using assms(1) heap.release_ok [of st "[]" _ _ ps]
    by (auto simp: ctx_owned_def x_def split: option.splits)
  then obtain st1 where st1: "x = Some st1" "heap_owns st1 ps" by blast
  have n: "nat (int (length ts) * 4) mod 2 ^ 32 = length ts * 4" "0 < length ts * 4" "length ts * 4 \<le> 2 ^ 32 - 8"
    using assms(2,3) by (simp_all add: nat_mult_distrib)
  from heap.alloc_ok [OF st1(2) n(2,3)] obtain r st' where r: "malloc (length ts * 4) st1 = Some (r, st')"
    "case r of None \<Rightarrow> heap_owns st' ps | Some p \<Rightarrow> \<exists>c. length ts * 4 \<le> c \<and> heap_owns st' ((p, c) # ps)" by blast
  then show ?thesis
    using assms(2) st1(1) n(1) unfolding llm_eval_def x_def by (cases r) (auto simp: ctx_owned_def)
qed

text \<open>The continuation: bytes counting up from \<open>v\<close>.\<close>

definition count_up :: "int \<Rightarrow> nat \<Rightarrow> string" where
  "count_up v m = map (\<lambda>i. char_of (nat ((v + 1 + int i) mod 256))) [0 ..< m]"

lemma count_up_Suc: "count_up v (Suc m) = char_of (nat ((v + 1) mod 256)) # count_up (v + 1) m"
  by (simp add: count_up_def upt_conv_Cons map_Suc_upt [symmetric] comp_def add_ac del: upt_Suc)

lemma gen_loop_counts:
  assumes "ctx_owned c st ps" "ts \<noteq> []" "length ts \<le> 512" "0 \<le> last ts" "last ts + int k < 2 ^ 31 - 1"
    "length out + k < 2 ^ 31"
  shows "\<exists>rc out' c' st'. gen_loop k output_size c st ts out = Some (rc, out', c', st') \<and> ctx_owned c' st' ps \<and>
    (rc = - 1 \<or> rc = int (length out') \<and> out' = out @ count_up (last ts) (min k (output_size - 1 - length out)))"
  using assms
proof (induction k arbitrary: c st ts out)
  case 0
  then show ?case by (simp add: count_up_def swrap32_id)
next
  case (Suc k)
  show ?case
  proof (cases "length out + 1 < output_size")
    case False
    with Suc.prems show ?thesis by (simp add: count_up_def swrap32_id)
  next
    case True
    from llm_eval_owned [OF Suc.prems(1-3)] obtain rc c' st' where
      e: "llm_eval (Some c) (Some ts) (int (length ts)) st = Some (rc, Some c', st')" "ctx_owned c' st' ps"
        "rc = - 1 \<or> rc = 0 \<and> (\<exists>a. l_tokens c' = Some (a, ts)) \<and> l_token_count c' = int (length ts)" by blast
    show ?thesis
    proof (cases "rc = 0")
      case False
      with e True show ?thesis by auto
    next
      case rc: True
      then obtain a where a: "l_tokens c' = Some (a, ts)" "l_token_count c' = int (length ts)" using e(3) by auto
      have idx: "nat (int (length ts) - 1) = length ts - 1" by simp
      have "swrap32 (last ts + 1) = last ts + 1" using Suc.prems(4,5) by (intro swrap32_id) simp_all
      then have smp: "llm_sample (Some c') = Some (0, last ts + 1)"
        using a Suc.prems(2) idx by (simp add: llm_sample_def rd_def last_conv_nth)
      let ?ts = "if length ts < 512 then ts @ [last ts + 1] else tl ts @ [last ts + 1]"
      let ?out = "out @ [char_of (nat ((last ts + 1) mod 256))]"
      have "\<exists>rc out' c'' st''. gen_loop k output_size c' st' ?ts ?out = Some (rc, out', c'', st'') \<and>
          ctx_owned c'' st'' ps \<and>
          (rc = - 1 \<or> rc = int (length out') \<and>
             out' = ?out @ count_up (last ?ts) (min k (output_size - 1 - length ?out)))"
        using Suc.prems e(2) by (intro Suc.IH) auto
      moreover have "gen_loop (Suc k) output_size c st ts out = gen_loop k output_size c' st' ?ts ?out"
        using True e(1) rc smp by simp
      moreover have "min (Suc k) (output_size - 1 - length out) = Suc (min k (output_size - 1 - length ?out))"
        using True by simp
      moreover have "last ?ts = last ts + 1" by simp
      ultimately show ?thesis by (simp add: count_up_Suc)
    qed
  qed
qed

lemma last_tokens: "s \<noteq> [] \<Longrightarrow> last (map (\<lambda>ch. int (uchar ch)) s) = int (uchar (last s))"
  by (simp add: last_map)

lemma llm_generate_runs:
  assumes "ctx_owned c st ps" "NUL \<notin> set s" "s \<noteq> []" "0 < max_tokens" "max_tokens < 2 ^ 30" "0 < output_size"
  shows "\<exists>rc out c' st'. llm_generate (Some c) (Some s) max_tokens output_size st = Some (rc, out, Some c', st') \<and>
    ctx_owned c' st' ps \<and>
    (rc = - 1 \<or> rc = int (length out) \<and>
       out = count_up (int (uchar (last (take 512 s)))) (min (nat max_tokens) (output_size - 1)))"
proof -
  let ?ts = "map (\<lambda>ch. int (uchar ch)) (take 512 s)"
  have tok: "llm_tokenize (Some c) (Some s) 512 = (int (min (length s) 512), ?ts)"
    using assms(2) by (simp add: llm_tokenize_eq cstr_of_id)
  have l: "last ?ts = int (uchar (last (take 512 s)))" "?ts \<noteq> []" "length ?ts \<le> 512"
    using assms(3) by (simp_all add: last_tokens)
  obtain u where u: "int (uchar (last (take 512 s))) = u" "u < 256" "0 \<le> u"
    using uchar_less_256 [of "last (take 512 s)"] by force
  then have "last ?ts + int (nat max_tokens) < 2 ^ 31 - 1" "length [] + nat max_tokens < 2 ^ 31" "0 \<le> last ?ts"
    unfolding l(1) u(1) using assms(4,5) u(2,3) by simp_all
  with gen_loop_counts [OF assms(1) l(2,3), of "nat max_tokens" "[]" output_size] l(1)
  obtain rc out c' st' where "gen_loop (nat max_tokens) output_size c st ?ts [] = Some (rc, out, c', st')"
    "ctx_owned c' st' ps" "rc = - 1 \<or> rc = int (length out) \<and>
       out = count_up (int (uchar (last (take 512 s)))) (min (nat max_tokens) (output_size - 1))"
    by (simp del: last_map) blast
  with tok assms(4,6) show ?thesis by (simp add: llm_generate_def)
qed

text \<open>On an empty prompt the first evaluation fails and nothing is allocated.\<close>

lemma llm_generate_any:
  assumes "ctx_owned c st ps" "NUL \<notin> set s" "0 < max_tokens" "max_tokens < 2 ^ 30" "1 < output_size"
  shows "\<exists>rc out c' st'. llm_generate (Some c) (Some s) max_tokens output_size st = Some (rc, out, Some c', st') \<and>
    ctx_owned c' st' ps \<and> (0 < rc \<longrightarrow> length out < output_size)"
proof (cases "s = []")
  case True
  obtain k where "nat max_tokens = Suc k" using assms(3) by (metis gr0_implies_Suc zero_less_nat_eq)
  with assms show ?thesis
    by (simp add: True llm_generate_def llm_tokenize_eq cstr_of_def llm_eval_def)
next
  case False
  from llm_generate_runs [OF assms(1,2) False assms(3,4), of output_size] assms(5) show ?thesis
    by (fastforce simp: count_up_def)
qed



text \<open>
  A failed \<^verbatim>\<open>llm_eval\<close> leaves a context that must not be sampled: when
  its allocation fails the token buffer is gone but \<^verbatim>\<open>token_count\<close> keeps its old
  value, and the next \<^verbatim>\<open>llm_sample\<close> reads through the null pointer.
\<close>

theorem llm_sample_after_failed_eval:
  assumes "llm_eval (Some c) (Some ts) n st = Some (- 1, Some c', st')" "0 < n" "0 < l_token_count c"
  shows "l_token_count c' = l_token_count c \<and> llm_sample (Some c') = None"
  using assms by (auto simp: llm_eval_def llm_sample_def bind_eq_Some split: option.splits if_splits)

theorem llm_sample_after_failed_eval_witness:
  "\<exists>c' st'. llm_eval (Some \<lparr>l_model_data = [], l_model_size = 0, l_context_size = 2048, l_threads = 1,
       l_tokens = None, l_token_count = 1\<rparr>) (Some [0]) (2 ^ 21) boot_heap = Some (- 1, Some c', st') \<and>
     llm_sample (Some c') = None"
proof -
  let ?c = "\<lparr>l_model_data = [], l_model_size = 0, l_context_size = 2048, l_threads = 1, l_tokens = None, l_token_count = 1\<rparr>"
  let ?st = "memory_init_heap boot_heap"
  have "malloc (2 ^ 23) ?st = Some (None, ?st)"
    using heap_full_init
    by (intro malloc_none [of ?st "[(0, HEAP_SIZE - HEADER_SIZE)]" "[]"])
       (simp_all add: heap_full_def align8_def HEAP_SIZE_def HEADER_SIZE_def)
  then have "malloc (2 ^ 23) boot_heap = Some (None, ?st)" by (simp add: malloc_uninit boot_heap_def)
  then have "llm_eval (Some ?c) (Some [0]) (2 ^ 21) boot_heap = Some (- 1, Some (?c\<lparr>l_tokens := None\<rparr>), ?st)"
    by (simp add: llm_eval_def)
  from llm_sample_after_failed_eval [OF this] this show ?thesis by auto
qed

end
