(* ===== verification/ApiV1.thy ===== *)
theory ApiV1
  imports ApiDecode JsonDoc Http Llm
begin

text \<open>
  The llama.cpp-compatible endpoints of \<^verbatim>\<open>src/api_v1.c\<close>: the global API context, the
  construction of error responses and the six handlers, on top of the request parsers of ApiParse,
  the language model of Llm and the JSON writer of JsonWriter.

  A handler takes the request, the response structure to fill and the server state (the API context
  and the heap the model allocates from). It gives the returned \<^verbatim>\<open>int\<close>, the response and
  the new state, or \<^term>\<open>None\<close> where the C program would be undefined or not return.
  The log lines on the serial port are not part of the state.
\<close>

section \<open>State\<close>

record api_context =
  g_llm_ctx :: "llm_context option"
  g_model_loaded :: bool
  g_request_counter :: u64
  g_created_time :: int

definition boot_api_context :: api_context where
  "boot_api_context = \<lparr>g_llm_ctx = None, g_model_loaded = False, g_request_counter = 0, g_created_time = 0\<rparr>"

type_synonym server = "api_context \<times> heap"
type_synonym handler = "http_request \<Rightarrow> http_response \<Rightarrow> server \<Rightarrow> (int \<times> http_response \<times> server) option"

definition MODEL_ID :: string where
  "MODEL_ID = ''embedded-llama''"

definition api_v1_init :: "llm_context option \<Rightarrow> api_context \<Rightarrow> int \<times> api_context" where
  "api_v1_init llm_ctx g =
     (0, g\<lparr>g_llm_ctx := llm_ctx, g_model_loaded := (llm_ctx \<noteq> None), g_request_counter := 0,
           g_created_time := 1234567890\<rparr>)"

section \<open>Helpers\<close>

definition json_content_type :: string where
  "json_content_type = ''Content-Type: application/json'' @ crlf"

definition set_json_headers :: "http_response \<Rightarrow> http_response" where
  "set_json_headers response = response\<lparr>rs_headers := scpy 1024 json_content_type\<rparr>"

text \<open>The content of the buffer of \<open>sz\<close> bytes, and the context with the counter stepped.\<close>

definition generate_request_id :: "nat \<Rightarrow> string \<Rightarrow> api_context \<Rightarrow> (string \<times> api_context) option" where
  "generate_request_id sz pfx g =
     (let g = g\<lparr>g_request_counter := g_request_counter g + 1\<rparr>
      in map_option (\<lambda>(n, id). (id, g))
           (snprintf_text sz ''%s-%016llx'' [VStr pfx, VLong (g_request_counter g)]))"

definition is_post_request :: "http_request \<Rightarrow> bool" where
  "is_post_request request \<longleftrightarrow> str_eqn (rq_method request) ''POST'' 5"

definition is_get_request :: "http_request \<Rightarrow> bool" where
  "is_get_request request \<longleftrightarrow> str_eqn (rq_method request) ''GET'' 4"

text \<open>
  The frame of every JSON response: the writer is initialised on the body array, the calls are made
  with their results dropped, and the length of the text becomes the body length.
\<close>

definition write_body :: "jop \<Rightarrow> http_response \<Rightarrow> http_response" where
  "write_body ops response =
     (let w = snd (ops (json_writer_init 16384))
      in response\<lparr>rs_body := w_out w, rs_body_length := json_writer_length w\<rparr>)"

definition kv_string_or_null :: "string \<Rightarrow> string option \<Rightarrow> jop" where
  "kv_string_or_null key v =
     (case v of
        Some s \<Rightarrow> if s \<noteq> [] then json_write_kv_string key s else json_write_kv_null key
      | None \<Rightarrow> json_write_kv_null key)"

definition error_calls :: "string \<Rightarrow> string \<Rightarrow> string option \<Rightarrow> string option \<Rightarrow> jop" where
  "error_calls message type param code =
     ignoring json_write_object_start
    (ignoring (json_write_key ''error'')
    (ignoring json_write_object_start
    (ignoring (json_write_kv_string ''message'' message)
    (ignoring (json_write_kv_string ''type'' type)
    (ignoring (kv_string_or_null ''param'' param)
    (ignoring (kv_string_or_null ''code'' code)
    (ignoring json_write_object_end
              json_write_object_end)))))))"

definition build_error_response ::
  "http_response \<Rightarrow> int \<Rightarrow> string \<Rightarrow> string \<Rightarrow> string option \<Rightarrow> string option \<Rightarrow> int \<times> http_response" where
  "build_error_response response status_code message type param code =
     (0, write_body (error_calls message type param code)
           (set_json_headers (response\<lparr>rs_status := status_code\<rparr>)))"

text \<open>The checks every \<^verbatim>\<open>POST\<close> handler starts with; the parsed request goes on.\<close>

definition fail ::
  "http_response \<Rightarrow> int \<Rightarrow> string \<Rightarrow> string \<Rightarrow> string \<Rightarrow> server \<Rightarrow> (int \<times> http_response \<times> server) option" where
  "fail response status_code message param code sv =
     (let (rc, response) =
            build_error_response response status_code message ''invalid_request_error'' (Some param) (Some code)
      in Some (rc, response, sv))"

definition with_post_body ::
  "(string \<Rightarrow> nat \<Rightarrow> 'r parsed) \<Rightarrow> ('r \<Rightarrow> http_response \<Rightarrow> server \<Rightarrow> (int \<times> http_response \<times> server) option) \<Rightarrow> handler" where
  "with_post_body parse go request response sv =
     (if \<not> is_post_request request
      then fail response 405 ''Method not allowed'' [] ''method_not_allowed'' sv
      else if rq_body_length request = 0
      then fail response 400 ''Request body is empty'' [] ''empty_body'' sv
      else Option.bind (parse (rq_body request) (rq_body_length request)) (\<lambda>res.
        case res of
          Inl e \<Rightarrow> fail response 400 ''Invalid JSON'' [] ''json_parse_error'' sv
        | Inr (req, p) \<Rightarrow> go req response sv))"

section \<open>Handlers\<close>

text \<open>\<^verbatim>\<open>POST /v1/completions\<close>: the number of prompt tokens and the generated text.\<close>

definition complete :: "string \<Rightarrow> int \<Rightarrow> server \<Rightarrow> (int \<times> string \<times> server) option" where
  "complete prompt max_tokens sv =
     (let (g, h) = sv in
      case g_llm_ctx g of
        None \<Rightarrow> Some (0, scpy MAX_PROMPT_LENGTH '' [model not loaded]'', sv)
      | Some c \<Rightarrow>
          let (n, tokens) = llm_tokenize (Some c) (Some prompt) MAX_TOKENS;
              n_tokens = (if n < 0 then 0 else n)
          in Option.bind (llm_generate (Some c) (Some prompt) (if 0 < max_tokens then max_tokens else 16) MAX_PROMPT_LENGTH h)
               (\<lambda>(rc, out, c, h).
                 Some (n_tokens, if rc \<le> 0 then scpy MAX_PROMPT_LENGTH '' [generation failed]'' else cstr_of out,
                       g\<lparr>g_llm_ctx := c\<rparr>, h)))"

definition completion_calls :: "string \<Rightarrow> int \<Rightarrow> string \<Rightarrow> int \<Rightarrow> jop" where
  "completion_calls request_id created_time generated_text n_tokens =
     ignoring json_write_object_start
    (ignoring (json_write_kv_string ''id'' request_id)
    (ignoring (json_write_kv_string ''object'' ''text_completion'')
    (ignoring (json_write_kv_int64 ''created'' created_time)
    (ignoring (json_write_kv_string ''model'' MODEL_ID)
    (ignoring (json_write_key ''choices'')
    (ignoring json_write_array_start
    (ignoring json_write_object_start
    (ignoring (json_write_kv_string ''text'' generated_text)
    (ignoring (json_write_kv_int ''index'' 0)
    (ignoring (json_write_kv_null ''logprobs'')
    (ignoring (json_write_kv_string ''finish_reason'' ''stop'')
    (ignoring json_write_object_end
    (ignoring json_write_array_end
    (ignoring (json_write_key ''usage'')
    (ignoring json_write_object_start
    (ignoring (json_write_kv_int ''prompt_tokens'' n_tokens)
    (ignoring (json_write_kv_int ''completion_tokens'' 1)
    (ignoring (json_write_kv_int ''total_tokens'' (n_tokens + 1))
    (ignoring json_write_object_end
              json_write_object_end)))))))))))))))))))"

definition handle_v1_completions :: handler where
  "handle_v1_completions =
     with_post_body parse_completion_request (\<lambda>req response sv.
       if cr_prompt req = []
       then fail response 400 ''Missing required field: prompt'' ''prompt'' ''missing_field'' sv
       else Option.bind (complete (cr_prompt req) (cr_max_tokens req) sv) (\<lambda>(n_tokens, generated_text, g, h).
         let response = set_json_headers (response\<lparr>rs_status := 200\<rparr>)
         in Option.bind (generate_request_id 64 ''cmpl'' g) (\<lambda>(request_id, g).
              Some (0, write_body (completion_calls request_id (g_created_time g) generated_text n_tokens) response,
                    g, h))))"

text \<open>\<^verbatim>\<open>POST /v1/chat/completions\<close>: the prompt is the contents, a newline between two.\<close>

fun join_messages :: "string \<Rightarrow> chat_message list \<Rightarrow> string" where
  "join_messages prompt [] = prompt"
| "join_messages prompt (m # ms) =
     (let prompt = scat MAX_PROMPT_LENGTH prompt (m_content m)
      in join_messages (if ms \<noteq> [] then scat MAX_PROMPT_LENGTH prompt [LF] else prompt) ms)"

definition placeholder_response :: string where
  "placeholder_response = ''Hello! I'' @ [CHR 0x27] @ ''m a placeholder response from the CLLM unikernel.''"

definition chat_answer :: "chat_request \<Rightarrow> server \<Rightarrow> (string \<times> server) option" where
  "chat_answer req sv =
     (let (g, h) = sv in
      case g_llm_ctx g of
        None \<Rightarrow> Some (placeholder_response, sv)
      | Some c \<Rightarrow>
          Option.bind (llm_generate (Some c) (Some (join_messages [] (ch_messages req)))
              (if 0 < ch_max_tokens req then ch_max_tokens req else 16) MAX_PROMPT_LENGTH h)
            (\<lambda>(rc, out, c, h).
              Some (if rc \<le> 0 then scpy MAX_PROMPT_LENGTH '' [generation failed]'' else cstr_of out, g\<lparr>g_llm_ctx := c\<rparr>, h)))"

definition chat_calls :: "string \<Rightarrow> int \<Rightarrow> string \<Rightarrow> int \<Rightarrow> int \<Rightarrow> jop" where
  "chat_calls request_id created_time assistant_response prompt_tokens completion_tokens =
     ignoring json_write_object_start
    (ignoring (json_write_kv_string ''id'' request_id)
    (ignoring (json_write_kv_string ''object'' ''chat.completion'')
    (ignoring (json_write_kv_int64 ''created'' created_time)
    (ignoring (json_write_kv_string ''model'' MODEL_ID)
    (ignoring (json_write_key ''choices'')
    (ignoring json_write_array_start
    (ignoring json_write_object_start
    (ignoring (json_write_kv_int ''index'' 0)
    (ignoring (json_write_key ''message'')
    (ignoring json_write_object_start
    (ignoring (json_write_kv_string ''role'' ''assistant'')
    (ignoring (json_write_kv_string ''content'' assistant_response)
    (ignoring json_write_object_end
    (ignoring (json_write_kv_string ''finish_reason'' ''stop'')
    (ignoring json_write_object_end
    (ignoring json_write_array_end
    (ignoring (json_write_key ''usage'')
    (ignoring json_write_object_start
    (ignoring (json_write_kv_int ''prompt_tokens'' prompt_tokens)
    (ignoring (json_write_kv_int ''completion_tokens'' completion_tokens)
    (ignoring (json_write_kv_int ''total_tokens'' (prompt_tokens + completion_tokens))
    (ignoring json_write_object_end
              json_write_object_end))))))))))))))))))))))"

definition handle_v1_chat_completions :: handler where
  "handle_v1_chat_completions =
     with_post_body parse_chat_request (\<lambda>req response sv.
       if ch_messages req = []
       then fail response 400 ''Missing required field: messages'' ''messages'' ''missing_field'' sv
       else Option.bind (chat_answer req sv) (\<lambda>(assistant_response, g, h).
         let prompt_tokens = sum_list (map (\<lambda>m. int (length (m_content m))) (ch_messages req));
             completion_tokens = int (length assistant_response);
             response = set_json_headers (response\<lparr>rs_status := 200\<rparr>)
         in Option.bind (generate_request_id 64 ''chatcmpl'' g) (\<lambda>(request_id, g).
              Some (0, write_body (chat_calls request_id (g_created_time g) assistant_response
                         prompt_tokens completion_tokens) response, g, h))))"

text \<open>\<^verbatim>\<open>POST /v1/embeddings\<close>: a fixed vector.\<close>

definition placeholder_embedding :: "fval list" where
  "placeholder_embedding = map (\<lambda>i. f32 (of_int i / 10)) [1, 2, 3, 4, 5, 6, 7, 8]"

definition embedding_calls :: "int \<Rightarrow> jop" where
  "embedding_calls prompt_tokens =
     ignoring json_write_object_start
    (ignoring (json_write_kv_string ''object'' ''list'')
    (ignoring (json_write_key ''data'')
    (ignoring json_write_array_start
    (ignoring json_write_object_start
    (ignoring (json_write_kv_string ''object'' ''embedding'')
    (ignoring (json_write_kv_int ''index'' 0)
    (ignoring (json_write_key ''embedding'')
    (ignoring (json_write_float_array placeholder_embedding)
    (ignoring json_write_object_end
    (ignoring json_write_array_end
    (ignoring (json_write_kv_string ''model'' MODEL_ID)
    (ignoring (json_write_key ''usage'')
    (ignoring json_write_object_start
    (ignoring (json_write_kv_int ''prompt_tokens'' prompt_tokens)
    (ignoring (json_write_kv_int ''total_tokens'' prompt_tokens)
    (ignoring json_write_object_end
              json_write_object_end))))))))))))))))"

definition handle_v1_embeddings :: handler where
  "handle_v1_embeddings =
     with_post_body parse_embedding_request (\<lambda>req response sv.
       if e_input req = []
       then fail response 400 ''Missing required field: input'' ''input'' ''missing_field'' sv
       else Some (0, write_body (embedding_calls (int (length (e_input req))))
                       (set_json_headers (response\<lparr>rs_status := 200\<rparr>)), sv))"

text \<open>\<^verbatim>\<open>GET /v1/models\<close>.\<close>

definition models_calls :: "int \<Rightarrow> jop" where
  "models_calls created_time =
     ignoring json_write_object_start
    (ignoring (json_write_kv_string ''object'' ''list'')
    (ignoring (json_write_key ''data'')
    (ignoring json_write_array_start
    (ignoring json_write_object_start
    (ignoring (json_write_kv_string ''id'' MODEL_ID)
    (ignoring (json_write_kv_string ''object'' ''model'')
    (ignoring (json_write_kv_int64 ''created'' created_time)
    (ignoring (json_write_kv_string ''owned_by'' ''cllm-unikernel'')
    (ignoring json_write_object_end
    (ignoring json_write_array_end
              json_write_object_end))))))))))"

definition handle_v1_models :: handler where
  "handle_v1_models request response sv =
     (if \<not> is_get_request request
      then fail response 405 ''Method not allowed'' [] ''method_not_allowed'' sv
      else Some (0, write_body (models_calls (g_created_time (fst sv)))
                      (set_json_headers (response\<lparr>rs_status := 200\<rparr>)), sv))"

text \<open>\<^verbatim>\<open>POST /tokenize\<close> and \<^verbatim>\<open>POST /detokenize\<close>.\<close>

definition tokens_of :: "llm_context option \<Rightarrow> string \<Rightarrow> int list" where
  "tokens_of ctx content =
     (case ctx of
        Some c \<Rightarrow> snd (llm_tokenize (Some c) (Some content) MAX_TOKENS)
      | None \<Rightarrow> map (\<lambda>i. int (uchar (content ! i))) [0 ..< (if length content < MAX_TOKENS then length content else MAX_TOKENS)])"

definition tokenize_calls :: "int list \<Rightarrow> jop" where
  "tokenize_calls tokens =
     ignoring json_write_object_start
    (ignoring (json_write_key ''tokens'')
    (ignoring (json_write_int_array tokens)
              json_write_object_end))"

definition handle_tokenize :: handler where
  "handle_tokenize =
     with_post_body parse_tokenize_request (\<lambda>req response sv.
       if t_content req = []
       then fail response 400 ''Missing required field: content'' ''content'' ''missing_field'' sv
       else Some (0, write_body (tokenize_calls (tokens_of (g_llm_ctx (fst sv)) (t_content req)))
                       (set_json_headers (response\<lparr>rs_status := 200\<rparr>)), sv))"

definition text_of :: "llm_context option \<Rightarrow> int list \<Rightarrow> string option" where
  "text_of ctx tokens =
     (case ctx of
        Some c \<Rightarrow> map_option (\<lambda>(rc, text). cstr_of text)
                    (llm_detokenize (Some c) (Some tokens) (int (length tokens)) MAX_PROMPT_LENGTH)
      | None \<Rightarrow> Some (cstr_of (map (\<lambda>t. char_of (nat (t mod 128)))
                   (take (if length tokens < 4095 then length tokens else 4095) tokens))))"

definition detokenize_calls :: "string \<Rightarrow> jop" where
  "detokenize_calls text =
     ignoring json_write_object_start
    (ignoring (json_write_kv_string ''content'' text)
              json_write_object_end)"

definition handle_detokenize :: handler where
  "handle_detokenize =
     with_post_body parse_detokenize_request (\<lambda>req response sv.
       if d_tokens req = []
       then fail response 400 ''Missing required field: tokens'' ''tokens'' ''missing_field'' sv
       else Option.bind (text_of (g_llm_ctx (fst sv)) (d_tokens req)) (\<lambda>text.
         Some (0, write_body (detokenize_calls text) (set_json_headers (response\<lparr>rs_status := 200\<rparr>)), sv)))"

section \<open>The documents\<close>

text \<open>What each sequence of writer calls writes, as a JSON document.\<close>

definition error_doc :: "string \<Rightarrow> string \<Rightarrow> string \<Rightarrow> jval" where
  "error_doc message param code =
     JObj [(''error'', JObj [(''message'', JStr message), (''type'', JStr ''invalid_request_error''),
       (''param'', if param = [] then JNull else JStr param), (''code'', JStr code)])]"

definition completion_doc :: "string \<Rightarrow> string \<Rightarrow> int \<Rightarrow> jval" where
  "completion_doc request_id txt n =
     JObj [(''id'', JStr request_id), (''object'', JStr ''text_completion''), (''created'', JRaw ''%lld''),
       (''model'', JStr MODEL_ID),
       (''choices'', JArr [JObj [(''text'', JStr txt), (''index'', JInt 0), (''logprobs'', JNull),
          (''finish_reason'', JStr ''stop'')]]),
       (''usage'', JObj [(''prompt_tokens'', JInt n), (''completion_tokens'', JInt 1), (''total_tokens'', JInt (n + 1))])]"

definition chat_doc :: "string \<Rightarrow> string \<Rightarrow> int \<Rightarrow> int \<Rightarrow> jval" where
  "chat_doc request_id answer n m =
     JObj [(''id'', JStr request_id), (''object'', JStr ''chat.completion''), (''created'', JRaw ''%lld''),
       (''model'', JStr MODEL_ID),
       (''choices'', JArr [JObj [(''index'', JInt 0),
          (''message'', JObj [(''role'', JStr ''assistant''), (''content'', JStr answer)]),
          (''finish_reason'', JStr ''stop'')]]),
       (''usage'', JObj [(''prompt_tokens'', JInt n), (''completion_tokens'', JInt m), (''total_tokens'', JInt (n + m))])]"

definition embedding_doc :: "int \<Rightarrow> jval" where
  "embedding_doc n =
     JObj [(''object'', JStr ''list''),
       (''data'', JArr [JObj [(''object'', JStr ''embedding''), (''index'', JInt 0),
          (''embedding'', JArr (map (JRaw \<circ> float_text) placeholder_embedding))]]),
       (''model'', JStr MODEL_ID),
       (''usage'', JObj [(''prompt_tokens'', JInt n), (''total_tokens'', JInt n)])]"

definition models_doc :: jval where
  "models_doc =
     JObj [(''object'', JStr ''list''),
       (''data'', JArr [JObj [(''id'', JStr MODEL_ID), (''object'', JStr ''model''), (''created'', JRaw ''%lld''),
          (''owned_by'', JStr ''cllm-unikernel'')]])]"

definition tokens_doc :: "int list \<Rightarrow> jval" where
  "tokens_doc ts = JObj [(''tokens'', JArr (map JInt ts))]"

definition content_doc :: "string \<Rightarrow> jval" where
  "content_doc s = JObj [(''content'', JStr s)]"

lemma writes_kv_string_or_null [jwrites]:
  "writes True (kv_string_or_null key (Some v)) (member_text key (if v = [] then JNull else JStr v)) True 0"
  by (simp add: kv_string_or_null_def jwrites)

lemma error_calls_doc:
  assumes "code \<noteq> []"
  shows "writes_doc (error_calls message ''invalid_request_error'' (Some param) (Some code)) (error_doc message param code)"
  unfolding error_calls_def
  by (rule writes_docI, (rule jwrites)+) (simp only: error_doc_def doc_text assms)

lemma completion_calls_doc: "writes_doc (completion_calls request_id k txt n) (completion_doc request_id txt n)"
  unfolding completion_calls_def
  by (rule writes_docI, (rule jwrites)+) (simp only: completion_doc_def doc_text)

lemma chat_calls_doc: "writes_doc (chat_calls request_id k answer n m) (chat_doc request_id answer n m)"
  unfolding chat_calls_def
  by (rule writes_docI, (rule jwrites)+) (simp only: chat_doc_def doc_text)

lemma embedding_calls_doc: "writes_doc (embedding_calls n) (embedding_doc n)"
  unfolding embedding_calls_def
  by (rule writes_docI, (rule jwrites)+) (simp only: embedding_doc_def doc_text)

lemma models_calls_doc: "writes_doc (models_calls k) models_doc"
  unfolding models_calls_def
  by (rule writes_docI, (rule jwrites)+) (simp only: models_doc_def doc_text)

lemma tokenize_calls_doc: "writes_doc (tokenize_calls ts) (tokens_doc ts)"
  unfolding tokenize_calls_def
  by (rule writes_docI, (rule jwrites)+) (simp only: tokens_doc_def doc_text)

lemma detokenize_calls_doc: "writes_doc (detokenize_calls s) (content_doc s)"
  unfolding detokenize_calls_def
  by (rule writes_docI, (rule jwrites)+) (simp only: content_doc_def doc_text)

lemmas calls_doc = error_calls_doc completion_calls_doc chat_calls_doc embedding_calls_doc models_calls_doc
  tokenize_calls_doc detokenize_calls_doc

section \<open>Responses\<close>

text \<open>The response a handler leaves: a status, the JSON headers and the text of a document.\<close>

definition json_response :: "int \<Rightarrow> jval \<Rightarrow> http_response \<Rightarrow> http_response" where
  "json_response status_code doc response =
     response\<lparr>rs_status := status_code, rs_headers := json_content_type, rs_body := ser doc,
       rs_body_length := length (ser doc)\<rparr>"

lemma set_json_headers_eq: "set_json_headers response = response\<lparr>rs_headers := json_content_type\<rparr>"
  by (simp add: set_json_headers_def scpy_def json_content_type_def)

lemma write_body_doc:
  assumes "writes_doc f v" "text_bound v < 16384"
  shows "write_body f (set_json_headers (response\<lparr>rs_status := status_code\<rparr>)) = json_response status_code v response"
  using writes_docD [OF assms(1), of 16384] assms(2) length_ser [of v]
  by (simp add: write_body_def json_response_def json_writer_length_def set_json_headers_eq Let_def)

lemma fail_eq:
  assumes "code \<noteq> []" "2 * length message + 2 * length param + 2 * length code < 16000"
  shows "fail response status_code message param code sv =
    Some (0, json_response status_code (error_doc message param code) response, sv)"
  using assms write_body_doc [OF error_calls_doc [OF assms(1)], where response = response and status_code = status_code]
  by (simp add: fail_def build_error_response_def error_doc_def)

lemma generate_request_id_eq:
  assumes "length pfx \<le> 49"
  shows "generate_request_id 64 pfx g =
    Some (pfx @ ''-%016llx'', g\<lparr>g_request_counter := g_request_counter g + 1\<rparr>)"
proof -
  have "render ''%s-%016llx'' [VStr pfx, VLong n] = Some (pfx @ ''-%016llx'')" for n
    by (simp add: render_Cons)
  with assms show ?thesis by (simp add: generate_request_id_def snprintf_text_def Let_def)
qed

lemma is_post_request_iff: "is_post_request request \<longleftrightarrow> cstr_of (rq_method request) = ''POST''"
  using take_eq_short [of "''POST''" 5 "cstr_of (rq_method request)"]
  by (simp add: is_post_request_def str_eqn_iff)

lemma is_get_request_iff: "is_get_request request \<longleftrightarrow> cstr_of (rq_method request) = ''GET''"
  using take_eq_short [of "''GET''" 4 "cstr_of (rq_method request)"]
  by (simp add: is_get_request_def str_eqn_iff)

end
