(* ===== verification/ApiV1Props.thy ===== *)
theory ApiV1Props
  imports ApiV1
begin

text \<open>
  Properties of the API endpoints. The contract every endpoint keeps (it answers, with a status it may
  use, a complete body, and the heap of the model sound) is the locale \<open>endpoint\<close>, interpreted for
  each of the six handlers; what follows from the contract for the bytes sent is proved in it once.
\<close>

section \<open>The contract of an endpoint\<close>

definition server_ok :: "server \<Rightarrow> (nat \<times> nat) list \<Rightarrow> bool" where
  "server_ok sv ps \<longleftrightarrow>
     (case g_llm_ctx (fst sv) of None \<Rightarrow> heap_owns (snd sv) ps | Some c \<Rightarrow> ctx_owned c (snd sv) ps)"

text \<open>A response that is complete and can be sent: no terminator inside the body.\<close>

definition good_response :: "http_response \<Rightarrow> bool" where
  "good_response rs \<longleftrightarrow> rs_status rs \<in> {200, 400, 404, 405} \<and> rs_headers rs = json_content_type \<and>
     rs_body_length rs = length (rs_body rs) \<and> length (rs_body rs) < 16384 \<and> NUL \<notin> set (rs_body rs)"

lemma good_json_response:
  assumes "status_code \<in> {200, 400, 404, 405}" "clean doc" "text_bound doc < 16384"
  shows "good_response (json_response status_code doc response)"
  using assms length_ser [of doc] NUL_notin_ser [of doc] by (simp add: good_response_def json_response_def)

definition answered :: "(nat \<times> nat) list \<Rightarrow> (int \<times> http_response \<times> server) option \<Rightarrow> bool" where
  "answered ps res \<longleftrightarrow>
     (case res of None \<Rightarrow> False | Some (rc, rs, sv) \<Rightarrow> rc = 0 \<and> good_response rs \<and> server_ok sv ps)"

lemma answered_simps [simp]:
  "\<not> answered ps None" "answered ps (Some (rc, rs, sv)) \<longleftrightarrow> rc = 0 \<and> good_response rs \<and> server_ok sv ps"
  by (simp_all add: answered_def)

locale endpoint =
  fixes serve :: handler
  assumes answers: "server_ok sv ps \<Longrightarrow> answered ps (serve request response sv)"
begin

lemma obtain_answer:
  assumes "server_ok sv ps"
  obtains rs sv' where "serve request response sv = Some (0, rs, sv')" "good_response rs" "server_ok sv' ps"
  using answers [OF assms, of request response] by (auto simp: answered_def split: option.splits)

end

text \<open>The response of an endpoint fits the buffer of \<^verbatim>\<open>tcp_receive\<close>, which has 16,640 bytes.\<close>

lemma good_response_sent:
  assumes "good_response rs"
  shows "http_generate_response rs 16640 = Some (status_line (rs_status rs) @ json_content_type @
      ''Content-Length: '' @ uint_text (length (rs_body rs)) 10 False @ crlf @ crlf @ rs_body rs)"
proof -
  have b: "strncpy_bytes (cstr_of (rs_body rs)) (length (rs_body rs)) = rs_body rs"
    "cstr_of (rs_headers rs) = json_content_type"
    using assms by (simp_all add: good_response_def cstr_of_id strncpy_bytes_def json_content_type_def)
  have l: "length (rs_body rs) < 16384" "rs_body_length rs = length (rs_body rs)"
    using assms by (simp_all add: good_response_def)
  then have n: "rs_body_length rs < 2 ^ 32" by simp
  show ?thesis
    using http_generate_response_eq [OF n, of 16640] l status_line_plain(2) [of "rs_status rs"]
      length_uint_text_le [OF n, of False]
    by (simp add: response_text_def b json_content_type_def [symmetric]) (simp add: json_content_type_def)
qed

section \<open>Every handler keeps the contract\<close>

lemma fail_answered:
  assumes "server_ok sv ps" "status_code \<in> {400, 404, 405}" "code \<noteq> []"
    "2 * length message + 2 * length param + 2 * length code < 16000"
  shows "answered ps (fail response status_code message param code sv)"
  using assms good_json_response [of status_code "error_doc message param code" response]
  by (auto simp: fail_eq error_doc_def)

lemma post_answered:
  assumes "server_ok sv ps" "handled I p (parse (rq_body request) (rq_body_length request))"
    "\<And>req. I req \<Longrightarrow> answered ps (go req response sv)"
  shows "answered ps (with_post_body parse go request response sv)"
  using assms(1,3) fail_answered [OF assms(1)]
  by (rule_tac handled_cases [OF assms(2)]) (simp_all add: with_post_body_def)

lemma NUL_notin_scat: "NUL \<notin> set (scat sz d s)"
  by (auto simp: scat_def dest: in_set_takeD)

lemma NUL_notin_join: "NUL \<notin> set prompt \<Longrightarrow> NUL \<notin> set (join_messages prompt ms)"
  by (induction prompt ms rule: join_messages.induct) (auto simp: NUL_notin_scat Let_def)

lemma complete_ok:
  assumes "server_ok sv ps" "text_field 4096 prompt" "0 \<le> max_tokens" "max_tokens \<le> 512"
  shows "\<exists>n txt sv'. complete prompt max_tokens sv = Some (n, txt, sv') \<and> server_ok sv' ps \<and> length txt < 4096"
proof (cases "g_llm_ctx (fst sv)")
  case None
  then show ?thesis using assms(1) length_scpy [of 4096] by (auto simp: complete_def split_beta)
next
  case (Some c)
  let ?m = "if 0 < max_tokens then max_tokens else 16"
  have own: "ctx_owned c (snd sv) ps" using assms(1) Some by (simp add: server_ok_def)
  have "0 < ?m" "?m < 2 ^ 30" "NUL \<notin> set prompt" using assms by (simp_all add: text_field_def)
  from llm_generate_any [OF own this(3,1,2), of 4096] obtain rc out c' h' where
    "llm_generate (Some c) (Some prompt) ?m 4096 (snd sv) = Some (rc, out, Some c', h')"
    "ctx_owned c' h' ps" "0 < rc \<longrightarrow> length out < 4096" by auto
  then show ?thesis
    using Some length_scpy [of 4096] length_cstr_of_le [of out]
    by (auto simp: complete_def split_beta llm_tokenize_eq server_ok_def)
qed

lemma chat_answer_ok:
  assumes "server_ok sv ps" "chat_ok req"
  shows "\<exists>txt sv'. chat_answer req sv = Some (txt, sv') \<and> server_ok sv' ps \<and> length txt < 4096"
proof (cases "g_llm_ctx (fst sv)")
  case None
  then show ?thesis using assms(1) by (auto simp: chat_answer_def split_beta placeholder_response_def)
next
  case (Some c)
  let ?m = "if 0 < ch_max_tokens req then ch_max_tokens req else 16"
  have own: "ctx_owned c (snd sv) ps" using assms(1) Some by (simp add: server_ok_def)
  have "0 < ?m" "?m < 2 ^ 30" using assms(2) by (simp_all add: chat_ok_def)
  from llm_generate_any [OF own NUL_notin_join [of "[]" "ch_messages req"] this, of 4096] obtain rc out c' h' where
    "llm_generate (Some c) (Some (join_messages [] (ch_messages req))) ?m 4096 (snd sv) = Some (rc, out, Some c', h')"
    "ctx_owned c' h' ps" "0 < rc \<longrightarrow> length out < 4096" by auto
  then show ?thesis
    using Some length_scpy [of 4096] length_cstr_of_le [of out]
    by (auto simp: chat_answer_def split_beta server_ok_def)
qed

text \<open>The counter steps; nothing else the contract mentions changes.\<close>

abbreviation counted :: "api_context \<Rightarrow> api_context" where
  "counted g \<equiv> g\<lparr>g_request_counter := g_request_counter g + 1\<rparr>"

lemma server_ok_counted: "server_ok (counted g, h) ps \<longleftrightarrow> server_ok (g, h) ps"
  by (simp add: server_ok_def split: option.split)

lemmas handler_defs = handle_v1_completions_def handle_v1_chat_completions_def handle_v1_embeddings_def
  handle_tokenize_def handle_detokenize_def

lemmas doc_bounds = completion_doc_def chat_doc_def embedding_doc_def models_doc_def tokens_doc_def
  content_doc_def MODEL_ID_def

lemma completion_body:
  "length txt < 4096 \<Longrightarrow> write_body (completion_calls ''cmpl-%016llx'' k txt n)
     (set_json_headers (response\<lparr>rs_status := 200\<rparr>)) = json_response 200 (completion_doc ''cmpl-%016llx'' txt n) response"
  "length txt < 4096 \<Longrightarrow> good_response (json_response 200 (completion_doc ''cmpl-%016llx'' txt n) response)"
  using completion_calls_doc
  by (auto intro!: write_body_doc good_json_response simp: doc_bounds)

lemma chat_body:
  "length txt < 4096 \<Longrightarrow> write_body (chat_calls ''chatcmpl-%016llx'' k txt n m)
     (set_json_headers (response\<lparr>rs_status := 200\<rparr>)) = json_response 200 (chat_doc ''chatcmpl-%016llx'' txt n m) response"
  "length txt < 4096 \<Longrightarrow> good_response (json_response 200 (chat_doc ''chatcmpl-%016llx'' txt n m) response)"
  using chat_calls_doc
  by (auto intro!: write_body_doc good_json_response simp: doc_bounds)

lemma embedding_bound: "text_bound (embedding_doc n) < 16384" "clean (embedding_doc n)"
proof -
  have "sum_list (map (\<lambda>v. Suc (text_bound v)) (map (JRaw \<circ> float_text) vs)) \<le> 24 * length vs" for vs
    using length_float_text by (induction vs) (simp_all add: add_mono)
  from this [of placeholder_embedding] show "text_bound (embedding_doc n) < 16384"
    by (simp add: doc_bounds placeholder_embedding_def)
  show "clean (embedding_doc n)" by (auto simp: doc_bounds NUL_notin_float_text)
qed

lemma embedding_body:
  "write_body (embedding_calls n) (set_json_headers (response\<lparr>rs_status := 200\<rparr>)) = json_response 200 (embedding_doc n) response"
  "good_response (json_response 200 (embedding_doc n) response)"
  using embedding_calls_doc embedding_bound by (auto intro!: write_body_doc good_json_response)

lemma models_body:
  "write_body (models_calls k) (set_json_headers (response\<lparr>rs_status := 200\<rparr>)) = json_response 200 models_doc response"
  "good_response (json_response 200 models_doc response)"
  using models_calls_doc by (auto intro!: write_body_doc good_json_response simp: doc_bounds)

lemma tokens_body:
  assumes "length ts \<le> 1023"
  shows "write_body (tokenize_calls ts) (set_json_headers (response\<lparr>rs_status := 200\<rparr>)) = json_response 200 (tokens_doc ts) response"
    "good_response (json_response 200 (tokens_doc ts) response)"
proof -
  have "sum_list (map (\<lambda>v. text_bound v + 1) (map JInt ts)) = 12 * length ts"
    by (induction ts) simp_all
  then have "text_bound (tokens_doc ts) < 16384" "clean (tokens_doc ts)"
    using assms by (auto simp: doc_bounds)
  then show "write_body (tokenize_calls ts) (set_json_headers (response\<lparr>rs_status := 200\<rparr>)) = json_response 200 (tokens_doc ts) response"
    "good_response (json_response 200 (tokens_doc ts) response)"
    using tokenize_calls_doc by (auto intro!: write_body_doc good_json_response)
qed

lemma content_body:
  "length s < 4096 \<Longrightarrow> write_body (detokenize_calls s) (set_json_headers (response\<lparr>rs_status := 200\<rparr>)) = json_response 200 (content_doc s) response"
  "length s < 4096 \<Longrightarrow> good_response (json_response 200 (content_doc s) response)"
  using detokenize_calls_doc by (auto intro!: write_body_doc good_json_response simp: doc_bounds)

section \<open>The six endpoints\<close>

interpretation completions: endpoint handle_v1_completions
proof
  fix request response and sv :: server and ps
  assume sv: "server_ok sv ps"
  show "answered ps (handle_v1_completions request response sv)"
    unfolding handler_defs
  proof (rule post_answered [where I = completion_ok, OF sv parsers_handled(1)])
    fix req assume req: "completion_ok req"
    then have "text_field 4096 (cr_prompt req)" "0 \<le> cr_max_tokens req" "cr_max_tokens req \<le> 512"
      by (simp_all add: completion_ok_def)
    from complete_ok [OF sv this] obtain n s g h where
      c: "complete (cr_prompt req) (cr_max_tokens req) sv = Some (n, s, g, h)" "server_ok (g, h) ps"
        "length s < 4096" by auto
    then show "answered ps (if cr_prompt req = []
        then fail response 400 ''Missing required field: prompt'' ''prompt'' ''missing_field'' sv
        else Option.bind (complete (cr_prompt req) (cr_max_tokens req) sv) (\<lambda>(n_tokens, generated_text, g, h).
          let response = set_json_headers (response\<lparr>rs_status := 200\<rparr>)
          in Option.bind (generate_request_id 64 ''cmpl'' g) (\<lambda>(request_id, g).
            Some (0, write_body (completion_calls request_id (g_created_time g) generated_text n_tokens) response, g, h))))"
      using fail_answered [OF sv] by (simp add: generate_request_id_eq completion_body server_ok_counted)
  qed
qed

interpretation chat_completions: endpoint handle_v1_chat_completions
proof
  fix request response and sv :: server and ps
  assume sv: "server_ok sv ps"
  show "answered ps (handle_v1_chat_completions request response sv)"
    unfolding handler_defs
  proof (rule post_answered [where I = chat_ok, OF sv parsers_handled(2)])
    fix req assume req: "chat_ok req"
    from chat_answer_ok [OF sv this] obtain s g h where
      c: "chat_answer req sv = Some (s, g, h)" "server_ok (g, h) ps" "length s < 4096" by auto
    then show "answered ps (if ch_messages req = []
        then fail response 400 ''Missing required field: messages'' ''messages'' ''missing_field'' sv
        else Option.bind (chat_answer req sv) (\<lambda>(assistant_response, g, h).
          let prompt_tokens = sum_list (map (\<lambda>m. int (length (m_content m))) (ch_messages req));
              completion_tokens = int (length assistant_response);
              response = set_json_headers (response\<lparr>rs_status := 200\<rparr>)
          in Option.bind (generate_request_id 64 ''chatcmpl'' g) (\<lambda>(request_id, g).
            Some (0, write_body (chat_calls request_id (g_created_time g) assistant_response
              prompt_tokens completion_tokens) response, g, h))))"
      using fail_answered [OF sv] by (simp add: generate_request_id_eq chat_body server_ok_counted)
  qed
qed

interpretation embeddings: endpoint handle_v1_embeddings
proof
  fix request response and sv :: server and ps
  assume sv: "server_ok sv ps"
  show "answered ps (handle_v1_embeddings request response sv)"
    unfolding handler_defs
    by (rule post_answered [where I = embedding_ok, OF sv parsers_handled(5)])
       (use sv fail_answered [OF sv] in \<open>simp add: embedding_body\<close>)
qed

interpretation models: endpoint handle_v1_models
proof
  fix request response and sv :: server and ps
  assume sv: "server_ok sv ps"
  then show "answered ps (handle_v1_models request response sv)"
    using fail_answered [OF sv] by (simp add: handle_v1_models_def models_body)
qed

lemma length_tokens_of: "text_field 4096 s \<Longrightarrow> length (tokens_of ctx s) \<le> 1023"
  by (auto simp: tokens_of_def text_field_def llm_tokenize_eq cstr_of_id split: option.split)

interpretation tokenizing: endpoint handle_tokenize
proof
  fix request response and sv :: server and ps
  assume sv: "server_ok sv ps"
  show "answered ps (handle_tokenize request response sv)"
    unfolding handler_defs
    by (rule post_answered [where I = tokenize_ok, OF sv parsers_handled(3)])
       (use sv fail_answered [OF sv] in \<open>simp add: tokens_body length_tokens_of tokenize_ok_def\<close>)
qed

lemma llm_detokenize_eq:
  assumes "ts \<noteq> []"
  shows "llm_detokenize (Some c) (Some ts) (int (length ts)) 4096 =
    Some (int (min (length ts) 4095), map (\<lambda>t. char_of (nat (t mod 256))) (take 4095 ts))"
  using assms by (auto simp: llm_detokenize_def Let_def swrap32_id min_def)

lemma text_of_eq:
  assumes "ts \<noteq> []"
  shows "text_of ctx ts = Some (cstr_of (map (\<lambda>t. char_of (nat (t mod (if ctx = None then 128 else 256)))) (take 4095 ts)))"
  using assms by (cases ctx) (auto simp: text_of_def llm_detokenize_eq)

interpretation detokenizing: endpoint handle_detokenize
proof
  fix request response and sv :: server and ps
  assume sv: "server_ok sv ps"
  show "answered ps (handle_detokenize request response sv)"
    unfolding handler_defs
  proof (rule post_answered [where I = "\<lambda>r. tokens_ok (d_tokens r)", OF sv parsers_handled(4)])
    fix req :: detokenize_request
    have "length (cstr_of (map f (take 4095 ts))) < 4096" for f and ts :: "int list"
      using length_cstr_of_le [of "map f (take 4095 ts)"] by simp
    then show "answered ps (if d_tokens req = []
        then fail response 400 ''Missing required field: tokens'' ''tokens'' ''missing_field'' sv
        else Option.bind (text_of (g_llm_ctx (fst sv)) (d_tokens req)) (\<lambda>text.
          Some (0, write_body (detokenize_calls text) (set_json_headers (response\<lparr>rs_status := 200\<rparr>)), sv)))"
      using sv fail_answered [OF sv] by (simp add: text_of_eq content_body)
  qed
qed

section \<open>Requests with a JSON body\<close>

text \<open>A \<^verbatim>\<open>POST\<close> request whose body is the text of a document.\<close>

definition posts :: "http_request \<Rightarrow> jval \<Rightarrow> bool" where
  "posts request doc \<longleftrightarrow> rq_method request = ''POST'' \<and> rq_body request = ser doc \<and>
     rq_body_length request = length (ser doc)"

lemma posts_method: "posts request doc \<Longrightarrow> is_post_request request"
  by (simp add: posts_def is_post_request_iff cstr_of_id)

lemma post_accepted:
  assumes "posts request (JObj kvs)"
    "parse_result (parse (ser (JObj kvs)) (length (ser (JObj kvs)))) = as_result (Some req)"
    "handled I p (parse (ser (JObj kvs)) (length (ser (JObj kvs))))"
  shows "with_post_body parse go request response sv = go req response sv" "I req"
proof -
  from assms(2) obtain q where q: "parse (ser (JObj kvs)) (length (ser (JObj kvs))) = accept req q"
    by (cases "parse (ser (JObj kvs)) (length (ser (JObj kvs)))")
       (auto simp: parse_result_def as_result_def map_sum_def split: sum.splits)
  with assms(1) show "with_post_body parse go request response sv = go req response sv"
    using posts_method [OF assms(1)] by (simp add: with_post_body_def posts_def)
  from assms(3) q show "I req" by simp
qed

lemmas accepted_completion =
  post_accepted [where I = completion_ok and parse = parse_completion_request, OF _ _ parsers_handled(1)]
lemmas accepted_tokenize =
  post_accepted [where I = tokenize_ok and parse = parse_tokenize_request, OF _ _ parsers_handled(3)]
lemmas accepted_detokenize =
  post_accepted [where I = "\<lambda>r. tokens_ok (d_tokens r)" and parse = parse_detokenize_request, OF _ _ parsers_handled(4)]

lemma decoded_completion:
  "wf_doc (JObj kvs) \<Longrightarrow> fold_assign completion_assign kvs completion_request_init = Some req \<Longrightarrow>
   parse_result (parse_completion_request (ser (JObj kvs)) (length (ser (JObj kvs)))) = as_result (Some req)"
  unfolding parse_completion_request_def by (simp only: completion_reader.parse_object_assign)

lemma decoded_tokenize:
  "wf_doc (JObj kvs) \<Longrightarrow> fold_assign tokenize_assign kvs tokenize_request_init = Some req \<Longrightarrow>
   parse_result (parse_tokenize_request (ser (JObj kvs)) (length (ser (JObj kvs)))) = as_result (Some req)"
  unfolding parse_tokenize_request_def by (simp only: tokenize_reader.parse_object_assign)

lemma decoded_detokenize:
  "wf_doc (JObj kvs) \<Longrightarrow> fold_assign detokenize_assign kvs detokenize_request_init = Some req \<Longrightarrow>
   parse_result (parse_detokenize_request (ser (JObj kvs)) (length (ser (JObj kvs)))) = as_result (Some req)"
  unfolding parse_detokenize_request_def by (simp only: detokenize_reader.parse_object_assign)

text \<open>The text a completion request gets.\<close>

definition completion_text :: "completion_request \<Rightarrow> string" where
  "completion_text req = cstr_of (count_up (int (uchar (last (take 512 (cr_prompt req)))))
     (nat (if 0 < cr_max_tokens req then cr_max_tokens req else 16)))"

lemma complete_result:
  assumes "server_ok (g, h) ps" "completion_ok req" "cr_prompt req \<noteq> []"
  shows "\<exists>n s g' h'. complete (cr_prompt req) (cr_max_tokens req) (g, h) = Some (n, s, g', h') \<and>
    server_ok (g', h') ps \<and> length s < 4096 \<and> g_request_counter g' = g_request_counter g \<and>
    (case g_llm_ctx g of None \<Rightarrow> n = 0 \<and> s = '' [model not loaded]''
     | Some c \<Rightarrow> n = int (length (cr_prompt req)) \<and> s \<in> {'' [generation failed]'', completion_text req})"
proof (cases "g_llm_ctx g")
  case None
  then show ?thesis using assms(1) by (auto simp: complete_def scpy_def)
next
  case (Some c)
  let ?m = "if 0 < cr_max_tokens req then cr_max_tokens req else 16" and ?s = "cr_prompt req"
  have req: "NUL \<notin> set ?s" "length ?s \<le> 1023" "0 < ?m" "?m < 2 ^ 30" "?m \<le> 512" "ctx_owned c h ps"
    using assms Some by (simp_all add: completion_ok_def text_field_def server_ok_def)
  let ?out = "count_up (int (uchar (last (take 512 ?s)))) (nat ?m)"
  have m: "min (nat ?m) (4096 - 1) = nat ?m" using req(5) by linarith
  from llm_generate_runs [OF req(6,1) assms(3) req(3,4), of 4096] m obtain rc out c' h' where
    g: "llm_generate (Some c) (Some ?s) ?m 4096 h = Some (rc, out, Some c', h')" "ctx_owned c' h' ps"
      "rc = - 1 \<or> rc = int (length out) \<and> out = ?out" by auto
  have l: "length ?out = nat ?m" by (simp add: count_up_def)
  with g(3) req(3) have t: "(if rc \<le> 0 then scpy 4096 '' [generation failed]'' else cstr_of out)
      \<in> {'' [generation failed]'', completion_text req}"
    by (auto simp: completion_text_def scpy_def)
  moreover have "length (completion_text req) < 4096"
    using length_cstr_of_le [of ?out] l req(5) by (simp add: completion_text_def)
  ultimately have "length (if rc \<le> 0 then scpy 4096 '' [generation failed]'' else cstr_of out) < 4096"
    by auto
  with t g(1,2) Some req(1,2) show ?thesis
    by (auto simp: complete_def llm_tokenize_eq cstr_of_id server_ok_def)
qed

section \<open>Results\<close>



text \<open>
  \<^bold>\<open>C5.\<close> The completion endpoint from end to end: a \<^verbatim>\<open>POST\<close> whose body is a
  JSON object with a prompt is answered with status 200 and exactly the completion document: the
  request id (the same for every request), the number of prompt tokens (one per byte), and as text the
  continuation of the prompt, cut at its first NUL byte, as many bytes as \<^verbatim>\<open>max_tokens\<close> asks for
  (16 for 0), or the failure text when memory runs out; without a model the text says so.
\<close>

theorem handle_v1_completions_correct:
  assumes "server_ok (g, h) ps" "posts request (JObj kvs)" "wf_doc (JObj kvs)"
    "fold_assign completion_assign kvs completion_request_init = Some req" "cr_prompt req \<noteq> []"
  shows "\<exists>n s g' h'. handle_v1_completions request response (g, h) =
      Some (0, json_response 200 (completion_doc ''cmpl-%016llx'' s n) response, counted g', h') \<and>
    server_ok (g', h') ps \<and> g_request_counter g' = g_request_counter g \<and>
    (case g_llm_ctx g of None \<Rightarrow> n = 0 \<and> s = '' [model not loaded]''
     | Some c \<Rightarrow> n = int (length (cr_prompt req)) \<and> s \<in> {'' [generation failed]'', completion_text req})"
proof -
  note a = accepted_completion [OF assms(2) decoded_completion [OF assms(3,4)]]
  from complete_result [OF assms(1) a(2) assms(5)] obtain n s g' h' where c:
    "complete (cr_prompt req) (cr_max_tokens req) (g, h) = Some (n, s, g', h')" "server_ok (g', h') ps"
    "length s < 4096" "g_request_counter g' = g_request_counter g"
    "case g_llm_ctx g of None \<Rightarrow> n = 0 \<and> s = '' [model not loaded]''
     | Some c \<Rightarrow> n = int (length (cr_prompt req)) \<and> s \<in> {'' [generation failed]'', completion_text req}"
    by blast
  then have "handle_v1_completions request response (g, h) =
      Some (0, json_response 200 (completion_doc ''cmpl-%016llx'' s n) response, counted g', h')"
    using assms(5) by (simp add: handle_v1_completions_def a(1) generate_request_id_eq completion_body)
  with c show ?thesis by blast
qed

theorem handle_v1_completions_correct_witness:
  "\<exists>sv'. handle_v1_completions
     (empty_request\<lparr>rq_method := ''POST'', rq_body := ser (JObj [(''prompt'', JStr ''hi'')]),
        rq_body_length := length (ser (JObj [(''prompt'', JStr ''hi'')]))\<rparr>)
     \<lparr>rs_status = 0, rs_headers = [], rs_body = [], rs_body_length = 0\<rparr> (boot_api_context, boot_heap)
     = Some (0, json_response 200 (completion_doc ''cmpl-%016llx'' '' [model not loaded]'' 0)
         \<lparr>rs_status = 0, rs_headers = [], rs_body = [], rs_body_length = 0\<rparr>, sv')"
proof -
  let ?d = "JObj [(''prompt'', JStr ''hi'')]"
  let ?rq = "empty_request\<lparr>rq_method := ''POST'', rq_body := ser ?d, rq_body_length := length (ser ?d)\<rparr>"
  have s: "server_ok (boot_api_context, boot_heap) []"
    by (simp add: server_ok_def boot_api_context_def heap_owns_def)
  have d: "posts ?rq ?d" by (simp only: posts_def) simp
  have w: "wf_doc ?d" by (simp add: key_text_def plain_text_def plain_char_def escape_char_def uchar_def)
  have f: "fold_assign completion_assign [(''prompt'', JStr ''hi'')] completion_request_init
      = Some (completion_request_init\<lparr>cr_prompt := ''hi''\<rparr>)"
    by (simp add: completion_assign_def val_string_def)
  have n: "g_llm_ctx boot_api_context = None" by (simp add: boot_api_context_def)
  have "cr_prompt (completion_request_init\<lparr>cr_prompt := ''hi''\<rparr>) \<noteq> []" by simp
  from handle_v1_completions_correct [OF s d w f this] show ?thesis
    unfolding n option.case by blast
qed

lemma tokens_of_plain:
  "NUL \<notin> set s \<Longrightarrow> length s \<le> 1023 \<Longrightarrow> tokens_of ctx s = map (\<lambda>c. int (uchar c)) s"
  by (cases ctx) (auto simp: tokens_of_def llm_tokenize_eq cstr_of_id intro!: nth_equalityI)

lemma tokens_assign_ints:
  "length ts + length us \<le> 2048 \<Longrightarrow> tokens_assign (map JInt us) ts = Some (ts @ us)"
  by (induction us arbitrary: ts) (simp_all add: val_int_def)

lemma text_of_tokens:
  assumes "NUL \<notin> set s" "s \<noteq> []" "length s \<le> 1023" "ctx = None \<longrightarrow> (\<forall>c \<in> set s. uchar c < 128)"
  shows "text_of ctx (map (\<lambda>c. int (uchar c)) s) = Some s"
proof -
  have "char_of (nat (int (uchar c) mod (if ctx = None then 128 else 256))) = c" if "c \<in> set s" for c
  proof -
    have "int (uchar c) mod (if ctx = None then 128 else 256) = int (uchar c)"
      using assms(4) that uchar_less_256 [of c] by simp
    then show ?thesis by simp
  qed
  then have "map (\<lambda>t. char_of (nat (t mod (if ctx = None then 128 else 256)))) (map (\<lambda>c. int (uchar c)) s) = s"
    by (intro nth_equalityI) (simp_all add: nth_mem)
  with assms show ?thesis by (simp add: text_of_eq cstr_of_id del: map_map)
qed

text \<open>
  \<^bold>\<open>C7.\<close> The two token endpoints are inverse: for every text of 1 to 1,023 printable
  characters (ASCII only when no model is loaded, because the fallback masks the tokens with
  \<^verbatim>\<open>0x7F\<close>), \<^verbatim>\<open>POST /tokenize\<close> answers with its bytes, and
  \<^verbatim>\<open>POST /detokenize\<close> with that answer as its body gives the text back; neither changes the
  server.
\<close>

theorem tokenize_detokenize_roundtrip:
  assumes "plain_text s" "s \<noteq> []" "length s \<le> 1023" "g_llm_ctx g = None \<longrightarrow> (\<forall>c \<in> set s. uchar c < 128)"
    "posts request (content_doc s)" "posts request' (tokens_doc (map (\<lambda>c. int (uchar c)) s))"
  shows "handle_tokenize request response (g, h)
      = Some (0, json_response 200 (tokens_doc (map (\<lambda>c. int (uchar c)) s)) response, g, h) \<and>
    handle_detokenize request' response (g, h) = Some (0, json_response 200 (content_doc s) response, g, h)"
proof
  let ?ts = "map (\<lambda>c. int (uchar c)) s"
  have s: "NUL \<notin> set s" using plain_not_NUL [OF assms(1)] .
  have "int_min \<le> int (uchar c)" "int (uchar c) \<le> int_max" for c
    using order.trans [OF less_imp_le [OF uchar_less_256], of 2147483647 c]
    by (simp_all add: int_min_def int_max_def)
  moreover have "key_text ''content''" "key_text ''tokens''"
    by (simp_all add: key_text_def escape_char_def uchar_def)
  ultimately have "wf_doc (JObj [(''content'', JStr s)])" "wf_doc (JObj [(''tokens'', JArr (map JInt ?ts))])"
    using assms(1) by auto
  moreover have "fold_assign tokenize_assign [(''content'', JStr s)] tokenize_request_init
      = Some (tokenize_request_init\<lparr>t_content := s\<rparr>)"
    using assms(3) by (simp add: tokenize_assign_def val_string_def)
  moreover have "fold_assign detokenize_assign [(''tokens'', JArr (map JInt ?ts))] detokenize_request_init
      = Some (detokenize_request_init\<lparr>d_tokens := ?ts\<rparr>)"
    using assms(3) tokens_assign_ints [of "[]" ?ts]
    by (simp add: detokenize_assign_def detokenize_request_init_def)
  ultimately have d: "parse_result (parse_tokenize_request (ser (content_doc s)) (length (ser (content_doc s))))
      = as_result (Some (tokenize_request_init\<lparr>t_content := s\<rparr>))"
    "parse_result (parse_detokenize_request (ser (tokens_doc ?ts)) (length (ser (tokens_doc ?ts))))
      = as_result (Some (detokenize_request_init\<lparr>d_tokens := ?ts\<rparr>))"
    unfolding content_doc_def tokens_doc_def by (simp_all only: decoded_tokenize decoded_detokenize)
  show "handle_tokenize request response (g, h) = Some (0, json_response 200 (tokens_doc ?ts) response, g, h)"
    using accepted_tokenize(1) [OF assms(5) [unfolded content_doc_def] d(1) [unfolded content_doc_def]] assms(2,3)
    by (simp add: handle_tokenize_def tokens_of_plain s tokens_body)
  show "handle_detokenize request' response (g, h) = Some (0, json_response 200 (content_doc s) response, g, h)"
    using accepted_detokenize(1) [OF assms(6) [unfolded tokens_doc_def] d(2) [unfolded tokens_doc_def]]
      text_of_tokens [OF s assms(2,3,4)] assms(2,3)
    by (simp add: handle_detokenize_def content_body)
qed

theorem tokenize_detokenize_roundtrip_witness:
  "\<exists>rq. posts rq (tokens_doc [72, 105]) \<and>
     handle_detokenize rq \<lparr>rs_status = 0, rs_headers = [], rs_body = [], rs_body_length = 0\<rparr> (boot_api_context, boot_heap)
     = Some (0, json_response 200 (content_doc ''Hi'')
         \<lparr>rs_status = 0, rs_headers = [], rs_body = [], rs_body_length = 0\<rparr>, boot_api_context, boot_heap)"
proof -
  define rq :: "jval \<Rightarrow> http_request" where
    "rq d = empty_request\<lparr>rq_method := ''POST'', rq_body := ser d, rq_body_length := length (ser d)\<rparr>" for d
  have p: "posts (rq d) d" for d by (simp add: posts_def rq_def)
  have t: "map (\<lambda>c. int (uchar c)) ''Hi'' = [72, 105]" by code_simp
  have "plain_text ''Hi''" by (simp add: plain_text_def plain_char_def escape_char_def uchar_def)
  moreover have "\<forall>c \<in> set ''Hi''. uchar c < 128" by (simp add: uchar_def)
  ultimately show ?thesis
    using tokenize_detokenize_roundtrip [of "''Hi''" boot_api_context "rq (content_doc ''Hi'')" "rq (tokens_doc [72, 105])"] p
    unfolding t by auto
qed

text \<open>
  What is refused: a method other than \<^verbatim>\<open>POST\<close> is answered with 405, an
  empty body and a body that does not parse with 400, each with its error document, by every
  \<^verbatim>\<open>POST\<close> endpoint, and the server state is untouched.
\<close>

theorem v1_refusals:
  assumes "(rejects, serve) \<in>
    {(\<lambda>b n. parse_completion_request b n = reject, handle_v1_completions),
     (\<lambda>b n. parse_chat_request b n = reject, handle_v1_chat_completions),
     (\<lambda>b n. parse_embedding_request b n = reject, handle_v1_embeddings),
     (\<lambda>b n. parse_tokenize_request b n = reject, handle_tokenize),
     (\<lambda>b n. parse_detokenize_request b n = reject, handle_detokenize)}"
  shows "serve request response sv =
    (if cstr_of (rq_method request) \<noteq> ''POST''
     then Some (0, json_response 405 (error_doc ''Method not allowed'' [] ''method_not_allowed'') response, sv)
     else if rq_body_length request = 0
     then Some (0, json_response 400 (error_doc ''Request body is empty'' [] ''empty_body'') response, sv)
     else if rejects (rq_body request) (rq_body_length request)
     then Some (0, json_response 400 (error_doc ''Invalid JSON'' [] ''json_parse_error'') response, sv)
     else serve request response sv)"
proof -
  have *: "with_post_body parse go request response sv =
    (if cstr_of (rq_method request) \<noteq> ''POST''
     then Some (0, json_response 405 (error_doc ''Method not allowed'' [] ''method_not_allowed'') response, sv)
     else if rq_body_length request = 0
     then Some (0, json_response 400 (error_doc ''Request body is empty'' [] ''empty_body'') response, sv)
     else if parse (rq_body request) (rq_body_length request) = reject
     then Some (0, json_response 400 (error_doc ''Invalid JSON'' [] ''json_parse_error'') response, sv)
     else with_post_body parse go request response sv)" for parse go
    by (auto simp: with_post_body_def is_post_request_iff fail_eq)
  from assms consider
      "rejects = (\<lambda>b n. parse_completion_request b n = reject)" "serve = handle_v1_completions"
    | "rejects = (\<lambda>b n. parse_chat_request b n = reject)" "serve = handle_v1_chat_completions"
    | "rejects = (\<lambda>b n. parse_embedding_request b n = reject)" "serve = handle_v1_embeddings"
    | "rejects = (\<lambda>b n. parse_tokenize_request b n = reject)" "serve = handle_tokenize"
    | "rejects = (\<lambda>b n. parse_detokenize_request b n = reject)" "serve = handle_detokenize" by auto
  then show ?thesis by cases (simp_all only: handler_defs, (rule *)+)
qed

theorem v1_refusals_witness:
  "handle_tokenize (empty_request\<lparr>rq_method := ''GET''\<rparr>)
     \<lparr>rs_status = 0, rs_headers = [], rs_body = [], rs_body_length = 0\<rparr> (boot_api_context, boot_heap)
   = Some (0, json_response 405 (error_doc ''Method not allowed'' [] ''method_not_allowed'')
       \<lparr>rs_status = 0, rs_headers = [], rs_body = [], rs_body_length = 0\<rparr>, (boot_api_context, boot_heap))"
  using v1_refusals [of "\<lambda>b n. parse_tokenize_request b n = reject" handle_tokenize "empty_request\<lparr>rq_method := ''GET''\<rparr>"]
  by (simp add: cstr_of_id)

declare skip_run.simps [code]

lemma models_doc_rejected:
  "map_option fst (json_skip_value (json_next_token (json_parser_init (ser models_doc) (length (ser models_doc))))) = Some (- 1)"
  by code_simp

text \<open>
  The answer to \<^verbatim>\<open>GET /v1/models\<close> is no JSON: the
  \<^verbatim>\<open>created\<close> member holds the conversion \<^verbatim>\<open>%lld\<close>, which the formatter
  does not know, so the JSON reader of the program itself rejects the body it is sent.
\<close>

theorem models_response_is_no_json:
  assumes "cstr_of (rq_method request) = ''GET''"
  shows "\<exists>rs. handle_v1_models request response sv = Some (0, rs, sv) \<and> rs_status rs = 200 \<and>
    map_option fst (json_skip_value (json_next_token (json_parser_init (rs_body rs) (rs_body_length rs)))) = Some (- 1)"
  using assms models_doc_rejected
  by (simp add: handle_v1_models_def is_get_request_iff models_body json_response_def)

theorem models_response_is_no_json_witness:
  "\<exists>rs. handle_v1_models (empty_request\<lparr>rq_method := ''GET''\<rparr>)
       \<lparr>rs_status = 0, rs_headers = [], rs_body = [], rs_body_length = 0\<rparr> (boot_api_context, boot_heap)
     = Some (0, rs, (boot_api_context, boot_heap)) \<and>
     map_option fst (json_skip_value (json_next_token (json_parser_init (rs_body rs) (rs_body_length rs)))) = Some (- 1)"
  using models_response_is_no_json [of "empty_request\<lparr>rq_method := ''GET''\<rparr>"] by (fastforce simp: cstr_of_id)

end
