(* ===== verification/Api.thy ===== *)
theory Api
  imports ApiV1Props
begin

text \<open>
  \<^verbatim>\<open>src/api.c\<close>: the legacy handlers and the router. A path is tested with
  \<^verbatim>\<open>strncmp\<close>: some routes compare the terminator too and are exact, the others match every
  path with that prefix.
\<close>

section \<open>Legacy handlers\<close>

definition static_body :: "string \<Rightarrow> http_response \<Rightarrow> int \<times> http_response" where
  "static_body txt response =
     (let response = response\<lparr>rs_status := 200, rs_headers := scpy 1024 json_content_type\<rparr>;
          response = response\<lparr>rs_body := scpy 16384 txt\<rparr>
      in (0, response\<lparr>rs_body_length := length (rs_body response)\<rparr>))"

definition str_member :: "string \<Rightarrow> string \<Rightarrow> string" where
  "str_member k v = [QUOTE] @ k @ [QUOTE] @ '': '' @ [QUOTE] @ v @ [QUOTE]"

definition handle_health_check :: "http_response \<Rightarrow> int \<times> http_response" where
  "handle_health_check = static_body (''{'' @ str_member ''status'' ''ok'' @ ''}'')"

definition handle_load_model :: "http_response \<Rightarrow> int \<times> http_response" where
  "handle_load_model = static_body (''{'' @ str_member ''status'' ''loading'' @ '', '' @
     str_member ''message'' ''Model loading not yet implemented'' @ ''}'')"

definition handle_completion :: "http_response \<Rightarrow> int \<times> http_response" where
  "handle_completion = static_body (''{'' @ str_member ''status'' ''generating'' @ '', '' @
     str_member ''message'' ''Text completion not yet implemented'' @ ''}'')"

definition metadata_format :: string where
  "metadata_format = ''{'' @ [QUOTE] @ ''magic'' @ [QUOTE] @ '':'' @ [QUOTE] @ ''%c%c%c%c'' @ [QUOTE] @ '','' @
     [QUOTE] @ ''version'' @ [QUOTE] @ '':%u,'' @ [QUOTE] @ ''tensor_count'' @ [QUOTE] @ '':%u,'' @
     [QUOTE] @ ''kv_count'' @ [QUOTE] @ '':%u,'' @ [QUOTE] @ ''architecture'' @ [QUOTE] @ '':'' @
     [QUOTE] @ ''%s'' @ [QUOTE] @ '','' @ [QUOTE] @ ''context_length'' @ [QUOTE] @ '':%u}''"

definition metadata_args :: "model_metadata \<Rightarrow> va list" where
  "metadata_args meta =
     map (\<lambda>b. VInt (ucast b)) (md_magic meta) @
     [VInt (md_version meta), VInt (md_tensor_count meta), VInt (md_kv_count meta),
      VStr (take 32 (cstr_of (md_architecture meta))), VInt (md_context_length meta)]"

definition handle_model_metadata :: "http_response \<Rightarrow> (int \<times> http_response) option" where
  "handle_model_metadata response =
     (let response = response\<lparr>rs_status := 200, rs_headers := scpy 1024 json_content_type\<rparr>
      in Option.bind (snprintf_text 16384 metadata_format (metadata_args c_get_model_metadata)) (\<lambda>(n, body).
           let response = response\<lparr>rs_body := body\<rparr>;
               response = (if n < 0 \<or> 16384 \<le> n
                 then response\<lparr>rs_status := 500,
                        rs_body := scpy 16384 (''{'' @ [QUOTE] @ ''error'' @ [QUOTE] @ '':'' @ [QUOTE] @
                          ''failed to format metadata'' @ [QUOTE] @ ''}'')\<rparr>
                 else response)
           in Some (0, response\<lparr>rs_body_length := length (rs_body response)\<rparr>)))"

section \<open>The router\<close>

text \<open>The legacy routes store the length of the body once more.\<close>

definition measured :: "int \<times> http_response \<Rightarrow> int \<times> http_response" where
  "measured res = (let (rc, response) = res in (rc, response\<lparr>rs_body_length := length (rs_body response)\<rparr>))"

definition legacy :: "server \<Rightarrow> int \<times> http_response \<Rightarrow> (int \<times> http_response \<times> server) option" where
  "legacy sv res = (let (rc, response) = measured res in Some (rc, response, sv))"

definition not_found_body :: string where
  "not_found_body = ''{'' @ [QUOTE] @ ''error'' @ [QUOTE] @ '':'' @ [QUOTE] @ ''not found'' @ [QUOTE] @ ''}''"

definition route_request :: handler where
  "route_request request response sv =
     (let path = rq_path request; response = response\<lparr>rs_headers := scpy 1024 json_content_type\<rparr> in
      if str_eqn path ''/v1/completions'' 15 then handle_v1_completions request response sv
      else if str_eqn path ''/v1/chat/completions'' 20 then handle_v1_chat_completions request response sv
      else if str_eqn path ''/v1/embeddings'' 14 then handle_v1_embeddings request response sv
      else if str_eqn path ''/v1/models'' 10 then handle_v1_models request response sv
      else if str_eqn path ''/tokenize'' 9 then handle_tokenize request response sv
      else if str_eqn path ''/detokenize'' 11 then handle_detokenize request response sv
      else if str_eqn path ''/health'' 8 then legacy sv (handle_health_check response)
      else if str_eqn path ''/model/metadata'' 15
      then Option.bind (handle_model_metadata response) (legacy sv)
      else if str_eqn path ''/model/load'' 12 then legacy sv (handle_load_model response)
      else if str_eqn path ''/completion'' 11 then legacy sv (handle_completion response)
      else let response = response\<lparr>rs_status := 404, rs_body := scpy 16384 not_found_body\<rparr>
           in Some (0, response\<lparr>rs_body_length := length (rs_body response)\<rparr>, sv))"

section \<open>What the legacy handlers answer\<close>

lemma legacy_answered:
  assumes "server_ok sv ps" "NUL \<notin> set txt" "length txt < 16384"
  shows "answered ps (legacy sv (static_body txt response))"
  using assms by (simp add: legacy_def measured_def static_body_def scpy_def good_response_def cstr_of_id)
    (simp add: json_content_type_def)

lemma metadata_undefined: "handle_model_metadata response = None"
proof -
  have "render metadata_format (metadata_args c_get_model_metadata) = None"
    by (simp add: metadata_format_def metadata_args_def c_get_model_metadata_def embedded_model_bytes_def
        gguf_magic_def render_Cons)
  then show ?thesis by (simp add: handle_model_metadata_def snprintf_text_def)
qed

lemma not_found_answered:
  assumes "server_ok sv ps"
  shows "answered ps (Some (0, response\<lparr>rs_headers := scpy 1024 json_content_type, rs_status := 404,
      rs_body := scpy 16384 not_found_body, rs_body_length := length (scpy 16384 not_found_body)\<rparr>, sv))"
  using assms by (simp add: good_response_def scpy_def not_found_body_def) (simp add: json_content_type_def)

text \<open>The paths the router knows, as prefixes; two of them must match completely.\<close>

definition routed :: "string \<Rightarrow> bool" where
  "routed path \<longleftrightarrow>
     (\<exists>(n, p) \<in> set [(15, ''/v1/completions''), (20, ''/v1/chat/completions''), (14, ''/v1/embeddings''),
        (10, ''/v1/models''), (9, ''/tokenize''), (11, ''/detokenize''), (15, ''/model/metadata''),
        (11, ''/completion'')]. take n path = p) \<or>
     path = ''/health'' \<or> path = ''/model/load''"

lemma route_answered:
  assumes "server_ok sv ps" "take 15 (cstr_of (rq_path request)) \<noteq> ''/model/metadata''"
  shows "answered ps (route_request request response sv)"
proof -
  have path: "\<not> str_eqn (rq_path request) ''/model/metadata'' 15"
    using assms(2) by (simp add: str_eqn_iff)
  have legacies: "answered ps (legacy sv (handle_health_check r))" "answered ps (legacy sv (handle_load_model r))"
    "answered ps (legacy sv (handle_completion r))" for r
    unfolding handle_health_check_def handle_load_model_def handle_completion_def
    by (rule legacy_answered [OF assms(1)]; simp add: str_member_def)+
  show ?thesis
    unfolding route_request_def Let_def
    using path legacies completions.answers [OF assms(1)] chat_completions.answers [OF assms(1)]
      embeddings.answers [OF assms(1)] models.answers [OF assms(1)] tokenizing.answers [OF assms(1)]
      detokenizing.answers [OF assms(1)] not_found_answered [OF assms(1), of response]
    by (simp del: answered_simps)
qed

text \<open>
  \<^bold>\<open>C6.\<close> The router answers every request but one kind: whatever method, path and body, it
  returns 0 and its response is sent completely as status line, JSON headers, length and body in the
  buffer of 16,640 bytes, with the heap sound. The exception are the paths below
  \<^verbatim>\<open>/model/metadata\<close>: the formatter knows no \<^verbatim>\<open>%c\<close>, so the arguments
  shift and \<^verbatim>\<open>%s\<close> takes the character \<^verbatim>\<open>'F'\<close> for a pointer.
\<close>

theorem route_request_answers:
  assumes "server_ok sv ps"
  shows "if take 15 (cstr_of (rq_path request)) = ''/model/metadata'' then route_request request response sv = None
    else \<exists>rs sv'. route_request request response sv = Some (0, rs, sv') \<and> server_ok sv' ps \<and>
      rs_status rs \<in> {200, 400, 404, 405} \<and>
      http_generate_response rs 16640 = Some (status_line (rs_status rs) @ json_content_type @
        ''Content-Length: '' @ uint_text (length (rs_body rs)) 10 False @ crlf @ crlf @ rs_body rs)"
proof (cases "take 15 (cstr_of (rq_path request)) = ''/model/metadata''")
  case True
  then obtain rest where path: "cstr_of (rq_path request) = ''/model/metadata'' @ rest"
    by (metis append_take_drop_id)
  show ?thesis by (simp add: route_request_def str_eqn_iff path metadata_undefined)
next
  case False
  from route_answered [OF assms False, of response] obtain rs sv' where
    "route_request request response sv = Some (0, rs, sv')" "good_response rs" "server_ok sv' ps"
    by (auto simp: answered_def split: option.splits)
  moreover from good_response_sent [OF this(2)] this(2) have
    "rs_status rs \<in> {200, 400, 404, 405}"
    "http_generate_response rs 16640 = Some (status_line (rs_status rs) @ json_content_type @
        ''Content-Length: '' @ uint_text (length (rs_body rs)) 10 False @ crlf @ crlf @ rs_body rs)"
    by (simp_all add: good_response_def)
  ultimately show ?thesis using False by auto
qed

theorem route_request_answers_witness:
  "\<exists>rs sv'. route_request (empty_request\<lparr>rq_path := ''/health''\<rparr>)
     \<lparr>rs_status = 0, rs_headers = [], rs_body = [], rs_body_length = 0\<rparr> (boot_api_context, boot_heap) = Some (0, rs, sv') \<and>
     rs_status rs \<in> {200, 400, 404, 405}"
proof -
  have s: "server_ok (boot_api_context, boot_heap) []"
    by (simp add: server_ok_def boot_api_context_def heap_owns_def)
  have "take 15 (cstr_of (rq_path (empty_request\<lparr>rq_path := ''/health''\<rparr>))) \<noteq> ''/model/metadata''"
    by (simp add: cstr_of_id)
  with route_request_answers [OF s, of "empty_request\<lparr>rq_path := ''/health''\<rparr>"] show ?thesis by (simp only: if_False) blast
qed

lemma route_not_found:
  assumes "\<not> routed (cstr_of (rq_path request))"
  shows "route_request request response sv = Some (0, response\<lparr>rs_headers := json_content_type, rs_status := 404,
    rs_body := not_found_body, rs_body_length := length not_found_body\<rparr>, sv)"
proof -
  let ?p = "cstr_of (rq_path request)"
  have n: "take 15 ?p \<noteq> ''/v1/completions''" "take 20 ?p \<noteq> ''/v1/chat/completions''" "take 14 ?p \<noteq> ''/v1/embeddings''"
    "take 10 ?p \<noteq> ''/v1/models''" "take 9 ?p \<noteq> ''/tokenize''" "take 11 ?p \<noteq> ''/detokenize''"
    "take 15 ?p \<noteq> ''/model/metadata''" "take 11 ?p \<noteq> ''/completion''" "take 8 ?p \<noteq> ''/health''" "take 12 ?p \<noteq> ''/model/load''"
    using assms take_eq_short [of "''/health''" 8 ?p] take_eq_short [of "''/model/load''" 12 ?p]
    by (simp_all add: routed_def)
  have "scpy 16384 not_found_body = not_found_body" "scpy 1024 json_content_type = json_content_type"
    by (simp_all add: scpy_def not_found_body_def json_content_type_def)
  with n show ?thesis by (simp add: route_request_def str_eqn_iff cstr_of_id)
qed

text \<open>
  Exactly the paths of the routing table are served: a path that is neither
  \<^verbatim>\<open>/health\<close> nor \<^verbatim>\<open>/model/load\<close> and starts with none of the
  other eight routes is answered with 404, the server untouched. Two endpoints of the design
  document, \<^verbatim>\<open>/models/load\<close> and \<^verbatim>\<open>/models/unload\<close>, are among them.
\<close>

theorem unrouted_paths_not_found:
  assumes "\<not> routed (cstr_of (rq_path request))"
  shows "route_request request response sv = Some (0, response\<lparr>rs_headers := json_content_type, rs_status := 404,
    rs_body := not_found_body, rs_body_length := length not_found_body\<rparr>, sv)"
  using assms by (rule route_not_found)

theorem unrouted_paths_not_found_witness:
  "\<forall>path \<in> {''/models/load'', ''/models/unload''}.
     map_option (\<lambda>(rc, rs, sv). rs_status rs) (route_request (empty_request\<lparr>rq_path := path\<rparr>)
       \<lparr>rs_status = 0, rs_headers = [], rs_body = [], rs_body_length = 0\<rparr> (boot_api_context, boot_heap)) = Some 404"
  using unrouted_paths_not_found [of "empty_request\<lparr>rq_path := ''/models/load''\<rparr>"]
    unrouted_paths_not_found [of "empty_request\<lparr>rq_path := ''/models/unload''\<rparr>"]
  by (simp add: routed_def cstr_of_id)

end
