(* ===== verification/NetBytes.thy ===== *)
theory NetBytes
  imports Prelude
begin

unbundle bit_operations_syntax

text \<open>
  Bytes on the wire. A packet is a list of bytes; the packed header structures of
  \<^verbatim>\<open>src/network/net.h\<close> are read and written through the 16- and 32-bit accesses of a
  little-endian machine (\<open>ld16\<close>, \<open>st16\<close>, ...) and the byte swaps \<^verbatim>\<open>be16\<close> and
  \<^verbatim>\<open>be32\<close> of the sources. Then the Internet checksum of \<^verbatim>\<open>src/network/ip.c\<close>
  and what it verifies.
\<close>

section \<open>Byte order\<close>

definition be16 :: "u16 \<Rightarrow> u16" where
  "be16 x = drop_bit 8 x OR push_bit 8 x"

definition be32 :: "u32 \<Rightarrow> u32" where
  "be32 x = (drop_bit 24 x AND 0xFF) OR push_bit 8 (drop_bit 16 x AND 0xFF) OR
     push_bit 16 (drop_bit 8 x AND 0xFF) OR push_bit 24 (x AND 0xFF)"

definition ld16 :: "u8 list \<Rightarrow> nat \<Rightarrow> u16" where
  "ld16 bs i = ucast (bs ! i) OR push_bit 8 (ucast (bs ! (i + 1)))"

definition ld32 :: "u8 list \<Rightarrow> nat \<Rightarrow> u32" where
  "ld32 bs i = ucast (bs ! i) OR push_bit 8 (ucast (bs ! (i + 1))) OR
     push_bit 16 (ucast (bs ! (i + 2))) OR push_bit 24 (ucast (bs ! (i + 3)))"

definition st16 :: "u16 \<Rightarrow> u8 list" where
  "st16 x = [ucast x, ucast (drop_bit 8 x)]"

definition st32 :: "u32 \<Rightarrow> u8 list" where
  "st32 x = [ucast x, ucast (drop_bit 8 x), ucast (drop_bit 16 x), ucast (drop_bit 24 x)]"

lemma length_st [simp]: "length (st16 x) = 2" "length (st32 y) = 4"
  by (simp_all add: st16_def st32_def)

lemma bit_be16: "n < 16 \<Longrightarrow> bit (be16 x) n = bit x (if n < 8 then n + 8 else n - 8)"
  using bit_imp_le_length [of x "n + 8"] by (auto simp: be16_def bit_simps add.commute)

lemma and_0xFF: "x AND 0xFF = take_bit 8 (x :: 'a :: len word)"
  by (simp add: take_bit_eq_mask mask_eq_exp_minus_1)

lemma bit_be32:
  "n < 32 \<Longrightarrow> bit (be32 x) n =
     bit x (if n < 8 then n + 24 else if n < 16 then n + 8 else if n < 24 then n - 8 else n - 24)"
  unfolding be32_def and_0xFF by (auto simp: bit_simps add.commute)

lemma be16_be16 [simp]: "be16 (be16 x) = x"
  by (rule bit_word_eqI) (auto simp: bit_be16)

lemma be32_be32 [simp]: "be32 (be32 x) = x"
  by (rule bit_word_eqI) (auto simp: bit_be32)

lemma ld_append [simp]:
  "i + 1 < length xs \<Longrightarrow> ld16 (xs @ ys) i = ld16 xs i"
  "length xs \<le> i \<Longrightarrow> ld16 (xs @ ys) i = ld16 ys (i - length xs)"
  "i + 3 < length xs \<Longrightarrow> ld32 (xs @ ys) i = ld32 xs i"
  "length xs \<le> i \<Longrightarrow> ld32 (xs @ ys) i = ld32 ys (i - length xs)"
  by (simp_all add: ld16_def ld32_def nth_append Suc_diff_le)

lemma ld_st [simp]: "ld16 (st16 x @ ys) 0 = x" "ld32 (st32 y @ ys) 0 = y"
proof -
  show "ld16 (st16 x @ ys) 0 = x"
    by (rule bit_word_eqI) (auto simp: ld16_def st16_def bit_simps)
  show "ld32 (st32 y @ ys) 0 = y"
  proof (rule bit_word_eqI)
    fix n assume "n < LENGTH(32)"
    then have "n div 8 < 4" by simp
    then have "n div 8 = 0 \<or> n div 8 = 1 \<or> n div 8 = 2 \<or> n div 8 = 3" by arith
    moreover obtain k q where "n = 8 * q + k" "k < 8" "q = n div 8"
      using mult_div_mod_eq [of 8 n] by (metis mod_less_divisor zero_less_numeral)
    ultimately show "bit (ld32 (st32 y @ ys) 0) n = bit y n"
      by (elim disjE) (auto simp: ld32_def st32_def bit_simps)
  qed
qed

section \<open>The Internet checksum\<close>

text \<open>
  The 32-bit sum of the 16-bit words of \<open>bs\<close> on top of \<open>acc\<close> (an odd byte at the end counts
  as it is), and the loop that folds the carries.
\<close>

fun sum16 :: "u8 list \<Rightarrow> u32 \<Rightarrow> u32" where
  "sum16 (a # b # bs) acc = sum16 bs (acc + ucast (ucast a OR push_bit 8 (ucast b) :: u16))"
| "sum16 [a] acc = acc + ucast a"
| "sum16 [] acc = acc"

lemma fold_less:
  assumes "drop_bit 16 (s :: u32) \<noteq> 0"
  shows "unat ((s AND 0xFFFF) + drop_bit 16 s) = unat s mod 2 ^ 16 + unat s div 2 ^ 16"
    "unat s mod 2 ^ 16 + unat s div 2 ^ 16 < unat s"
proof -
  have e: "(2 :: nat) ^ 16 = 65536" by simp
  have m: "s AND 0xFFFF = take_bit 16 s" by (simp add: take_bit_eq_mask mask_eq_exp_minus_1)
  have u: "unat (take_bit 16 s) = unat s mod 2 ^ 16" "unat (drop_bit 16 s) = unat s div 2 ^ 16"
    using unat_drop_bit_eq [of 16 s] unsigned_take_bit_eq [of 16 s, where ?'a = nat]
    by (simp_all only: take_bit_eq_mod drop_bit_eq_div)
  have "unat s < 2 ^ 32" by (rule order_less_le_trans [OF unsigned_less]) simp
  then have "unat s div 2 ^ 16 < 2 ^ 16" by (simp add: less_mult_imp_div_less)
  moreover have "unat s mod 2 ^ 16 < 2 ^ 16" by simp
  ultimately have "unat (take_bit 16 s) + unat (drop_bit 16 s) < 2 ^ LENGTH(32)" by (simp add: u)
  then show "unat ((s AND 0xFFFF) + drop_bit 16 s) = unat s mod 2 ^ 16 + unat s div 2 ^ 16"
    by (simp add: m u unat_word_ariths(1))
  have "unat s div 2 ^ 16 \<noteq> 0" using assms u(2) by (metis unat_eq_zero)
  then show "unat s mod 2 ^ 16 + unat s div 2 ^ 16 < unat s"
    unfolding e using mult_div_mod_eq [of 65536 "unat s"] by linarith
qed

function fold16 :: "u32 \<Rightarrow> u32" where
  "fold16 s = (if drop_bit 16 s \<noteq> 0 then fold16 ((s AND 0xFFFF) + drop_bit 16 s) else s)"
  by pat_completeness auto
termination
proof (relation "measure unat")
  fix s :: u32 assume "drop_bit 16 s \<noteq> 0"
  then show "((s AND 0xFFFF) + drop_bit 16 s, s) \<in> measure unat"
    unfolding in_measure using fold_less [of s] by metis
qed simp

declare fold16.simps [simp del]

definition ip_checksum :: "u8 list \<Rightarrow> u16" where
  "ip_checksum bs = ucast (NOT (fold16 (sum16 bs 0)))"

definition tcp_checksum :: "u32 \<Rightarrow> u32 \<Rightarrow> u8 list \<Rightarrow> u16" where
  "tcp_checksum src_ip dst_ip tcp_seg =
     (let ph = st32 (be32 src_ip) @ st32 (be32 dst_ip) @ [0, 6] @ st16 (be16 (of_nat (length tcp_seg)))
      in ucast (NOT (fold16 (sum16 tcp_seg (sum16 ph 0)))))"

text \<open>The sum as a number, and the remainder the folding computes.\<close>

fun wsum :: "u8 list \<Rightarrow> nat" where
  "wsum (a # b # bs) = unat a + 256 * unat b + wsum bs"
| "wsum [a] = unat a"
| "wsum [] = 0"

definition fold_nat :: "nat \<Rightarrow> nat" where
  "fold_nat n = (if n = 0 then 0 else (n - 1) mod 65535 + 1)"

lemma or_push_bit_8:
  assumes "x < 256"
  shows "(x :: nat) OR push_bit 8 y = x + 256 * y"
proof -
  have x: "take_bit 8 x = x" using assms by (simp add: take_bit_nat_eq_self)
  have "take_bit 8 x AND push_bit 8 y = 0" by (rule bit_eqI) (auto simp: bit_simps)
  then have "x + push_bit 8 y = x OR push_bit 8 y" unfolding x by (rule disjunctive_add_eq_or)
  then show ?thesis by (simp add: push_bit_eq_mult mult.commute)
qed

lemma unat_byte: "unat (a :: u8) < 256"
  using unsigned_less [of a, where ?'a = nat] by simp

lemma unat_word16: "unat (ucast a OR push_bit 8 (ucast (b :: u8)) :: u16) = unat (a :: u8) + 256 * unat b"
proof -
  have "unat a + 256 * unat b < 65536" using unat_byte [of a] unat_byte [of b] by linarith
  then have "take_bit 16 (push_bit 8 (unat b)) = push_bit 8 (unat b)"
    by (intro take_bit_nat_eq_self) (simp add: push_bit_eq_mult)
  moreover have "take_bit 16 (unat b) = unat b" "take_bit 16 (unat a) = unat a"
    using unat_byte [of a] unat_byte [of b] by (simp_all add: take_bit_nat_eq_self)
  ultimately show ?thesis
    using or_push_bit_8 [OF unat_byte, of a "unat b"]
    by (simp add: unsigned_or_eq unsigned_push_bit_eq unsigned_ucast_eq)
qed

lemma wsum_bound: "wsum bs \<le> 65535 * ((length bs + 1) div 2)"
proof (induction bs rule: wsum.induct)
  case (1 a b bs)
  then show ?case using unat_byte [of a] unat_byte [of b] by simp
next
  case (2 a)
  then show ?case using unat_byte [of a] by simp
qed simp

lemma unat_sum16:
  "unat acc + wsum bs < 2 ^ 32 \<Longrightarrow> unat (sum16 bs acc) = unat acc + wsum bs"
proof (induction bs arbitrary: acc rule: wsum.induct)
  case (1 a b bs)
  let ?w = "ucast a OR push_bit 8 (ucast b) :: u16"
  have w: "unat (ucast ?w :: u32) = unat a + 256 * unat b"
    using unat_word16 [of a b] unat_byte [of a] unat_byte [of b]
    by (simp add: unsigned_ucast_eq take_bit_nat_eq_self)
  with 1(2) have "unat (acc + ucast ?w) = unat acc + (unat a + 256 * unat b)"
    by (simp add: unat_word_ariths(1))
  with 1 show ?case by simp
next
  case (2 a)
  have "unat (ucast a :: u32) = unat a" using unat_byte [of a] by (simp add: unsigned_ucast_eq take_bit_nat_eq_self)
  with 2 show ?case by (simp add: unat_word_ariths(1))
qed simp

lemma fold_nat_small: "n < 65536 \<Longrightarrow> fold_nat n = n"
  by (cases n) (simp_all add: fold_nat_def)

lemma fold_nat_step: "fold_nat (n mod 65536 + n div 65536) = fold_nat n"
proof (cases "n = 0")
  case False
  let ?m = "n mod 65536 + n div 65536"
  have n: "n = n div 65536 * 65535 + ?m" using mult_div_mod_eq [of 65536 n] by linarith
  have "?m \<noteq> 0" using False mult_div_mod_eq [of 65536 n] by (metis add_is_0 mult_0_right)
  then have "n - 1 = n div 65536 * 65535 + (?m - 1)" using n by linarith
  then have "(n - 1) mod 65535 = (?m - 1) mod 65535" by (metis mod_mult_self3)
  with False \<open>?m \<noteq> 0\<close> show ?thesis unfolding fold_nat_def by simp
qed simp

lemma unat_fold16: "unat (fold16 s) = fold_nat (unat s)"
proof (induction s rule: fold16.induct)
  case (1 s)
  show ?case
  proof (cases "drop_bit 16 s = 0")
    case True
    then have "unat s div 2 ^ 16 = 0" using unat_drop_bit_eq [of 16 s] by (simp add: drop_bit_eq_div)
    then have "unat s < 65536" by (simp add: div_eq_0_iff)
    with True show ?thesis by (subst fold16.simps) (simp add: fold_nat_small)
  next
    case False
    with 1 [OF this] fold_less(1) [OF False] show ?thesis
      by (subst fold16.simps) (simp add: fold_nat_step)
  qed
qed

lemma wsum_append: "even (length xs) \<Longrightarrow> wsum (xs @ ys) = wsum xs + wsum ys"
proof (induction xs rule: wsum.induct)
  case (1 a b bs)
  then show ?case by simp
qed simp_all

lemma wsum_st16: "wsum (st16 x @ ys) = unat x + wsum ys"
proof -
  have x: "ucast (ucast x :: u8) OR push_bit 8 (ucast (ucast (drop_bit 8 x) :: u8)) = x"
    using ld_st(1) [of x "[]"] by (simp add: ld16_def st16_def)
  show ?thesis using unat_word16 [of "ucast x" "ucast (drop_bit 8 x)"] unfolding x st16_def by simp
qed

text \<open>The value of the checksum, and when a sum verifies: the checksum of the whole is then 0.\<close>

lemma fold_nat_le: "fold_nat n \<le> 65535"
  by (simp add: fold_nat_def Suc_le_eq)

lemma unat_not_u16: "unat (NOT (x :: u16)) = 65535 - unat x"
proof -
  have "NOT x = - 1 - x" by (simp add: not_eq_complement)
  moreover have "x \<le> - 1" by simp
  then have "unat (- 1 - x) = unat (- 1 :: u16) - unat x" by (rule unat_sub)
  ultimately show ?thesis by (simp add: unsigned_minus_1_eq_mask mask_eq_exp_minus_1)
qed

lemma unat_checksum: "unat (ucast (NOT (fold16 s)) :: u16) = 65535 - fold_nat (unat s)"
proof -
  have "ucast (NOT (fold16 s)) = (NOT (ucast (fold16 s)) :: u16)"
    by (rule bit_word_eqI) (simp add: bit_simps)
  moreover have "unat (ucast (fold16 s) :: u16) = fold_nat (unat s)"
    using fold_nat_le [of "unat s"]
    by (simp add: unsigned_ucast_eq unat_fold16 take_bit_nat_eq_self)
  ultimately show ?thesis by (simp add: unat_not_u16)
qed

lemma fold_nat_eq_max: "fold_nat n = 65535 \<longleftrightarrow> n \<noteq> 0 \<and> n mod 65535 = 0"
proof (cases n)
  case (Suc k)
  then show ?thesis using mod_Suc [of k 65535] by (simp add: fold_nat_def)
qed (simp add: fold_nat_def)

lemma fold_nat_cong: "fold_nat n mod 65535 = n mod 65535"
  by (cases n) (simp_all add: fold_nat_def mod_Suc_eq)

lemma sum_completes: "(n + (65535 - fold_nat n)) mod 65535 = 0" "n + (65535 - fold_nat n) \<noteq> 0"
proof -
  have "(n + (65535 - fold_nat n)) mod 65535 = (fold_nat n + (65535 - fold_nat n)) mod 65535"
    by (metis fold_nat_cong mod_add_left_eq)
  then show "(n + (65535 - fold_nat n)) mod 65535 = 0" using fold_nat_le [of n] by simp
  show "n + (65535 - fold_nat n) \<noteq> 0" by (cases n) (simp_all add: fold_nat_def)
qed

lemma checksum_zero_iff: "(ucast (NOT (fold16 s)) :: u16) = 0 \<longleftrightarrow> fold_nat (unat s) = 65535"
  using unat_checksum [of s] fold_nat_le [of "unat s"] by (metis diff_is_0_eq diff_self_eq_0 le_antisym unat_eq_zero)

text \<open>
  A field of two bytes that holds the checksum of the rest: verification succeeds, and it fails when any
  other aligned word is replaced by one that differs from it in more than the sign of zero.
\<close>

definition verifies :: "u32 \<Rightarrow> u8 list \<Rightarrow> bool" where
  "verifies acc bs \<longleftrightarrow> (ucast (NOT (fold16 (sum16 bs acc))) :: u16) = 0"

lemma verifies_iff:
  assumes "unat acc + wsum bs < 2 ^ 32"
  shows "verifies acc bs \<longleftrightarrow> unat acc + wsum bs \<noteq> 0 \<and> (unat acc + wsum bs) mod 65535 = 0"
  by (simp add: verifies_def checksum_zero_iff unat_sum16 [OF assms] fold_nat_eq_max)

lemma checksum_verifies:
  assumes "even (length xs)" "unat acc + wsum (xs @ st16 0 @ ys) + 65535 < 2 ^ 32"
    "c = ucast (NOT (fold16 (sum16 (xs @ st16 0 @ ys) acc)))"
  shows "verifies acc (xs @ st16 c @ ys)"
proof -
  have n: "wsum (xs @ st16 x @ ys) = wsum xs + wsum ys + unat x" for x
    using assms(1) by (simp add: wsum_append wsum_st16)
  let ?n = "unat acc + wsum xs + wsum ys"
  have c: "unat c = 65535 - fold_nat ?n"
    using assms(2) n [of 0] by (simp add: assms(3) unat_checksum unat_sum16 add.assoc)
  then have "unat acc + wsum (xs @ st16 c @ ys) = ?n + (65535 - fold_nat ?n)" using n [of c] by simp
  moreover have "unat acc + wsum (xs @ st16 c @ ys) < 2 ^ 32" using calculation assms(2) n [of 0] by simp
  ultimately show ?thesis using sum_completes [of ?n] by (simp only: verifies_iff) simp
qed

lemma corruption_detected:
  assumes "verifies acc (xs @ st16 v @ ys)" "even (length xs)" "v \<noteq> w" "{v, w} \<noteq> {0, 0xFFFF}"
    "unat acc + wsum (xs @ ys) + 65535 < 2 ^ 32"
  shows "\<not> verifies acc (xs @ st16 w @ ys)"
proof
  assume w: "verifies acc (xs @ st16 w @ ys)"
  have b: "unat (x :: u16) < 65536" for x using unsigned_less [of x, where ?'a = nat] by simp
  have n: "unat acc + wsum (xs @ st16 x @ ys) = unat acc + wsum xs + wsum ys + unat x" for x
    using assms(2) by (simp add: wsum_append wsum_st16)
  have l: "unat acc + wsum (xs @ st16 x @ ys) < 2 ^ 32" for x
    using n [of x] b [of x] assms(2,5) by (simp add: wsum_append)
  let ?n = "unat acc + wsum xs + wsum ys"
  have "(?n + unat v) mod 65535 = (?n + unat w) mod 65535"
    using assms(1) w unfolding verifies_iff [OF l] n by simp
  then have "unat v mod 65535 = unat w mod 65535" by (simp add: nat_mod_eq_iff)
  moreover have "unat v \<noteq> unat w" using assms(3) by (simp add: word_unat_eq_iff)
  ultimately have "{unat v, unat w} = {0, 65535}" using b [of v] b [of w] by (auto simp: mod_if split: if_splits)
  then show False using assms(4) by (auto simp: doubleton_eq_iff word_unat_eq_iff)
qed

lemma verifies_ip: "ip_checksum bs = 0 \<longleftrightarrow> verifies 0 bs"
  by (simp add: ip_checksum_def verifies_def)

lemma sum_fits: "length bs \<le> 65536 \<Longrightarrow> wsum bs + 65535 < 2 ^ 32"
proof -
  assume "length bs \<le> 65536"
  then have "(length bs + 1) div 2 \<le> 32768" by simp
  then have "65535 * ((length bs + 1) div 2) \<le> 65535 * 32768" by (rule mult_le_mono2)
  with wsum_bound [of bs] show ?thesis by simp
qed

lemma checksum_protects:
  assumes "even (length xs)" "length (xs @ ys) \<le> 65534"
  shows "ip_checksum (xs @ st16 (ip_checksum (xs @ st16 0 @ ys)) @ ys) = 0"
    "ip_checksum (xs @ st16 v @ ys) = 0 \<Longrightarrow> v \<noteq> w \<Longrightarrow> {v, w} \<noteq> {0, 0xFFFF} \<Longrightarrow> ip_checksum (xs @ st16 w @ ys) \<noteq> 0"
proof -
  have "length (xs @ st16 0 @ ys) \<le> 65536" using assms(2) by simp
  from sum_fits [OF this] have n: "unat (0 :: u32) + wsum (xs @ st16 0 @ ys) + 65535 < 2 ^ 32" by simp
  have "verifies 0 (xs @ st16 (ip_checksum (xs @ st16 0 @ ys)) @ ys)"
    by (rule checksum_verifies [OF assms(1) n]) (simp add: ip_checksum_def)
  then show "ip_checksum (xs @ st16 (ip_checksum (xs @ st16 0 @ ys)) @ ys) = 0" by (simp add: verifies_ip)
  have m: "unat (0 :: u32) + wsum (xs @ ys) + 65535 < 2 ^ 32" using sum_fits [of "xs @ ys"] assms(2) by simp
  show "ip_checksum (xs @ st16 w @ ys) \<noteq> 0"
    if "ip_checksum (xs @ st16 v @ ys) = 0" "v \<noteq> w" "{v, w} \<noteq> {0, 0xFFFF}"
    using corruption_detected [OF _ assms(1) that(2,3) m] that(1) by (simp add: verifies_ip)
qed

text \<open>
  \<^bold>\<open>C37.\<close> The Internet checksum protects up to 65536 bytes. A packet whose aligned checksum field
  holds the checksum of the packet with that field 0 verifies (its checksum is 0), although the sum is kept in
  32 bits and folded; and in a packet that verifies no 16-bit word can be changed without the verification
  failing, except between the two forms of zero.
\<close>

theorem internet_checksum:
  assumes "even (length xs)" "length (xs @ ys) \<le> 65534"
  shows "ip_checksum (xs @ st16 (ip_checksum (xs @ st16 0 @ ys)) @ ys) = 0 \<and>
    (ip_checksum (xs @ st16 v @ ys) = 0 \<and> v \<noteq> w \<and> {v, w} \<noteq> {0, 0xFFFF} \<longrightarrow> ip_checksum (xs @ st16 w @ ys) \<noteq> 0)"
  using checksum_protects [OF assms] by blast

lemma internet_checksum_witness:
  "ip_checksum ([0x45, 0] @ st16 (ip_checksum ([0x45, 0] @ st16 0 @ [1, 2, 3])) @ [1, 2, 3]) = 0"
  using internet_checksum [of "[0x45, 0]" "[1, 2, 3]"] by simp

end
