(* ===== verification/Tcp.thy ===== *)
theory Tcp
  imports Api NetBytes
begin

text \<open>
  \<^verbatim>\<open>src/network/tcp.c\<close>: four sockets, a state machine driven by segments and a clock, and
  the HTTP server on top of it.

  The segments passed to \<^verbatim>\<open>net_send_tcp\<close> are the output of an operation, in order; its
  result is ignored by the C code, so nothing here depends on what the lower layers do with them (see
  theory Ip). A buffer with a length is its used part. The data behind the used part of the receive buffer
  is never examined, because the request handed to the HTTP parser ends inside it.
\<close>

section \<open>State\<close>

datatype tcp_state =
    TCP_CLOSED | TCP_LISTEN | TCP_SYN_SENT | TCP_SYN_RECEIVED | TCP_ESTABLISHED | TCP_FIN_WAIT_1
  | TCP_FIN_WAIT_2 | TCP_CLOSE_WAIT | TCP_CLOSING | TCP_LAST_ACK | TCP_TIME_WAIT

record tcp_socket =
  sk_state :: tcp_state
  sk_local_ip :: u32
  sk_local_port :: u16
  sk_remote_ip :: u32
  sk_remote_port :: u16
  sk_seq :: u32
  sk_ack :: u32
  sk_rx :: "u8 list"
  sk_tx :: "u8 list"
  sk_last_activity :: u32

record tcp =
  sockets :: "tcp_socket list"
  tcp_now :: u32
  tcp_server :: server

record segment =
  sg_src_port :: u16
  sg_dst_port :: u16
  sg_dst_ip :: u32
  sg_seq :: u32
  sg_ack :: u32
  sg_flags :: u8
  sg_payload :: "u8 list"

record tcp_header =
  th_src_port :: u16
  th_dst_port :: u16
  th_seq :: u32
  th_ack :: u32
  th_data_offset :: u8
  th_flags :: u8

definition TCP_MAX_SOCKETS :: nat where "TCP_MAX_SOCKETS = 4"
definition TCP_RX_BUF_SIZE :: nat where "TCP_RX_BUF_SIZE = 2048"
definition HTTP_PORT :: u16 where "HTTP_PORT = 8080"
definition NET_IP_ADDR :: u32 where "NET_IP_ADDR = 0x0A00020F"

definition TCP_FLAG_FIN :: u8 where "TCP_FLAG_FIN = 0x01"
definition TCP_FLAG_SYN :: u8 where "TCP_FLAG_SYN = 0x02"
definition TCP_FLAG_RST :: u8 where "TCP_FLAG_RST = 0x04"
definition TCP_FLAG_PSH :: u8 where "TCP_FLAG_PSH = 0x08"
definition TCP_FLAG_ACK :: u8 where "TCP_FLAG_ACK = 0x10"

lemmas tcp_flags = TCP_FLAG_FIN_def TCP_FLAG_SYN_def TCP_FLAG_RST_def TCP_FLAG_PSH_def TCP_FLAG_ACK_def

text \<open>\<^verbatim>\<open>flags & f\<close> as a condition.\<close>

definition has_flag :: "u8 \<Rightarrow> u8 \<Rightarrow> bool" where
  "has_flag flags f \<longleftrightarrow> flags AND f \<noteq> 0"

section \<open>Sockets\<close>

definition zero_socket :: tcp_socket where
  "zero_socket = \<lparr>sk_state = TCP_CLOSED, sk_local_ip = 0, sk_local_port = 0, sk_remote_ip = 0,
     sk_remote_port = 0, sk_seq = 0, sk_ack = 0, sk_rx = [], sk_tx = [], sk_last_activity = 0\<rparr>"

definition socket_alloc :: "tcp_socket list \<Rightarrow> (nat \<times> tcp_socket list) option" where
  "socket_alloc socks =
     map_option (\<lambda>i. (i, socks[i := zero_socket]))
       (List.find (\<lambda>i. sk_state (socks ! i) = TCP_CLOSED) [0 ..< TCP_MAX_SOCKETS])"

definition socket_match :: "u32 \<Rightarrow> u16 \<Rightarrow> u16 \<Rightarrow> bool \<Rightarrow> tcp_socket \<Rightarrow> bool" where
  "socket_match remote_ip remote_port local_port allow_any_remote_ip s \<longleftrightarrow>
     sk_state s \<noteq> TCP_CLOSED \<and> sk_local_port s = local_port \<and> sk_remote_port s = remote_port \<and>
     (allow_any_remote_ip \<or> sk_remote_ip s = 0 \<or> sk_remote_ip s = remote_ip)"

definition socket_lookup :: "u32 \<Rightarrow> u16 \<Rightarrow> u16 \<Rightarrow> bool \<Rightarrow> tcp_socket list \<Rightarrow> nat option" where
  "socket_lookup remote_ip remote_port local_port allow_any_remote_ip socks =
     List.find (\<lambda>i. socket_match remote_ip remote_port local_port allow_any_remote_ip (socks ! i)) [0 ..< TCP_MAX_SOCKETS]"

definition listener_lookup :: "u16 \<Rightarrow> tcp_socket list \<Rightarrow> nat option" where
  "listener_lookup local_port socks =
     List.find (\<lambda>i. sk_state (socks ! i) = TCP_LISTEN \<and> sk_local_port (socks ! i) = local_port) [0 ..< TCP_MAX_SOCKETS]"

definition socket_close :: "tcp_socket \<Rightarrow> tcp_socket" where
  "socket_close s = s\<lparr>sk_state := TCP_CLOSED, sk_rx := [], sk_tx := []\<rparr>"

definition tcp_init :: "tcp \<Rightarrow> tcp" where
  "tcp_init st =
     (let socks = replicate TCP_MAX_SOCKETS zero_socket
      in case socket_alloc socks of
           None \<Rightarrow> st\<lparr>sockets := socks\<rparr>
         | Some (i, socks) \<Rightarrow>
             st\<lparr>sockets := socks[i := (socks ! i)\<lparr>sk_state := TCP_LISTEN, sk_local_port := HTTP_PORT,
                  sk_local_ip := NET_IP_ADDR\<rparr>]\<rparr>)"

section \<open>Output\<close>

definition tcp_send_ctrl :: "tcp_socket \<Rightarrow> u8 \<Rightarrow> segment" where
  "tcp_send_ctrl s flags = \<lparr>sg_src_port = sk_local_port s, sg_dst_port = sk_remote_port s, sg_dst_ip = sk_remote_ip s,
     sg_seq = sk_seq s, sg_ack = sk_ack s, sg_flags = flags, sg_payload = []\<rparr>"

definition tcp_send_data :: "tcp_socket \<Rightarrow> u8 list \<Rightarrow> tcp_socket \<times> segment" where
  "tcp_send_data s data =
     (s\<lparr>sk_seq := sk_seq s + of_nat (length data)\<rparr>,
      \<lparr>sg_src_port = sk_local_port s, sg_dst_port = sk_remote_port s, sg_dst_ip = sk_remote_ip s,
       sg_seq = sk_seq s, sg_ack = sk_ack s, sg_flags = TCP_FLAG_ACK OR TCP_FLAG_PSH, sg_payload = data\<rparr>)"

section \<open>The HTTP server\<close>

definition to_string :: "u8 list \<Rightarrow> string" where
  "to_string bs = map (\<lambda>b. char_of (unat b)) bs"

definition to_bytes :: "string \<Rightarrow> u8 list" where
  "to_bytes s = map (\<lambda>c. of_nat (uchar c)) s"

text \<open>The end of the first blank line in the receive buffer.\<close>

definition request_end :: "string \<Rightarrow> nat option" where
  "request_end rx =
     (let i = seek (\<lambda>i. crlf_at rx i \<and> crlf_at rx (i + 2)) (length rx - 3) 0
      in if i + 3 < length rx then Some (i + 4) else None)"

definition zero_response :: http_response where
  "zero_response = \<lparr>rs_status = 0, rs_headers = [], rs_body = [], rs_body_length = 0\<rparr>"

definition bad_request_body :: string where
  "bad_request_body = ''{'' @ [QUOTE] @ ''error'' @ [QUOTE] @ '':'' @ [QUOTE] @ ''bad request'' @ [QUOTE] @ ''}''"

definition bad_request_response :: http_response where
  "bad_request_response = \<lparr>rs_status = 400, rs_headers = cstr_of (strncpy_bytes json_content_type 1024),
     rs_body = cstr_of (strncpy_bytes bad_request_body 16384),
     rs_body_length = length (cstr_of (strncpy_bytes bad_request_body 16384))\<rparr>"

definition serve_http :: "string \<Rightarrow> nat \<Rightarrow> server \<Rightarrow> (http_response \<times> server) option" where
  "serve_http rx request_len sv =
     (case http_parse_request rx request_len of
        Some req \<Rightarrow> map_option (\<lambda>(rc, resp, sv). (resp, sv)) (route_request req zero_response sv)
      | None \<Rightarrow> Some (bad_request_response, sv))"

definition RESPONSE_BUF_SIZE :: nat where
  "RESPONSE_BUF_SIZE = 16384 + 256"

text \<open>A complete request: answer it, drop the rest of the buffer, and close.\<close>

definition finish_connection ::
  "tcp_socket \<Rightarrow> nat \<Rightarrow> server \<Rightarrow> (tcp_socket \<times> server \<times> segment list) option" where
  "finish_connection s request_len sv =
     Option.bind (serve_http (to_string (sk_rx s)) request_len sv) (\<lambda>(resp, sv).
       let (s, out) = (case http_generate_response resp RESPONSE_BUF_SIZE of
                         Some text \<Rightarrow> (let (s, seg) = tcp_send_data s (to_bytes text) in (s, [seg]))
                       | None \<Rightarrow> (s, []));
           s = s\<lparr>sk_rx := [], sk_state := TCP_FIN_WAIT_1\<rparr>
       in Some (s, sv, out @ [tcp_send_ctrl s (TCP_FLAG_FIN OR TCP_FLAG_ACK)]))"

section \<open>Segments received\<close>

text \<open>The header fields; the caller has checked that the packet has the 20 bytes of a header.\<close>

definition read_tcp_header :: "u8 list \<Rightarrow> tcp_header" where
  "read_tcp_header packet =
     \<lparr>th_src_port = be16 (ld16 packet 0), th_dst_port = be16 (ld16 packet 2), th_seq = be32 (ld32 packet 4),
      th_ack = be32 (ld32 packet 8), th_data_offset = packet ! 12, th_flags = packet ! 13\<rparr>"

definition tcp_payload :: "u8 list \<Rightarrow> u8 list" where
  "tcp_payload packet =
     (let hdr_len = unat (drop_bit 4 (packet ! 12)) * 4
      in if hdr_len < length packet then drop hdr_len packet else [])"

text \<open>The data path of an established connection.\<close>

definition established_data ::
  "tcp_header \<Rightarrow> u8 list \<Rightarrow> tcp_socket \<Rightarrow> server \<Rightarrow> (tcp_socket \<times> server \<times> segment list) option" where
  "established_data th payload s sv =
     (let s = (if payload \<noteq> [] \<and> length (sk_rx s) + length payload < TCP_RX_BUF_SIZE
               then s\<lparr>sk_rx := sk_rx s @ payload\<rparr> else s);
          acks = (if payload \<noteq> [] then [tcp_send_ctrl s TCP_FLAG_ACK] else [])
      in if sk_rx s \<noteq> [] then
           (case request_end (to_string (sk_rx s)) of
              Some request_len \<Rightarrow>
                map_option (\<lambda>(s, sv, out). (s, sv, acks @ out)) (finish_connection s request_len sv)
            | None \<Rightarrow> Some (s, sv, acks))
         else Some (s, sv, acks @ [tcp_send_ctrl s TCP_FLAG_ACK]))"

definition established_segment ::
  "tcp_header \<Rightarrow> u8 list \<Rightarrow> tcp_socket \<Rightarrow> server \<Rightarrow> (tcp_socket \<times> server \<times> segment list) option" where
  "established_segment th payload s sv =
     (if has_flag (th_flags th) TCP_FLAG_SYN then Some (s, sv, [])
      else let s = s\<lparr>sk_ack := th_seq th + of_nat (length payload)\<rparr> in
        if has_flag (th_flags th) TCP_FLAG_FIN then
          (let s = s\<lparr>sk_ack := sk_ack s + 1\<rparr>;
               out = [tcp_send_ctrl s TCP_FLAG_ACK];
               s = s\<lparr>sk_state := (if sk_state s = TCP_ESTABLISHED then TCP_CLOSE_WAIT else TCP_LAST_ACK)\<rparr>;
               s = (if sk_state s = TCP_LAST_ACK then socket_close s else s)
           in Some (s, sv, out))
        else if \<not> has_flag (th_flags th) TCP_FLAG_ACK then Some (s, sv, [])
        else established_data th payload s sv)"

text \<open>The \<^verbatim>\<open>switch\<close> on the state of the socket.\<close>

definition socket_segment ::
  "tcp_header \<Rightarrow> u8 list \<Rightarrow> tcp_socket \<Rightarrow> server \<Rightarrow> (tcp_socket \<times> server \<times> segment list) option" where
  "socket_segment th payload s sv =
     (case sk_state s of
        TCP_SYN_RECEIVED \<Rightarrow>
          (let s = s\<lparr>sk_ack := th_seq th + 1\<rparr> in
           if has_flag (th_flags th) TCP_FLAG_ACK
           then (let s = s\<lparr>sk_state := TCP_ESTABLISHED, sk_seq := th_ack th\<rparr>
                 in Some (s, sv, [tcp_send_ctrl s TCP_FLAG_ACK]))
           else Some (s, sv, [tcp_send_ctrl s (TCP_FLAG_SYN OR TCP_FLAG_ACK)]))
      | TCP_ESTABLISHED \<Rightarrow> established_segment th payload s sv
      | TCP_CLOSE_WAIT \<Rightarrow> established_segment th payload s sv
      | TCP_FIN_WAIT_1 \<Rightarrow>
          (if has_flag (th_flags th) TCP_FLAG_FIN
           then Some (s\<lparr>sk_ack := sk_ack s + 1, sk_state := TCP_TIME_WAIT\<rparr>, sv, [])
           else if has_flag (th_flags th) TCP_FLAG_ACK then Some (s\<lparr>sk_state := TCP_FIN_WAIT_2\<rparr>, sv, [])
           else Some (s, sv, []))
      | TCP_FIN_WAIT_2 \<Rightarrow>
          (if has_flag (th_flags th) TCP_FLAG_FIN
           then (let s = s\<lparr>sk_ack := sk_ack s + 1\<rparr>
                 in Some (socket_close (s\<lparr>sk_state := TCP_TIME_WAIT\<rparr>), sv, [tcp_send_ctrl s TCP_FLAG_ACK]))
           else Some (s, sv, []))
      | TCP_LAST_ACK \<Rightarrow>
          (if has_flag (th_flags th) TCP_FLAG_ACK then Some (socket_close s, sv, []) else Some (s, sv, []))
      | _ \<Rightarrow> Some (s, sv, []))"

text \<open>The socket of a segment: an existing one, or a new one for a \<^verbatim>\<open>SYN\<close> to a listener.\<close>

definition socket_for ::
  "tcp_header \<Rightarrow> u32 \<Rightarrow> u32 \<Rightarrow> tcp_socket list \<Rightarrow> nat option \<times> tcp_socket list" where
  "socket_for th remote_ip now socks =
     (let s = socket_lookup remote_ip (th_src_port th) (th_dst_port th) False socks in
      if s = None \<and> has_flag (th_flags th) TCP_FLAG_SYN \<and> listener_lookup (th_dst_port th) socks \<noteq> None
      then (case socket_alloc socks of
              None \<Rightarrow> (None, socks)
            | Some (i, socks) \<Rightarrow>
                (Some i, socks[i := (socks ! i)\<lparr>sk_state := TCP_SYN_RECEIVED, sk_local_port := th_dst_port th,
                   sk_remote_port := th_src_port th, sk_remote_ip := remote_ip,
                   sk_seq := 1000 + of_nat i * 100 + (now AND 0xFFFF)\<rparr>]))
      else (s, socks))"

definition reset_segment :: "tcp_header \<Rightarrow> u32 \<Rightarrow> segment" where
  "reset_segment th remote_ip =
     \<lparr>sg_src_port = th_dst_port th, sg_dst_port = th_src_port th, sg_dst_ip = remote_ip, sg_seq = 0,
      sg_ack = th_seq th + 1 + (if has_flag (th_flags th) TCP_FLAG_SYN then 1 else 0),
      sg_flags = TCP_FLAG_RST, sg_payload = []\<rparr>"

text \<open>\<open>remote_ip\<close> is the global \<^verbatim>\<open>tcp_current_remote_ip\<close> set by \<^verbatim>\<open>ip_receive\<close>.\<close>

definition tcp_receive :: "u8 list \<Rightarrow> u32 \<Rightarrow> tcp \<Rightarrow> (tcp \<times> segment list) option" where
  "tcp_receive packet remote_ip st =
     (if length packet < 20 then Some (st, [])
      else let th = read_tcp_header packet;
               (found, socks) = socket_for th remote_ip (tcp_now st) (sockets st)
        in case found of
             None \<Rightarrow>
               Some (st\<lparr>sockets := socks\<rparr>,
                     if has_flag (th_flags th) TCP_FLAG_RST then [] else [reset_segment th remote_ip])
           | Some i \<Rightarrow>
               let s = socks ! i;
                   s = (if sk_remote_ip s = 0 then s\<lparr>sk_remote_ip := remote_ip\<rparr> else s);
                   s = s\<lparr>sk_last_activity := tcp_now st\<rparr>
               in map_option (\<lambda>(s, sv, out). (st\<lparr>sockets := socks[i := s], tcp_server := sv\<rparr>, out))
                    (socket_segment th (tcp_payload packet) s (tcp_server st)))"

section \<open>The clock\<close>

definition retransmit :: "u32 \<Rightarrow> tcp_socket \<Rightarrow> tcp_socket \<times> segment list" where
  "retransmit now s =
     (if sk_state s = TCP_SYN_RECEIVED \<and> 1 < now - sk_last_activity s
      then (s\<lparr>sk_last_activity := now\<rparr>, [tcp_send_ctrl s (TCP_FLAG_SYN OR TCP_FLAG_ACK)])
      else (s, []))"

definition tcp_periodic :: "tcp \<Rightarrow> tcp \<times> segment list" where
  "tcp_periodic st =
     (let now = tcp_now st + 1; rs = map (retransmit now) (sockets st)
      in (st\<lparr>tcp_now := now, sockets := map fst rs\<rparr>, concat (map snd rs)))"

end
