(* ===== verification/TcpProps.thy ===== *)
theory TcpProps
  imports Tcp
begin

text \<open>
  Properties of the TCP layer. The abstract machine is the relation \<open>tcp_edge\<close> on the states of one
  socket; runs of the server are reachable states of \<open>tcp_step\<close>, where the environment sends any
  packets from any address at any time and the clock ticks in between.
\<close>

section \<open>The abstract machine\<close>

inductive tcp_edge :: "tcp_state \<Rightarrow> tcp_state \<Rightarrow> bool" where
  stay: "tcp_edge q q"
| opened: "q \<in> {TCP_SYN_RECEIVED, TCP_ESTABLISHED} \<Longrightarrow> tcp_edge TCP_CLOSED q"
| handshake: "tcp_edge TCP_SYN_RECEIVED TCP_ESTABLISHED"
| peer_closes: "tcp_edge TCP_ESTABLISHED TCP_CLOSE_WAIT"
| peer_closes_again: "tcp_edge TCP_CLOSE_WAIT TCP_CLOSED"
| answered_request: "q \<in> {TCP_ESTABLISHED, TCP_CLOSE_WAIT} \<Longrightarrow> tcp_edge q TCP_FIN_WAIT_1"
| fin_acked: "tcp_edge TCP_FIN_WAIT_1 TCP_FIN_WAIT_2"
| fin_before_ack: "tcp_edge TCP_FIN_WAIT_1 TCP_TIME_WAIT"
| fin_after_ack: "tcp_edge TCP_FIN_WAIT_2 TCP_CLOSED"

inductive_cases edge_from_timewait: "tcp_edge TCP_TIME_WAIT q"
inductive_cases edge_from_listen: "tcp_edge TCP_LISTEN q"
inductive_simps edge_to_established: "tcp_edge q TCP_ESTABLISHED"

text \<open>The states a connection is in between two segments.\<close>

definition live_state :: "tcp_state \<Rightarrow> bool" where
  "live_state q \<longleftrightarrow> q \<in> {TCP_CLOSED, TCP_SYN_RECEIVED, TCP_ESTABLISHED, TCP_FIN_WAIT_1, TCP_FIN_WAIT_2,
     TCP_CLOSE_WAIT, TCP_TIME_WAIT}"

text \<open>What stays of a socket whatever it receives.\<close>

definition same_peer :: "tcp_socket \<Rightarrow> tcp_socket \<Rightarrow> bool" where
  "same_peer s t \<longleftrightarrow> sk_local_ip t = sk_local_ip s \<and> sk_local_port t = sk_local_port s \<and>
     sk_remote_ip t = sk_remote_ip s \<and> sk_remote_port t = sk_remote_port s"

definition socket_ok :: "tcp_socket \<Rightarrow> tcp_socket \<Rightarrow> bool" where
  "socket_ok s t \<longleftrightarrow> tcp_edge (sk_state s) (sk_state t) \<and> length (sk_rx t) < TCP_RX_BUF_SIZE \<and> same_peer s t"

lemma finish_connection_step:
  assumes "finish_connection s n sv = Some (t, sv', out)"
  shows "sk_state t = TCP_FIN_WAIT_1" "sk_rx t = []" "same_peer s t"
  using assms
  by (auto simp: finish_connection_def bind_eq_Some same_peer_def tcp_send_data_def Let_def split: option.splits)

lemma established_data_step:
  assumes "established_data th payload s sv = Some (t, sv', out)"
    "sk_state s \<in> {TCP_ESTABLISHED, TCP_CLOSE_WAIT}" "length (sk_rx s) < TCP_RX_BUF_SIZE"
  shows "socket_ok s t"
proof -
  define u where "u = (if payload \<noteq> [] \<and> length (sk_rx s) + length payload < TCP_RX_BUF_SIZE
       then s\<lparr>sk_rx := sk_rx s @ payload\<rparr> else s)"
  have u: "sk_state u = sk_state s" "same_peer s u" "length (sk_rx u) < TCP_RX_BUF_SIZE"
    using assms(3) by (simp_all add: same_peer_def u_def)
  from assms(1) consider n out' where "finish_connection u n sv = Some (t, sv', out')" | "t = u"
    unfolding established_data_def Let_def u_def [symmetric] by (auto split: if_splits option.splits)
  then show ?thesis
  proof cases
    case 1
    note f = finish_connection_step [OF 1]
    have "same_peer s t" using u(2) f(3) unfolding same_peer_def by metis
    with f assms(2) show ?thesis by (simp add: socket_ok_def TCP_RX_BUF_SIZE_def tcp_edge.answered_request)
  qed (use u in \<open>simp add: socket_ok_def tcp_edge.stay\<close>)
qed

lemma established_step:
  assumes "established_segment th payload s sv = Some (t, sv', out)" "sk_state s \<in> {TCP_ESTABLISHED, TCP_CLOSE_WAIT}"
    "length (sk_rx s) < TCP_RX_BUF_SIZE"
  shows "socket_ok s t"
proof -
  define u where "u = s\<lparr>sk_ack := th_seq th + of_nat (length payload)\<rparr>"
  have u: "sk_state u = sk_state s" "sk_rx u = sk_rx s" "socket_ok u x \<longleftrightarrow> socket_ok s x" for x
    by (simp_all add: same_peer_def u_def socket_ok_def)
  show ?thesis
  proof (cases "has_flag (th_flags th) TCP_FLAG_SYN \<or> has_flag (th_flags th) TCP_FLAG_FIN
      \<or> \<not> has_flag (th_flags th) TCP_FLAG_ACK")
    case True
    with assms show ?thesis
      unfolding established_segment_def Let_def
      by (auto simp: same_peer_def socket_close_def TCP_RX_BUF_SIZE_def socket_ok_def intro: tcp_edge.intros
          split: if_splits)
  next
    case False
    with assms(1) have "established_data th payload u sv = Some (t, sv', out)"
      by (simp add: established_segment_def u_def)
    from established_data_step [OF this] assms(2,3) show ?thesis unfolding u by blast
  qed
qed

lemma socket_step:
  assumes "socket_segment th payload s sv = Some (t, sv', out)" "live_state (sk_state s) \<or> sk_state s = TCP_LISTEN"
    "length (sk_rx s) < TCP_RX_BUF_SIZE"
  shows "socket_ok s t"
proof (cases "sk_state s \<in> {TCP_ESTABLISHED, TCP_CLOSE_WAIT}")
  case True
  then have "established_segment th payload s sv = Some (t, sv', out)"
    using assms(1) by (auto simp: socket_segment_def)
  from established_step [OF this True assms(3)] show ?thesis .
next
  case False
  with assms show ?thesis
    unfolding socket_segment_def Let_def
    by (cases "sk_state s")
       (auto simp: same_peer_def socket_close_def TCP_RX_BUF_SIZE_def live_state_def socket_ok_def
        intro: tcp_edge.intros split: if_splits)
qed

section \<open>Which socket a segment reaches\<close>

lemma find_upt:
  "List.find P [0 ..< n] = Some i \<Longrightarrow> i < n \<and> P i \<and> (\<forall>j < i. \<not> P j)"
  "List.find P [0 ..< n] = None \<longleftrightarrow> (\<forall>j < n. \<not> P j)"
  by (auto simp: find_Some_iff find_None_iff)

definition opened_socket :: "tcp_header \<Rightarrow> u32 \<Rightarrow> u32 \<Rightarrow> nat \<Rightarrow> tcp_socket" where
  "opened_socket th remote_ip now i = zero_socket\<lparr>sk_state := TCP_SYN_RECEIVED, sk_local_port := th_dst_port th,
     sk_remote_port := th_src_port th, sk_remote_ip := remote_ip, sk_seq := 1000 + of_nat i * 100 + (now AND 0xFFFF)\<rparr>"

lemma socket_for_cases:
  assumes "socket_for th remote_ip now socks = (found, socks')" "length socks = 4"
  obtains (known) i where "found = Some i" "socks' = socks" "i < 4"
      "socket_match remote_ip (th_src_port th) (th_dst_port th) False (socks ! i)"
  | (fresh) i l where "found = Some i" "i < 4" "sk_state (socks ! i) = TCP_CLOSED" "has_flag (th_flags th) TCP_FLAG_SYN"
      "socks' = socks[i := opened_socket th remote_ip now i]" "l < 4" "sk_state (socks ! l) = TCP_LISTEN"
      "sk_local_port (socks ! l) = th_dst_port th"
      "\<And>j. j < 4 \<Longrightarrow> \<not> socket_match remote_ip (th_src_port th) (th_dst_port th) False (socks ! j)"
  | (none) "found = None" "socks' = socks"
proof (cases "socket_lookup remote_ip (th_src_port th) (th_dst_port th) False socks")
  case (Some i)
  moreover have "found = Some i" "socks' = socks" using Some assms(1) by (simp_all add: socket_for_def)
  ultimately show thesis
    using find_upt(1) [of _ "TCP_MAX_SOCKETS" i] by (intro known) (auto simp: socket_lookup_def TCP_MAX_SOCKETS_def)
next
  case none': None
  then have nomatch: "\<not> socket_match remote_ip (th_src_port th) (th_dst_port th) False (socks ! j)" if "j < 4" for j
    using that by (simp add: socket_lookup_def find_upt(2) TCP_MAX_SOCKETS_def)
  show thesis
  proof (cases "has_flag (th_flags th) TCP_FLAG_SYN \<and> listener_lookup (th_dst_port th) socks \<noteq> None \<and> socket_alloc socks \<noteq> None")
    case True
    then obtain i l where i: "List.find (\<lambda>i. sk_state (socks ! i) = TCP_CLOSED) [0 ..< 4] = Some i"
      "List.find (\<lambda>i. sk_state (socks ! i) = TCP_LISTEN \<and> sk_local_port (socks ! i) = th_dst_port th) [0 ..< 4] = Some l"
      by (auto simp: socket_alloc_def listener_lookup_def TCP_MAX_SOCKETS_def)
    note ii = find_upt(1) [OF i(1)] find_upt(1) [OF i(2)]
    moreover have "found = Some i" "socks' = socks[i := opened_socket th remote_ip now i]"
      using assms True none' i(1) ii by (auto simp: socket_for_def socket_alloc_def TCP_MAX_SOCKETS_def opened_socket_def)
    ultimately show thesis using True nomatch by (intro fresh [of i l]) auto
  next
    case False
    with none' assms(1) have "found = None" "socks' = socks"
      by (auto simp: socket_for_def split: if_splits option.splits)
    then show thesis by (rule none)
  qed
qed

section \<open>Runs\<close>

inductive tcp_step :: "tcp \<Rightarrow> segment list \<Rightarrow> tcp \<Rightarrow> bool" where
  received: "tcp_receive packet remote_ip st = Some (st', out) \<Longrightarrow> tcp_step st out st'"
| ticked: "tcp_periodic st = (st', out) \<Longrightarrow> tcp_step st out st'"

inductive_cases tcp_stepE: "tcp_step st out st'"

inductive tcp_reach :: "tcp \<Rightarrow> bool" where
  start: "tcp_reach (tcp_init st)"
| step: "tcp_reach st \<Longrightarrow> tcp_step st out st' \<Longrightarrow> tcp_reach st'"

definition conn_ok :: "tcp_socket \<Rightarrow> bool" where
  "conn_ok s \<longleftrightarrow> live_state (sk_state s) \<and> length (sk_rx s) < TCP_RX_BUF_SIZE \<and>
     (sk_state s \<noteq> TCP_CLOSED \<longrightarrow> sk_local_port s = HTTP_PORT)"

definition listener_ok :: "tcp_socket \<Rightarrow> bool" where
  "listener_ok s \<longleftrightarrow> sk_state s = TCP_LISTEN \<and> sk_local_port s = HTTP_PORT \<and> sk_remote_port s = 0 \<and> sk_rx s = []"

definition tcp_inv :: "tcp \<Rightarrow> bool" where
  "tcp_inv st \<longleftrightarrow> (\<exists>l a b c. sockets st = [l, a, b, c] \<and> listener_ok l \<and> conn_ok a \<and> conn_ok b \<and> conn_ok c)"

lemma tcp_init_inv: "tcp_inv (tcp_init st)"
  by (simp add: tcp_init_def socket_alloc_def TCP_MAX_SOCKETS_def numeral_eq_Suc upt_rec zero_socket_def
      tcp_inv_def listener_ok_def conn_ok_def live_state_def TCP_RX_BUF_SIZE_def)

lemma tcp_invD:
  assumes "tcp_inv st"
  shows "length (sockets st) = 4" "listener_ok (sockets st ! 0)" "0 < i \<Longrightarrow> i < 4 \<Longrightarrow> conn_ok (sockets st ! i)"
  using assms by (auto simp: tcp_inv_def less_Suc_eq numeral_eq_Suc)

lemma tcp_invI:
  assumes "length (sockets st) = 4" "listener_ok (sockets st ! 0)" "\<And>i. 0 < i \<Longrightarrow> i < 4 \<Longrightarrow> conn_ok (sockets st ! i)"
  shows "tcp_inv st"
proof -
  from assms(1) obtain l a b c where "sockets st = [l, a, b, c]"
    by (auto simp: numeral_eq_Suc length_Suc_conv)
  with assms(2) assms(3) [of 1] assms(3) [of 2] assms(3) [of 3] show ?thesis by (simp add: tcp_inv_def)
qed

text \<open>One segment changes at most one socket, along the edges of the abstract machine.\<close>

definition socket_moves :: "tcp_socket \<Rightarrow> tcp_socket \<Rightarrow> bool" where
  "socket_moves s t \<longleftrightarrow> tcp_edge (sk_state s) (sk_state t) \<and> length (sk_rx t) < TCP_RX_BUF_SIZE"

lemma conn_state: "conn_ok s \<or> listener_ok s \<Longrightarrow> live_state (sk_state s) \<or> sk_state s = TCP_LISTEN"
  by (auto simp: conn_ok_def listener_ok_def)

lemma live_edge: "tcp_edge q r \<Longrightarrow> live_state q \<Longrightarrow> live_state r"
  by (auto simp: live_state_def elim: tcp_edge.cases)

lemma touched_ok:
  assumes "socket_segment th payload (s\<lparr>sk_remote_ip := ip, sk_last_activity := now\<rparr>) sv = Some (t, sv', out)"
    "conn_ok s \<or> listener_ok s"
  shows "tcp_edge (sk_state s) (sk_state t)" "conn_ok s \<Longrightarrow> sk_state s \<noteq> TCP_CLOSED \<Longrightarrow> conn_ok t" "listener_ok s \<Longrightarrow> listener_ok t"
proof -
  let ?s = "s\<lparr>sk_remote_ip := ip, sk_last_activity := now\<rparr>"
  have "length (sk_rx s) < TCP_RX_BUF_SIZE" using assms(2) by (auto simp: conn_ok_def listener_ok_def TCP_RX_BUF_SIZE_def)
  then have ok: "socket_ok ?s t"
    using socket_step [OF assms(1)] conn_state [OF assms(2)] by simp
  then show e: "tcp_edge (sk_state s) (sk_state t)" by (simp add: socket_ok_def)
  show "conn_ok s \<Longrightarrow> sk_state s \<noteq> TCP_CLOSED \<Longrightarrow> conn_ok t"
    using ok live_edge [OF e] by (simp add: socket_ok_def conn_ok_def same_peer_def)
  assume l: "listener_ok s"
  then have "t = ?s" using assms(1) by (simp add: socket_segment_def listener_ok_def)
  with l show "listener_ok t" by (simp add: listener_ok_def)
qed

lemma opened_ok:
  assumes "socket_segment th payload ((opened_socket th' ip now i)\<lparr>sk_remote_ip := ip', sk_last_activity := now'\<rparr>) sv
      = Some (t, sv', out)" "th_dst_port th' = HTTP_PORT"
  shows "conn_ok t" "sk_state t \<in> {TCP_SYN_RECEIVED, TCP_ESTABLISHED}"
  using assms
  by (auto simp: socket_segment_def opened_socket_def Let_def conn_ok_def live_state_def zero_socket_def TCP_RX_BUF_SIZE_def
      split: if_splits)

lemma receive_cases:
  assumes "tcp_receive packet remote_ip st = Some (st', out)" "tcp_inv st"
  obtains (unchanged) "sockets st' = sockets st" "tcp_server st' = tcp_server st" "tcp_now st' = tcp_now st"
  | (changed) i t where "i < 4" "sockets st' = (sockets st)[i := t]" "tcp_now st' = tcp_now st"
      "sk_state (sockets st ! i) \<noteq> TCP_CLOSED \<or> 0 < i"
      "tcp_edge (sk_state (sockets st ! i)) (sk_state t)"
      "0 < i \<longrightarrow> conn_ok t" "i = 0 \<longrightarrow> listener_ok t"
      "socket_match remote_ip (th_src_port (read_tcp_header packet)) (th_dst_port (read_tcp_header packet)) False (sockets st ! i)
         \<or> sk_state (sockets st ! i) = TCP_CLOSED \<and> has_flag (th_flags (read_tcp_header packet)) TCP_FLAG_SYN"
proof (cases "length packet < 20")
  case True
  with assms(1) unchanged show thesis by (simp add: tcp_receive_def)
next
  case False
  let ?th = "read_tcp_header packet"
  obtain found socks where sf: "socket_for ?th remote_ip (tcp_now st) (sockets st) = (found, socks)" by force
  from sf tcp_invD(1) [OF assms(2)] show thesis
  proof (cases rule: socket_for_cases)
    case (known i)
    let ?s = "sockets st ! i"
    obtain t sv where t: "socket_segment ?th (tcp_payload packet)
        (?s\<lparr>sk_remote_ip := if sk_remote_ip ?s = 0 then remote_ip else sk_remote_ip ?s, sk_last_activity := tcp_now st\<rparr>)
        (tcp_server st) = Some (t, sv, out)" "sockets st' = (sockets st)[i := t]" "tcp_now st' = tcp_now st"
      using assms(1) False known sf by (auto simp: tcp_receive_def Let_def split: if_splits)
    have ok: "0 < i \<longrightarrow> conn_ok ?s" "i = 0 \<longrightarrow> listener_ok ?s" "sk_state ?s \<noteq> TCP_CLOSED"
      using tcp_invD [OF assms(2)] known(3,4) by (auto simp: socket_match_def)
    then have "conn_ok ?s \<or> listener_ok ?s" by blast
    note m = touched_ok [OF t(1) this]
    show thesis using m ok t(2,3) known by (intro changed [of i t]) auto
  next
    case (fresh i l)
    let ?s = "opened_socket ?th remote_ip (tcp_now st) i"
    have len: "length (sockets st) = 4" using tcp_invD(1) [OF assms(2)] .
    then obtain t sv where t: "socket_segment ?th (tcp_payload packet)
        (?s\<lparr>sk_remote_ip := if sk_remote_ip ?s = 0 then remote_ip else sk_remote_ip ?s, sk_last_activity := tcp_now st\<rparr>)
        (tcp_server st) = Some (t, sv, out)" "sockets st' = (sockets st)[i := t]" "tcp_now st' = tcp_now st"
      using assms(1) False fresh(1,2,5) sf by (auto simp: tcp_receive_def Let_def split: if_splits)
    have i: "0 < i" using tcp_invD(2) [OF assms(2)] fresh(3) by (cases i) (auto simp: listener_ok_def)
    have "l = 0" using tcp_invD(3) [OF assms(2), of l] fresh(6,7) by (cases l) (auto simp: conn_ok_def live_state_def)
    then have "th_dst_port ?th = HTTP_PORT" using tcp_invD(2) [OF assms(2)] fresh(8) by (simp add: listener_ok_def)
    note o = opened_ok [OF t(1) this]
    show thesis using o t(2,3) fresh i by (intro changed [of i t]) (auto intro: tcp_edge.opened)
  next
    case none
    with assms(1) False sf unchanged show thesis by (simp add: tcp_receive_def Let_def)
  qed
qed

lemma retransmit_fields: "sk_state (fst (retransmit now s)) = sk_state s" "sk_rx (fst (retransmit now s)) = sk_rx s"
  "conn_ok (fst (retransmit now s)) = conn_ok s" "listener_ok (fst (retransmit now s)) = listener_ok s"
  by (simp_all add: retransmit_def conn_ok_def listener_ok_def)

lemma step_states:
  assumes "tcp_step st out st'" "tcp_inv st" "i < 4"
  shows "tcp_edge (sk_state (sockets st ! i)) (sk_state (sockets st' ! i))"
  using assms(1)
proof (cases rule: tcp_step.cases)
  case (received packet remote_ip)
  from received assms(2) show ?thesis
  proof (cases rule: receive_cases)
    case (changed k t)
    then show ?thesis
      using tcp_invD(1) [OF assms(2)] by (cases "i = k") (auto intro: tcp_edge.stay)
  qed (simp add: tcp_edge.stay)
next
  case ticked
  then show ?thesis
    using tcp_invD(1) [OF assms(2)] assms(3)
    by (auto simp: tcp_periodic_def Let_def retransmit_fields intro: tcp_edge.stay)
qed

lemma step_inv: "tcp_step st out st' \<Longrightarrow> tcp_inv st \<Longrightarrow> tcp_inv st'"
proof (erule tcp_stepE)
  fix packet remote_ip
  assume r: "tcp_receive packet remote_ip st = Some (st', out)" and inv: "tcp_inv st"
  note d = tcp_invD [OF inv]
  from r inv show "tcp_inv st'"
  proof (cases rule: receive_cases)
    case unchanged
    with d show ?thesis by (intro tcp_invI) simp_all
  next
    case (changed i t)
    show ?thesis
    proof (rule tcp_invI)
      show "length (sockets st') = 4" using changed(2) d(1) by simp
      show "listener_ok (sockets st' ! 0)" using changed(1,2,7) d(1,2) by (cases "i = 0") simp_all
      show "conn_ok (sockets st' ! j)" if "0 < j" "j < 4" for j
        using changed(1,2,6) d(1) d(3) [OF that] that by (cases "i = j") simp_all
    qed
  qed
next
  assume p: "tcp_periodic st = (st', out)" and inv: "tcp_inv st"
  note d = tcp_invD [OF inv]
  have "sockets st' = map (\<lambda>s. fst (retransmit (tcp_now st + 1) s)) (sockets st)"
    using p by (auto simp: tcp_periodic_def Let_def)
  with d show "tcp_inv st'" by (intro tcp_invI) (auto simp: retransmit_fields)
qed

lemma reach_inv: "tcp_reach st \<Longrightarrow> tcp_inv st"
  by (induction rule: tcp_reach.induct) (auto intro: tcp_init_inv step_inv)

text \<open>The slots that wait for a close that never comes.\<close>

inductive tcp_runs :: "tcp \<Rightarrow> tcp \<Rightarrow> bool" where
  none: "tcp_runs st st"
| more: "tcp_runs st st' \<Longrightarrow> tcp_step st' out st'' \<Longrightarrow> tcp_runs st st''"

lemma timewait_stays:
  assumes "tcp_runs st st'" "tcp_inv st" "i < 4" "sk_state (sockets st ! i) = TCP_TIME_WAIT"
  shows "tcp_inv st' \<and> sk_state (sockets st' ! i) = TCP_TIME_WAIT"
  using assms
proof (induction rule: tcp_runs.induct)
  case (more st st' out st'')
  then have i: "tcp_inv st'" "sk_state (sockets st' ! i) = TCP_TIME_WAIT" by simp_all
  with step_states [OF more.hyps(2) i(1) more.prems(2)] step_inv [OF more.hyps(2) i(1)] show ?case
    by (auto elim: edge_from_timewait)
qed simp

lemma exhausted_refuses:
  assumes "tcp_inv st" "\<And>i. 0 < i \<Longrightarrow> i < 4 \<Longrightarrow> sk_state (sockets st ! i) = TCP_TIME_WAIT"
    "20 \<le> length packet" "has_flag (th_flags (read_tcp_header packet)) TCP_FLAG_SYN"
    "\<not> has_flag (th_flags (read_tcp_header packet)) TCP_FLAG_RST"
    "\<And>i. i < 4 \<Longrightarrow> \<not> socket_match remote_ip (th_src_port (read_tcp_header packet))
        (th_dst_port (read_tcp_header packet)) False (sockets st ! i)"
  shows "tcp_receive packet remote_ip st = Some (st, [reset_segment (read_tcp_header packet) remote_ip])"
proof -
  have "sk_state (sockets st ! i) \<noteq> TCP_CLOSED" if "i < 4" for i
    using tcp_invD(2) [OF assms(1)] assms(2) [of i] that by (cases i) (auto simp: listener_ok_def)
  then have "socket_alloc (sockets st) = None"
    by (simp add: socket_alloc_def find_upt(2) TCP_MAX_SOCKETS_def)
  moreover have "socket_lookup remote_ip (th_src_port (read_tcp_header packet)) (th_dst_port (read_tcp_header packet)) False
      (sockets st) = None"
    using assms(6) by (simp add: socket_lookup_def find_upt(2) TCP_MAX_SOCKETS_def)
  ultimately show ?thesis using assms(3-5) by (simp add: tcp_receive_def socket_for_def Let_def)
qed

section \<open>Requests over a connection\<close>

text \<open>A blank line inside the text.\<close>

definition blank_line :: "string \<Rightarrow> nat \<Rightarrow> bool" where
  "blank_line rx i \<longleftrightarrow> i + 3 < length rx \<and> crlf_at rx i \<and> crlf_at rx (i + 2)"

lemma seek_found:
  "seek P n i < n \<Longrightarrow> P (seek P n i)"
  "i \<le> j \<Longrightarrow> j < seek P n i \<Longrightarrow> \<not> P j"
  "i \<le> n \<Longrightarrow> seek P n i \<le> n"
proof -
  have "(seek P n i < n \<longrightarrow> P (seek P n i)) \<and> (\<forall>j. i \<le> j \<and> j < seek P n i \<longrightarrow> \<not> P j) \<and> (i \<le> n \<longrightarrow> seek P n i \<le> n)"
  proof (induction P n i rule: seek.induct)
    case (1 P n i)
    show ?case
    proof (cases "i < n \<and> \<not> P i")
      case True
      then have "seek P n i = seek P n (Suc i)" by (subst seek.simps) simp
      with 1 True show ?thesis by (auto simp: le_Suc_eq Suc_le_eq intro: le_neq_implies_less)
    next
      case False
      then have "seek P n i = i" by (subst seek.simps) auto
      with False show ?thesis by auto
    qed
  qed
  then show "seek P n i < n \<Longrightarrow> P (seek P n i)"
    "i \<le> j \<Longrightarrow> j < seek P n i \<Longrightarrow> \<not> P j" "i \<le> n \<Longrightarrow> seek P n i \<le> n" by blast+
qed

lemma request_end_None: "request_end rx = None \<longleftrightarrow> (\<forall>i. \<not> blank_line rx i)"
  and request_end_Some: "request_end rx = Some n \<Longrightarrow> 4 \<le> n \<and> n \<le> length rx \<and> blank_line rx (n - 4) \<and> (\<forall>i < n - 4. \<not> blank_line rx i)"
proof -
  define k where "k = seek (\<lambda>i. crlf_at rx i \<and> crlf_at rx (i + 2)) (length rx - 3) 0"
  have e: "request_end rx = (if k + 3 < length rx then Some (k + 4) else None)"
    by (simp add: request_end_def k_def)
  have k: "k < length rx - 3 \<Longrightarrow> crlf_at rx k \<and> crlf_at rx (k + 2)"
    "\<And>j. j < k \<Longrightarrow> \<not> (crlf_at rx j \<and> crlf_at rx (j + 2))" "k \<le> length rx - 3"
    using seek_found(1) [of "\<lambda>i. crlf_at rx i \<and> crlf_at rx (i + 2)" "length rx - 3" 0]
      seek_found(2) [of 0 _ "\<lambda>i. crlf_at rx i \<and> crlf_at rx (i + 2)" "length rx - 3"]
      seek_found(3) [of 0 "length rx - 3" "\<lambda>i. crlf_at rx i \<and> crlf_at rx (i + 2)"]
    unfolding k_def by auto
  show "request_end rx = None \<longleftrightarrow> (\<forall>i. \<not> blank_line rx i)"
    using e k by (auto simp: blank_line_def) (meson less_diff_conv not_less order.strict_trans1)+
  show "request_end rx = Some n \<Longrightarrow> 4 \<le> n \<and> n \<le> length rx \<and> blank_line rx (n - 4) \<and> (\<forall>i < n - 4. \<not> blank_line rx i)"
    using e k by (auto simp: blank_line_def split: if_splits)
qed

lemma blank_line_append: "blank_line xs i \<Longrightarrow> blank_line (xs @ ys) i"
  by (auto simp: blank_line_def crlf_at_def chr_at_def nth_append split: if_splits)

lemma request_end_prefix: "request_end (xs @ ys) = None \<Longrightarrow> request_end xs = None"
  using blank_line_append by (auto simp: request_end_None)

text \<open>The parser never sees more than the headers.\<close>

lemma parsed_without_body:
  assumes "request_end rx = Some n" "http_parse_request rx n = Some req"
  shows "rq_body_length req = 0"
proof -
  have "n \<le> i + 4" if "blank_at rx n i" for i
  proof (rule ccontr)
    assume "\<not> n \<le> i + 4"
    moreover have "blank_line rx i" using that request_end_Some [OF assms(1)] by (auto simp: blank_at_def blank_line_def)
    ultimately show False using request_end_Some [OF assms(1)] by simp
  qed
  from http_cut_no_body [OF assms(2) this] show ?thesis by blast
qed

text \<open>Data segments as the stream of a connection: acknowledging, neither opening nor closing it.\<close>

definition data_segment :: "tcp_header \<Rightarrow> bool" where
  "data_segment th \<longleftrightarrow> has_flag (th_flags th) TCP_FLAG_ACK \<and> \<not> has_flag (th_flags th) TCP_FLAG_SYN \<and>
     \<not> has_flag (th_flags th) TCP_FLAG_FIN"

fun feed :: "(tcp_header \<times> u8 list) list \<Rightarrow> tcp_socket \<Rightarrow> server \<Rightarrow> (tcp_socket \<times> server \<times> segment list) option" where
  "feed [] s sv = Some (s, sv, [])"
| "feed ((th, payload) # segs) s sv =
     Option.bind (socket_segment th payload s sv) (\<lambda>(s, sv, out).
       map_option (\<lambda>(s, sv, out'). (s, sv, out @ out')) (feed segs s sv))"

lemma data_incomplete:
  assumes "data_segment th" "payload \<noteq> []" "sk_state s = TCP_ESTABLISHED"
    "length (sk_rx s) + length payload < TCP_RX_BUF_SIZE" "request_end (to_string (sk_rx s @ payload)) = None"
  shows "socket_segment th payload s sv =
    Some (s\<lparr>sk_ack := th_seq th + of_nat (length payload), sk_rx := sk_rx s @ payload\<rparr>, sv,
      [tcp_send_ctrl (s\<lparr>sk_ack := th_seq th + of_nat (length payload)\<rparr>) TCP_FLAG_ACK])"
  using assms
  by (simp add: socket_segment_def established_segment_def established_data_def data_segment_def Let_def tcp_send_ctrl_def)

lemma data_complete:
  assumes "data_segment th" "payload \<noteq> []" "sk_state s = TCP_ESTABLISHED"
    "length (sk_rx s) + length payload < TCP_RX_BUF_SIZE" "request_end (to_string (sk_rx s @ payload)) = Some n"
  shows "socket_segment th payload s sv =
    map_option (\<lambda>(t, sv, out).
        (t, sv, tcp_send_ctrl (s\<lparr>sk_ack := th_seq th + of_nat (length payload)\<rparr>) TCP_FLAG_ACK # out))
      (finish_connection (s\<lparr>sk_ack := th_seq th + of_nat (length payload), sk_rx := sk_rx s @ payload\<rparr>) n sv)"
  using assms
  by (simp add: socket_segment_def established_segment_def established_data_def data_segment_def Let_def tcp_send_ctrl_def)

lemma feed_collects:
  assumes "segs \<noteq> []" "\<forall>(th, p) \<in> set segs. data_segment th \<and> p \<noteq> []" "sk_state s = TCP_ESTABLISHED"
    "length (sk_rx s) + length (concat (map snd segs)) < TCP_RX_BUF_SIZE"
    "request_end (to_string (sk_rx s @ concat (map snd (butlast segs)))) = None"
    "request_end (to_string (sk_rx s @ concat (map snd segs))) = Some n"
  shows "\<exists>acks. length acks = length segs \<and> (\<forall>a \<in> set acks. sg_payload a = [] \<and> sg_flags a = TCP_FLAG_ACK) \<and>
    feed segs s sv = map_option (\<lambda>(t, sv, out). (t, sv, acks @ out))
      (finish_connection (s\<lparr>sk_ack := th_seq (fst (last segs)) + of_nat (length (snd (last segs))),
         sk_rx := sk_rx s @ concat (map snd segs)\<rparr>) n sv)"
  using assms
proof (induction segs arbitrary: s)
  case (Cons seg segs)
  obtain th p where seg: "seg = (th, p)" by force
  have d: "data_segment th" "p \<noteq> []" "length (sk_rx s) + length p < TCP_RX_BUF_SIZE"
    using Cons.prems(2,4) seg by auto
  let ?a = "tcp_send_ctrl (s\<lparr>sk_ack := th_seq th + of_nat (length p)\<rparr>) TCP_FLAG_ACK"
  have a: "sg_payload ?a = []" "sg_flags ?a = TCP_FLAG_ACK" by (simp_all add: tcp_send_ctrl_def)
  show ?case
  proof (cases "segs = []")
    case True
    have "request_end (to_string (sk_rx s @ p)) = Some n" using Cons.prems(6) seg True by simp
    from data_complete [OF d(1,2) Cons.prems(3) d(3) this] show ?thesis
      using a by (intro exI [of _ "[?a]"])
        (simp add: seg True option.map_comp bind_map_option comp_def split_beta,
         cases "finish_connection (s\<lparr>sk_ack := th_seq th + of_nat (length p), sk_rx := sk_rx s @ p\<rparr>) n sv"; simp add: split_beta)
  next
    case False
    let ?s = "s\<lparr>sk_ack := th_seq th + of_nat (length p), sk_rx := sk_rx s @ p\<rparr>"
    have "request_end (to_string ((sk_rx s @ p) @ concat (map snd (butlast segs)))) = None"
      using Cons.prems(5) seg False by simp
    then have none: "request_end (to_string (sk_rx s @ p)) = None"
      using request_end_prefix [of "to_string (sk_rx s @ p)"] unfolding to_string_def map_append by metis
    note step = data_incomplete [OF d(1,2) Cons.prems(3) d(3) none]
    have "\<exists>acks. length acks = length segs \<and> (\<forall>a \<in> set acks. sg_payload a = [] \<and> sg_flags a = TCP_FLAG_ACK) \<and>
      feed segs ?s sv = map_option (\<lambda>(t, sv, out). (t, sv, acks @ out))
        (finish_connection (?s\<lparr>sk_ack := th_seq (fst (last segs)) + of_nat (length (snd (last segs))),
           sk_rx := sk_rx ?s @ concat (map snd segs)\<rparr>) n sv)"
      using Cons.prems seg False by (intro Cons.IH) auto
    then obtain acks where acks: "length acks = length segs" "\<forall>a \<in> set acks. sg_payload a = [] \<and> sg_flags a = TCP_FLAG_ACK"
      "feed segs ?s sv = map_option (\<lambda>(t, sv, out). (t, sv, acks @ out))
        (finish_connection (?s\<lparr>sk_ack := th_seq (fst (last segs)) + of_nat (length (snd (last segs))),
           sk_rx := sk_rx ?s @ concat (map snd segs)\<rparr>) n sv)" by blast
    show ?thesis
      using acks a False
      by (intro exI [of _ "?a # acks"]) (simp add: seg step option.map_comp comp_def split_beta)
  qed
qed simp

section \<open>Results\<close>

definition boot_tcp :: tcp where
  "boot_tcp = tcp_init \<lparr>sockets = [], tcp_now = 0, tcp_server = (boot_api_context, boot_heap)\<rparr>"

text \<open>A \<^verbatim>\<open>SYN\<close> from port 40000 to the HTTP port.\<close>

definition syn_packet :: "u8 list" where
  "syn_packet = [0x9C, 0x40, 0x1F, 0x90, 0, 0, 0, 7, 0, 0, 0, 0, 0x50, 0x02, 0x10, 0, 0, 0, 0, 0]"

text \<open>
  \<^bold>\<open>C9.\<close> Whatever packets arrive and however often the clock ticks, socket 0 listens on the
  HTTP port for ever, the other three are in one of seven states (never in \<^verbatim>\<open>SYN_SENT\<close>,
  \<^verbatim>\<open>CLOSING\<close> or \<^verbatim>\<open>LAST_ACK\<close>, and never listening), belong to the HTTP
  port when in use, and no receive buffer is ever full.
\<close>

theorem tcp_sockets_invariant:
  assumes "tcp_reach st"
  shows "\<exists>l a b c. sockets st = [l, a, b, c] \<and> listener_ok l \<and> conn_ok a \<and> conn_ok b \<and> conn_ok c"
  using reach_inv [OF assms] unfolding tcp_inv_def .

theorem tcp_sockets_invariant_witness:
  "\<exists>l a b c. sockets (fst (tcp_periodic boot_tcp)) = [l, a, b, c] \<and> listener_ok l \<and> conn_ok a"
proof -
  have "tcp_reach boot_tcp" unfolding boot_tcp_def by (rule tcp_reach.start)
  moreover have "tcp_step boot_tcp (snd (tcp_periodic boot_tcp)) (fst (tcp_periodic boot_tcp))"
    by (rule tcp_step.ticked) simp
  ultimately have "tcp_reach (fst (tcp_periodic boot_tcp))" by (rule tcp_reach.step)
  from tcp_sockets_invariant [OF this] show ?thesis by blast
qed

text \<open>
  \<^bold>\<open>C8.\<close> The sockets refine the abstract machine: in every reachable state, whatever one
  packet or one tick does to the four sockets, each of them stays in its state or follows one edge of
  \<open>tcp_edge\<close>.
\<close>

theorem tcp_follows_machine:
  assumes "tcp_reach st" "tcp_step st out st'" "i < 4"
  shows "tcp_edge (sk_state (sockets st ! i)) (sk_state (sockets st' ! i))"
  using assms by (intro step_states reach_inv)

theorem tcp_follows_machine_witness:
  "\<exists>st' out. tcp_receive syn_packet 0x0A000202 boot_tcp = Some (st', out) \<and>
     tcp_edge TCP_CLOSED (sk_state (sockets st' ! 1)) \<and> sk_state (sockets st' ! 1) = TCP_SYN_RECEIVED"
proof -
  have r: "tcp_reach boot_tcp" unfolding boot_tcp_def by (rule tcp_reach.start)
  have c: "map_option (\<lambda>(st, out). map sk_state (sockets st)) (tcp_receive syn_packet 0x0A000202 boot_tcp)
      = Some [TCP_LISTEN, TCP_SYN_RECEIVED, TCP_CLOSED, TCP_CLOSED]" "sk_state (sockets boot_tcp ! 1) = TCP_CLOSED"
    by code_simp+
  then obtain st' out where s: "tcp_receive syn_packet 0x0A000202 boot_tcp = Some (st', out)"
    "map sk_state (sockets st') = [TCP_LISTEN, TCP_SYN_RECEIVED, TCP_CLOSED, TCP_CLOSED]" by auto
  then have "sk_state (sockets st' ! 1) = TCP_SYN_RECEIVED" by (cases "sockets st'") (auto simp: Cons_eq_map_conv)
  with tcp_follows_machine [OF r tcp_step.received [OF s(1)], of 1] s(1) c(2) show ?thesis by auto
qed

text \<open>
  \<^bold>\<open>C32.\<close> No packet and no tick ever ends \<^verbatim>\<open>TIME_WAIT\<close> (which a socket
  enters when the peer closes before it has acknowledged the server's \<^verbatim>\<open>FIN\<close>). Once the
  three connections are in it, in every state the server can get to from there a \<^verbatim>\<open>SYN\<close>
  that belongs to no connection is answered with \<^verbatim>\<open>RST\<close> and changes nothing.
\<close>

theorem tcp_exhaustion_is_permanent:
  assumes "tcp_inv st" "\<forall>i \<in> {1, 2, 3}. sk_state (sockets st ! i) = TCP_TIME_WAIT" "tcp_runs st st'"
    "20 \<le> length packet" "th_flags (read_tcp_header packet) = TCP_FLAG_SYN"
    "\<forall>s \<in> set (sockets st'). \<not> socket_match remote_ip (th_src_port (read_tcp_header packet))
        (th_dst_port (read_tcp_header packet)) False s"
  shows "tcp_receive packet remote_ip st' = Some (st', [reset_segment (read_tcp_header packet) remote_ip])"
proof -
  have i: "tcp_inv st'" "sk_state (sockets st' ! j) = TCP_TIME_WAIT" if "0 < j" "j < 4" for j
  proof -
    have "j = 1 \<or> j = 2 \<or> j = 3" using that by arith
    then have "sk_state (sockets st ! j) = TCP_TIME_WAIT" using assms(2) by auto
    from timewait_stays [OF assms(3,1) that(2) this] show "tcp_inv st'" "sk_state (sockets st' ! j) = TCP_TIME_WAIT" by auto
  qed
  from i(1) [of 1] have inv: "tcp_inv st'" by simp
  have "has_flag (th_flags (read_tcp_header packet)) TCP_FLAG_SYN" "\<not> has_flag (th_flags (read_tcp_header packet)) TCP_FLAG_RST"
    unfolding assms(5) by (simp_all add: has_flag_def tcp_flags)
  then show ?thesis
    using assms(4,6) i(2) tcp_invD(1) [OF inv] by (intro exhausted_refuses [OF inv]) auto
qed

theorem tcp_exhaustion_is_permanent_witness:
  "\<exists>st. tcp_inv st \<and> tcp_receive syn_packet 0x0A000202 st = Some (st, [reset_segment (read_tcp_header syn_packet) 0x0A000202])"
proof -
  let ?w = "zero_socket\<lparr>sk_state := TCP_TIME_WAIT, sk_local_port := HTTP_PORT, sk_remote_port := 1\<rparr>"
  let ?l = "zero_socket\<lparr>sk_state := TCP_LISTEN, sk_local_port := HTTP_PORT\<rparr>"
  let ?st = "boot_tcp\<lparr>sockets := [?l, ?w, ?w, ?w]\<rparr>"
  have inv: "tcp_inv ?st"
    by (simp add: tcp_inv_def listener_ok_def conn_ok_def live_state_def zero_socket_def TCP_RX_BUF_SIZE_def)
  have f: "th_flags (read_tcp_header syn_packet) = TCP_FLAG_SYN" "th_src_port (read_tcp_header syn_packet) = 40000"
    "20 \<le> length syn_packet" by code_simp+
  then have "\<forall>s \<in> set (sockets ?st). \<not> socket_match 0x0A000202 (th_src_port (read_tcp_header syn_packet))
        (th_dst_port (read_tcp_header syn_packet)) False s"
    by (simp add: socket_match_def zero_socket_def)
  from tcp_exhaustion_is_permanent [OF inv _ tcp_runs.none f(3,1) this] inv show ?thesis by auto
qed

text \<open>
  \<^bold>\<open>C12.\<close> How a request is cut into segments does not matter: on an established connection with
  an empty buffer, any sequence of non-empty data segments of less than 2,048 bytes in all, the last of
  which completes the blank line, gives one empty acknowledgement for each segment and then exactly what
  one segment with all the bytes would give: the response to the concatenation, and the close.
\<close>

theorem tcp_request_in_any_segmentation:
  assumes "segs \<noteq> []" "\<forall>(th, p) \<in> set segs. data_segment th \<and> p \<noteq> []" "sk_state s = TCP_ESTABLISHED" "sk_rx s = []"
    "length (concat (map snd segs)) < TCP_RX_BUF_SIZE"
    "request_end (to_string (concat (map snd (butlast segs)))) = None"
    "request_end (to_string (concat (map snd segs))) = Some n"
  shows "\<exists>acks. length acks = length segs \<and> (\<forall>a \<in> set acks. sg_payload a = [] \<and> sg_flags a = TCP_FLAG_ACK) \<and>
    feed segs s sv = map_option (\<lambda>(t, sv, out). (t, sv, acks @ out))
      (finish_connection (s\<lparr>sk_ack := th_seq (fst (last segs)) + of_nat (length (snd (last segs))),
         sk_rx := concat (map snd segs)\<rparr>) n sv)"
  using feed_collects [OF assms(1-3), of n sv] assms(4-7) by simp

theorem tcp_request_in_any_segmentation_witness:
  "\<exists>acks. length acks = 2 \<and>
    feed [(\<lparr>th_src_port = 1, th_dst_port = 8080, th_seq = 9, th_ack = 1, th_data_offset = 80, th_flags = TCP_FLAG_ACK\<rparr>, to_bytes (''GET /health HTTP/1.0'' @ [CR])),
        (\<lparr>th_src_port = 1, th_dst_port = 8080, th_seq = 30, th_ack = 1, th_data_offset = 80, th_flags = TCP_FLAG_ACK\<rparr>, to_bytes [LF, CR, LF])]
      (zero_socket\<lparr>sk_state := TCP_ESTABLISHED\<rparr>) (boot_api_context, boot_heap) =
    map_option (\<lambda>(t, sv, out). (t, sv, acks @ out))
      (finish_connection (zero_socket\<lparr>sk_state := TCP_ESTABLISHED, sk_ack := 33,
         sk_rx := to_bytes (''GET /health HTTP/1.0'' @ crlf @ crlf)\<rparr>) 24 (boot_api_context, boot_heap))"
proof -
  let ?h = "\<lambda>n. \<lparr>th_src_port = 1, th_dst_port = 8080, th_seq = n, th_ack = 1, th_data_offset = 80, th_flags = TCP_FLAG_ACK\<rparr>"
  let ?segs = "[(?h 9, to_bytes (''GET /health HTTP/1.0'' @ [CR])), (?h 30, to_bytes [LF, CR, LF])]"
  let ?s = "zero_socket\<lparr>sk_state := TCP_ESTABLISHED\<rparr>"
  have d: "\<forall>(th, p) \<in> set ?segs. data_segment th \<and> p \<noteq> []"
    by (simp add: data_segment_def has_flag_def tcp_flags to_bytes_def)
  have b: "concat (map snd ?segs) = to_bytes (''GET /health HTTP/1.0'' @ crlf @ crlf)"
    "length (concat (map snd ?segs)) < TCP_RX_BUF_SIZE"
    by (simp_all add: to_bytes_def TCP_RX_BUF_SIZE_def)
  have r: "request_end (to_string (concat (map snd (butlast ?segs)))) = None"
    "request_end (to_string (concat (map snd ?segs))) = Some 24" by code_simp+
  have l: "th_seq (fst (last ?segs)) + of_nat (length (snd (last ?segs))) = 33" by code_simp
  have st: "sk_state ?s = TCP_ESTABLISHED" "sk_rx ?s = []" by (simp_all add: zero_socket_def)
  have n: "length ?segs = 2" "?segs \<noteq> []" by simp_all
  from tcp_request_in_any_segmentation [OF n(2) d st b(2) r, of "(boot_api_context, boot_heap)"]
  show ?thesis unfolding l b(1) n(1) by blast
qed

text \<open>
  \<^bold>\<open>C33.\<close> Over TCP no \<^verbatim>\<open>POST\<close> endpoint can be used: the request is cut at its
  blank line before it is parsed, so its body is always empty, and whatever the client sends behind the
  headers it is told, with status 400, that the body is empty.
\<close>

theorem tcp_post_body_is_lost:
  assumes "request_end rx = Some n" "http_parse_request rx n = Some req" "rq_method req = ''POST''"
    "rq_path req \<in> {''/v1/completions'', ''/v1/chat/completions'', ''/v1/embeddings'', ''/tokenize'', ''/detokenize''}"
  shows "serve_http rx n sv =
    Some (json_response 400 (error_doc ''Request body is empty'' [] ''empty_body'') zero_response, sv)"
proof -
  obtain g h where sv: "sv = (g, h)" by force
  have any: "json_response c d (r\<lparr>rs_headers := x\<rparr>) = json_response c d r" for c d r x
    by (simp add: json_response_def)
  have empty: "with_post_body parse go req response sv =
      Some (0, json_response 400 (error_doc ''Request body is empty'' [] ''empty_body'') response, sv)" for parse go response sv
    using assms(3) parsed_without_body [OF assms(1,2)]
    by (simp add: with_post_body_def is_post_request_iff cstr_of_id fail_eq)
  from assms(4) show ?thesis
    unfolding serve_http_def assms(2) option.case
    by (auto simp: route_request_def str_eqn_iff cstr_of_id handler_defs empty any sv)
qed

theorem tcp_post_body_is_lost_witness:
  "serve_http (''POST /tokenize HTTP/1.0'' @ crlf @ crlf @ ''{}'') 27 (boot_api_context, boot_heap) =
    Some (json_response 400 (error_doc ''Request body is empty'' [] ''empty_body'') zero_response, (boot_api_context, boot_heap))"
proof -
  let ?rx = "''POST /tokenize HTTP/1.0'' @ crlf @ crlf @ ''{}''"
  have e: "request_end ?rx = Some 27" by code_simp
  have "map_option (\<lambda>r. (rq_method r, rq_path r)) (http_parse_request ?rx 27) = Some (''POST'', ''/tokenize'')"
    by code_simp
  then obtain req where "http_parse_request ?rx 27 = Some req" "rq_method req = ''POST''" "rq_path req = ''/tokenize''"
    by auto
  with tcp_post_body_is_lost [OF e this(1,2)] show ?thesis by simp
qed

end
