(* ===== verification/Pci.thy ===== *)
theory Pci
  imports NetBytes
begin

unbundle bit_operations_syntax

text \<open>
  \<^verbatim>\<open>src/network/pci.c\<close>: access to the PCI configuration space and the enumeration of the bus.

  The configuration space is hardware. Its answer to a read of the data port after a write of the address
  port is the argument \<open>inl\<close>, a function of the state \<open>d\<close> of the hardware and the address; its
  reaction to a write is the argument \<open>outl\<close>.
\<close>

definition PCI_VENDOR_ID :: u8 where "PCI_VENDOR_ID = 0x00"
definition PCI_DEVICE_ID :: u8 where "PCI_DEVICE_ID = 0x02"
definition PCI_COMMAND :: u8 where "PCI_COMMAND = 0x04"
definition PCI_CLASS_CODE :: u8 where "PCI_CLASS_CODE = 0x0B"
definition PCI_SUBCLASS :: u8 where "PCI_SUBCLASS = 0x0A"
definition PCI_HEADER_TYPE :: u8 where "PCI_HEADER_TYPE = 0x0E"
definition PCI_BASE_ADDRESS :: "nat \<Rightarrow> u8" where "PCI_BASE_ADDRESS n = 0x10 + 4 * of_nat n"
definition PCI_INTERRUPT_LINE :: u8 where "PCI_INTERRUPT_LINE = 0x3C"
definition PCI_INTERRUPT_PIN :: u8 where "PCI_INTERRUPT_PIN = 0x3D"

record pci_device =
  pd_vendor_id :: u16
  pd_device_id :: u16
  pd_bus :: u8
  pd_slot :: u8
  pd_func :: u8
  pd_class_code :: u8
  pd_subclass :: u8
  pd_header_type :: u8
  pd_bars :: "u32 list"
  pd_interrupt_line :: u8
  pd_interrupt_pin :: u8

section \<open>Configuration space\<close>

definition pci_address :: "u8 \<Rightarrow> u8 \<Rightarrow> u8 \<Rightarrow> u8 \<Rightarrow> u32" where
  "pci_address bus slot func offset =
     push_bit 31 1 OR push_bit 16 (ucast bus) OR push_bit 11 (ucast slot) OR push_bit 8 (ucast func) OR
     (ucast offset AND 0xFC)"

definition pci_config_read :: "('d \<Rightarrow> u32 \<Rightarrow> u32) \<Rightarrow> 'd \<Rightarrow> u8 \<Rightarrow> u8 \<Rightarrow> u8 \<Rightarrow> u8 \<Rightarrow> u32" where
  "pci_config_read inl d bus slot func offset = inl d (pci_address bus slot func offset)"

definition pci_config_write ::
  "('d \<Rightarrow> u32 \<Rightarrow> u32 \<Rightarrow> 'd) \<Rightarrow> 'd \<Rightarrow> u8 \<Rightarrow> u8 \<Rightarrow> u8 \<Rightarrow> u8 \<Rightarrow> u32 \<Rightarrow> 'd" where
  "pci_config_write outl d bus slot func offset value = outl d (pci_address bus slot func offset) value"

definition pci_read_dword :: "('d \<Rightarrow> u32 \<Rightarrow> u32) \<Rightarrow> 'd \<Rightarrow> u8 \<Rightarrow> u8 \<Rightarrow> u8 \<Rightarrow> u8 \<Rightarrow> u32" where
  "pci_read_dword = pci_config_read"

definition pci_read_word :: "('d \<Rightarrow> u32 \<Rightarrow> u32) \<Rightarrow> 'd \<Rightarrow> u8 \<Rightarrow> u8 \<Rightarrow> u8 \<Rightarrow> u8 \<Rightarrow> u16" where
  "pci_read_word inl d bus slot func offset =
     ucast (drop_bit (unat (offset AND 2) * 8) (pci_config_read inl d bus slot func offset) AND 0xFFFF)"

definition pci_read_byte :: "('d \<Rightarrow> u32 \<Rightarrow> u32) \<Rightarrow> 'd \<Rightarrow> u8 \<Rightarrow> u8 \<Rightarrow> u8 \<Rightarrow> u8 \<Rightarrow> u8" where
  "pci_read_byte inl d bus slot func offset =
     ucast (drop_bit (unat (offset AND 3) * 8) (pci_config_read inl d bus slot func offset) AND 0xFF)"

definition pci_write_dword ::
  "('d \<Rightarrow> u32 \<Rightarrow> u32 \<Rightarrow> 'd) \<Rightarrow> 'd \<Rightarrow> u8 \<Rightarrow> u8 \<Rightarrow> u8 \<Rightarrow> u8 \<Rightarrow> u32 \<Rightarrow> 'd" where
  "pci_write_dword = pci_config_write"

text \<open>Read, modify, write.\<close>

definition replace_bits :: "u32 \<Rightarrow> u32 \<Rightarrow> nat \<Rightarrow> u32 \<Rightarrow> u32" where
  "replace_bits msk v n tmp = (tmp AND NOT (push_bit n msk)) OR push_bit n v"

definition pci_write_word ::
  "('d \<Rightarrow> u32 \<Rightarrow> u32) \<Rightarrow> ('d \<Rightarrow> u32 \<Rightarrow> u32 \<Rightarrow> 'd) \<Rightarrow> 'd \<Rightarrow> u8 \<Rightarrow> u8 \<Rightarrow> u8 \<Rightarrow> u8 \<Rightarrow> u16 \<Rightarrow> 'd" where
  "pci_write_word inl outl d bus slot func offset value =
     pci_config_write outl d bus slot func offset
       (replace_bits 0xFFFF (ucast value) (unat (offset AND 2) * 8) (pci_config_read inl d bus slot func offset))"

definition pci_write_byte ::
  "('d \<Rightarrow> u32 \<Rightarrow> u32) \<Rightarrow> ('d \<Rightarrow> u32 \<Rightarrow> u32 \<Rightarrow> 'd) \<Rightarrow> 'd \<Rightarrow> u8 \<Rightarrow> u8 \<Rightarrow> u8 \<Rightarrow> u8 \<Rightarrow> u8 \<Rightarrow> 'd" where
  "pci_write_byte inl outl d bus slot func offset value =
     pci_config_write outl d bus slot func offset
       (replace_bits 0xFF (ucast value) (unat (offset AND 3) * 8) (pci_config_read inl d bus slot func offset))"

section \<open>Enumeration\<close>

definition pci_entry :: "('d \<Rightarrow> u32 \<Rightarrow> u32) \<Rightarrow> 'd \<Rightarrow> u8 \<Rightarrow> u8 \<Rightarrow> u8 \<Rightarrow> pci_device" where
  "pci_entry inl d bus slot func =
     \<lparr>pd_vendor_id = pci_read_word inl d bus slot func PCI_VENDOR_ID,
      pd_device_id = pci_read_word inl d bus slot func PCI_DEVICE_ID,
      pd_bus = bus, pd_slot = slot, pd_func = func,
      pd_class_code = pci_read_byte inl d bus slot func PCI_CLASS_CODE,
      pd_subclass = pci_read_byte inl d bus slot func PCI_SUBCLASS,
      pd_header_type = pci_read_byte inl d bus slot func PCI_HEADER_TYPE,
      pd_bars = map (\<lambda>n. pci_read_dword inl d bus slot func (PCI_BASE_ADDRESS n)) [0 ..< 6],
      pd_interrupt_line = pci_read_byte inl d bus slot func PCI_INTERRUPT_LINE,
      pd_interrupt_pin = pci_read_byte inl d bus slot func PCI_INTERRUPT_PIN\<rparr>"

text \<open>The loop over the functions of a slot, with its \<^verbatim>\<open>break\<close> and \<^verbatim>\<open>continue\<close>.\<close>

fun scan_funcs :: "('d \<Rightarrow> u32 \<Rightarrow> u32) \<Rightarrow> 'd \<Rightarrow> u8 \<Rightarrow> u8 \<Rightarrow> u8 list \<Rightarrow> pci_device list \<Rightarrow> pci_device list" where
  "scan_funcs inl d bus slot [] devs = devs"
| "scan_funcs inl d bus slot (func # funcs) devs =
     (if pci_read_word inl d bus slot func PCI_VENDOR_ID = 0xFFFF
      then if func = 0 then devs else scan_funcs inl d bus slot funcs devs
      else let devs = (if length devs < 32 then devs @ [pci_entry inl d bus slot func] else devs)
           in if func = 0 \<and> pci_read_byte inl d bus slot func PCI_HEADER_TYPE AND 0x80 = 0 then devs
              else scan_funcs inl d bus slot funcs devs)"

definition counter :: "nat \<Rightarrow> u8 list" where
  "counter n = map of_nat [0 ..< n]"

definition pci_enumerate_devices :: "('d \<Rightarrow> u32 \<Rightarrow> u32) \<Rightarrow> 'd \<Rightarrow> pci_device list" where
  "pci_enumerate_devices inl d =
     fold (\<lambda>bus. fold (\<lambda>slot. scan_funcs inl d bus slot (counter 8)) (counter 32)) (counter 255) []"

definition pci_find_device :: "u16 \<Rightarrow> u16 \<Rightarrow> pci_device list \<Rightarrow> pci_device option" where
  "pci_find_device vendor_id device_id devs =
     List.find (\<lambda>e. pd_vendor_id e = vendor_id \<and> pd_device_id e = device_id) devs"

section \<open>What is enumerated\<close>

definition present :: "('d \<Rightarrow> u32 \<Rightarrow> u32) \<Rightarrow> 'd \<Rightarrow> u8 \<Rightarrow> u8 \<Rightarrow> u8 \<Rightarrow> bool" where
  "present inl d bus slot func \<longleftrightarrow>
     pci_read_word inl d bus slot func PCI_VENDOR_ID \<noteq> 0xFFFF \<and>
     (func \<noteq> 0 \<longrightarrow> pci_read_word inl d bus slot 0 PCI_VENDOR_ID \<noteq> 0xFFFF \<and>
        pci_read_byte inl d bus slot 0 PCI_HEADER_TYPE AND 0x80 \<noteq> 0)"

definition slot_entries :: "('d \<Rightarrow> u32 \<Rightarrow> u32) \<Rightarrow> 'd \<Rightarrow> u8 \<Rightarrow> u8 \<Rightarrow> pci_device list" where
  "slot_entries inl d bus slot = map (pci_entry inl d bus slot) (filter (present inl d bus slot) (counter 8))"

lemma take_take_append: "take n (take n xs @ ys) = take n (xs @ ys)"
  by (simp add: min_def)

lemma take_more: "length devs \<le> 32 \<Longrightarrow> (if length devs < 32 then devs @ [x] else devs) = take 32 (devs @ [x])"
  by simp

lemma scan_rest:
  assumes "0 \<notin> set funcs" "length devs \<le> 32"
    "\<And>f. f \<in> set funcs \<Longrightarrow> present inl d bus slot f = (pci_read_word inl d bus slot f PCI_VENDOR_ID \<noteq> 0xFFFF)"
  shows "scan_funcs inl d bus slot funcs devs =
    take 32 (devs @ map (pci_entry inl d bus slot) (filter (present inl d bus slot) funcs))"
  using assms
proof (induction funcs arbitrary: devs)
  case (Cons f funcs)
  have "f \<noteq> 0" "0 \<notin> set funcs" using Cons.prems(1) by auto
  moreover have "length (take 32 (devs @ [x])) \<le> 32" for x :: pci_device by simp
  ultimately show ?case
    using Cons.prems Cons.IH [of "take 32 (devs @ [pci_entry inl d bus slot f])"] Cons.IH [of devs]
    by (simp only: scan_funcs.simps take_more Let_def) (simp add: take_take_append del: take_append)
qed simp

text \<open>One slot contributes the entries of its present functions, in the order of their numbers.\<close>

lemma counter_8: "counter 8 = [0, 1, 2, 3, 4, 5, 6, 7]"
  by (simp add: counter_def upt_conv_Cons)

lemma present_absent: "pci_read_word inl d bus slot 0 PCI_VENDOR_ID = 0xFFFF \<Longrightarrow> \<not> present inl d bus slot f"
  by (auto simp: present_def)

lemma present_single:
  "pci_read_byte inl d bus slot 0 PCI_HEADER_TYPE AND 0x80 = 0 \<Longrightarrow> f \<noteq> 0 \<Longrightarrow> \<not> present inl d bus slot f"
  by (auto simp: present_def)

lemma scan_slot:
  assumes "length devs \<le> 32"
  shows "scan_funcs inl d bus slot (counter 8) devs = take 32 (devs @ slot_entries inl d bus slot)"
proof (cases "pci_read_word inl d bus slot 0 PCI_VENDOR_ID = 0xFFFF")
  case True
  then show ?thesis
    using assms by (simp add: slot_entries_def present_absent counter_8)
next
  case False
  let ?devs = "take 32 (devs @ [pci_entry inl d bus slot 0])"
  have here: "present inl d bus slot 0" using False by (simp add: present_def)
  obtain fs where fs: "counter 8 = 0 # fs" "0 \<notin> set fs"
    by (simp add: counter_8)
  show ?thesis
  proof (cases "pci_read_byte inl d bus slot 0 PCI_HEADER_TYPE AND 0x80 = 0")
    case True
    have "filter (present inl d bus slot) fs = []"
      using present_single [OF True] fs(2) by (metis filter_False)
    then show ?thesis
      using assms False here True by (simp add: slot_entries_def fs(1) take_more)
  next
    case multi: False
    have "scan_funcs inl d bus slot fs ?devs =
      take 32 (?devs @ map (pci_entry inl d bus slot) (filter (present inl d bus slot) fs))"
      using False multi fs(2) by (intro scan_rest) (auto simp: present_def)
    moreover have "scan_funcs inl d bus slot (counter 8) devs = scan_funcs inl d bus slot fs ?devs"
      using assms False multi by (simp only: fs(1) scan_funcs.simps take_more Let_def) simp
    ultimately show ?thesis
      using here by (simp add: slot_entries_def fs(1) take_take_append del: take_append)
  qed
qed

lemma fold_takes:
  assumes "\<And>x devs. length devs \<le> 32 \<Longrightarrow> f x devs = take 32 (devs @ g x)" "length devs \<le> 32"
  shows "fold f xs devs = take 32 (devs @ concat (map g xs))"
  using assms(2)
proof (induction xs arbitrary: devs)
  case (Cons x xs)
  show ?case
    using Cons.IH [of "take 32 (devs @ g x)"] Cons.prems
    by (simp add: assms(1) take_take_append del: take_append)
qed simp

definition pci_entries :: "('d \<Rightarrow> u32 \<Rightarrow> u32) \<Rightarrow> 'd \<Rightarrow> pci_device list" where
  "pci_entries inl d =
     concat (map (\<lambda>bus. concat (map (slot_entries inl d bus) (counter 32))) (counter 255))"

lemma enumerate_entries: "pci_enumerate_devices inl d = take 32 (pci_entries inl d)"
proof -
  have slots: "fold (\<lambda>slot. scan_funcs inl d bus slot (counter 8)) (counter 32) devs =
      take 32 (devs @ concat (map (slot_entries inl d bus) (counter 32)))" if "length devs \<le> 32" for bus devs
    by (rule fold_takes) (use that in \<open>simp_all only: scan_slot\<close>)
  have "pci_enumerate_devices inl d = take 32 ([] @ pci_entries inl d)"
    unfolding pci_enumerate_devices_def pci_entries_def by (rule fold_takes) (use slots in simp_all)
  then show ?thesis by simp
qed

lemma set_counter: "n \<le> 256 \<Longrightarrow> set (counter n) = {b. unat b < n}"
proof -
  assume n: "n \<le> 256"
  have "b \<in> of_nat ` {0 ..< n}" if "unat b < n" for b :: u8
    using that by (intro image_eqI [of _ _ "unat b"]) simp_all
  moreover have "unat (of_nat k :: u8) < n" if "k < n" for k
    using that n by (simp add: unat_of_nat)
  ultimately show ?thesis
    by (auto simp: counter_def)
qed

lemma distinct_counter:
  assumes "n \<le> 256"
  shows "distinct (counter n)"
proof -
  have "unat (of_nat k :: u8) = k" if "k < n" for k
    using that assms by (simp add: unat_of_nat)
  then have "inj_on (of_nat :: nat \<Rightarrow> u8) {0 ..< n}"
    by (metis atLeastLessThan_iff inj_onI)
  then show ?thesis by (simp add: counter_def distinct_map)
qed

definition location :: "pci_device \<Rightarrow> u8 \<times> u8 \<times> u8" where
  "location e = (pd_bus e, pd_slot e, pd_func e)"

lemma location_entry [simp]: "location (pci_entry inl d bus slot func) = (bus, slot, func)"
  by (simp add: location_def pci_entry_def)

lemma distinct_concat_by:
  assumes "distinct xs" "\<And>x. x \<in> set xs \<Longrightarrow> distinct (map k (f x))"
    "\<And>x y. y \<in> set (f x) \<Longrightarrow> g (k y) = x"
  shows "distinct (map k (concat (map f xs)))"
  using assms(1,2)
proof (induction xs)
  case (Cons x xs)
  have "k y \<noteq> k z" if "y \<in> set (f x)" "z \<in> set (f w)" "w \<in> set xs" for y z w
    using assms(3) [OF that(1)] assms(3) [OF that(2)] that(3) Cons.prems(1) by auto
  then have "k ` set (f x) \<inter> k ` (\<Union>w\<in>set xs. set (f w)) = {}" by blast
  then show ?case using Cons by simp
qed simp

lemma distinct_entries: "distinct (map location (pci_entries inl d))"
  unfolding pci_entries_def
proof (rule distinct_concat_by [where g = fst])
  fix bus
  show "distinct (map location (concat (map (slot_entries inl d bus) (counter 32))))"
    by (rule distinct_concat_by [where g = "fst \<circ> snd"])
      (auto simp: slot_entries_def distinct_counter comp_def distinct_map intro: inj_onI)
qed (auto simp: slot_entries_def distinct_counter)

lemma in_entries:
  "e \<in> set (pci_entries inl d) \<longleftrightarrow>
     (\<exists>bus slot func. unat bus < 255 \<and> unat slot < 32 \<and> unat func < 8 \<and> present inl d bus slot func \<and>
        e = pci_entry inl d bus slot func)"
  by (auto simp: pci_entries_def slot_entries_def set_counter)

lemma find_device_None:
  "pci_find_device v i devs = None \<longleftrightarrow> (v, i) \<notin> (\<lambda>e. (pd_vendor_id e, pd_device_id e)) ` set devs"
  by (auto simp: pci_find_device_def find_None_iff)

text \<open>
  The enumeration lists the functions the bus has, each once: on every bus but bus 255, which the
  loop never reaches, and in every slot, function 0 when its vendor is not 0xFFFF and the others when function
  0 is there and says that the device has several. The table keeps the first 32 of them with their identifiers,
  class, base addresses and interrupt, and \<open>pci_find_device\<close> fails exactly when no entry of the table
  has the identifiers.
\<close>

theorem pci_enumeration:
  "pci_enumerate_devices inl d = take 32 (pci_entries inl d) \<and>
   (e \<in> set (pci_entries inl d) \<longleftrightarrow>
     (\<exists>bus slot func. unat bus < 255 \<and> unat slot < 32 \<and> unat func < 8 \<and> present inl d bus slot func \<and>
        e = pci_entry inl d bus slot func)) \<and>
   distinct (map location (pci_enumerate_devices inl d)) \<and>
   (pci_find_device v i (pci_enumerate_devices inl d) = None \<longleftrightarrow>
     (v, i) \<notin> (\<lambda>e. (pd_vendor_id e, pd_device_id e)) ` set (take 32 (pci_entries inl d)))"
  by (simp add: enumerate_entries in_entries find_device_None distinct_entries flip: take_map)

section \<open>Registers that keep what is written\<close>

lemma ones: "(0xFFFF :: u32) = mask 16" "(0xFF :: u32) = mask 8"
  by (simp_all add: mask_eq_exp_minus_1)

lemma bit_beyond: "bit (v :: u16) n \<Longrightarrow> n < 16"
  using bit_imp_le_length [of v n] by simp

lemma replace_read_same:
  "n \<in> {0, 16} \<Longrightarrow> (ucast (drop_bit n (replace_bits 0xFFFF (ucast (v :: u16)) n tmp) AND 0xFFFF) :: u16) = v"
  by (rule bit_eqI) (auto simp: replace_bits_def ones bit_simps)

lemma replace_read_other:
  "n \<in> {0, 16} \<Longrightarrow> m \<in> {0, 16} \<Longrightarrow> n \<noteq> m \<Longrightarrow>
     (ucast (drop_bit m (replace_bits 0xFFFF (ucast (v :: u16)) n tmp) AND 0xFFFF) :: u16) =
       ucast (drop_bit m tmp AND 0xFFFF)"
  by (rule bit_eqI) (auto simp: replace_bits_def ones bit_simps dest: bit_beyond)

lemma and_2: "(off :: u8) AND 2 = (if bit off 1 then 2 else 0)"
  by (rule bit_eqI) (auto simp: bit_simps bit_2_iff)

lemma half: "unat ((off :: u8) AND 2) * 8 \<in> {0, 16}"
  by (simp add: and_2)

lemma half_eq: "unat ((a :: u8) AND 2) * 8 = unat (b AND 2) * 8 \<longleftrightarrow> a AND 2 = b AND 2"
  by (simp add: and_2)

text \<open>
  Where the configuration space keeps what is written to it, \<open>pci_write_word\<close> is followed by
  reads of the written half word that give the value, and of every other half word, also the other one of the
  same register, that give what they gave before.
\<close>

theorem pci_write_word_read:
  assumes "\<And>d a b v. inl (outl d a v) b = (if a = b then v else inl d b)"
  shows "pci_read_word inl (pci_write_word inl outl d bus slot func off v) bus' slot' func' off' =
    (if pci_address bus slot func off = pci_address bus' slot' func' off' \<and> off AND 2 = off' AND 2
     then v else pci_read_word inl d bus' slot' func' off')"
  using half [of off] half [of off'] half_eq [of off off']
  by (auto simp: pci_read_word_def pci_write_word_def pci_config_read_def pci_config_write_def assms
      replace_read_same replace_read_other)

lemma pci_write_word_read_witness:
  "pci_read_word (\<lambda>f a. f a) (pci_write_word (\<lambda>f a. f a) (\<lambda>f a v. f(a := v)) (\<lambda>a. 0x80860107) 0 3 0 PCI_COMMAND 7)
     0 3 0 PCI_COMMAND = 7"
  by (subst pci_write_word_read) simp_all

end
