(* ===== verification/E1000.thy ===== *)
theory E1000
  imports Pci
begin

unbundle bit_operations_syntax

text \<open>
  \<^verbatim>\<open>src/network/e1000.c\<close>: the driver of the network card, two rings of 32 descriptors that the
  driver and the card share.

  The card is hardware. What the driver asks of it is a record \<open>hw\<close> of functions on its state
  \<open>'d\<close>: the two accesses to a register, the two accesses to the PCI configuration space, and the step
  \<open>hw_tick\<close> the card takes while the driver polls, which may also change the rings (DMA). The addresses
  of the static arrays are fields of the same record, because the linker chooses them.
\<close>

section \<open>State\<close>

record rx_desc =
  rd_buffer_addr :: u64
  rd_length :: u16
  rd_checksum :: u16
  rd_status :: u8
  rd_errors :: u8
  rd_special :: u16

record tx_desc =
  td_buffer_addr :: u64
  td_length :: u16
  td_cso :: u8
  td_command :: u8
  td_status :: u8
  td_css :: u8
  td_special :: u16

record rings =
  rx_desc_ring :: "rx_desc list"
  tx_desc_ring :: "tx_desc list"
  rx_buffers :: "u8 list list"
  tx_buffers :: "u8 list list"

record 'd nic =
  nic_devices :: "pci_device list"
  e1000_base :: u32
  nic_rings :: rings
  rx_head :: u16
  tx_tail :: u16
  nic_dev :: 'd

record 'd hardware =
  hw_read :: "'d \<Rightarrow> u32 \<Rightarrow> u32"
  hw_write :: "'d \<Rightarrow> u32 \<Rightarrow> u32 \<Rightarrow> 'd"
  hw_inl :: "'d \<Rightarrow> u32 \<Rightarrow> u32"
  hw_outl :: "'d \<Rightarrow> u32 \<Rightarrow> u32 \<Rightarrow> 'd"
  hw_tick :: "'d \<times> rings \<Rightarrow> 'd \<times> rings"
  rx_ring_addr :: u64
  tx_ring_addr :: u64
  rx_buffer_addr :: "nat \<Rightarrow> u64"
  tx_buffer_addr :: "nat \<Rightarrow> u64"

definition RX_DESC_COUNT :: nat where "RX_DESC_COUNT = 32"
definition TX_DESC_COUNT :: nat where "TX_DESC_COUNT = 32"
definition RX_BUFFER_SIZE :: nat where "RX_BUFFER_SIZE = 2048"
definition TX_BUFFER_SIZE :: nat where "TX_BUFFER_SIZE = 2048"

definition E1000_VENDOR_ID :: u16 where "E1000_VENDOR_ID = 0x8086"
definition E1000_DEVICE_ID :: u16 where "E1000_DEVICE_ID = 0x100E"
definition E1000_CTRL :: u32 where "E1000_CTRL = 0"
definition E1000_RCTRL :: u32 where "E1000_RCTRL = 0x100"
definition E1000_RXDESCLO :: u32 where "E1000_RXDESCLO = 0x2800"
definition E1000_RXDESCHI :: u32 where "E1000_RXDESCHI = 0x2804"
definition E1000_RXDESCLEN :: u32 where "E1000_RXDESCLEN = 0x2808"
definition E1000_RXDESCHEAD :: u32 where "E1000_RXDESCHEAD = 0x2810"
definition E1000_RXDESCTAIL :: u32 where "E1000_RXDESCTAIL = 0x2818"
definition E1000_RAL :: u32 where "E1000_RAL = 0x5400"
definition E1000_RAH :: u32 where "E1000_RAH = 0x5404"
definition E1000_TCTRL :: u32 where "E1000_TCTRL = 0x400"
definition E1000_TXDESCLO :: u32 where "E1000_TXDESCLO = 0x3800"
definition E1000_TXDESCHI :: u32 where "E1000_TXDESCHI = 0x3804"
definition E1000_TXDESCLEN :: u32 where "E1000_TXDESCLEN = 0x3808"
definition E1000_TXDESCHEAD :: u32 where "E1000_TXDESCHEAD = 0x3810"
definition E1000_TXDESCTAIL :: u32 where "E1000_TXDESCTAIL = 0x3818"

lemmas e1000_registers = E1000_CTRL_def E1000_RCTRL_def E1000_RXDESCLO_def E1000_RXDESCHI_def
  E1000_RXDESCLEN_def E1000_RXDESCHEAD_def E1000_RXDESCTAIL_def E1000_RAL_def E1000_RAH_def E1000_TCTRL_def
  E1000_TXDESCLO_def E1000_TXDESCHI_def E1000_TXDESCLEN_def E1000_TXDESCHEAD_def E1000_TXDESCTAIL_def

definition E1000_CTRL_SLU :: u32 where "E1000_CTRL_SLU = 0x40"
definition E1000_CTRL_RST :: u32 where "E1000_CTRL_RST = 0x04000000"
definition E1000_RAH_AV :: u32 where "E1000_RAH_AV = 0x80000000"
definition E1000_RXD_STAT_DD :: u8 where "E1000_RXD_STAT_DD = 1"
definition E1000_TXD_STAT_DD :: u8 where "E1000_TXD_STAT_DD = 1"

definition E1000_RCTL_EN :: u32 where "E1000_RCTL_EN = 0x02"
definition E1000_RCTL_SBP :: u32 where "E1000_RCTL_SBP = 0x04"
definition E1000_RCTL_UPE :: u32 where "E1000_RCTL_UPE = 0x08"
definition E1000_RCTL_MPE :: u32 where "E1000_RCTL_MPE = 0x10"
definition E1000_RCTL_LPE :: u32 where "E1000_RCTL_LPE = 0x20"
definition E1000_RCTL_LBM_NO :: u32 where "E1000_RCTL_LBM_NO = 0"
definition E1000_RCTL_RDMTS_HALF :: u32 where "E1000_RCTL_RDMTS_HALF = 0"
definition E1000_RCTL_MO_36 :: u32 where "E1000_RCTL_MO_36 = 0"
definition E1000_RCTL_BAM :: u32 where "E1000_RCTL_BAM = 0x8000"
definition E1000_RCTL_SECRC :: u32 where "E1000_RCTL_SECRC = 0x04000000"
definition E1000_RCTL_BSIZE_2048 :: u32 where "E1000_RCTL_BSIZE_2048 = 0"
definition E1000_TCTL_EN :: u32 where "E1000_TCTL_EN = 0x02"
definition E1000_TCTL_PSP :: u32 where "E1000_TCTL_PSP = 0x08"
definition E1000_TCTL_CT :: u32 where "E1000_TCTL_CT = 0xFF0"
definition E1000_TCTL_COLD_FULL_DUPLEX :: u32 where "E1000_TCTL_COLD_FULL_DUPLEX = 0x40000"
definition E1000_TXD_CMD_EOP :: u8 where "E1000_TXD_CMD_EOP = 0x01"
definition E1000_TXD_CMD_IFCS :: u8 where "E1000_TXD_CMD_IFCS = 0x02"
definition E1000_TXD_CMD_RS :: u8 where "E1000_TXD_CMD_RS = 0x08"

text \<open>The values the driver writes to the two control registers and into each descriptor.\<close>

definition rctl_flags :: u32 where
  "rctl_flags = E1000_RCTL_EN OR E1000_RCTL_SBP OR E1000_RCTL_UPE OR E1000_RCTL_MPE OR E1000_RCTL_LPE OR
     E1000_RCTL_LBM_NO OR E1000_RCTL_RDMTS_HALF OR E1000_RCTL_MO_36 OR E1000_RCTL_BAM OR E1000_RCTL_SECRC OR
     E1000_RCTL_BSIZE_2048"
definition tctl_flags :: u32 where
  "tctl_flags = E1000_TCTL_EN OR E1000_TCTL_PSP OR E1000_TCTL_CT OR E1000_TCTL_COLD_FULL_DUPLEX"
definition txd_command :: u8 where
  "txd_command = E1000_TXD_CMD_EOP OR E1000_TXD_CMD_IFCS OR E1000_TXD_CMD_RS"

definition NET_MAC_ADDR :: "u8 list" where
  "NET_MAC_ADDR = [0x52, 0x54, 0x00, 0x12, 0x34, 0x56]"

section \<open>Registers\<close>

definition e1000_read_reg :: "'d hardware \<Rightarrow> 'd nic \<Rightarrow> u32 \<Rightarrow> u32" where
  "e1000_read_reg hw nic reg = hw_read hw (nic_dev nic) (e1000_base nic + reg)"

definition e1000_write_reg :: "'d hardware \<Rightarrow> u32 \<Rightarrow> u32 \<Rightarrow> 'd nic \<Rightarrow> 'd nic" where
  "e1000_write_reg hw reg v nic = nic\<lparr>nic_dev := hw_write hw (nic_dev nic) (e1000_base nic + reg) v\<rparr>"

definition tick :: "'d hardware \<Rightarrow> 'd nic \<Rightarrow> 'd nic" where
  "tick hw nic = (let (d, r) = hw_tick hw (nic_dev nic, nic_rings nic) in nic\<lparr>nic_dev := d, nic_rings := r\<rparr>)"

section \<open>Initialization\<close>

primrec reset_wait :: "'d hardware \<Rightarrow> nat \<Rightarrow> 'd nic \<Rightarrow> 'd nic" where
  "reset_wait hw 0 nic = nic"
| "reset_wait hw (Suc n) nic =
     (if e1000_read_reg hw nic E1000_CTRL AND E1000_CTRL_RST = 0 then nic else reset_wait hw n (tick hw nic))"

definition init_rings :: "'d hardware \<Rightarrow> rings \<Rightarrow> rings" where
  "init_rings hw r =
     r\<lparr>rx_desc_ring := map (\<lambda>i. \<lparr>rd_buffer_addr = rx_buffer_addr hw i, rd_length = 0, rd_checksum = 0, rd_status = 0,
          rd_errors = 0, rd_special = 0\<rparr>) [0 ..< RX_DESC_COUNT],
       tx_desc_ring := map (\<lambda>i. \<lparr>td_buffer_addr = tx_buffer_addr hw i, td_length = 0, td_cso = 0, td_command = 0,
          td_status = 0, td_css = 0, td_special = 0\<rparr>) [0 ..< TX_DESC_COUNT]\<rparr>"

definition setup_rx :: "'d hardware \<Rightarrow> 'd nic \<Rightarrow> 'd nic" where
  "setup_rx hw nic =
     (let nic = e1000_write_reg hw E1000_RXDESCLO (ucast (rx_ring_addr hw)) nic;
          nic = e1000_write_reg hw E1000_RXDESCHI (ucast (drop_bit 32 (rx_ring_addr hw))) nic;
          nic = e1000_write_reg hw E1000_RXDESCLEN (of_nat (RX_DESC_COUNT * 16)) nic;
          nic = e1000_write_reg hw E1000_RXDESCHEAD 0 nic;
          nic = e1000_write_reg hw E1000_RXDESCTAIL (of_nat (RX_DESC_COUNT - 1)) nic
      in nic\<lparr>rx_head := 0\<rparr>)"

definition setup_tx :: "'d hardware \<Rightarrow> 'd nic \<Rightarrow> 'd nic" where
  "setup_tx hw nic =
     (let nic = e1000_write_reg hw E1000_TXDESCLO (ucast (tx_ring_addr hw)) nic;
          nic = e1000_write_reg hw E1000_TXDESCHI (ucast (drop_bit 32 (tx_ring_addr hw))) nic;
          nic = e1000_write_reg hw E1000_TXDESCLEN (of_nat (TX_DESC_COUNT * 16)) nic;
          nic = e1000_write_reg hw E1000_TXDESCHEAD 0 nic
      in e1000_write_reg hw E1000_TXDESCTAIL 0 nic)"

definition setup_address :: "'d hardware \<Rightarrow> 'd nic \<Rightarrow> 'd nic" where
  "setup_address hw nic =
     (let m = (\<lambda>i. ucast (NET_MAC_ADDR ! i) :: u32);
          ral = m 0 OR push_bit 8 (m 1) OR push_bit 16 (m 2) OR push_bit 24 (m 3);
          rah = m 4 OR push_bit 8 (m 5) OR E1000_RAH_AV
      in e1000_write_reg hw E1000_RAH rah (e1000_write_reg hw E1000_RAL ral nic))"

text \<open>The transmit position \<^verbatim>\<open>tx_tail\<close> is not reset, as in the source.\<close>

definition e1000_init :: "'d hardware \<Rightarrow> 'd nic \<Rightarrow> int \<times> 'd nic" where
  "e1000_init hw nic =
     (case pci_find_device E1000_VENDOR_ID E1000_DEVICE_ID (nic_devices nic) of
        None \<Rightarrow> (-1, nic)
      | Some e \<Rightarrow>
          let b = pd_bus e; s = pd_slot e; f = pd_func e; d = nic_dev nic;
              command = pci_read_word (hw_inl hw) d b s f PCI_COMMAND OR 0x04;
              d = pci_write_word (hw_inl hw) (hw_outl hw) d b s f PCI_COMMAND command;
              bar0 = pci_read_dword (hw_inl hw) d b s f (PCI_BASE_ADDRESS 0);
              nic = nic\<lparr>nic_dev := d, e1000_base := bar0 AND 0xFFFFFFF0\<rparr>;
              nic = e1000_write_reg hw E1000_CTRL E1000_CTRL_RST nic;
              nic = reset_wait hw 1000 nic;
              nic = nic\<lparr>nic_rings := init_rings hw (nic_rings nic)\<rparr>;
              nic = setup_address hw (setup_tx hw (setup_rx hw nic));
              nic = e1000_write_reg hw E1000_RCTRL rctl_flags nic;
              nic = e1000_write_reg hw E1000_TCTRL tctl_flags nic;
              ctrl = e1000_read_reg hw nic E1000_CTRL OR E1000_CTRL_SLU
          in (0, e1000_write_reg hw E1000_CTRL ctrl nic))"

section \<open>Transmission\<close>

text \<open>The first bytes of a buffer are overwritten by a \<^verbatim>\<open>memcpy\<close>.\<close>

definition copy_into :: "'a list \<Rightarrow> 'a list \<Rightarrow> 'a list" where
  "copy_into buf data = data @ drop (length data) buf"

primrec wait_done :: "'d hardware \<Rightarrow> nat \<Rightarrow> 'd nic \<Rightarrow> int \<times> 'd nic" where
  "wait_done hw 0 nic = (-1, nic)"
| "wait_done hw (Suc n) nic =
     (let i = (unat (tx_tail nic) + TX_DESC_COUNT - 1) mod TX_DESC_COUNT
      in if td_status (tx_desc_ring (nic_rings nic) ! i) AND E1000_TXD_STAT_DD \<noteq> 0 then (0, nic)
         else wait_done hw n (tick hw nic))"

text \<open>The packet goes to the buffer and the descriptor at the tail, and the tail moves.\<close>

definition tx_enqueue :: "'d hardware \<Rightarrow> u8 list \<Rightarrow> 'd nic \<Rightarrow> 'd nic" where
  "tx_enqueue hw data nic =
     (let i = unat (tx_tail nic); r = nic_rings nic;
          next_tail = (tx_tail nic + 1) mod of_nat TX_DESC_COUNT;
          r = r\<lparr>tx_buffers := (tx_buffers r)[i := copy_into (tx_buffers r ! i) data],
                tx_desc_ring := (tx_desc_ring r)[i := (tx_desc_ring r ! i)
                  \<lparr>td_length := of_nat (length data), td_cso := 0, td_command := txd_command, td_status := 0,
                   td_css := 0, td_special := 0\<rparr>]\<rparr>;
          nic = nic\<lparr>nic_rings := r, tx_tail := next_tail\<rparr>
      in e1000_write_reg hw E1000_TXDESCTAIL (ucast next_tail) nic)"

text \<open>The result \<^term>\<open>None\<close>: the copy runs past the end of the transmit buffer.\<close>

definition e1000_send_packet :: "'d hardware \<Rightarrow> u8 list \<Rightarrow> 'd nic \<Rightarrow> (int \<times> 'd nic) option" where
  "e1000_send_packet hw data nic =
     (if e1000_base nic = 0 then Some (-1, nic)
      else
        let head = ucast (e1000_read_reg hw nic E1000_TXDESCHEAD) :: u16;
            next_tail = (tx_tail nic + 1) mod of_nat TX_DESC_COUNT
        in if next_tail = head then Some (-1, nic)
           else if TX_BUFFER_SIZE < length data then None
           else Some (wait_done hw 1000 (tx_enqueue hw data nic)))"

section \<open>Reception\<close>

definition e1000_receive_packet :: "'d hardware \<Rightarrow> 'd nic \<Rightarrow> (u8 list \<times> 'd nic) option" where
  "e1000_receive_packet hw nic =
     (if e1000_base nic = 0 then None
      else
        let i = unat (rx_head nic); r = nic_rings nic; e = rx_desc_ring r ! i
        in if rd_status e AND E1000_RXD_STAT_DD = 0 then None
           else
             let n = (if RX_BUFFER_SIZE < unat (rd_length e) then RX_BUFFER_SIZE else unat (rd_length e));
                 data = take n (rx_buffers r ! i);
                 r = r\<lparr>rx_desc_ring := (rx_desc_ring r)[i := e\<lparr>rd_status := 0\<rparr>]\<rparr>;
                 head = (rx_head nic + 1) mod of_nat RX_DESC_COUNT;
                 nic = nic\<lparr>nic_rings := r, rx_head := head\<rparr>
             in Some (data, e1000_write_reg hw E1000_RXDESCTAIL
                  (ucast ((head + of_nat RX_DESC_COUNT - 1) mod of_nat RX_DESC_COUNT)) nic))"

end
