(* ===== verification/E1000Queue.thy ===== *)
theory E1000Queue
  imports E1000
begin

unbundle bit_operations_syntax

text \<open>
  The receive ring as a queue. The card's side of the ring is specified as its manual describes it
  (\<open>deliver\<close>: a frame goes to the descriptor at the head unless the head has reached the tail); the
  driver's side is \<open>e1000_receive_packet\<close>. Between them no frame is lost once it is in the ring, none
  is delivered twice and the order is kept: the ring implements a bounded FIFO queue (locale \<open>fifo\<close>).
\<close>

section \<open>Bounded queues\<close>

datatype 'a event = Put 'a | Get

locale fifo =
  fixes inv :: "'s \<Rightarrow> bool"
    and content :: "'s \<Rightarrow> 'a list"
    and fits :: "'a \<Rightarrow> bool"
    and cap :: nat
    and put :: "'a \<Rightarrow> 's \<Rightarrow> 's"
    and get :: "'s \<Rightarrow> ('a \<times> 's) option"
  assumes bounded: "inv s \<Longrightarrow> length (content s) \<le> cap"
    and put_room: "inv s \<Longrightarrow> fits a \<Longrightarrow> length (content s) < cap \<Longrightarrow>
      inv (put a s) \<and> content (put a s) = content s @ [a]"
    and put_full: "inv s \<Longrightarrow> length (content s) = cap \<Longrightarrow> put a s = s"
    and get_first: "inv s \<Longrightarrow> content s = a # as \<Longrightarrow> \<exists>s'. get s = Some (a, s') \<and> inv s' \<and> content s' = as"
    and get_empty: "inv s \<Longrightarrow> content s = [] \<Longrightarrow> get s = None"
begin

text \<open>A schedule of the two sides: the state reached, the elements accepted and the elements received.\<close>

fun run :: "'a event list \<Rightarrow> 's \<Rightarrow> 's \<times> 'a list \<times> 'a list" where
  "run [] s = (s, [], [])"
| "run (Put a # es) s =
     (let (t, ins, outs) = run es (put a s)
      in (t, if length (content s) < cap then a # ins else ins, outs))"
| "run (Get # es) s =
     (case get s of
        None \<Rightarrow> run es s
      | Some (a, s') \<Rightarrow> (let (t, ins, outs) = run es s' in (t, ins, a # outs)))"

lemma run_fifo:
  assumes "inv s" "\<forall>a. Put a \<in> set es \<longrightarrow> fits a" "run es s = (t, ins, outs)"
  shows "inv t \<and> content s @ ins = outs @ content t"
  using assms
proof (induction es s arbitrary: t ins outs rule: run.induct)
  case (2 a es s)
  obtain ins' where r: "run es (put a s) = (t, ins', outs)"
    "ins = (if length (content s) < cap then a # ins' else ins')"
    using 2(4) by (auto split: prod.splits)
  show ?case
  proof (cases "length (content s) < cap")
    case True
    then show ?thesis using 2(1) [OF _ _ r(1)] put_room [OF 2(2) _ True, of a] 2(3) r(2) by auto
  next
    case False
    then have "put a s = s" using bounded [OF 2(2)] put_full [OF 2(2)] by simp
    then show ?thesis using 2(1) [OF _ _ r(1)] 2(2,3) r(2) False by auto
  qed
next
  case (3 es s)
  show ?case
  proof (cases "content s")
    case Nil
    then have "get s = None" by (rule get_empty [OF 3(3)])
    then show ?thesis using 3(1) 3(3,4,5) by simp
  next
    case (Cons a as)
    then obtain s' where s': "get s = Some (a, s')" "inv s'" "content s' = as"
      using get_first [OF 3(3)] by blast
    obtain outs' where "run es s' = (t, ins, outs')" "outs = a # outs'"
      using 3(5) s'(1) by (auto split: prod.splits)
    with 3(2) [OF s'(1) refl s'(2)] 3(4) s' Cons show ?thesis by auto
  qed
qed simp

end

section \<open>The card's side\<close>

record card =
  card_regs :: "u32 \<Rightarrow> u32"
  card_config :: "u32 \<Rightarrow> u32"

text \<open>A card whose registers are memory and which makes the step \<open>tk\<close> while the driver polls.\<close>

definition card_with :: "('a card_scheme \<times> rings \<Rightarrow> 'a card_scheme \<times> rings) \<Rightarrow> 'a card_scheme hardware" where
  "card_with tk = \<lparr>hw_read = (\<lambda>d a. card_regs d a), hw_write = (\<lambda>d a v. d\<lparr>card_regs := (card_regs d)(a := v)\<rparr>),
     hw_inl = (\<lambda>d a. card_config d a), hw_outl = (\<lambda>d a v. d\<lparr>card_config := (card_config d)(a := v)\<rparr>),
     hw_tick = tk, rx_ring_addr = 0x10000, tx_ring_addr = 0x11000,
     rx_buffer_addr = (\<lambda>i. 0x20000 + 0x800 * of_nat i), tx_buffer_addr = (\<lambda>i. 0x30000 + 0x800 * of_nat i)\<rparr>"

text \<open>A card that sends nothing.\<close>

abbreviation card_hw :: "'a card_scheme hardware" where
  "card_hw \<equiv> card_with (\<lambda>x. x)"

definition card_reg :: "'a card_scheme nic \<Rightarrow> u32 \<Rightarrow> u32" where
  "card_reg nic reg = card_regs (nic_dev nic) (e1000_base nic + reg)"

definition deliver :: "u8 list \<Rightarrow> 'a card_scheme nic \<Rightarrow> 'a card_scheme nic" where
  "deliver frame nic =
     (let h = card_reg nic E1000_RXDESCHEAD; i = unat h; r = nic_rings nic in
      if h = card_reg nic E1000_RXDESCTAIL then nic
      else e1000_write_reg card_hw E1000_RXDESCHEAD ((h + 1) mod 32)
        (nic\<lparr>nic_rings := r\<lparr>rx_buffers := (rx_buffers r)[i := copy_into (rx_buffers r ! i) frame],
           rx_desc_ring := (rx_desc_ring r)[i := (rx_desc_ring r ! i)
             \<lparr>rd_length := of_nat (length frame), rd_status := 3\<rparr>]\<rparr>\<rparr>))"

section \<open>The queue in the ring\<close>

definition pending :: "'a card_scheme nic \<Rightarrow> nat" where
  "pending nic = (unat (card_reg nic E1000_RXDESCHEAD) + 32 - unat (rx_head nic)) mod 32"

definition slot :: "'a card_scheme nic \<Rightarrow> nat \<Rightarrow> nat" where
  "slot nic k = (unat (rx_head nic) + k) mod 32"

definition frame_at :: "rings \<Rightarrow> nat \<Rightarrow> u8 list" where
  "frame_at r i = take (unat (rd_length (rx_desc_ring r ! i))) (rx_buffers r ! i)"

definition done_at :: "rings \<Rightarrow> nat \<Rightarrow> bool" where
  "done_at r i \<longleftrightarrow> rd_status (rx_desc_ring r ! i) AND E1000_RXD_STAT_DD \<noteq> 0"

definition waiting :: "'a card_scheme nic \<Rightarrow> u8 list list" where
  "waiting nic = map (\<lambda>k. frame_at (nic_rings nic) (slot nic k)) [0 ..< pending nic]"

definition fits_buffer :: "u8 list \<Rightarrow> bool" where
  "fits_buffer frame \<longleftrightarrow> length frame \<le> RX_BUFFER_SIZE"

definition rx_inv :: "'a card_scheme nic \<Rightarrow> bool" where
  "rx_inv nic \<longleftrightarrow>
     e1000_base nic \<noteq> 0 \<and> unat (rx_head nic) < 32 \<and> unat (card_reg nic E1000_RXDESCHEAD) < 32 \<and>
     unat (card_reg nic E1000_RXDESCTAIL) = (unat (rx_head nic) + 31) mod 32 \<and>
     length (rx_desc_ring (nic_rings nic)) = 32 \<and> length (rx_buffers (nic_rings nic)) = 32 \<and>
     (\<forall>i<32. length (rx_buffers (nic_rings nic) ! i) = RX_BUFFER_SIZE) \<and>
     (\<forall>k<32. done_at (nic_rings nic) (slot nic k) \<longleftrightarrow> k < pending nic) \<and>
     (\<forall>k<pending nic. unat (rd_length (rx_desc_ring (nic_rings nic) ! slot nic k)) \<le> RX_BUFFER_SIZE)"

text \<open>Positions modulo 32.\<close>

lemma ring_inj: "h < 32 \<Longrightarrow> j < 32 \<Longrightarrow> k < 32 \<Longrightarrow> (h + j) mod 32 = (h + k) mod 32 \<longleftrightarrow> j = (k :: nat)"
  by (auto simp: mod_if)

lemma ring_dist: "h < 32 \<Longrightarrow> c < 32 \<Longrightarrow> (h + (c + 32 - h) mod 32) mod 32 = (c :: nat)"
  by (auto simp: mod_if)

lemma ring_next: "h < 32 \<Longrightarrow> c < 32 \<Longrightarrow> c \<noteq> (h + 31) mod 32 \<Longrightarrow>
    ((c + 1) mod 32 + 32 - h) mod 32 = (c + 32 - h) mod 32 + (1 :: nat)"
  by (auto simp: mod_if split: if_splits)

lemma ring_full: "h < 32 \<Longrightarrow> c < 32 \<Longrightarrow> c = (h + 31) mod 32 \<longleftrightarrow> (c + 32 - h) mod 32 = (31 :: nat)"
  by (auto simp: mod_if split: if_splits)

lemma ring_drop: "h < 32 \<Longrightarrow> c < 32 \<Longrightarrow> (c + 32 - h) mod 32 \<noteq> 0 \<Longrightarrow>
    (c + 32 - (h + 1) mod 32) mod 32 = (c + 32 - h) mod 32 - (1 :: nat)"
  by (auto simp: mod_if split: if_splits)

lemma ring_shift: "((h + 1) mod 32 + k) mod 32 = (h + Suc k) mod (32 :: nat)"
  by (simp add: mod_add_left_eq)

lemma unat_next32:
  "unat (x :: u16) < 32 \<Longrightarrow> unat ((x + 1) mod 32) = (unat x + 1) mod 32"
  "unat (y :: u32) < 32 \<Longrightarrow> unat ((y + 1) mod 32) = (unat y + 1) mod 32"
  by (simp_all add: unat_mod unat_word_ariths(1))

lemma unat_tail32: "unat (x :: u16) < 32 \<Longrightarrow> unat (ucast ((x + 32 - 1) mod 32) :: u32) = (unat x + 31) mod 32"
proof -
  assume x: "unat x < 32"
  have "x + 32 - 1 = 31 + x" by simp
  moreover have "unat ((31 + x) mod 32) = (31 + unat x) mod 32"
    using x by (simp add: unat_mod unat_word_ariths(1))
  moreover have "31 + unat x = unat x + 31" by (rule add.commute)
  moreover have "(unat x + 31) mod 32 < 2 ^ 32"
    by (rule order_less_trans [of _ 32]) simp_all
  ultimately show ?thesis by (simp add: unsigned_ucast_eq take_bit_nat_eq_self)
qed

lemma card_write [simp]:
  "card_reg (e1000_write_reg (card_with tk) reg v nic) reg' = (if reg = reg' then v else card_reg nic reg')"
  "nic_rings (e1000_write_reg hw reg v n) = nic_rings n"
  "rx_head (e1000_write_reg hw reg v n) = rx_head n"
  "e1000_base (e1000_write_reg hw reg v n) = e1000_base n"
  by (simp_all add: card_reg_def e1000_write_reg_def card_with_def)

lemma tail_not_head [simp]: "E1000_RXDESCTAIL \<noteq> E1000_RXDESCHEAD" "E1000_RXDESCHEAD \<noteq> E1000_RXDESCTAIL"
  by (simp_all add: e1000_registers)

lemma card_reg_update [simp]:
  "card_reg (nic\<lparr>nic_rings := r\<rparr>) reg = card_reg nic reg" "card_reg (nic\<lparr>rx_head := h\<rparr>) reg = card_reg nic reg"
  by (simp_all add: card_reg_def)

lemma rx_inv_bounded: "rx_inv nic \<Longrightarrow> length (waiting nic) \<le> 31"
proof -
  have "pending nic < 32" by (simp add: pending_def)
  then show ?thesis by (simp add: waiting_def)
qed

lemma deliver_full: "rx_inv nic \<Longrightarrow> length (waiting nic) = 31 \<Longrightarrow> deliver f nic = nic"
proof -
  assume inv: "rx_inv nic" and "length (waiting nic) = 31"
  then have "unat (card_reg nic E1000_RXDESCHEAD) = unat (card_reg nic E1000_RXDESCTAIL)"
    using ring_full [of "unat (rx_head nic)" "unat (card_reg nic E1000_RXDESCHEAD)"]
    by (simp add: rx_inv_def waiting_def pending_def)
  then show ?thesis by (simp add: deliver_def word_unat_eq_iff)
qed

lemma deliver_room:
  assumes inv: "rx_inv nic" and "fits_buffer f" "length (waiting nic) < 31"
  shows "rx_inv (deliver f nic) \<and> waiting (deliver f nic) = waiting nic @ [f]"
proof -
  let ?h = "card_reg nic E1000_RXDESCHEAD" and ?r = "nic_rings nic" and ?n = "pending nic"
  let ?i = "unat ?h"
  have n: "?n < 31" using assms(3) by (simp add: waiting_def)
  have b: "unat (rx_head nic) < 32" "?i < 32" using inv by (auto simp: rx_inv_def)
  have i: "?i = slot nic ?n" using ring_dist [OF b] by (simp add: slot_def pending_def)
  have "?i \<noteq> (unat (rx_head nic) + 31) mod 32" using ring_full [OF b] n by (simp add: pending_def)
  then have room: "?h \<noteq> card_reg nic E1000_RXDESCTAIL" using inv by (auto simp: rx_inv_def)
  let ?r' = "?r\<lparr>rx_buffers := (rx_buffers ?r)[?i := copy_into (rx_buffers ?r ! ?i) f],
     rx_desc_ring := (rx_desc_ring ?r)[?i := (rx_desc_ring ?r ! ?i)\<lparr>rd_length := of_nat (length f), rd_status := 3\<rparr>]\<rparr>"
  let ?nic = "deliver f nic"
  have nic: "?nic = e1000_write_reg card_hw E1000_RXDESCHEAD ((?h + 1) mod 32) (nic\<lparr>nic_rings := ?r'\<rparr>)"
    using room by (simp add: deliver_def Let_def)
  have r [simp]: "nic_rings ?nic = ?r'" "rx_head ?nic = rx_head nic" by (simp_all add: nic)
  have slot [simp]: "slot ?nic = slot nic" by (simp add: slot_def fun_eq_iff)
  have pend: "pending ?nic = Suc ?n"
    using ring_next [OF b] \<open>?i \<noteq> _\<close> b
    by (simp add: pending_def nic unat_next32 del: mod_less)
  have lens: "length (rx_desc_ring ?r) = 32" "length (rx_buffers ?r) = 32" "length (rx_buffers ?r ! ?i) = RX_BUFFER_SIZE"
    using inv b by (auto simp: rx_inv_def)
  have len: "unat (of_nat (length f) :: u16) = length f"
    using assms(2) by (simp add: fits_buffer_def RX_BUFFER_SIZE_def unat_of_nat)
  have other: "slot nic k \<noteq> ?i" if "k < 32" "k \<noteq> ?n" for k
    using ring_inj [OF b(1) that(1), of ?n] n that(2) i by (simp add: slot_def)
  have rb: "rx_buffers ?r' ! slot nic k = (if k = ?n then copy_into (rx_buffers ?r ! ?i) f else rx_buffers ?r ! slot nic k)"
    and rd: "rx_desc_ring ?r' ! slot nic k = (if k = ?n
        then (rx_desc_ring ?r ! ?i)\<lparr>rd_length := of_nat (length f), rd_status := 3\<rparr> else rx_desc_ring ?r ! slot nic k)"
    if "k < 32" for k
    using other [OF that] lens b i by (auto simp: nth_list_update)
  have "done_at ?r' (slot nic k) \<longleftrightarrow> k < Suc ?n" if "k < 32" for k
    using rd [OF that] inv that n by (auto simp: rx_inv_def done_at_def E1000_RXD_STAT_DD_def less_Suc_eq)
  moreover have "unat (rd_length (rx_desc_ring ?r' ! slot nic k)) \<le> RX_BUFFER_SIZE" if "k < Suc ?n" for k
    using rd [of k] inv that n len assms(2) by (auto simp: rx_inv_def fits_buffer_def less_Suc_eq)
  moreover have "length (rx_buffers ?r' ! j) = RX_BUFFER_SIZE" if "j < 32" for j
    using inv that b assms(2) lens
    by (auto simp: rx_inv_def nth_list_update copy_into_def fits_buffer_def)
  moreover have "unat ((?h + 1) mod 32) < 32"
    using b by (simp add: unat_next32)
  ultimately have "rx_inv ?nic"
    using inv unfolding rx_inv_def slot pend r by (simp add: nic e1000_registers)
  moreover have "waiting ?nic = waiting nic @ [f]"
  proof -
    have "frame_at ?r' (slot nic ?n) = f"
      using rb [of ?n] rd [of ?n] n len by (simp add: frame_at_def copy_into_def)
    moreover have "frame_at ?r' (slot nic k) = frame_at ?r (slot nic k)" if "k < ?n" for k
      using rb [of k] rd [of k] n that by (simp add: frame_at_def)
    ultimately show ?thesis by (simp add: waiting_def pend)
  qed
  ultimately show ?thesis ..
qed

lemma receive_empty: "rx_inv nic \<Longrightarrow> waiting nic = [] \<Longrightarrow> e1000_receive_packet (card_with tk) nic = None"
proof -
  assume inv: "rx_inv nic" and "waiting nic = []"
  then have "\<not> done_at (nic_rings nic) (slot nic 0)" by (simp add: rx_inv_def waiting_def)
  then show ?thesis using inv by (simp add: e1000_receive_packet_def Let_def done_at_def slot_def rx_inv_def)
qed

lemma receive_first:
  assumes inv: "rx_inv nic" and "waiting nic = f # fs"
  shows "\<exists>nic'. e1000_receive_packet (card_with tk) nic = Some (f, nic') \<and> rx_inv nic' \<and> waiting nic' = fs"
proof -
  let ?h = "unat (rx_head nic)" and ?r = "nic_rings nic" and ?n = "pending nic"
  let ?c = "unat (card_reg nic E1000_RXDESCHEAD)"
  have n: "0 < ?n" "?n < 32" using assms(2) by (auto simp: waiting_def pending_def intro: gr0I)
  have b: "?h < 32" "?c < 32" using inv by (auto simp: rx_inv_def)
  have indices: "[0 ..< ?n] = 0 # map Suc [0 ..< ?n - 1]"
    using n(1) by (simp add: upt_conv_Cons map_Suc_upt)
  have fs: "f = frame_at ?r ?h" "fs = map (\<lambda>k. frame_at ?r (slot nic (Suc k))) [0 ..< ?n - 1]"
    using assms(2) b unfolding waiting_def indices by (simp_all add: slot_def comp_def)
  let ?r' = "?r\<lparr>rx_desc_ring := (rx_desc_ring ?r)[?h := (rx_desc_ring ?r ! ?h)\<lparr>rd_status := 0\<rparr>]\<rparr>"
  let ?nic = "e1000_write_reg (card_with tk) E1000_RXDESCTAIL (ucast (((rx_head nic + 1) mod 32 + 32 - 1) mod 32))
     (nic\<lparr>nic_rings := ?r', rx_head := (rx_head nic + 1) mod 32\<rparr>)"
  have "done_at ?r ?h" "unat (rd_length (rx_desc_ring ?r ! ?h)) \<le> RX_BUFFER_SIZE"
    using inv n b by (auto simp: rx_inv_def slot_def dest!: spec [of _ 0])
  then have get: "e1000_receive_packet (card_with tk) nic = Some (f, ?nic)"
    using inv by (simp add: e1000_receive_packet_def Let_def done_at_def fs(1) frame_at_def rx_inv_def RX_DESC_COUNT_def)
  have r [simp]: "nic_rings ?nic = ?r'" "rx_head ?nic = (rx_head nic + 1) mod 32" "e1000_base ?nic = e1000_base nic"
    "card_reg ?nic E1000_RXDESCHEAD = card_reg nic E1000_RXDESCHEAD"
    by (simp_all add: e1000_registers)
  have head: "unat ((rx_head nic + 1) mod 32) = (?h + 1) mod 32" using b by (simp add: unat_next32)
  have slot: "slot ?nic k = slot nic (Suc k)" for k
    using ring_shift [of ?h k] by (simp add: slot_def head del: mod_less)
  have pend: "pending ?nic = ?n - 1"
    using ring_drop [OF b] n by (simp add: pending_def head del: mod_less)
  have lens: "length (rx_desc_ring ?r) = 32" using inv by (simp add: rx_inv_def)
  have other: "rx_desc_ring ?r' ! slot nic (Suc k) = rx_desc_ring ?r ! slot nic (Suc k)" if "k < 31" for k
    using ring_inj [OF b(1), of "Suc k" 0] that b by (simp add: slot_def)
  have last: "slot nic 32 = ?h" using b by (simp add: slot_def)
  have "done_at ?r' (slot nic (Suc k)) \<longleftrightarrow> k < ?n - 1" if "k < 32" for k
  proof (cases "k = 31")
    case True
    then show ?thesis using last lens b n by (simp add: done_at_def)
  next
    case False
    then show ?thesis using inv that other [of k] by (auto simp: rx_inv_def done_at_def)
  qed
  moreover have "unat (rd_length (rx_desc_ring ?r' ! slot nic (Suc k))) \<le> RX_BUFFER_SIZE" if "k < ?n - 1" for k
    using inv that n other [of k] by (simp add: rx_inv_def)
  moreover have "unat (card_reg ?nic E1000_RXDESCTAIL) = ((?h + 1) mod 32 + 31) mod 32"
    using unat_tail32 [of "(rx_head nic + 1) mod 32"] head by simp
  ultimately have "rx_inv ?nic"
    using inv unfolding rx_inv_def slot pend r head by simp
  moreover have "frame_at ?r' (slot nic (Suc k)) = frame_at ?r (slot nic (Suc k))" if "k < 31" for k
    using other [OF that] by (simp add: frame_at_def)
  then have "waiting ?nic = fs"
    unfolding waiting_def pend slot fs(2) r using n by (intro map_cong) simp_all
  ultimately show ?thesis using get by blast
qed

text \<open>The ring is a FIFO queue with room for 31 frames.\<close>

interpretation ring: fifo rx_inv waiting fits_buffer 31 deliver "e1000_receive_packet (card_with tk)" for tk
  by unfold_locales (simp_all add: rx_inv_bounded deliver_room deliver_full receive_first receive_empty)

text \<open>A schedule of deliveries and calls of the driver: the frames that found room and the frames received.\<close>

fun nic_run :: "u8 list event list \<Rightarrow> card nic \<Rightarrow> card nic \<times> u8 list list \<times> u8 list list" where
  "nic_run [] nic = (nic, [], [])"
| "nic_run (Put f # es) nic =
     (let (t, ins, outs) = nic_run es (deliver f nic)
      in (t, if length (waiting nic) < 31 then f # ins else ins, outs))"
| "nic_run (Get # es) nic =
     (case e1000_receive_packet card_hw nic of
        None \<Rightarrow> nic_run es nic
      | Some (f, nic') \<Rightarrow> (let (t, ins, outs) = nic_run es nic' in (t, ins, f # outs)))"

lemma nic_run: "nic_run es nic = ring.run (\<lambda>x. x) es nic"
  by (induction es nic rule: nic_run.induct) (auto split: option.splits prod.splits)

text \<open>The state after a successful initialization.\<close>

definition buffers_ok :: "rings \<Rightarrow> bool" where
  "buffers_ok r \<longleftrightarrow> length (rx_buffers r) = 32 \<and> (\<forall>b\<in>set (rx_buffers r). length b = RX_BUFFER_SIZE)"

lemma reset_wait_card [simp]: "reset_wait card_hw n nic = nic"
  by (induction n arbitrary: nic) (simp_all add: tick_def card_with_def)

lemma init_ready:
  fixes nic :: "'a card_scheme nic"
  assumes "e1000_init card_hw nic = (0, nic')" "e1000_base nic' \<noteq> 0" "buffers_ok (nic_rings nic)"
  shows "rx_inv nic' \<and> waiting nic' = []"
proof -
  have r: "nic_rings nic' = init_rings (card_hw :: 'a card_scheme hardware) (nic_rings nic)" and h: "rx_head nic' = 0"
    and c: "card_reg nic' E1000_RXDESCHEAD = 0" "card_reg nic' E1000_RXDESCTAIL = 31"
    using assms(1)
    by (auto simp: e1000_init_def Let_def setup_rx_def setup_tx_def setup_address_def e1000_registers RX_DESC_COUNT_def
        split: option.splits)
  have p: "pending nic' = 0" by (simp add: pending_def c h)
  show ?thesis
    using assms(2,3)
    by (simp add: rx_inv_def p waiting_def r h c init_rings_def buffers_ok_def done_at_def slot_def RX_DESC_COUNT_def)
qed

lemma rx_in_order:
  assumes "e1000_init card_hw nic = (0, nic0)" "e1000_base nic0 \<noteq> 0" "buffers_ok (nic_rings nic)"
    "\<forall>f. Put f \<in> set es \<longrightarrow> fits_buffer f" "nic_run es nic0 = (t, ins, outs)"
  shows "ins = outs @ waiting t \<and> length (waiting t) \<le> 31"
  using init_ready [OF assms(1-3)] ring.run_fifo [of nic0 es "\<lambda>x. x" t ins outs] assms(4,5) rx_inv_bounded [of t]
  by (simp add: nic_run)

text \<open>
  \<^bold>\<open>C14.\<close> Reception is first in, first out. After \<open>e1000_init\<close>, whatever the order in which the
  card delivers frames and the driver asks for one: the frames the driver has received, followed by those
  still in the ring, are exactly the frames that found room, in the order of their arrival. None is lost,
  duplicated or overwritten before it is read, and the ring holds at most 31 of them.
\<close>

theorem e1000_rx_in_order:
  assumes "e1000_init card_hw nic = (0, nic0)" "e1000_base nic0 \<noteq> 0" "buffers_ok (nic_rings nic)"
    "\<forall>f. Put f \<in> set es \<longrightarrow> fits_buffer f" "nic_run es nic0 = (t, ins, outs)"
  shows "ins = outs @ waiting t \<and> length (waiting t) \<le> 31"
  using assms by (rule rx_in_order)

definition sample_card :: "card nic" where
  "sample_card =
     \<lparr>nic_devices = [\<lparr>pd_vendor_id = 0x8086, pd_device_id = 0x100E, pd_bus = 0, pd_slot = 3, pd_func = 0, pd_class_code = 2,
        pd_subclass = 0, pd_header_type = 0, pd_bars = [], pd_interrupt_line = 11, pd_interrupt_pin = 1\<rparr>],
      e1000_base = 0,
      nic_rings = \<lparr>rx_desc_ring = [], tx_desc_ring = [], rx_buffers = replicate 32 (replicate 2048 0),
        tx_buffers = replicate 32 (replicate 2048 0)\<rparr>,
      rx_head = 0, tx_tail = 0, nic_dev = \<lparr>card_regs = (\<lambda>_. 0), card_config = (\<lambda>_. 0xFEBC0000)\<rparr>\<rparr>"

definition sample_schedule :: "u8 list event list" where
  "sample_schedule = [Put [1, 2, 3], Put [4], Get, Put [5, 6], Get, Get, Get]"

lemma sample_init: "fst (e1000_init card_hw sample_card) = 0" "e1000_base (snd (e1000_init card_hw sample_card)) \<noteq> 0"
  by (simp_all add: e1000_init_def sample_card_def pci_find_device_def E1000_VENDOR_ID_def E1000_DEVICE_ID_def Let_def
      setup_address_def setup_tx_def setup_rx_def)
    (simp add: card_with_def pci_read_dword_def pci_config_read_def pci_write_word_def pci_config_write_def pci_address_def
      PCI_COMMAND_def PCI_BASE_ADDRESS_def)

lemma e1000_rx_in_order_witness:
  "\<exists>t ins outs. nic_run sample_schedule (snd (e1000_init card_hw sample_card)) = (t, ins, outs) \<and> ins = outs @ waiting t"
proof -
  obtain t ins outs where r: "nic_run sample_schedule (snd (e1000_init card_hw sample_card)) = (t, ins, outs)"
    by (metis prod_cases3)
  have i: "e1000_init card_hw sample_card = (0, snd (e1000_init card_hw sample_card))"
    using sample_init(1) by (metis prod.collapse)
  have "ins = outs @ waiting t \<and> length (waiting t) \<le> 31"
    by (rule e1000_rx_in_order [OF i sample_init(2) _ _ r])
      (auto simp: sample_card_def sample_schedule_def buffers_ok_def fits_buffer_def RX_BUFFER_SIZE_def)
  with r show ?thesis by blast
qed

section \<open>Transmission\<close>

text \<open>Polling changes the position of the driver not at all: the result is 0 exactly when a poll saw the bit.\<close>

definition done_bit :: "'d nic \<Rightarrow> bool" where
  "done_bit nic \<longleftrightarrow>
     td_status (tx_desc_ring (nic_rings nic) ! ((unat (tx_tail nic) + TX_DESC_COUNT - 1) mod TX_DESC_COUNT))
       AND E1000_TXD_STAT_DD \<noteq> 0"

lemma tick_position [simp]: "tx_tail (tick hw nic) = tx_tail nic" "e1000_base (tick hw nic) = e1000_base nic"
  by (simp_all add: tick_def split: prod.split)

lemma ticks_position [simp]: "tx_tail ((tick hw ^^ k) nic) = tx_tail nic"
  by (induction k) simp_all

lemma wait_done_polls:
  "\<exists>k. k \<le> n \<and> snd (wait_done hw n nic) = (tick hw ^^ k) nic \<and> (\<forall>j<k. \<not> done_bit ((tick hw ^^ j) nic)) \<and>
     (if k < n then fst (wait_done hw n nic) = 0 \<and> done_bit ((tick hw ^^ k) nic) else fst (wait_done hw n nic) = -1)"
proof (induction n arbitrary: nic)
  case (Suc n)
  show ?case
  proof (cases "done_bit nic")
    case True
    then show ?thesis by (intro exI [of _ 0]) (simp add: done_bit_def Let_def)
  next
    case False
    obtain k where k: "k \<le> n" "snd (wait_done hw n (tick hw nic)) = (tick hw ^^ k) (tick hw nic)"
      "\<forall>j<k. \<not> done_bit ((tick hw ^^ j) (tick hw nic))"
      "if k < n then fst (wait_done hw n (tick hw nic)) = 0 \<and> done_bit ((tick hw ^^ k) (tick hw nic))
       else fst (wait_done hw n (tick hw nic)) = -1"
      using Suc.IH [of "tick hw nic"] by blast
    have w: "wait_done hw (Suc n) nic = wait_done hw n (tick hw nic)"
      using False by (simp add: done_bit_def Let_def)
    have "\<not> done_bit ((tick hw ^^ j) nic)" if "j < Suc k" for j
      using k(3) False that by (cases j) (simp_all del: funpow.simps add: funpow_Suc_right)
    with k w show ?thesis
      by (intro exI [of _ "Suc k"]) (simp del: funpow.simps wait_done.simps add: funpow_Suc_right)
  qed
qed simp

text \<open>The descriptor at the old tail and its buffer are those of the packet; the tail register moved past it.\<close>

definition queued :: "'d hardware \<Rightarrow> u8 list \<Rightarrow> 'd nic \<Rightarrow> 'd nic \<Rightarrow> bool" where
  "queued hw data nic nic' \<longleftrightarrow>
     (let i = unat (tx_tail nic); d = tx_desc_ring (nic_rings nic') ! i
      in tx_tail nic' = (tx_tail nic + 1) mod 32 \<and>
         take (unat (td_length d)) (tx_buffers (nic_rings nic') ! i) = data \<and> td_command d = txd_command \<and>
         td_status d = 0 \<and>
         (\<forall>j. j \<noteq> i \<longrightarrow> tx_buffers (nic_rings nic') ! j = tx_buffers (nic_rings nic) ! j \<and>
            tx_desc_ring (nic_rings nic') ! j = tx_desc_ring (nic_rings nic) ! j) \<and>
         rx_desc_ring (nic_rings nic') = rx_desc_ring (nic_rings nic) \<and> rx_head nic' = rx_head nic \<and>
         nic_dev nic' = hw_write hw (nic_dev nic) (e1000_base nic + E1000_TXDESCTAIL) (ucast (tx_tail nic')))"

definition tx_ok :: "'d nic \<Rightarrow> bool" where
  "tx_ok nic \<longleftrightarrow> unat (tx_tail nic) < 32 \<and> length (tx_desc_ring (nic_rings nic)) = 32 \<and>
     length (tx_buffers (nic_rings nic)) = 32"

definition tx_full :: "'d hardware \<Rightarrow> 'd nic \<Rightarrow> bool" where
  "tx_full hw nic \<longleftrightarrow> (tx_tail nic + 1) mod 32 = ucast (e1000_read_reg hw nic E1000_TXDESCHEAD)"

lemma enqueue_queued:
  assumes "tx_ok nic" "length data \<le> TX_BUFFER_SIZE"
  shows "queued hw data nic (tx_enqueue hw data nic)"
proof -
  have "unat (of_nat (length data) :: u16) = length data"
    using assms(2) by (simp add: TX_BUFFER_SIZE_def unat_of_nat)
  then show ?thesis
    using assms
    by (simp add: tx_enqueue_def queued_def tx_ok_def Let_def TX_DESC_COUNT_def copy_into_def e1000_write_reg_def)
qed

lemma send_queues:
  assumes "tx_ok nic" "e1000_base nic \<noteq> 0" "\<not> tx_full hw nic" "length data \<le> TX_BUFFER_SIZE"
  shows "\<exists>nic'. queued hw data nic nic' \<and> e1000_send_packet hw data nic = Some (wait_done hw 1000 nic')"
  using assms enqueue_queued [OF assms(1,4), of hw]
  by (auto simp: e1000_send_packet_def tx_full_def Let_def TX_DESC_COUNT_def simp del: wait_done.simps)

lemma send_outcome:
  assumes "tx_ok nic" "length data \<le> TX_BUFFER_SIZE"
  shows "if e1000_base nic = 0 \<or> tx_full hw nic then e1000_send_packet hw data nic = Some (-1, nic)
    else \<exists>nic' k rc. queued hw data nic nic' \<and> e1000_send_packet hw data nic = Some (rc, (tick hw ^^ k) nic') \<and>
      (if rc = 0 then k < 1000 \<and> done_bit ((tick hw ^^ k) nic')
       else rc = -1 \<and> k = 1000 \<and> (\<forall>j<1000. \<not> done_bit ((tick hw ^^ j) nic')))"
proof (cases "e1000_base nic = 0 \<or> tx_full hw nic")
  case True
  then show ?thesis by (auto simp: e1000_send_packet_def tx_full_def TX_DESC_COUNT_def Let_def)
next
  case False
  then obtain nic' where q: "queued hw data nic nic'" "e1000_send_packet hw data nic = Some (wait_done hw 1000 nic')"
    using send_queues [OF assms(1) _ _ assms(2)] by blast
  obtain k where k: "k \<le> 1000" "snd (wait_done hw 1000 nic') = (tick hw ^^ k) nic'"
      "\<forall>j<k. \<not> done_bit ((tick hw ^^ j) nic')"
      "if k < 1000 then fst (wait_done hw 1000 nic') = 0 \<and> done_bit ((tick hw ^^ k) nic')
       else fst (wait_done hw 1000 nic') = -1"
    using wait_done_polls [of 1000 hw nic'] by blast
  have e: "e1000_send_packet hw data nic = Some (fst (wait_done hw 1000 nic'), (tick hw ^^ k) nic')"
    using q(2) k(2) by (metis prod.collapse)
  show ?thesis
  proof (cases "k < 1000")
    case True
    then show ?thesis using False q(1) e k(4) by auto
  next
    case False
    then have "k = 1000" using k(1) by simp
    with False \<open>\<not> (e1000_base nic = 0 \<or> tx_full hw nic)\<close> k(3,4) q(1) e show ?thesis by auto
  qed
qed

text \<open>
  Transmission, on every branch. Without a device, or with a full ring, the call fails and changes
  nothing. Otherwise the packet is in the buffer and the descriptor of the old tail, no other descriptor or
  buffer has changed, and the card's tail register has been moved past it, before the driver polls. The result
  is 0 exactly when one of 1000 polls sees the card report the descriptor as done; the result -1 of a timeout
  leaves the packet in the ring, where the card may still send it.
\<close>

theorem e1000_send_outcome:
  assumes "tx_ok nic" "length data \<le> TX_BUFFER_SIZE"
  shows "if e1000_base nic = 0 \<or> tx_full hw nic then e1000_send_packet hw data nic = Some (-1, nic)
    else \<exists>nic' k rc. queued hw data nic nic' \<and> e1000_send_packet hw data nic = Some (rc, (tick hw ^^ k) nic') \<and>
      (if rc = 0 then k < 1000 \<and> done_bit ((tick hw ^^ k) nic')
       else rc = -1 \<and> k = 1000 \<and> (\<forall>j<1000. \<not> done_bit ((tick hw ^^ j) nic')))"
  using assms by (rule send_outcome)

definition idle_card :: "card nic" where
  "idle_card = sample_card\<lparr>e1000_base := 0xFEBC0000, nic_rings := init_rings (card_hw :: card hardware) (nic_rings sample_card)\<rparr>"

lemma e1000_send_outcome_witness:
  "\<exists>nic' k rc. queued card_hw [1, 2, 3] idle_card nic' \<and>
     e1000_send_packet card_hw [1, 2, 3] idle_card = Some (rc, (tick card_hw ^^ k) nic')"
proof -
  have "tx_ok idle_card" "length [1, 2, 3 :: u8] \<le> TX_BUFFER_SIZE" "\<not> (e1000_base idle_card = 0 \<or> tx_full card_hw idle_card)"
    by (simp_all add: tx_ok_def idle_card_def sample_card_def init_rings_def TX_DESC_COUNT_def TX_BUFFER_SIZE_def
        tx_full_def e1000_read_reg_def card_with_def)
  then show ?thesis using e1000_send_outcome [of idle_card "[1, 2, 3]" card_hw] by auto
qed

end
