(* ===== verification/NetHeaders.thy ===== *)
theory NetHeaders
  imports NetBytes
begin

text \<open>
  The packed header structures of \<^verbatim>\<open>src/network/net.h\<close> and
  \<^verbatim>\<open>src/network/arp.c\<close>: the bytes a structure has in memory and the structure that a
  pointer cast reads from the bytes of a packet. The fields hold what the structure holds, so numbers of
  more than one byte are in network order. The two directions are inverse (\<open>struct_io\<close>).
\<close>

named_theorems header_simps

section \<open>Ethernet\<close>

record eth_header =
  eth_dst :: "u8 list"
  eth_src :: "u8 list"
  eth_ethertype :: u16

definition eth_bytes :: "eth_header \<Rightarrow> u8 list" where
  [simp]: "eth_bytes h = eth_dst h @ eth_src h @ st16 (eth_ethertype h)"

definition read_eth :: "u8 list \<Rightarrow> eth_header" where
  [simp]: "read_eth p = \<lparr>eth_dst = take 6 p, eth_src = take 6 (drop 6 p), eth_ethertype = ld16 p 12\<rparr>"

definition eth_ok :: "eth_header \<Rightarrow> bool" where
  [header_simps]: "eth_ok h \<longleftrightarrow> length (eth_dst h) = 6 \<and> length (eth_src h) = 6"

section \<open>IP\<close>

record ip_header_t =
  ip_ihl_version :: u8
  ip_tos :: u8
  ip_total_len :: u16
  ip_ident :: u16
  ip_flags_frag :: u16
  ip_ttl :: u8
  ip_proto :: u8
  ip_checksum_field :: u16
  ip_src :: u32
  ip_dst :: u32

definition ip_bytes :: "ip_header_t \<Rightarrow> u8 list" where
  [simp]: "ip_bytes h =
     [ip_ihl_version h, ip_tos h] @ st16 (ip_total_len h) @ st16 (ip_ident h) @ st16 (ip_flags_frag h) @
     [ip_ttl h, ip_proto h] @ st16 (ip_checksum_field h) @ st32 (ip_src h) @ st32 (ip_dst h)"

definition read_ip :: "u8 list \<Rightarrow> ip_header_t" where
  [simp]: "read_ip p =
     \<lparr>ip_ihl_version = p ! 0, ip_tos = p ! 1, ip_total_len = ld16 p 2, ip_ident = ld16 p 4, ip_flags_frag = ld16 p 6,
      ip_ttl = p ! 8, ip_proto = p ! 9, ip_checksum_field = ld16 p 10, ip_src = ld32 p 12, ip_dst = ld32 p 16\<rparr>"

section \<open>ARP\<close>

record arp_packet_t =
  arp_htype :: u16
  arp_ptype :: u16
  arp_hlen :: u8
  arp_plen :: u8
  arp_oper :: u16
  arp_sha :: "u8 list"
  arp_spa :: u32
  arp_tha :: "u8 list"
  arp_tpa :: u32

definition arp_bytes :: "arp_packet_t \<Rightarrow> u8 list" where
  [simp]: "arp_bytes h =
     st16 (arp_htype h) @ st16 (arp_ptype h) @ [arp_hlen h, arp_plen h] @ st16 (arp_oper h) @ arp_sha h @
     st32 (arp_spa h) @ arp_tha h @ st32 (arp_tpa h)"

definition read_arp :: "u8 list \<Rightarrow> arp_packet_t" where
  [simp]: "read_arp p =
     \<lparr>arp_htype = ld16 p 0, arp_ptype = ld16 p 2, arp_hlen = p ! 4, arp_plen = p ! 5, arp_oper = ld16 p 6,
      arp_sha = take 6 (drop 8 p), arp_spa = ld32 p 14, arp_tha = take 6 (drop 18 p), arp_tpa = ld32 p 24\<rparr>"

definition arp_ok :: "arp_packet_t \<Rightarrow> bool" where
  [header_simps]: "arp_ok h \<longleftrightarrow> length (arp_sha h) = 6 \<and> length (arp_tha h) = 6"

section \<open>Writing and reading are inverse\<close>

locale struct_io =
  fixes ok :: "'h \<Rightarrow> bool"
    and size_of :: nat
    and bytes :: "'h \<Rightarrow> u8 list"
    and reading :: "u8 list \<Rightarrow> 'h"
  assumes length_bytes: "ok h \<Longrightarrow> length (bytes h) = size_of"
    and read_bytes: "ok h \<Longrightarrow> reading (bytes h @ data) = h"
begin

lemma rest_bytes: "ok h \<Longrightarrow> drop size_of (bytes h @ data) = data"
  by (simp add: length_bytes)

lemma bytes_inj: "ok h \<Longrightarrow> ok h' \<Longrightarrow> bytes h @ xs = bytes h' @ ys \<Longrightarrow> h = h' \<and> xs = ys"
  by (metis read_bytes rest_bytes)

end

lemma ld_Cons [header_simps]:
  "0 < i \<Longrightarrow> ld16 (x # xs) i = ld16 xs (i - 1)" "0 < i \<Longrightarrow> ld32 (x # xs) i = ld32 xs (i - 1)"
  by (auto simp: ld16_def ld32_def nth_Cons' numeral_eq_Suc gr0_conv_Suc)

interpretation eth_hdr: struct_io eth_ok 14 eth_bytes read_eth
  by unfold_locales (simp_all add: header_simps)

interpretation ip_hdr: struct_io "\<lambda>_. True" 20 ip_bytes read_ip
  by unfold_locales (simp_all add: header_simps nth_append nth_Cons')

interpretation arp_hdr: struct_io arp_ok 28 arp_bytes read_arp
  by unfold_locales (simp_all add: header_simps nth_append nth_Cons')

end
