(* ===== verification/Ip.thy ===== *)
theory Ip
  imports E1000 Tcp NetHeaders
begin

unbundle bit_operations_syntax

text \<open>
  The network below TCP: Ethernet frames and IP packets (\<^verbatim>\<open>src/network/ip.c\<close>), the ARP table
  (\<^verbatim>\<open>src/network/arp.c\<close>) and the polling loop (\<^verbatim>\<open>src/network.c\<close>).

  Every operation works on the state \<open>net\<close>, the static variables of these files together with those of
  the card and of TCP. The result \<^term>\<open>None\<close> is an access outside an object. A packed header is the
  list of its bytes in memory.
\<close>

section \<open>State\<close>

record arp_entry =
  ae_ip :: u32
  ae_mac :: "u8 list"
  ae_valid :: bool

record 'd net =
  net_nic :: "'d nic"
  arp_table :: "arp_entry list"
  ip_id :: u16
  icmp_id :: u16
  tcp_current_remote_ip :: u32
  net_tcp :: tcp

definition ETHERTYPE_IP :: u16 where "ETHERTYPE_IP = 0x0800"
definition ETHERTYPE_ARP :: u16 where "ETHERTYPE_ARP = 0x0806"
definition ETH_ADDR_LEN :: nat where "ETH_ADDR_LEN = 6"
definition ETH_HDR_LEN :: nat where "ETH_HDR_LEN = 14"
definition IP_PROTO_ICMP :: u8 where "IP_PROTO_ICMP = 1"
definition IP_PROTO_TCP :: u8 where "IP_PROTO_TCP = 6"
definition IP_HDR_LEN :: nat where "IP_HDR_LEN = 20"
definition TCP_HDR_LEN :: nat where "TCP_HDR_LEN = 20"
definition NET_BUF_SIZE :: nat where "NET_BUF_SIZE = 2048"
definition ARP_TABLE_SIZE :: nat where "ARP_TABLE_SIZE = 4"
definition ARP_PACKET_LEN :: nat where "ARP_PACKET_LEN = 28"
definition broadcast_mac :: "u8 list" where "broadcast_mac = replicate 6 0xFF"

lemmas net_sizes = ETH_ADDR_LEN_def ETH_HDR_LEN_def IP_HDR_LEN_def TCP_HDR_LEN_def NET_BUF_SIZE_def
  ARP_TABLE_SIZE_def ARP_PACKET_LEN_def

section \<open>Ethernet\<close>

definition eth_frame :: "u16 \<Rightarrow> u8 list \<Rightarrow> u8 list \<Rightarrow> u8 list" where
  "eth_frame ethertype dst_mac payload =
     eth_bytes \<lparr>eth_dst = take ETH_ADDR_LEN dst_mac, eth_src = NET_MAC_ADDR, eth_ethertype = be16 ethertype\<rparr> @ payload"

definition net_send_eth ::
  "'d hardware \<Rightarrow> u16 \<Rightarrow> u8 list \<Rightarrow> u8 list \<Rightarrow> 'd net \<Rightarrow> (int \<times> 'd net) option" where
  "net_send_eth hw ethertype dst_mac payload st =
     (if NET_BUF_SIZE - ETH_HDR_LEN < length payload then Some (-1, st)
      else map_option (\<lambda>(rc, nic). (rc, st\<lparr>net_nic := nic\<rparr>))
        (e1000_send_packet hw (eth_frame ethertype dst_mac payload) (net_nic st)))"

section \<open>ARP\<close>

definition arp_init :: "'d net \<Rightarrow> 'd net" where
  "arp_init st = st\<lparr>arp_table :=
     replicate ARP_TABLE_SIZE \<lparr>ae_ip = 0, ae_mac = replicate ETH_ADDR_LEN 0, ae_valid = False\<rparr>\<rparr>"

definition arp_lookup :: "u32 \<Rightarrow> arp_entry list \<Rightarrow> nat option" where
  "arp_lookup ip tab = List.find (\<lambda>i. ae_valid (tab ! i) \<and> ae_ip (tab ! i) = ip) [0 ..< ARP_TABLE_SIZE]"

definition arp_store :: "u32 \<Rightarrow> u8 list \<Rightarrow> arp_entry list \<Rightarrow> arp_entry list" where
  "arp_store ip mac tab =
     (let e = arp_lookup ip tab;
          e = (if e = None then List.find (\<lambda>i. \<not> ae_valid (tab ! i)) [0 ..< ARP_TABLE_SIZE] else e);
          i = (case e of Some i \<Rightarrow> i | None \<Rightarrow> 0)
      in tab[i := \<lparr>ae_ip = ip, ae_mac = mac, ae_valid = True\<rparr>])"

definition arp_packet :: "u16 \<Rightarrow> u8 list \<Rightarrow> u32 \<Rightarrow> u8 list" where
  "arp_packet oper tha tpa =
     arp_bytes \<lparr>arp_htype = be16 1, arp_ptype = be16 ETHERTYPE_IP, arp_hlen = 6, arp_plen = 4, arp_oper = be16 oper,
       arp_sha = NET_MAC_ADDR, arp_spa = be32 NET_IP_ADDR, arp_tha = tha, arp_tpa = be32 tpa\<rparr>"

text \<open>The result is the address copied to \<^verbatim>\<open>mac_out\<close>, or none for the return value -1.\<close>

definition arp_resolve :: "'d hardware \<Rightarrow> u32 \<Rightarrow> 'd net \<Rightarrow> (u8 list option \<times> 'd net) option" where
  "arp_resolve hw ip st =
     (case arp_lookup ip (arp_table st) of
        Some i \<Rightarrow> Some (Some (ae_mac (arp_table st ! i)), st)
      | None \<Rightarrow>
          map_option (\<lambda>(rc, st). (None, st))
            (net_send_eth hw ETHERTYPE_ARP broadcast_mac (arp_packet 1 broadcast_mac ip) st))"

definition arp_receive :: "'d hardware \<Rightarrow> u8 list \<Rightarrow> 'd net \<Rightarrow> 'd net option" where
  "arp_receive hw frame st =
     (if length frame < ARP_PACKET_LEN then Some st
      else
        let arp = read_arp frame in
        if be16 (arp_htype arp) \<noteq> 1 \<or> be16 (arp_ptype arp) \<noteq> ETHERTYPE_IP then Some st
        else
        let sender_ip = be32 (arp_spa arp); sha = arp_sha arp;
            st = st\<lparr>arp_table := arp_store sender_ip sha (arp_table st)\<rparr>
        in if be16 (arp_oper arp) = 1 \<and> be32 (arp_tpa arp) = NET_IP_ADDR
           then map_option snd (net_send_eth hw ETHERTYPE_ARP sha (arp_packet 2 sha sender_ip) st)
           else Some st)"

section \<open>IP and TCP output\<close>

definition ip_fields :: "u8 \<Rightarrow> u16 \<Rightarrow> u32 \<Rightarrow> nat \<Rightarrow> u16 \<Rightarrow> u8 list" where
  "ip_fields proto ident dst len checksum =
     ip_bytes \<lparr>ip_ihl_version = 0x45, ip_tos = 0, ip_total_len = be16 (of_nat (IP_HDR_LEN + len)), ip_ident = be16 ident,
       ip_flags_frag = 0, ip_ttl = 64, ip_proto = proto, ip_checksum_field = checksum, ip_src = be32 NET_IP_ADDR,
       ip_dst = dst\<rparr>"

text \<open>The header is written with a checksum of 0, summed, and the sum stored.\<close>

definition ip_header :: "u8 \<Rightarrow> u16 \<Rightarrow> u32 \<Rightarrow> nat \<Rightarrow> u8 list" where
  "ip_header proto ident dst len =
     ip_fields proto ident dst len (ip_checksum (ip_fields proto ident dst len 0))"

definition net_send_ip :: "'d hardware \<Rightarrow> u8 \<Rightarrow> u32 \<Rightarrow> u8 list \<Rightarrow> 'd net \<Rightarrow> (int \<times> 'd net) option" where
  "net_send_ip hw proto dst_ip payload st =
     (if NET_BUF_SIZE - ETH_HDR_LEN - IP_HDR_LEN < length payload then Some (-1, st)
      else
        let packet = ip_header proto (ip_id st) (be32 dst_ip) (length payload) @ payload;
            st = st\<lparr>ip_id := ip_id st + 1\<rparr>
        in Option.bind (arp_resolve hw dst_ip st) (\<lambda>(mac, st).
             case mac of
               None \<Rightarrow> Some (-1, st)
             | Some dst_mac \<Rightarrow> net_send_eth hw ETHERTYPE_IP dst_mac packet st))"

definition tcp_fields :: "u16 \<Rightarrow> u16 \<Rightarrow> u32 \<Rightarrow> u32 \<Rightarrow> u8 \<Rightarrow> u16 \<Rightarrow> u8 list" where
  "tcp_fields src_port dst_port sq ack flags checksum =
     st16 (be16 src_port) @ st16 (be16 dst_port) @ st32 (be32 sq) @ st32 (be32 ack) @ [0x50, flags] @
     st16 (be16 4096) @ st16 checksum @ st16 0"

definition tcp_segment :: "segment \<Rightarrow> u8 list" where
  "tcp_segment sg =
     (let fields = tcp_fields (sg_src_port sg) (sg_dst_port sg) (sg_seq sg) (sg_ack sg) (sg_flags sg);
          checksum = tcp_checksum NET_IP_ADDR (sg_dst_ip sg) (fields 0 @ sg_payload sg)
      in fields checksum @ sg_payload sg)"

definition net_send_tcp :: "'d hardware \<Rightarrow> segment \<Rightarrow> 'd net \<Rightarrow> (int \<times> 'd net) option" where
  "net_send_tcp hw sg st =
     (if NET_BUF_SIZE - ETH_HDR_LEN - IP_HDR_LEN - TCP_HDR_LEN < length (sg_payload sg) then Some (-1, st)
      else net_send_ip hw IP_PROTO_TCP (sg_dst_ip sg) (tcp_segment sg) st)"

text \<open>The segments an operation of TCP sends, one call each, results ignored.\<close>

fun send_segments :: "'d hardware \<Rightarrow> segment list \<Rightarrow> 'd net \<Rightarrow> 'd net option" where
  "send_segments hw [] st = Some st"
| "send_segments hw (sg # sgs) st = Option.bind (net_send_tcp hw sg st) (\<lambda>(rc, st). send_segments hw sgs st)"

section \<open>IP input\<close>

text \<open>The payload of an echo reply: type 0, and the checksum computed with its two bytes 0.\<close>

definition icmp_reply :: "u8 list \<Rightarrow> u8 list" where
  "icmp_reply payload =
     (let r = payload[0 := 0, 2 := 0, 3 := 0]; csum = ip_checksum r
      in r[2 := ucast csum, 3 := ucast (drop_bit 8 csum)])"

text \<open>The result \<^term>\<open>None\<close> for a payload that the buffer of the reply does not hold.\<close>

definition icmp_receive :: "'d hardware \<Rightarrow> u8 list \<Rightarrow> u32 \<Rightarrow> 'd net \<Rightarrow> 'd net option" where
  "icmp_receive hw payload src st =
     (if 8 \<le> length payload \<and> payload ! 0 = 8
      then if NET_BUF_SIZE - IP_HDR_LEN < length payload then None
      else
        let reply = ip_header IP_PROTO_ICMP (icmp_id st) src (length payload) @ icmp_reply payload;
            st = st\<lparr>icmp_id := icmp_id st + 1\<rparr>
        in Option.bind (arp_resolve hw (be32 src) st) (\<lambda>(mac, st).
             case mac of
               None \<Rightarrow> Some st
             | Some dst_mac \<Rightarrow> map_option snd (net_send_eth hw ETHERTYPE_IP dst_mac reply st))
      else Some st)"

definition ip_receive :: "'d hardware \<Rightarrow> u8 list \<Rightarrow> 'd net \<Rightarrow> 'd net option" where
  "ip_receive hw packet st =
     (if length packet < IP_HDR_LEN then Some st
      else
        let ip = read_ip packet in
        if ip_ihl_version ip AND 0xF0 \<noteq> 0x40 then Some st
        else
        let ihl = unat (ip_ihl_version ip AND 0x0F) * 4 in
        if ihl < IP_HDR_LEN \<or> length packet < ihl then Some st
        else if be32 (ip_dst ip) \<noteq> NET_IP_ADDR then Some st
        else
          let proto = ip_proto ip; payload = drop ihl packet; src = ip_src ip;
              st = st\<lparr>tcp_current_remote_ip := be32 src\<rparr>
          in if proto = IP_PROTO_ICMP then icmp_receive hw payload src st
             else if proto = IP_PROTO_TCP then
               Option.bind (tcp_receive payload (tcp_current_remote_ip st) (net_tcp st)) (\<lambda>(tcp, sgs).
                 send_segments hw sgs (st\<lparr>net_tcp := tcp\<rparr>))
             else Some st)"

section \<open>The polling loop\<close>

definition network_init :: "'d hardware \<Rightarrow> 'd net \<Rightarrow> int \<times> 'd net" where
  "network_init hw st =
     (let devs = pci_enumerate_devices (hw_inl hw) (nic_dev (net_nic st));
          (rc, nic) = e1000_init hw ((net_nic st)\<lparr>nic_devices := devs\<rparr>);
          st = st\<lparr>net_nic := nic\<rparr>
      in if rc \<noteq> 0 then (-1, st)
         else let st = arp_init st in (0, st\<lparr>net_tcp := tcp_init (net_tcp st)\<rparr>))"

definition network_receive_packet :: "'d hardware \<Rightarrow> 'd net \<Rightarrow> (u8 list \<times> 'd net) option" where
  "network_receive_packet hw st =
     map_option (\<lambda>(data, nic). (data, st\<lparr>net_nic := nic\<rparr>)) (e1000_receive_packet hw (net_nic st))"

definition network_send_packet :: "'d hardware \<Rightarrow> u8 list \<Rightarrow> 'd net \<Rightarrow> (int \<times> 'd net) option" where
  "network_send_packet hw buffer st =
     map_option (\<lambda>(rc, nic). (if rc \<noteq> 0 then -1 else 0, st\<lparr>net_nic := nic\<rparr>))
       (e1000_send_packet hw (take (length buffer mod 2 ^ 16) buffer) (net_nic st))"

definition dispatch :: "'d hardware \<Rightarrow> u8 list \<Rightarrow> 'd net \<Rightarrow> 'd net option" where
  "dispatch hw frame st =
     (if ETH_HDR_LEN \<le> length frame then
        let hdr = read_eth frame; et = be16 (eth_ethertype hdr); payload = drop ETH_HDR_LEN frame
        in if et = ETHERTYPE_ARP then arp_receive hw payload st
           else if et = ETHERTYPE_IP then ip_receive hw payload st
           else Some st
      else Some st)"

text \<open>One round of \<^verbatim>\<open>network_loop\<close>; the second component is \<^verbatim>\<open>last_tcp_tick\<close>.\<close>

definition network_round :: "'d hardware \<Rightarrow> 'd net \<times> u32 \<Rightarrow> ('d net \<times> u32) option" where
  "network_round hw = (\<lambda>(st, last_tcp_tick).
     Option.bind
       (case network_receive_packet hw st of
          None \<Rightarrow> Some st
        | Some (frame, st) \<Rightarrow> dispatch hw frame st)
       (\<lambda>st.
          let last_tcp_tick = last_tcp_tick + 1 in
          if 100000 \<le> last_tcp_tick then
            (let (tcp, sgs) = tcp_periodic (net_tcp st)
             in map_option (\<lambda>st. (st, 0)) (send_segments hw sgs (st\<lparr>net_tcp := tcp\<rparr>)))
          else Some (st, last_tcp_tick)))"

end
