(* ===== verification/IpProps.thy ===== *)
theory IpProps
  imports Ip
begin

unbundle bit_operations_syntax

text \<open>
  What leaves the machine and what it accepts: the packets \<open>net_send_tcp\<close> puts on the wire verify and
  decode to what was asked for, the ARP table is a cache, echo requests are answered, and no frame makes the
  handlers leave their buffers.
\<close>

section \<open>Headers\<close>

lemma length_ip_fields [simp]: "length (ip_fields p i d n c) = 20"
  by (simp add: ip_fields_def)

lemma length_ip_header [simp]: "length (ip_header p i d n) = 20"
  by (simp add: ip_header_def)

lemma length_tcp_fields [simp]: "length (tcp_fields a b c d e f) = 20"
  by (simp add: tcp_fields_def)

lemma length_tcp_segment [simp]: "length (tcp_segment sg) = 20 + length (sg_payload sg)"
  by (simp add: tcp_segment_def Let_def)

lemma length_mac [simp]: "length NET_MAC_ADDR = 6" "length broadcast_mac = 6"
  by (simp_all add: NET_MAC_ADDR_def broadcast_mac_def)

lemma length_arp_packet [simp]: "length m = 6 \<Longrightarrow> length (arp_packet oper m ip) = 28"
  by (simp add: arp_packet_def)

lemma ip_header_verifies: "ip_checksum (ip_header p i d n) = 0"
proof -
  let ?xs = "[0x45, 0] @ st16 (be16 (of_nat (IP_HDR_LEN + n))) @ st16 (be16 i) @ st16 0 @ [64, p]"
  let ?ys = "st32 (be32 NET_IP_ADDR) @ st32 d"
  have f: "ip_fields p i d n c = ?xs @ st16 c @ ?ys" for c by (simp add: ip_fields_def)
  have "wsum (?xs @ st16 0 @ ?ys) \<le> 65535 * 10" using wsum_bound [of "?xs @ st16 0 @ ?ys"] by simp
  then have "verifies 0 (?xs @ st16 (ip_checksum (ip_fields p i d n 0)) @ ?ys)"
    unfolding f by (intro checksum_verifies) (simp_all add: ip_checksum_def)
  then show ?thesis by (simp add: verifies_ip ip_header_def f)
qed

lemma tcp_segment_verifies:
  assumes "length (sg_payload sg) \<le> 1994"
  shows "tcp_checksum NET_IP_ADDR (sg_dst_ip sg) (tcp_segment sg) = 0"
proof -
  let ?xs = "st16 (be16 (sg_src_port sg)) @ st16 (be16 (sg_dst_port sg)) @ st32 (be32 (sg_seq sg)) @
    st32 (be32 (sg_ack sg)) @ [0x50, sg_flags sg] @ st16 (be16 4096)"
  let ?ys = "st16 0 @ sg_payload sg"
  let ?ph = "st32 (be32 NET_IP_ADDR) @ st32 (be32 (sg_dst_ip sg)) @ [0, 6] @ st16 (be16 (of_nat (20 + length (sg_payload sg))))"
  let ?fields = "tcp_fields (sg_src_port sg) (sg_dst_port sg) (sg_seq sg) (sg_ack sg) (sg_flags sg)"
  let ?acc = "sum16 ?ph 0"
  have f: "?fields c @ sg_payload sg = ?xs @ st16 c @ ?ys" for c by (simp add: tcp_fields_def)
  have ph: "wsum ?ph \<le> 65535 * 6" using wsum_bound [of ?ph] by simp
  then have acc: "unat ?acc = wsum ?ph" using unat_sum16 [of 0 ?ph] by simp
  have "wsum (?xs @ st16 0 @ ?ys) \<le> 65535 * ((length (?xs @ st16 0 @ ?ys) + 1) div 2)" by (rule wsum_bound)
  moreover have "(length (?xs @ st16 0 @ ?ys) + 1) div 2 \<le> 1007"
    using assms by simp
  ultimately have "wsum (?xs @ st16 0 @ ?ys) \<le> 65535 * 1007"
    by (meson le_trans mult_le_mono2)
  then have bound: "unat ?acc + wsum (?xs @ st16 0 @ ?ys) + 65535 < 2 ^ 32" using ph acc by simp
  let ?c = "tcp_checksum NET_IP_ADDR (sg_dst_ip sg) (?fields 0 @ sg_payload sg)"
  have "verifies ?acc (?xs @ st16 ?c @ ?ys)"
    by (rule checksum_verifies [OF _ bound]) (simp_all only: f [symmetric], simp_all add: tcp_checksum_def Let_def)
  then have "verifies ?acc (tcp_segment sg)" by (simp add: tcp_segment_def Let_def f)
  then show ?thesis by (simp add: tcp_checksum_def verifies_def Let_def)
qed

lemma ld_skip [simp]:
  "ld16 (st16 a @ xs) (Suc (Suc i)) = ld16 xs i" "ld32 (st16 a @ xs) (Suc (Suc i)) = ld32 xs i"
  "ld16 (st32 b @ xs) (Suc (Suc (Suc (Suc i)))) = ld16 xs i" "ld32 (st32 b @ xs) (Suc (Suc (Suc (Suc i)))) = ld32 xs i"
  "ld16 (x # xs) (Suc i) = ld16 xs i" "ld32 (x # xs) (Suc i) = ld32 xs i"
  by (simp_all add: ld16_def ld32_def st16_def st32_def numeral_3_eq_3)

lemma ld_st_last [simp]: "ld16 (st16 x) 0 = x" "ld32 (st32 y) 0 = y"
  using ld_st(1) [of x "[]"] ld_st(2) [of y "[]"] by simp_all

lemma read_tcp_segment:
  "read_tcp_header (tcp_segment sg) = \<lparr>th_src_port = sg_src_port sg, th_dst_port = sg_dst_port sg, th_seq = sg_seq sg,
     th_ack = sg_ack sg, th_data_offset = 0x50, th_flags = sg_flags sg\<rparr>"
  by (simp add: read_tcp_header_def tcp_segment_def tcp_fields_def Let_def nth_append numeral_eq_Suc)

lemma tcp_payload_segment: "tcp_payload (tcp_segment sg) = sg_payload sg"
proof -
  have "tcp_segment sg ! 12 = 0x50" by (simp add: tcp_segment_def tcp_fields_def Let_def nth_append)
  moreover have "drop 20 (tcp_segment sg) = sg_payload sg" by (simp add: tcp_segment_def Let_def)
  ultimately show ?thesis by (simp add: tcp_payload_def)
qed

lemma net_send_tcp_wire_frame:
  assumes "length (sg_payload sg) \<le> 1994" "arp_lookup (sg_dst_ip sg) (arp_table st) = Some i"
    "length (ae_mac (arp_table st ! i)) = 6"
  shows "\<exists>ip seg. net_send_tcp hw sg st = map_option (\<lambda>(rc, nic). (rc, st\<lparr>ip_id := ip_id st + 1, net_nic := nic\<rparr>))
      (e1000_send_packet hw (ae_mac (arp_table st ! i) @ NET_MAC_ADDR @ [8, 0] @ ip @ seg) (net_nic st)) \<and>
    ip_checksum ip = 0 \<and> length ip = 20 \<and> be16 (ld16 ip 2) = of_nat (20 + length seg) \<and> ip ! 9 = IP_PROTO_TCP \<and>
    be32 (ld32 ip 12) = NET_IP_ADDR \<and> be32 (ld32 ip 16) = sg_dst_ip sg \<and>
    tcp_checksum NET_IP_ADDR (sg_dst_ip sg) seg = 0 \<and> tcp_payload seg = sg_payload sg \<and>
    read_tcp_header seg = \<lparr>th_src_port = sg_src_port sg, th_dst_port = sg_dst_port sg, th_seq = sg_seq sg,
      th_ack = sg_ack sg, th_data_offset = 0x50, th_flags = sg_flags sg\<rparr> \<and> length seg = 20 + length (sg_payload sg)"
proof -
  let ?seg = "tcp_segment sg" and ?mac = "ae_mac (arp_table st ! i)"
  let ?ip = "ip_header IP_PROTO_TCP (ip_id st) (be32 (sg_dst_ip sg)) (length ?seg)"
  have e: "st16 (be16 ETHERTYPE_IP) = [8, 0]" by (simp add: ETHERTYPE_IP_def be16_def st16_def)
  have "net_send_tcp hw sg st = map_option (\<lambda>(rc, nic). (rc, st\<lparr>ip_id := ip_id st + 1, net_nic := nic\<rparr>))
      (e1000_send_packet hw (?mac @ NET_MAC_ADDR @ [8, 0] @ ?ip @ ?seg) (net_nic st))"
    using assms by (simp add: net_send_tcp_def net_send_ip_def arp_resolve_def net_send_eth_def eth_frame_def net_sizes e)
  moreover have "be16 (ld16 ?ip 2) = of_nat (20 + length ?seg)" "?ip ! 9 = IP_PROTO_TCP"
    "be32 (ld32 ?ip 12) = NET_IP_ADDR" "be32 (ld32 ?ip 16) = sg_dst_ip sg"
    by (simp_all add: ip_header_def ip_fields_def numeral_eq_Suc nth_append) (simp_all add: net_sizes)
  ultimately show ?thesis
    using ip_header_verifies tcp_segment_verifies [OF assms(1)] read_tcp_segment tcp_payload_segment
    by (intro exI [of _ ?ip] exI [of _ ?seg] conjI) simp_all
qed

text \<open>
  What \<open>net_send_tcp\<close> puts on the wire, when the address is resolved: one frame to the
  receiver's hardware address whose IP header and TCP segment both verify, and from which a receiver reads the
  ports, the sequence numbers, the flags and the data that were asked for. The payload has at most 1994 bytes.
\<close>

theorem net_send_tcp_wire:
  assumes "length (sg_payload sg) \<le> 1994" "arp_lookup (sg_dst_ip sg) (arp_table st) = Some i"
    "length (ae_mac (arp_table st ! i)) = 6"
  shows "\<exists>ip seg. net_send_tcp hw sg st = map_option (\<lambda>(rc, nic). (rc, st\<lparr>ip_id := ip_id st + 1, net_nic := nic\<rparr>))
      (e1000_send_packet hw (ae_mac (arp_table st ! i) @ NET_MAC_ADDR @ [8, 0] @ ip @ seg) (net_nic st)) \<and>
    ip_checksum ip = 0 \<and> length ip = 20 \<and> be16 (ld16 ip 2) = of_nat (20 + length seg) \<and> ip ! 9 = IP_PROTO_TCP \<and>
    be32 (ld32 ip 12) = NET_IP_ADDR \<and> be32 (ld32 ip 16) = sg_dst_ip sg \<and>
    tcp_checksum NET_IP_ADDR (sg_dst_ip sg) seg = 0 \<and> tcp_payload seg = sg_payload sg \<and>
    read_tcp_header seg = \<lparr>th_src_port = sg_src_port sg, th_dst_port = sg_dst_port sg, th_seq = sg_seq sg,
      th_ack = sg_ack sg, th_data_offset = 0x50, th_flags = sg_flags sg\<rparr>"
  using net_send_tcp_wire_frame [OF assms, of hw] by blast

definition sample_peer :: arp_entry where
  "sample_peer = \<lparr>ae_ip = 0x0A000202, ae_mac = [0x52, 0x55, 0x0A, 0, 2, 2], ae_valid = True\<rparr>"

definition blank_entry :: arp_entry where
  "blank_entry = \<lparr>ae_ip = 0, ae_mac = replicate 6 0, ae_valid = False\<rparr>"

definition sample_hw :: "unit hardware" where
  "sample_hw = \<lparr>hw_read = (\<lambda>d a. 0), hw_write = (\<lambda>d a v. d), hw_inl = (\<lambda>d a. 0), hw_outl = (\<lambda>d a v. d), hw_tick = (\<lambda>x. x),
     rx_ring_addr = 0, tx_ring_addr = 0, rx_buffer_addr = (\<lambda>i. 0), tx_buffer_addr = (\<lambda>i. 0)\<rparr>"

definition sample_net :: "tcp \<Rightarrow> unit net" where
  "sample_net tcp =
     \<lparr>net_nic = \<lparr>nic_devices = [], e1000_base = 0, nic_rings = \<lparr>rx_desc_ring = [], tx_desc_ring = [], rx_buffers = [],
        tx_buffers = []\<rparr>, rx_head = 0, tx_tail = 0, nic_dev = ()\<rparr>,
      arp_table = [sample_peer, blank_entry, blank_entry, blank_entry], ip_id = 1, icmp_id = 1,
      tcp_current_remote_ip = 0, net_tcp = tcp\<rparr>"

definition sample_segment :: segment where
  "sample_segment = \<lparr>sg_src_port = 8080, sg_dst_port = 40000, sg_dst_ip = 0x0A000202, sg_seq = 1000, sg_ack = 7,
     sg_flags = 0x18, sg_payload = [72, 84, 84, 80]\<rparr>"

lemma sample_lookup: "arp_lookup 0x0A000202 (arp_table (sample_net tcp)) = Some 0"
  by (simp add: arp_lookup_def sample_net_def sample_peer_def ARP_TABLE_SIZE_def upt_conv_Cons)

lemma net_send_tcp_wire_witness:
  "\<forall>tcp. \<exists>ip seg. net_send_tcp sample_hw sample_segment (sample_net tcp) = Some (-1, (sample_net tcp)\<lparr>ip_id := 2\<rparr>) \<and>
     ip_checksum ip = 0 \<and> tcp_payload seg = [72, 84, 84, 80]"
proof
  fix tcp
  have "length (sg_payload sample_segment) \<le> 1994" "sg_dst_ip sample_segment = 0x0A000202"
    "length (ae_mac (arp_table (sample_net tcp) ! 0)) = 6" "sg_payload sample_segment = [72, 84, 84, 80]"
    by (simp_all add: sample_segment_def sample_net_def sample_peer_def)
  with net_send_tcp_wire [of sample_segment "sample_net tcp" 0 sample_hw] sample_lookup [of tcp]
  show "\<exists>ip seg. net_send_tcp sample_hw sample_segment (sample_net tcp) = Some (-1, (sample_net tcp)\<lparr>ip_id := 2\<rparr>) \<and>
     ip_checksum ip = 0 \<and> tcp_payload seg = [72, 84, 84, 80]"
    by (auto simp: e1000_send_packet_def sample_net_def)
qed

text \<open>
  A response is never divided into several segments, and a segment with more than 1994 bytes
  of data is not sent at all: the calls before and after it have the effect they have without it. The socket
  has by then counted the bytes as sent (\<open>tcp_send_data\<close>), and the server does not learn of the failure.
\<close>

theorem long_segments_vanish:
  assumes "1994 < length (sg_payload sg)"
  shows "send_segments hw (sgs @ sg # sgs2) st = send_segments hw (sgs @ sgs2) st \<and>
    net_send_tcp hw sg st = Some (-1, st)"
proof -
  have "net_send_tcp hw sg st = Some (-1, st)" for st :: "'a net"
    using assms by (simp add: net_send_tcp_def net_sizes)
  moreover from this have "send_segments hw (sgs @ sg # sgs2) st = send_segments hw (sgs @ sgs2) st" for st
  proof (induction sgs arbitrary: st)
    case (Cons a sgs)
    then show ?case by (cases "net_send_tcp hw a st") auto
  qed simp
  ultimately show ?thesis by blast
qed

lemma long_segments_vanish_witness:
  "\<forall>st. send_segments sample_hw [sample_segment\<lparr>sg_payload := replicate 1995 65\<rparr>, sample_segment] st =
     send_segments sample_hw [sample_segment] st"
  using long_segments_vanish [of "sample_segment\<lparr>sg_payload := replicate 1995 65\<rparr>" sample_hw "[]" "[sample_segment]"]
  by (simp del: send_segments.simps)

section \<open>The ARP table\<close>

text \<open>What the output path needs of an address table, and what the table of four entries gives.\<close>

locale address_table =
  fixes inv :: "'t \<Rightarrow> bool"
    and find :: "u32 \<Rightarrow> 't \<Rightarrow> u8 list option"
    and store :: "u32 \<Rightarrow> u8 list \<Rightarrow> 't \<Rightarrow> 't"
    and cap :: nat
  assumes store_inv: "inv t \<Longrightarrow> length mac = 6 \<Longrightarrow> inv (store ip mac t)"
    and find_store: "inv t \<Longrightarrow> length mac = 6 \<Longrightarrow> find ip (store ip mac t) = Some mac"
    and find_mac: "inv t \<Longrightarrow> find ip t = Some mac \<Longrightarrow> length mac = 6"
    and no_invention: "inv t \<Longrightarrow> length mac = 6 \<Longrightarrow> ip' \<noteq> ip \<Longrightarrow> find ip' (store ip mac t) \<in> {None, find ip' t}"
    and evict_one: "inv t \<Longrightarrow> length mac = 6 \<Longrightarrow>
      \<exists>v. \<forall>ip'. ip' \<noteq> ip \<longrightarrow> ip' \<noteq> v \<longrightarrow> find ip' (store ip mac t) = find ip' t"
    and known: "inv t \<Longrightarrow> finite (dom (\<lambda>ip. find ip t)) \<and> card (dom (\<lambda>ip. find ip t)) \<le> cap"
begin

text \<open>After any sequence of stores: an answer is the last address stored under the key, or older than the sequence.\<close>

definition stores :: "(u32 \<times> u8 list) list \<Rightarrow> 't \<Rightarrow> 't" where
  "stores evs t = fold (\<lambda>(ip, mac). store ip mac) evs t"

lemma stores_inv: "inv t \<Longrightarrow> \<forall>(ip, mac)\<in>set evs. length mac = 6 \<Longrightarrow> inv (stores evs t)"
  by (induction evs arbitrary: t) (auto simp: stores_def store_inv)

lemma find_last:
  assumes "inv t" "\<forall>(ip, mac)\<in>set evs. length mac = 6" "find ip (stores evs t) = Some mac"
  shows "(case map_of (rev evs) ip of Some m \<Rightarrow> mac = m | None \<Rightarrow> find ip t = Some mac)"
  using assms
proof (induction evs arbitrary: mac rule: rev_induct)
  case (snoc ev evs)
  obtain k m where ev: "ev = (k, m)" by (cases ev)
  have inv: "inv (stores evs t)" using snoc.prems by (intro stores_inv) auto
  have m: "length m = 6" using snoc.prems(2) ev by simp
  have s: "stores (evs @ [ev]) t = store k m (stores evs t)" by (simp add: stores_def ev)
  show ?case
  proof (cases "k = ip")
    case True
    then show ?thesis using snoc.prems(3) find_store [OF inv m, of k] unfolding s by (simp add: ev)
  next
    case False
    then have "find ip (stores evs t) = Some mac"
      using snoc.prems(3) no_invention [OF inv m, of ip k] by (auto simp: s)
    with snoc.IH [of mac] snoc.prems(1,2) False show ?thesis by (simp add: ev)
  qed
qed (simp add: stores_def)

end

definition arp_inv :: "arp_entry list \<Rightarrow> bool" where
  "arp_inv tab \<longleftrightarrow> length tab = 4 \<and> (\<forall>i<4. ae_valid (tab ! i) \<longrightarrow> length (ae_mac (tab ! i)) = 6) \<and>
     (\<forall>i<4. \<forall>j<4. ae_valid (tab ! i) \<and> ae_valid (tab ! j) \<and> ae_ip (tab ! i) = ae_ip (tab ! j) \<longrightarrow> i = j)"

definition arp_find :: "u32 \<Rightarrow> arp_entry list \<Rightarrow> u8 list option" where
  "arp_find ip tab = map_option (\<lambda>i. ae_mac (tab ! i)) (arp_lookup ip tab)"

lemma lookup_Some: "arp_lookup ip tab = Some i \<Longrightarrow> i < 4 \<and> ae_valid (tab ! i) \<and> ae_ip (tab ! i) = ip"
  by (auto simp: arp_lookup_def find_Some_iff ARP_TABLE_SIZE_def)

lemma lookup_None: "arp_lookup ip tab = None \<longleftrightarrow> (\<forall>i<4. \<not> (ae_valid (tab ! i) \<and> ae_ip (tab ! i) = ip))"
  by (auto simp: arp_lookup_def find_None_iff ARP_TABLE_SIZE_def)

lemma lookup_unique:
  assumes "arp_inv tab" "i < 4" "ae_valid (tab ! i)" "ae_ip (tab ! i) = ip"
  shows "arp_lookup ip tab = Some i"
proof -
  obtain j where j: "arp_lookup ip tab = Some j" using assms lookup_None [of ip tab] by fastforce
  then show ?thesis using lookup_Some [OF j] assms unfolding arp_inv_def by metis
qed

lemma store_inv_entry:
  assumes "arp_inv tab" "i < 4" "length mac = 6"
    "\<And>j. j < 4 \<Longrightarrow> ae_valid (tab ! j) \<Longrightarrow> ae_ip (tab ! j) = ip \<Longrightarrow> j = i"
  shows "arp_inv (tab[i := \<lparr>ae_ip = ip, ae_mac = mac, ae_valid = True\<rparr>])"
proof -
  let ?e = "\<lparr>ae_ip = ip, ae_mac = mac, ae_valid = True\<rparr>"
  have n: "tab[i := ?e] ! j = (if j = i then ?e else tab ! j)" if "j < 4" for j
    using that assms(1) by (simp add: arp_inv_def nth_list_update)
  have "j = k" if "j < 4" "k < 4" "ae_valid (tab[i := ?e] ! j)" "ae_valid (tab[i := ?e] ! k)"
    "ae_ip (tab[i := ?e] ! j) = ae_ip (tab[i := ?e] ! k)" for j k
  proof (cases "j = i \<or> k = i")
    case True
    then show ?thesis using that assms(4) [of j] assms(4) [of k] by (auto simp: n split: if_splits)
  next
    case False
    then show ?thesis using that assms(1) unfolding arp_inv_def by (metis n)
  qed
  moreover have "length (ae_mac (tab[i := ?e] ! j)) = 6" if "j < 4" "ae_valid (tab[i := ?e] ! j)" for j
    using that assms(1,3) by (simp add: n arp_inv_def split: if_splits)
  moreover have "length tab = 4" using assms(1) by (simp add: arp_inv_def)
  ultimately show ?thesis unfolding arp_inv_def by (intro conjI allI impI) simp_all
qed

lemma find_iff:
  "arp_inv tab \<Longrightarrow> arp_find ip tab = Some mac \<longleftrightarrow>
     (\<exists>i<4. ae_valid (tab ! i) \<and> ae_ip (tab ! i) = ip \<and> ae_mac (tab ! i) = mac)"
  unfolding arp_find_def using lookup_Some [of ip tab] lookup_unique [of tab _ ip] by fastforce

text \<open>Where an address goes: its own entry, else a free one, else the first.\<close>

lemma store_slot:
  assumes "arp_inv tab"
  obtains i where "i < 4" "arp_store ip mac tab = tab[i := \<lparr>ae_ip = ip, ae_mac = mac, ae_valid = True\<rparr>]"
    "\<And>j. j < 4 \<Longrightarrow> ae_valid (tab ! j) \<Longrightarrow> ae_ip (tab ! j) = ip \<Longrightarrow> j = i"
proof (cases "arp_lookup ip tab")
  case (Some i)
  then show ?thesis
    using lookup_Some [OF Some] lookup_unique [OF assms, of _ ip] that [of i] by (fastforce simp: arp_store_def)
next
  case None
  define e where "e = List.find (\<lambda>i. \<not> ae_valid (tab ! i)) [0 ..< ARP_TABLE_SIZE]"
  have "(case e of Some i \<Rightarrow> i | None \<Rightarrow> 0) < 4"
    by (auto simp: e_def find_Some_iff ARP_TABLE_SIZE_def split: option.split)
  moreover have "\<not> ae_valid (tab ! j) \<or> ae_ip (tab ! j) \<noteq> ip" if "j < 4" for j
    using that None lookup_None [of ip tab] by blast
  ultimately show ?thesis
    using None by (intro that [of "case e of Some i \<Rightarrow> i | None \<Rightarrow> 0"]) (auto simp: arp_store_def e_def Let_def)
qed

lemma arp_store_inv:
  assumes "arp_inv tab" "length mac = 6"
  shows "arp_inv (arp_store ip mac tab)"
  by (rule store_slot [OF assms(1), of ip mac]) (use assms store_inv_entry in metis)

lemma arp_find_store: "arp_inv tab \<Longrightarrow> length mac = 6 \<Longrightarrow> arp_find ip (arp_store ip mac tab) = Some mac"
proof -
  assume "arp_inv tab" "length mac = 6"
  note inv = this arp_store_inv [OF this, of ip]
  obtain i where "i < 4" "arp_store ip mac tab = tab[i := \<lparr>ae_ip = ip, ae_mac = mac, ae_valid = True\<rparr>]"
    using store_slot [OF inv(1), of ip mac] by metis
  then have "arp_store ip mac tab ! i = \<lparr>ae_ip = ip, ae_mac = mac, ae_valid = True\<rparr>" "i < 4"
    using inv(1) by (simp_all add: arp_inv_def)
  then show ?thesis by (subst find_iff [OF inv(3)]) (auto intro!: exI [of _ i])
qed

lemma arp_find_other:
  assumes "arp_inv tab" "length mac = 6"
  obtains v where "\<And>ip'. ip' \<noteq> ip \<Longrightarrow> arp_find ip' (arp_store ip mac tab) = (if ip' = v then None else arp_find ip' tab)"
    | "\<And>ip'. ip' \<noteq> ip \<Longrightarrow> arp_find ip' (arp_store ip mac tab) = arp_find ip' tab"
proof -
  obtain i where i: "i < 4" "arp_store ip mac tab = tab[i := \<lparr>ae_ip = ip, ae_mac = mac, ae_valid = True\<rparr>]"
    using store_slot [OF assms(1), of ip mac] by metis
  have l: "length tab = 4" using assms(1) by (simp add: arp_inv_def)
  have e: "arp_find ip' (arp_store ip mac tab) = Some m \<longleftrightarrow>
      (\<exists>j<4. j \<noteq> i \<and> ae_valid (tab ! j) \<and> ae_ip (tab ! j) = ip' \<and> ae_mac (tab ! j) = m)" if "ip' \<noteq> ip" for ip' m
    using that i l by (subst find_iff [OF arp_store_inv [OF assms]]) (auto simp: nth_list_update)
  show ?thesis
  proof (cases "ae_valid (tab ! i)")
    case True
    have "arp_find ip' (arp_store ip mac tab) = (if ip' = ae_ip (tab ! i) then None else arp_find ip' tab)"
      if ne: "ip' \<noteq> ip" for ip'
    proof (rule option.exhaust [of "arp_find ip' (arp_store ip mac tab)"])
      assume n: "arp_find ip' (arp_store ip mac tab) = None"
      have "arp_find ip' tab = None" if "ip' \<noteq> ae_ip (tab ! i)"
      proof (rule ccontr)
        assume "arp_find ip' tab \<noteq> None"
        then obtain m where "arp_find ip' tab = Some m" by blast
        then show False using e [OF ne, of m] n that find_iff [OF assms(1), of ip' m] by auto
      qed
      with n show ?thesis by simp
    next
      fix m assume m: "arp_find ip' (arp_store ip mac tab) = Some m"
      then obtain j where j: "j < 4" "j \<noteq> i" "ae_valid (tab ! j)" "ae_ip (tab ! j) = ip'" "ae_mac (tab ! j) = m"
        using e [OF ne] by blast
      then have "ip' \<noteq> ae_ip (tab ! i)" using assms(1) True i(1) unfolding arp_inv_def by metis
      moreover have "arp_find ip' tab = Some m" using j find_iff [OF assms(1)] by blast
      ultimately show ?thesis using m by simp
    qed
    then show ?thesis by (rule that(1))
  next
    case False
    have "arp_find ip' (arp_store ip mac tab) = arp_find ip' tab" if "ip' \<noteq> ip" for ip'
      using e [OF that] find_iff [OF assms(1), of ip'] False by (metis option.exhaust)
    then show ?thesis by (rule that(2))
  qed
qed

lemma arp_known: "arp_inv tab \<Longrightarrow> finite (dom (\<lambda>ip. arp_find ip tab)) \<and> card (dom (\<lambda>ip. arp_find ip tab)) \<le> 4"
proof -
  assume "arp_inv tab"
  then have sub: "dom (\<lambda>ip. arp_find ip tab) \<subseteq> (\<lambda>i. ae_ip (tab ! i)) ` {..< 4}"
    by (auto simp: dom_def find_iff)
  then have "card (dom (\<lambda>ip. arp_find ip tab)) \<le> card ((\<lambda>i. ae_ip (tab ! i)) ` {..< 4})"
    by (intro card_mono) simp_all
  also have "\<dots> \<le> card {..< 4 :: nat}" by (rule card_image_le) simp
  finally show ?thesis using finite_subset [OF sub] by simp
qed

interpretation arp: address_table arp_inv arp_find arp_store 4
proof
  fix ip ip' :: u32 and mac :: "u8 list" and t
  assume "arp_inv t" "length mac = 6"
  note a = this
  show "arp_inv (arp_store ip mac t)" using a by (rule arp_store_inv)
  show "arp_find ip (arp_store ip mac t) = Some mac" using a by (rule arp_find_store)
  show "arp_find ip' (arp_store ip mac t) \<in> {None, arp_find ip' t}" if "ip' \<noteq> ip"
    by (rule arp_find_other [OF a, of ip]) (use that in auto)
  show "\<exists>v. \<forall>ip'. ip' \<noteq> ip \<longrightarrow> ip' \<noteq> v \<longrightarrow> arp_find ip' (arp_store ip mac t) = arp_find ip' t"
    by (rule arp_find_other [OF a, of ip]) metis+
next
  fix t ip mac
  assume "arp_inv t" "arp_find ip t = Some mac"
  then show "length mac = 6" using find_iff [of t ip mac] by (auto simp: arp_inv_def)
qed (rule arp_known)

definition arp_learn :: "(u32 \<times> u8 list) list \<Rightarrow> arp_entry list \<Rightarrow> arp_entry list" where
  "arp_learn evs tab = fold (\<lambda>(ip, mac). arp_store ip mac) evs tab"

lemma arp_learn: "arp_learn evs tab = arp.stores evs tab"
  by (simp add: arp_learn_def arp.stores_def)

lemma learn_known:
  assumes "arp_inv tab" "\<forall>(ip, mac)\<in>set evs. length mac = 6"
  shows "arp_inv (arp_learn evs tab)" "card (dom (\<lambda>ip. arp_find ip (arp_learn evs tab))) \<le> 4"
    "evs \<noteq> [] \<Longrightarrow> arp_find (fst (last evs)) (arp_learn evs tab) = Some (snd (last evs))"
    "arp_find ip (arp_learn evs tab) = Some mac \<Longrightarrow>
       (case map_of (rev evs) ip of Some m \<Rightarrow> mac = m | None \<Rightarrow> arp_find ip tab = Some mac)"
proof -
  show i: "arp_inv (arp_learn evs tab)" unfolding arp_learn using assms by (rule arp.stores_inv)
  show "card (dom (\<lambda>ip. arp_find ip (arp_learn evs tab))) \<le> 4" using arp.known [OF i] by simp
  show "case map_of (rev evs) ip of Some m \<Rightarrow> mac = m | None \<Rightarrow> arp_find ip tab = Some mac"
    if "arp_find ip (arp_learn evs tab) = Some mac"
    using assms that unfolding arp_learn by (rule arp.find_last)
  show "arp_find (fst (last evs)) (arp_learn evs tab) = Some (snd (last evs))" if "evs \<noteq> []"
  proof (cases evs rule: rev_exhaust)
    case (snoc es ev)
    have "arp_inv (arp_learn es tab)" unfolding arp_learn using assms snoc by (intro arp.stores_inv) auto
    then show ?thesis
      using assms(2) snoc arp.find_store [of "arp_learn es tab" "snd ev" "fst ev"]
      by (simp add: arp_learn_def split_beta)
  qed (use that in simp)
qed

text \<open>
  \<^bold>\<open>C35.\<close> The ARP table is a cache of four addresses. After any sequence of stores from a well-formed
  table it is well formed and knows at most four addresses; the one stored last is found; and an answer is
  never wrong: it is the last hardware address stored for that IP address, or, when the sequence has none, the
  one the table had before.
\<close>

theorem arp_table_cache:
  assumes "arp_inv tab" "\<forall>(ip, mac)\<in>set evs. length mac = 6"
  shows "arp_inv (arp_learn evs tab) \<and> card (dom (\<lambda>ip. arp_find ip (arp_learn evs tab))) \<le> 4 \<and>
    (evs \<noteq> [] \<longrightarrow> arp_find (fst (last evs)) (arp_learn evs tab) = Some (snd (last evs))) \<and>
    (arp_find ip (arp_learn evs tab) = Some mac \<longrightarrow>
       (case map_of (rev evs) ip of Some m \<Rightarrow> mac = m | None \<Rightarrow> arp_find ip tab = Some mac))"
  using learn_known(1-3) [OF assms] learn_known(4) [OF assms, of ip mac] by blast

lemma blank_table: "arp_inv (replicate 4 blank_entry)"
  by (auto simp: arp_inv_def blank_entry_def)

lemma arp_table_cache_witness:
  "arp_find 5 (arp_learn [(5, [1, 1, 1, 1, 1, 1]), (6, [2, 2, 2, 2, 2, 2]), (5, [3, 3, 3, 3, 3, 3])] (replicate 4 blank_entry)) =
     Some [3, 3, 3, 3, 3, 3]"
  using arp_table_cache [of "replicate 4 blank_entry"
      "[(5, [1, 1, 1, 1, 1, 1]), (6, [2, 2, 2, 2, 2, 2]), (5, [3, 3, 3, 3, 3, 3])]"]
  by (simp add: blank_table)

section \<open>Input\<close>

text \<open>
  Of a packet's header \<open>ip_receive\<close> reads the version and header length, the protocol and
  the two addresses. Every other byte of the first twelve can be anything: the type of service, the total
  length, identification, fragment fields, time to live and header checksum are ignored. So a packet with a
  wrong checksum is accepted, a fragment is taken for a whole datagram, and the padding of a short Ethernet
  frame counts as data of the segment.
\<close>

theorem ip_receive_ignores:
  assumes "i \<in> {1, 2, 3, 4, 5, 6, 7, 8, 10, 11}"
  shows "ip_receive hw (packet[i := b]) st = ip_receive hw packet st"
proof -
  have i: "i < 12" "i \<noteq> 0" "i \<noteq> 9" using assms by auto
  then have "ld32 (packet[i := b]) 12 = ld32 packet 12" "ld32 (packet[i := b]) 16 = ld32 packet 16"
    "packet[i := b] ! 0 = packet ! 0" "packet[i := b] ! 9 = packet ! 9"
    by (simp_all add: ld32_def)
  moreover have "drop n (packet[i := b]) = drop n packet" if "20 \<le> n" for n
    using i that by simp
  ultimately show ?thesis
    unfolding ip_receive_def IP_HDR_LEN_def by (simp add: Let_def)
qed

lemma ip_receive_ignores_witness:
  "\<forall>st. ip_receive sample_hw ((replicate 40 0)[10 := 0xAB]) st = ip_receive sample_hw (replicate 40 0) st"
  using ip_receive_ignores [of 10 sample_hw "replicate 40 0" "0xAB"] by blast

text \<open>The checksum of an echo reply.\<close>

lemma list4_cases:
  obtains "length p < 4" | a b c d r where "p = a # b # c # d # r"
  by (cases p; cases "tl p"; cases "tl (tl p)"; cases "tl (tl (tl p))") auto

lemma take_4: "4 \<le> length p \<Longrightarrow> p = p ! 0 # p ! 1 # p ! 2 # p ! 3 # drop 4 p"
  by (cases p rule: list4_cases) auto

lemma icmp_reply_eq:
  assumes "4 \<le> length p"
  shows "icmp_reply p = [0, p ! 1] @ st16 (ip_checksum ([0, p ! 1] @ st16 0 @ drop 4 p)) @ drop 4 p"
proof -
  obtain a b c d r where "p = a # b # c # d # r" using take_4 [OF assms] by metis
  then show ?thesis by (simp add: icmp_reply_def st16_def Let_def numeral_eq_Suc)
qed

lemma icmp_reply_verifies:
  assumes "4 \<le> length p" "length p \<le> 2014"
  shows "ip_checksum (icmp_reply p) = 0"
proof -
  let ?xs = "[0, p ! 1]" and ?ys = "drop 4 p"
  have "wsum (?xs @ st16 0 @ ?ys) \<le> 65535 * ((length (?xs @ st16 0 @ ?ys) + 1) div 2)" by (rule wsum_bound)
  moreover have "(length (?xs @ st16 0 @ ?ys) + 1) div 2 \<le> 1007" using assms by simp
  ultimately have "wsum (?xs @ st16 0 @ ?ys) \<le> 65535 * 1007" by (meson le_trans mult_le_mono2)
  then have "unat (0 :: u32) + wsum (?xs @ st16 0 @ ?ys) + 65535 < 2 ^ 32" by simp
  then have "verifies 0 (?xs @ st16 (ip_checksum (?xs @ st16 0 @ ?ys)) @ ?ys)"
    by (rule checksum_verifies [rotated]) (simp_all add: ip_checksum_def)
  then show ?thesis by (simp add: verifies_ip icmp_reply_eq [OF assms(1)])
qed


definition sample_ping :: "u8 list" where
  "sample_ping = [0x45, 0, 0, 30, 0, 1, 0, 0, 64, 1, 0, 0, 10, 0, 2, 2, 10, 0, 2, 15]"


section \<open>Bounds\<close>

definition net_ok :: "'d net \<Rightarrow> bool" where
  "net_ok st \<longleftrightarrow> arp_inv (arp_table st)"

lemma net_send_eth_total:
  assumes "length mac = 6"
  obtains rc st' where "net_send_eth hw et mac payload st = Some (rc, st')" "net_ok st \<Longrightarrow> net_ok st'"
proof -
  have "net_send_eth hw et mac payload st \<noteq> None"
    using assms by (auto simp: net_send_eth_def e1000_send_packet_def Let_def eth_frame_def net_sizes TX_BUFFER_SIZE_def)
  then obtain rc st' where s: "net_send_eth hw et mac payload st = Some (rc, st')" by fastforce
  then have "net_ok st \<Longrightarrow> net_ok st'" by (auto simp: net_send_eth_def net_ok_def split: if_splits)
  with s show ?thesis by (rule that)
qed

lemma arp_resolve_total:
  assumes "net_ok st"
  obtains mac st' where "arp_resolve hw ip st = Some (mac, st')" "net_ok st'" "\<And>m. mac = Some m \<Longrightarrow> length m = 6"
proof (cases "arp_lookup ip (arp_table st)")
  case None
  obtain rc st' where "net_send_eth hw ETHERTYPE_ARP broadcast_mac (arp_packet 1 broadcast_mac ip) st = Some (rc, st')"
    "net_ok st \<Longrightarrow> net_ok st'"
    using net_send_eth_total [OF length_mac(2)] by blast
  then show ?thesis using assms None by (intro that [of None st']) (simp_all add: arp_resolve_def)
next
  case (Some i)
  then have "length (ae_mac (arp_table st ! i)) = 6"
    using assms lookup_Some [OF Some] by (simp add: net_ok_def arp_inv_def)
  then show ?thesis
    using assms Some by (intro that [of "Some (ae_mac (arp_table st ! i))" st]) (simp_all add: arp_resolve_def)
qed

lemma net_send_ip_total:
  assumes "net_ok st"
  obtains rc st' where "net_send_ip hw proto ip payload st = Some (rc, st')" "net_ok st'"
proof (cases "NET_BUF_SIZE - ETH_HDR_LEN - IP_HDR_LEN < length payload")
  case True
  then show ?thesis using assms by (intro that) (simp_all add: net_send_ip_def)
next
  case False
  let ?packet = "ip_header proto (ip_id st) (be32 ip) (length payload) @ payload"
  have "net_ok (st\<lparr>ip_id := ip_id st + 1\<rparr>)" using assms by (simp add: net_ok_def)
  then obtain mac st1 where r: "arp_resolve hw ip (st\<lparr>ip_id := ip_id st + 1\<rparr>) = Some (mac, st1)" "net_ok st1"
    "\<And>m. mac = Some m \<Longrightarrow> length m = 6"
    by (rule arp_resolve_total) blast
  show ?thesis
  proof (cases mac)
    case None
    then show ?thesis using r False by (intro that [of "-1" st1]) (simp_all add: net_send_ip_def)
  next
    case (Some m)
    obtain rc st2 where "net_send_eth hw ETHERTYPE_IP m ?packet st1 = Some (rc, st2)" "net_ok st1 \<Longrightarrow> net_ok st2"
      using net_send_eth_total [OF r(3) [OF Some]] by blast
    then show ?thesis using r Some False by (intro that [of rc st2]) (simp_all add: net_send_ip_def)
  qed
qed

lemma send_segments_total: "net_ok st \<Longrightarrow> \<exists>st'. send_segments hw sgs st = Some st' \<and> net_ok st'"
proof (induction sgs arbitrary: st)
  case (Cons sg sgs)
  obtain rc st1 where "net_send_ip hw IP_PROTO_TCP (sg_dst_ip sg) (tcp_segment sg) st = Some (rc, st1)" "net_ok st1"
    using net_send_ip_total [OF Cons.prems] by blast
  then obtain rc' st2 where "net_send_tcp hw sg st = Some (rc', st2)" "net_ok st2"
    using Cons.prems unfolding net_send_tcp_def by metis
  with Cons.IH [of st2] show ?case by simp
qed simp

lemma icmp_total:
  assumes "net_ok st" "length payload \<le> 2014"
  shows "\<exists>st'. icmp_receive hw payload src st = Some st' \<and> net_ok st'"
proof (cases "8 \<le> length payload \<and> payload ! 0 = 8")
  case True
  let ?reply = "ip_header IP_PROTO_ICMP (icmp_id st) src (length payload) @ icmp_reply payload"
  have "net_ok (st\<lparr>icmp_id := icmp_id st + 1\<rparr>)" using assms(1) by (simp add: net_ok_def)
  then obtain mac st1 where r: "arp_resolve hw (be32 src) (st\<lparr>icmp_id := icmp_id st + 1\<rparr>) = Some (mac, st1)" "net_ok st1"
    "\<And>m. mac = Some m \<Longrightarrow> length m = 6"
    by (rule arp_resolve_total) blast
  show ?thesis
  proof (cases mac)
    case None
    then show ?thesis using r True assms(2) by (simp add: icmp_receive_def net_sizes)
  next
    case (Some m)
    obtain rc st2 where "net_send_eth hw ETHERTYPE_IP m ?reply st1 = Some (rc, st2)" "net_ok st1 \<Longrightarrow> net_ok st2"
      using net_send_eth_total [OF r(3) [OF Some]] by blast
    then show ?thesis using r Some True assms(2) by (simp add: icmp_receive_def net_sizes)
  qed
qed (use assms in \<open>auto simp: icmp_receive_def\<close>)

lemma arp_total:
  assumes "net_ok st"
  shows "\<exists>st'. arp_receive hw frame st = Some st' \<and> net_ok st'"
proof (cases "length frame < 28")
  case True
  then show ?thesis using assms by (simp add: arp_receive_def net_sizes)
next
  case False
  let ?sha = "take 6 (drop 8 frame)"
  let ?st = "st\<lparr>arp_table := arp_store (be32 (ld32 frame 14)) ?sha (arp_table st)\<rparr>"
  have l: "length ?sha = 6" using False by simp
  have ok: "net_ok ?st" using assms arp_store_inv [OF _ l] by (simp add: net_ok_def)
  obtain rc st1 where "net_send_eth hw ETHERTYPE_ARP ?sha (arp_packet 2 ?sha (be32 (ld32 frame 14))) ?st = Some (rc, st1)"
    "net_ok ?st \<Longrightarrow> net_ok st1"
    using net_send_eth_total [OF l] by blast
  then show ?thesis using ok assms by (simp add: arp_receive_def net_sizes Let_def)
qed

lemma dispatch_bounded:
  assumes "net_ok st" "length frame \<le> 2048"
  shows "(\<exists>st'. dispatch hw frame st = Some st' \<and> net_ok st') \<or>
    (\<exists>payload ip. tcp_receive payload ip (net_tcp st) = None)"
proof -
  have "(\<exists>st'. ip_receive hw packet st = Some st' \<and> net_ok st') \<or> (\<exists>payload ip. tcp_receive payload ip (net_tcp st) = None)"
    if "length packet \<le> 2034" for packet
  proof -
    let ?st = "st\<lparr>tcp_current_remote_ip := be32 (ld32 packet 12)\<rparr>"
    have ok: "net_ok (?st\<lparr>net_tcp := t\<rparr>)" "net_ok ?st" for t using assms(1) by (simp_all add: net_ok_def)
    have i: "\<exists>st'. icmp_receive hw (drop n packet) src ?st = Some st' \<and> net_ok st'" if "20 \<le> n" for n src
      using that \<open>length packet \<le> 2034\<close> by (intro icmp_total ok) simp
    have t: "tcp_receive q (tcp_current_remote_ip ?st) (net_tcp st) = Some (t, sgs) \<Longrightarrow>
      \<exists>st'. send_segments hw sgs (?st\<lparr>net_tcp := t\<rparr>) = Some st' \<and> net_ok st'" for q t sgs
      by (rule send_segments_total [OF ok(1)])
    show ?thesis
      using assms(1) i t ok(2) unfolding ip_receive_def IP_HDR_LEN_def Let_def
      by (simp add: not_less split: bind_splits) (metis not_Some_eq surj_pair)
  qed
  then show ?thesis
    using assms arp_total [OF assms(1)] by (auto simp: dispatch_def net_sizes Let_def)
qed

lemma receive_bounded: "network_receive_packet hw st = Some (frame, st') \<Longrightarrow>
    length frame \<le> 2048 \<and> net_ok st' = net_ok st \<and> net_tcp st' = net_tcp st"
  by (auto simp: network_receive_packet_def e1000_receive_packet_def Let_def RX_BUFFER_SIZE_def net_ok_def
      split: if_splits)

lemma round_total:
  assumes "net_ok st"
  shows "(\<exists>st' n. network_round hw (st, t) = Some (st', n) \<and> net_ok st' \<and> n < 100000) \<or>
    (\<exists>payload ip. tcp_receive payload ip (net_tcp st) = None)"
proof -
  have timer: "\<exists>st' n. (let tick = t + 1 in
      if 100000 \<le> tick then let (tcp, sgs) = tcp_periodic (net_tcp s)
        in map_option (\<lambda>st. (st, 0)) (send_segments hw sgs (s\<lparr>net_tcp := tcp\<rparr>))
      else Some (s, tick)) = Some (st', n) \<and> net_ok st' \<and> n < 100000" if "net_ok s" for s
  proof -
    obtain tcp sgs where p: "tcp_periodic (net_tcp s) = (tcp, sgs)" by fastforce
    have "net_ok (s\<lparr>net_tcp := tcp\<rparr>)" using that by (simp add: net_ok_def)
    from send_segments_total [OF this, of hw sgs] show ?thesis
      using that by (auto simp: p Let_def not_le)
  qed
  show ?thesis
  proof (cases "network_receive_packet hw st")
    case None
    then show ?thesis using timer [OF assms] by (simp add: network_round_def)
  next
    case (Some fs)
    obtain frame st1 where fs: "fs = (frame, st1)" by fastforce
    have b: "length frame \<le> 2048" "net_ok st1" "net_tcp st1 = net_tcp st"
      using receive_bounded [OF Some [unfolded fs]] assms by auto
    show ?thesis
    proof (cases "dispatch hw frame st1")
      case None
      then show ?thesis using dispatch_bounded [OF b(2,1), of hw] b(3) by simp
    next
      case (Some st2)
      then have "net_ok st2 \<or> (\<exists>payload ip. tcp_receive payload ip (net_tcp st) = None)"
        using dispatch_bounded [OF b(2,1), of hw] b(3) by simp
      then show ?thesis
        using timer [of st2] Some \<open>network_receive_packet hw st = Some fs\<close> fs by (auto simp: network_round_def)
    qed
  qed
qed

text \<open>
  No frame makes the network code leave its buffers. From a state with a well-formed ARP
  table, one round of the polling loop, whatever the card has delivered, ends in such a state with a timer
  below 100000; every copy into a transmit or reply buffer fits. The only exception is a TCP segment whose
  request runs into the undefined behaviour of a handler above TCP.
\<close>

theorem network_round_in_bounds:
  assumes "net_ok st"
  shows "(\<exists>st' n. network_round hw (st, t) = Some (st', n) \<and> net_ok st' \<and> n < 100000) \<or>
    (\<exists>payload ip. tcp_receive payload ip (net_tcp st) = None)"
  using assms by (rule round_total)

lemma sample_ok: "net_ok (sample_net tcp)"
  unfolding net_ok_def arp_inv_def
  by (auto simp: sample_net_def sample_peer_def blank_entry_def nth_Cons' numeral_eq_Suc split: if_splits)

lemma network_round_in_bounds_witness:
  "\<forall>tcp. (\<exists>st' n. network_round sample_hw (sample_net tcp, 99999) = Some (st', n) \<and> n < 100000) \<or>
     (\<exists>payload ip. tcp_receive payload ip tcp = None)"
proof
  fix tcp
  have "net_tcp (sample_net tcp) = tcp" by (simp add: sample_net_def)
  then show "(\<exists>st' n. network_round sample_hw (sample_net tcp, 99999) = Some (st', n) \<and> n < 100000) \<or>
     (\<exists>payload ip. tcp_receive payload ip tcp = None)"
    using network_round_in_bounds [OF sample_ok, of sample_hw tcp 99999] by metis
qed

end
