(* ===== verification/Sync.thy ===== *)
theory Sync
  imports Prelude
begin

text \<open>
  \<^verbatim>\<open>src/interrupts.c\<close> and \<^verbatim>\<open>src/spinlock.c\<close>: the interrupt flag of the processor and
  the test-and-set lock that also disables interrupts.

  What interrupt handlers do to the lock while \<^verbatim>\<open>spinlock_lock\<close> waits is an argument: a list
  with one change of the lock for each round of the loop. A list that ends before the lock is free stands for
  a wait that goes on.
\<close>

section \<open>State\<close>

record spinlock =
  locked :: u32
  interrupts_were_enabled :: bool

text \<open>The processor's interrupt flag and a lock.\<close>

type_synonym cpu = "bool \<times> spinlock"

definition SPINLOCK_INIT :: spinlock where
  "SPINLOCK_INIT = \<lparr>locked = 0, interrupts_were_enabled = False\<rparr>"

definition spinlock_init :: "spinlock option \<Rightarrow> spinlock option" where
  "spinlock_init lock = map_option (\<lambda>lock. lock\<lparr>locked := 0, interrupts_were_enabled := False\<rparr>) lock"

section \<open>Interrupts\<close>

definition interrupts_disable :: "cpu \<Rightarrow> cpu" where
  "interrupts_disable = (\<lambda>(eif, lock). (False, lock))"

definition interrupts_enable :: "cpu \<Rightarrow> cpu" where
  "interrupts_enable = (\<lambda>(eif, lock). (True, lock))"

definition interrupts_enabled :: "cpu \<Rightarrow> bool" where
  "interrupts_enabled = fst"

definition interrupts_disable_save :: "cpu \<Rightarrow> bool \<times> cpu" where
  "interrupts_disable_save st = (interrupts_enabled st, interrupts_disable st)"

definition interrupts_restore :: "bool \<Rightarrow> cpu \<Rightarrow> cpu" where
  "interrupts_restore was_enabled st = (if was_enabled then interrupts_enable st else st)"

section \<open>The lock\<close>

definition spinlock_trylock :: "cpu \<Rightarrow> bool \<times> cpu" where
  "spinlock_trylock = (\<lambda>(eif, lock).
     let got = locked lock; lock = lock\<lparr>locked := 1\<rparr> in
     if got = 0 then
       (let (was, eif, lock) = interrupts_disable_save (eif, lock)
        in (True, eif, lock\<lparr>interrupts_were_enabled := was\<rparr>))
     else (False, eif, lock))"

fun spinlock_lock :: "(spinlock \<Rightarrow> spinlock) list \<Rightarrow> cpu \<Rightarrow> cpu option" where
  "spinlock_lock isrs st =
     (let (ok, st) = spinlock_trylock st in
      if ok then Some st
      else case isrs of
        [] \<Rightarrow> None
      | isr # isrs \<Rightarrow>
          spinlock_lock isrs (interrupts_disable (map_prod id isr (interrupts_enable st))))"

declare spinlock_lock.simps [simp del]

definition spinlock_unlock :: "cpu \<Rightarrow> cpu" where
  "spinlock_unlock = (\<lambda>(eif, lock).
     let restore = interrupts_were_enabled lock
     in interrupts_restore restore (eif, lock\<lparr>locked := 0\<rparr>))"

definition spinlock_is_locked :: "spinlock option \<Rightarrow> bool" where
  "spinlock_is_locked lock = (case lock of None \<Rightarrow> False | Some l \<Rightarrow> locked l \<noteq> 0)"

section \<open>What the lock guarantees\<close>

lemmas sync_defs = spinlock_trylock_def interrupts_disable_save_def interrupts_enabled_def interrupts_disable_def
  interrupts_enable_def interrupts_restore_def spinlock_unlock_def

text \<open>The contract of a lock that protects against interrupt handlers.\<close>

locale interrupt_lock =
  fixes acquire :: "'s \<Rightarrow> 's option"
    and release :: "'s \<Rightarrow> 's"
    and held :: "'s \<Rightarrow> bool"
    and enabled :: "'s \<Rightarrow> bool"
  assumes acquires: "acquire s = Some s' \<Longrightarrow> \<not> held s \<and> held s' \<and> \<not> enabled s'"
    and available: "\<not> held s \<Longrightarrow> acquire s \<noteq> None"
    and releases: "\<not> held (release s)"
    and restores: "acquire s = Some s' \<Longrightarrow> enabled (release s') = enabled s"
begin

text \<open>A critical section that leaves lock and flag alone can be entered again, and the flag is as before.\<close>

primrec sections :: "nat \<Rightarrow> 's \<Rightarrow> 's option" where
  "sections 0 s = Some s"
| "sections (Suc n) s = Option.bind (acquire s) (\<lambda>s. sections n (release s))"

lemma sections_total: "\<not> held s \<Longrightarrow> \<exists>s'. sections n s = Some s' \<and> \<not> held s' \<and> enabled s' = enabled s"
proof (induction n arbitrary: s)
  case (Suc n)
  then obtain t where t: "acquire s = Some t" using available by blast
  with Suc.IH [OF releases, of t] restores [OF t] show ?case by simp
qed simp

lemma not_reentrant: "acquire s = Some s' \<Longrightarrow> acquire s' = None"
  using acquires by (metis not_None_eq)

end

definition uncontended :: "cpu \<Rightarrow> cpu option" where
  "uncontended = spinlock_lock []"

definition is_held :: "cpu \<Rightarrow> bool" where
  "is_held st \<longleftrightarrow> spinlock_is_locked (Some (snd st))"

lemma uncontended_eq:
  "uncontended (eif, lock) =
     (if locked lock = 0 then Some (False, lock\<lparr>locked := 1, interrupts_were_enabled := eif\<rparr>) else None)"
  by (simp add: uncontended_def spinlock_lock.simps sync_defs Let_def)

interpretation spin: interrupt_lock uncontended spinlock_unlock is_held interrupts_enabled
  by unfold_locales (auto simp: uncontended_eq is_held_def spinlock_is_locked_def sync_defs split: if_splits)

text \<open>A lock that is not free at once is taken with interrupts recorded as disabled.\<close>

lemma lock_state:
  "spinlock_lock isrs st = Some (eif, lock) \<Longrightarrow> \<not> eif \<and> locked lock = 1 \<and>
     (interrupts_were_enabled lock \<longrightarrow> locked (snd st) = 0 \<and> fst st)"
proof (induction isrs arbitrary: st)
  case Nil
  then show ?case by (cases st) (auto simp: spinlock_lock.simps [of "[]"] sync_defs Let_def split: if_splits)
next
  case (Cons isr isrs)
  obtain e l where st: "st = (e, l)" by fastforce
  show ?case
  proof (cases "locked l = 0")
    case True
    then show ?thesis using Cons.prems by (auto simp: st spinlock_lock.simps [of "isr # isrs"] sync_defs Let_def)
  next
    case False
    then have "spinlock_lock isrs (False, isr (l\<lparr>locked := 1\<rparr>)) = Some (eif, lock)"
      using Cons.prems by (simp add: st spinlock_lock.simps [of "isr # isrs"] sync_defs Let_def)
    from Cons.IH [OF this] show ?thesis by auto
  qed
qed

lemma contended_release:
  assumes "locked (snd st) \<noteq> 0" "spinlock_lock isrs st = Some st'"
  shows "\<not> interrupts_enabled (spinlock_unlock st')"
  using lock_state [of isrs st "fst st'" "snd st'"] assms by (simp add: sync_defs split_beta)

primrec critical_sections :: "nat \<Rightarrow> cpu \<Rightarrow> cpu option" where
  "critical_sections 0 st = Some st"
| "critical_sections (Suc n) st =
     Option.bind (spinlock_lock [] st) (\<lambda>st. critical_sections n (spinlock_unlock st))"

lemma critical_sections: "critical_sections n st = spin.sections n st"
  by (induction n arbitrary: st) (simp_all flip: uncontended_def)

lemma sections_restore:
  assumes "\<not> spinlock_is_locked (Some (snd st))"
  shows "(\<exists>st'. spinlock_lock [] st = Some st' \<and> \<not> interrupts_enabled st' \<and> spinlock_lock [] st' = None) \<and>
    (\<exists>st'. critical_sections n st = Some st' \<and> \<not> spinlock_is_locked (Some (snd st')) \<and>
       interrupts_enabled st' = interrupts_enabled st)"
proof -
  have free: "\<not> is_held st" using assms by (simp add: is_held_def)
  obtain s where s: "uncontended st = Some s" using spin.available [OF free] by blast
  then show ?thesis
    using spin.acquires [OF s] spin.not_reentrant [OF s] spin.sections_total [OF free, of n]
    by (simp add: critical_sections is_held_def uncontended_def)
qed

text \<open>
  The lock without contention: when it is free it is taken at once and held with
  interrupts disabled, a second attempt to take it waits, and after any number of critical sections it is
  free and the interrupt flag is what it was.
\<close>

theorem spinlock_critical_sections:
  assumes "\<not> spinlock_is_locked (Some (snd st))"
  shows "(\<exists>st'. spinlock_lock [] st = Some st' \<and> \<not> interrupts_enabled st' \<and> spinlock_lock [] st' = None) \<and>
    (\<exists>st'. critical_sections n st = Some st' \<and> \<not> spinlock_is_locked (Some (snd st')) \<and>
       interrupts_enabled st' = interrupts_enabled st)"
  using assms by (rule sections_restore)

lemma spinlock_critical_sections_witness:
  "\<exists>st'. critical_sections 3 (True, SPINLOCK_INIT) = Some st' \<and> interrupts_enabled st'"
  using spinlock_critical_sections [of "(True, SPINLOCK_INIT)" 3]
  by (auto simp: spinlock_is_locked_def SPINLOCK_INIT_def interrupts_enabled_def)

text \<open>
  The lock with contention: however often the loop goes round and whatever interrupt handlers
  do meanwhile, once the lock is taken it is held with interrupts disabled. But the flag saved is the one of
  the waiting loop, not the caller's: a caller that had to wait finds interrupts disabled after the release,
  even if they were enabled before, against \<^verbatim>\<open>spinlock.h\<close>, which says that unlock restores the
  previous state.
\<close>

theorem spinlock_contended:
  assumes "locked (snd st) \<noteq> 0" "spinlock_lock isrs st = Some st'"
  shows "spinlock_is_locked (Some (snd st')) \<and> \<not> interrupts_enabled st' \<and>
    \<not> interrupts_enabled (spinlock_unlock st')"
  using contended_release [OF assms] lock_state [of isrs st "fst st'" "snd st'"] assms(2)
  by (simp add: spinlock_is_locked_def interrupts_enabled_def)

lemma spinlock_contended_witness:
  "\<exists>st'. spinlock_lock [id, \<lambda>l. l\<lparr>locked := 0\<rparr>] (True, \<lparr>locked = 1, interrupts_were_enabled = True\<rparr>) = Some st' \<and>
     \<not> interrupts_enabled (spinlock_unlock st')"
proof -
  obtain st' where "spinlock_lock [id, \<lambda>l. l\<lparr>locked := 0\<rparr>] (True, \<lparr>locked = 1, interrupts_were_enabled = True\<rparr>) = Some st'"
    by (simp add: spinlock_lock.simps sync_defs Let_def)
  with spinlock_contended [OF _ this] show ?thesis by auto
qed

end
