(* ===== verification/Terminal.thy ===== *)
theory Terminal
  imports CString
begin

unbundle bit_operations_syntax

text \<open>
  The text screen and the serial line of \<^verbatim>\<open>src/kernel.c\<close>. The frame buffer at 0xB8000 is a list of
  2000 cells, absent while the pointer is null; the cursor registers of the card hold a position; the text sent
  to the serial line is kept; how it gets there is in theory Serial.
\<close>

section \<open>State and operations\<close>

record terminal =
  terminal_row :: nat
  terminal_column :: nat
  terminal_color :: u8
  terminal_buffer :: "u16 list option"
  cursor_register :: u16
  serial_out :: string

definition VGA_WIDTH :: nat where "VGA_WIDTH = 80"
definition VGA_HEIGHT :: nat where "VGA_HEIGHT = 25"

datatype vga_color =
    VGA_COLOR_BLACK | VGA_COLOR_BLUE | VGA_COLOR_GREEN | VGA_COLOR_CYAN
  | VGA_COLOR_RED | VGA_COLOR_MAGENTA | VGA_COLOR_BROWN | VGA_COLOR_LIGHT_GREY
  | VGA_COLOR_DARK_GREY | VGA_COLOR_LIGHT_BLUE | VGA_COLOR_LIGHT_GREEN | VGA_COLOR_LIGHT_CYAN
  | VGA_COLOR_LIGHT_RED | VGA_COLOR_LIGHT_MAGENTA | VGA_COLOR_LIGHT_BROWN | VGA_COLOR_WHITE

fun vga_color_code :: "vga_color \<Rightarrow> u8" where
  "vga_color_code VGA_COLOR_BLACK = 0"
| "vga_color_code VGA_COLOR_BLUE = 1"
| "vga_color_code VGA_COLOR_GREEN = 2"
| "vga_color_code VGA_COLOR_CYAN = 3"
| "vga_color_code VGA_COLOR_RED = 4"
| "vga_color_code VGA_COLOR_MAGENTA = 5"
| "vga_color_code VGA_COLOR_BROWN = 6"
| "vga_color_code VGA_COLOR_LIGHT_GREY = 7"
| "vga_color_code VGA_COLOR_DARK_GREY = 8"
| "vga_color_code VGA_COLOR_LIGHT_BLUE = 9"
| "vga_color_code VGA_COLOR_LIGHT_GREEN = 10"
| "vga_color_code VGA_COLOR_LIGHT_CYAN = 11"
| "vga_color_code VGA_COLOR_LIGHT_RED = 12"
| "vga_color_code VGA_COLOR_LIGHT_MAGENTA = 13"
| "vga_color_code VGA_COLOR_LIGHT_BROWN = 14"
| "vga_color_code VGA_COLOR_WHITE = 15"

lemmas vga_size = VGA_WIDTH_def VGA_HEIGHT_def

definition vga_entry_color :: "vga_color \<Rightarrow> vga_color \<Rightarrow> u8" where
  "vga_entry_color fg bg = vga_color_code fg OR push_bit 4 (vga_color_code bg)"

definition vga_entry :: "char \<Rightarrow> u8 \<Rightarrow> u16" where
  "vga_entry uc color = of_nat (uchar uc) OR push_bit 8 (ucast color)"

definition serial_write :: "string option \<Rightarrow> terminal \<Rightarrow> terminal" where
  "serial_write data st =
     (case data of None \<Rightarrow> st | Some s \<Rightarrow> st\<lparr>serial_out := serial_out st @ cstr_of s\<rparr>)"

text \<open>The two nested loops that store a blank in every cell.\<close>

definition clear_screen :: "u8 \<Rightarrow> u16 list" where
  "clear_screen color =
     fold (\<lambda>y. fold (\<lambda>x buf. buf[y * VGA_WIDTH + x := vga_entry (CHR '' '') color]) [0 ..< VGA_WIDTH])
       [0 ..< VGA_HEIGHT] (replicate (VGA_WIDTH * VGA_HEIGHT) 0)"

definition vga_init :: "terminal \<Rightarrow> terminal" where
  "vga_init st =
     serial_write (Some (''VGA: VGA hardware initialized'' @ [LF]))
       ((serial_write (Some (''VGA: Initializing VGA hardware'' @ [LF])) st)
          \<lparr>terminal_buffer := Some (clear_screen (terminal_color st))\<rparr>)"

text \<open>The position goes to the card in two halves.\<close>

definition update_cursor :: "nat \<Rightarrow> nat \<Rightarrow> terminal \<Rightarrow> terminal" where
  "update_cursor row col st =
     (let position = of_nat (row * VGA_WIDTH + col) :: u16;
          low = position AND 0xFF; high = drop_bit 8 position AND 0xFF
      in st\<lparr>cursor_register := low OR push_bit 8 high\<rparr>)"

definition terminal_init :: "terminal \<Rightarrow> terminal" where
  "terminal_init st =
     (let st = serial_write (Some (''TERMINAL: Initializing terminal'' @ [LF])) st;
          color = vga_entry_color VGA_COLOR_LIGHT_GREY VGA_COLOR_BLACK;
          st = st\<lparr>terminal_row := 0, terminal_column := 0, terminal_color := color,
                  terminal_buffer := Some (clear_screen color)\<rparr>
      in serial_write (Some (''TERMINAL: Terminal initialized'' @ [LF])) (update_cursor 0 0 st))"

definition next_row :: "nat \<Rightarrow> nat" where
  "next_row row = (if row + 1 = VGA_HEIGHT then 0 else row + 1)"

text \<open>The result \<^term>\<open>None\<close> is a store outside the frame buffer.\<close>

definition terminal_putchar :: "char \<Rightarrow> terminal \<Rightarrow> terminal option" where
  "terminal_putchar c st =
     (if c = LF then
        let st = st\<lparr>terminal_column := 0, terminal_row := next_row (terminal_row st)\<rparr>
        in Some (update_cursor (terminal_row st) (terminal_column st) st)
      else
        let i = terminal_row st * VGA_WIDTH + terminal_column st in
        case terminal_buffer st of
          None \<Rightarrow> None
        | Some buf \<Rightarrow>
            if i < length buf then
              let st = st\<lparr>terminal_buffer := Some (buf[i := vga_entry c (terminal_color st)])\<rparr>;
                  st = (if terminal_column st + 1 = VGA_WIDTH
                        then st\<lparr>terminal_column := 0, terminal_row := next_row (terminal_row st)\<rparr>
                        else st\<lparr>terminal_column := terminal_column st + 1\<rparr>)
              in Some (update_cursor (terminal_row st) (terminal_column st) st)
            else None)"

fun terminal_write :: "string \<Rightarrow> terminal \<Rightarrow> terminal option" where
  "terminal_write [] st = Some st"
| "terminal_write (c # data) st = Option.bind (terminal_putchar c st) (terminal_write data)"

definition terminal_writestring :: "string \<Rightarrow> terminal \<Rightarrow> terminal option" where
  "terminal_writestring data st =
     (if terminal_buffer st = None then Some (serial_write (Some data) st)
      else terminal_write (cstr_of data) st)"

section \<open>The screen\<close>

text \<open>A screen is a position and 2000 cells; a character goes to the position, a line feed to the next line.\<close>

type_synonym screen = "nat \<times> u16 list"

definition screen_put :: "u8 \<Rightarrow> char \<Rightarrow> screen \<Rightarrow> screen" where
  "screen_put color c = (\<lambda>(p, cells).
     if c = LF then ((p div 80 + 1) mod 25 * 80, cells)
     else ((p + 1) mod 2000, cells[p := vga_entry c color]))"

definition screen_of :: "terminal \<Rightarrow> screen" where
  "screen_of st = (terminal_row st * 80 + terminal_column st, the (terminal_buffer st))"

definition terminal_ok :: "terminal \<Rightarrow> bool" where
  "terminal_ok st \<longleftrightarrow> terminal_row st < 25 \<and> terminal_column st < 80 \<and>
     (\<exists>buf. terminal_buffer st = Some buf \<and> length buf = 2000) \<and>
     unat (cursor_register st) = terminal_row st * 80 + terminal_column st"

lemma halves: "(x AND 0xFF) OR push_bit 8 (drop_bit 8 x AND 0xFF) = (x :: u16)"
proof -
  have e: "(0xFF :: u16) = mask 8" by (simp add: mask_eq_exp_minus_1)
  show ?thesis unfolding e by (rule bit_word_eqI) (auto simp: bit_simps)
qed

lemma cursor_set:
  "row < 25 \<Longrightarrow> col < 80 \<Longrightarrow> unat (cursor_register (update_cursor row col st)) = row * 80 + col"
  unfolding update_cursor_def Let_def halves by (simp add: vga_size unat_of_nat del: of_nat_add of_nat_mult)

lemma cursor_fields [simp]:
  "terminal_row (update_cursor r c st) = terminal_row st" "terminal_column (update_cursor r c st) = terminal_column st"
  "terminal_color (update_cursor r c st) = terminal_color st" "terminal_buffer (update_cursor r c st) = terminal_buffer st"
  "serial_out (update_cursor r c st) = serial_out st"
  unfolding update_cursor_def Let_def by simp_all

lemma next_row: "r < 25 \<Longrightarrow> next_row r = (r + 1) mod 25"
  by (simp add: next_row_def VGA_HEIGHT_def)

lemma putchar_refines:
  assumes "terminal_ok st"
  shows "\<exists>st'. terminal_putchar c st = Some st' \<and> terminal_ok st' \<and> terminal_color st' = terminal_color st \<and>
    serial_out st' = serial_out st \<and> screen_of st' = screen_put (terminal_color st) c (screen_of st)"
proof -
  let ?r = "terminal_row st" and ?c = "terminal_column st"
  obtain buf where b: "terminal_buffer st = Some buf" "length buf = 2000" "?r < 25" "?c < 80"
    using assms by (auto simp: terminal_ok_def)
  have i: "?r * 80 + ?c < 2000" using b(3,4) by linarith
  have d: "(?r * 80 + ?c) div 80 = ?r" using b(4) by simp
  have n: "next_row ?r < 25" by (simp add: next_row [OF b(3)])
  consider (lf) "c = LF" | (wrap) "c \<noteq> LF" "?c + 1 = 80" | (step) "c \<noteq> LF" "?c + 1 < 80" using b(4) by linarith
  then show ?thesis
  proof cases
    case lf
    then show ?thesis
      using b n by (simp add: terminal_putchar_def terminal_ok_def screen_of_def screen_put_def d cursor_set next_row)
  next
    case wrap
    have "(?r * 80 + ?c + 1) mod 2000 = (?r + 1) mod 25 * 80"
      using wrap(2) mult_mod_right [of 80 "?r + 1" 25] by (simp add: mult.commute)
    then show ?thesis
      using b n i wrap
      by (simp add: terminal_putchar_def terminal_ok_def screen_of_def screen_put_def cursor_set next_row vga_size)
  next
    case step
    then have "Suc (?r * 80 + ?c) < 2000" using b(3) by linarith
    from mod_less [OF this] show ?thesis
      using b i step
      by (simp del: mod_less add: terminal_putchar_def terminal_ok_def screen_of_def screen_put_def cursor_set vga_size)
  qed
qed

lemma write_refines:
  assumes "terminal_ok st"
  shows "\<exists>st'. terminal_write data st = Some st' \<and> terminal_ok st' \<and> serial_out st' = serial_out st \<and>
    screen_of st' = fold (screen_put (terminal_color st)) data (screen_of st)"
  using assms
proof (induction data arbitrary: st)
  case (Cons c data)
  obtain s where s: "terminal_putchar c st = Some s" "terminal_ok s" "terminal_color s = terminal_color st"
    "serial_out s = serial_out st" "screen_of s = screen_put (terminal_color st) c (screen_of st)"
    using putchar_refines [OF Cons.prems] by blast
  with Cons.IH [OF s(2)] show ?case by auto
qed simp

lemma terminal_text:
  assumes "terminal_ok st"
  shows "\<exists>st'. terminal_writestring data st = Some st' \<and> terminal_ok st' \<and>
    unat (cursor_register st') = fst (screen_of st') \<and> serial_out st' = serial_out st \<and>
    screen_of st' = fold (screen_put (terminal_color st)) (cstr_of data) (screen_of st)"
proof -
  have "terminal_buffer st \<noteq> None" using assms by (auto simp: terminal_ok_def)
  then show ?thesis
    using write_refines [OF assms, of "cstr_of data"]
    by (auto simp: terminal_writestring_def terminal_ok_def screen_of_def)
qed

text \<open>
  \<^bold>\<open>C38.\<close> The terminal never stores outside the frame buffer, and it implements a screen of 2000 cells:
  from any well-formed state, writing a string succeeds, leaves a well-formed state whose cursor registers hold
  the position, and has on the screen the effect of its characters one by one, each stored at the position,
  which then moves on, a line feed moving it to the start of the next line and both wrapping round to the top.
\<close>

theorem terminal_write_refines:
  assumes "terminal_ok st"
  shows "\<exists>st'. terminal_writestring data st = Some st' \<and> terminal_ok st' \<and>
    unat (cursor_register st') = fst (screen_of st') \<and> serial_out st' = serial_out st \<and>
    screen_of st' = fold (screen_put (terminal_color st)) (cstr_of data) (screen_of st)"
  using assms by (rule terminal_text)

text \<open>The state after initialization.\<close>

lemma length_clear_row: "length (fold (\<lambda>x buf. buf[f x := v]) xs buf) = length buf"
  by (induction xs arbitrary: buf) simp_all

lemma length_clear: "length (clear_screen color) = 2000"
proof -
  have "length (fold (\<lambda>y. fold (\<lambda>x buf. buf[y * VGA_WIDTH + x := v]) xs) ys buf) = length buf" for xs ys v and buf :: "u16 list"
    by (induction ys arbitrary: buf) (simp_all add: length_clear_row)
  then show ?thesis by (simp add: clear_screen_def vga_size del: upt_Suc)
qed

lemma terminal_init_ok: "terminal_ok (terminal_init st)"
  using cursor_set [of 0 0] by (simp add: terminal_init_def terminal_ok_def serial_write_def Let_def length_clear)

definition boot_terminal :: terminal where
  "boot_terminal = \<lparr>terminal_row = 0, terminal_column = 0, terminal_color = 0, terminal_buffer = None,
     cursor_register = 0, serial_out = []\<rparr>"

lemma terminal_write_refines_witness:
  "\<exists>st'. terminal_writestring ''CLLM unikernel'' (terminal_init boot_terminal) = Some st' \<and> unat (cursor_register st') = 14"
proof -
  have "screen_of (terminal_init boot_terminal) = (0, snd (screen_of (terminal_init boot_terminal)))"
    by (simp add: screen_of_def terminal_init_def serial_write_def Let_def)
  moreover have "fst (fold (screen_put c) ''CLLM unikernel'' (0, cells)) = 14" for c cells
    by (simp add: screen_put_def)
  moreover have "cstr_of ''CLLM unikernel'' = ''CLLM unikernel''" by (simp add: cstr_of_id)
  ultimately show ?thesis
    using terminal_write_refines [OF terminal_init_ok, of "''CLLM unikernel''" boot_terminal] by metis
qed

end
