(* ===== verification/Serial.thy ===== *)
theory Serial
  imports Sync Terminal
begin

unbundle bit_operations_syntax

text \<open>
  The serial line of \<^verbatim>\<open>src/kernel.c\<close> down to its ports. The port is hardware: a record of
  the two accesses \<^verbatim>\<open>inb\<close> and \<^verbatim>\<open>outb\<close> on its state. Waiting for the port
  may go on for ever, hence the partial function. \<open>serial_send\<close> is \<^verbatim>\<open>serial_write\<close>
  with the lock \<^verbatim>\<open>g_serial_lock\<close> of theory Sync; the other theories use the abstract
  \<^const>\<open>Terminal.serial_write\<close>, which keeps the text only, and the property says when that is right.
\<close>

section \<open>Operations\<close>

record 'd port =
  inb :: "u16 \<Rightarrow> 'd \<Rightarrow> u8 \<times> 'd"
  outb :: "u16 \<Rightarrow> u8 \<Rightarrow> 'd \<Rightarrow> 'd"

definition serial_init :: "'d port \<Rightarrow> 'd \<Rightarrow> 'd" where
  "serial_init hw =
     fold (\<lambda>(p, v). outb hw p v)
       [(0x3F8 + 1, 0x00), (0x3F8 + 3, 0x80), (0x3F8, 0x01), (0x3F8 + 1, 0x00), (0x3F8 + 3, 0x03), (0x3F8 + 2, 0xC7),
        (0x3F8 + 4, 0x0B)]"

partial_function (option) wait_ready :: "'d port \<Rightarrow> 'd \<Rightarrow> 'd option" where
  "wait_ready hw d =
     (let (status, d) = inb hw (0x3F8 + 5) d in if status AND 0x20 = 0 then wait_ready hw d else Some d)"

definition serial_byte :: "char \<Rightarrow> u8" where
  "serial_byte c = of_nat (uchar c)"

fun send_bytes :: "'d port \<Rightarrow> string \<Rightarrow> 'd \<Rightarrow> 'd option" where
  "send_bytes hw [] d = Some d"
| "send_bytes hw (c # data) d =
     Option.bind (wait_ready hw d) (\<lambda>d. send_bytes hw data (outb hw 0x3F8 (serial_byte c) d))"

definition serial_send ::
  "'d port \<Rightarrow> (spinlock \<Rightarrow> spinlock) list \<Rightarrow> string option \<Rightarrow> cpu \<times> 'd \<Rightarrow> (cpu \<times> 'd) option" where
  "serial_send hw isrs data = (\<lambda>(st, d).
     case data of
       None \<Rightarrow> Some (st, d)
     | Some s \<Rightarrow>
         Option.bind (spinlock_lock isrs st) (\<lambda>st.
         Option.bind (send_bytes hw (cstr_of s) d) (\<lambda>d. Some (spinlock_unlock st, d))))"

section \<open>What arrives at the other end\<close>

text \<open>
  The documented behaviour of the port: reading the status register changes nothing on the line; while the
  transmitter is busy (bit 5 clear) it gets closer to being ready; and a byte stored right after a status that
  says ready is appended to the line. Nothing is said of a byte stored at any other time.
\<close>

definition transmits :: "'d port \<Rightarrow> ('d \<Rightarrow> u8 list) \<Rightarrow> ('d \<Rightarrow> nat) \<Rightarrow> bool" where
  "transmits hw wire delay \<longleftrightarrow>
     (\<forall>d. let (status, d') = inb hw (0x3F8 + 5) d in wire d' = wire d \<and>
        (if status AND 0x20 = 0 then delay d' < delay d else \<forall>b. wire (outb hw 0x3F8 b d') = wire d @ [b]))"

lemma wait_ready_returns:
  assumes "transmits hw wire delay"
  shows "\<exists>d'. wait_ready hw d = Some d' \<and> wire d' = wire d \<and> (\<forall>b. wire (outb hw 0x3F8 b d') = wire d @ [b])"
proof (induction d rule: measure_induct_rule [of delay])
  case (less d)
  obtain status d1 where r: "inb hw (0x3F8 + 5) d = (status, d1)" by fastforce
  with assms have w: "wire d1 = wire d"
    "if status AND 0x20 = 0 then delay d1 < delay d else \<forall>b. wire (outb hw 0x3F8 b d1) = wire d @ [b]"
    unfolding transmits_def by (metis (mono_tags, lifting) case_prod_conv)+
  show ?case
  proof (cases "status AND 0x20 = 0")
    case True
    with less.IH [of d1] w show ?thesis by (simp add: wait_ready.simps [of hw d] r [simplified])
  next
    case False
    with w show ?thesis by (simp add: wait_ready.simps [of hw d] r [simplified])
  qed
qed

lemma send_bytes_wire:
  assumes "transmits hw wire delay"
  shows "\<exists>d'. send_bytes hw s d = Some d' \<and> wire d' = wire d @ map serial_byte s"
proof (induction s arbitrary: d)
  case (Cons c s)
  obtain d1 where "wait_ready hw d = Some d1" "wire (outb hw 0x3F8 (serial_byte c) d1) = wire d @ [serial_byte c]"
    using wait_ready_returns [OF assms] by blast
  with Cons.IH [of "outb hw 0x3F8 (serial_byte c) d1"] show ?case by simp
qed simp

text \<open>A port that never gets ready keeps the processor in the loop.\<close>

lemma wait_ready_None:
  assumes "\<And>d. fst (inb hw (0x3F8 + 5) d) AND 0x20 = 0"
  shows "wait_ready hw d = None"
proof -
  have "\<not> (\<forall>d. fst (inb hw (0x3F8 + 5) d) AND 0x20 = 0)" if "wait_ready hw d = Some d'" for d'
    using _ that
  proof (rule wait_ready.raw_induct [of "\<lambda>hw d d'. \<not> (\<forall>d. fst (inb hw (0x3F8 + 5) d) AND 0x20 = 0)"])
    fix wait and hw :: "'a port" and d d'
    assume "\<And>hw d d'. wait hw d = Some d' \<Longrightarrow> \<not> (\<forall>d. fst (inb hw (0x3F8 + 5) d) AND 0x20 = 0)"
      "(let (status, d) = inb hw (0x3F8 + 5) d in if status AND 0x20 = 0 then wait hw d else Some d) = Some d'"
    then show "\<not> (\<forall>d. fst (inb hw (0x3F8 + 5) d) AND 0x20 = 0)"
      by (cases "inb hw (0x3F8 + 5) d") (auto split: if_splits intro: exI [of _ d])
  qed
  then show ?thesis using assms by (cases "wait_ready hw d") auto
qed

text \<open>
  \<^bold>\<open>C39.\<close> Whatever is written to the serial line arrives at its other end: when the lock is free
  and the port behaves as documented, \<open>serial_write\<close> returns, the bytes on the wire are those the
  abstract terminal records, each stored only when the port was ready for it, and afterwards the lock is free
  and the interrupt flag what it was. A port that never gets ready makes it wait for ever, unless there is
  nothing to send.
\<close>

theorem serial_write_delivers:
  assumes "\<not> spinlock_is_locked (Some (snd st))" "wire d = map serial_byte (serial_out t)"
  shows "(transmits hw wire delay \<longrightarrow>
      (\<exists>st' d'. serial_send hw [] data (st, d) = Some (st', d') \<and>
        wire d' = map serial_byte (serial_out (serial_write data t)) \<and>
        \<not> spinlock_is_locked (Some (snd st')) \<and> interrupts_enabled st' = interrupts_enabled st)) \<and>
    ((\<forall>d. fst (inb hw (0x3F8 + 5) d) AND 0x20 = 0) \<and> data = Some s \<and> cstr_of s \<noteq> [] \<longrightarrow>
      serial_send hw [] data (st, d) = None)"
proof -
  have free: "\<not> is_held st" using assms(1) by (simp add: is_held_def)
  obtain u where u: "spinlock_lock [] st = Some u"
    using spin.available [OF free] by (auto simp: uncontended_def)
  have r: "\<not> spinlock_is_locked (Some (snd (spinlock_unlock u)))"
    "interrupts_enabled (spinlock_unlock u) = interrupts_enabled st"
    using spin.releases [of u] spin.restores [of st u] u by (simp_all add: is_held_def uncontended_def)
  show ?thesis
  proof (intro conjI impI)
    assume t: "transmits hw wire delay"
    show "\<exists>st' d'. serial_send hw [] data (st, d) = Some (st', d') \<and>
        wire d' = map serial_byte (serial_out (serial_write data t)) \<and>
        \<not> spinlock_is_locked (Some (snd st')) \<and> interrupts_enabled st' = interrupts_enabled st"
    proof (cases data)
      case (Some s)
      with send_bytes_wire [OF t, of "cstr_of s" d] u r assms(2) show ?thesis
        by (fastforce simp: serial_send_def serial_write_def)
    qed (use assms in \<open>simp add: serial_send_def serial_write_def\<close>)
  next
    assume n: "(\<forall>d. fst (inb hw (0x3F8 + 5) d) AND 0x20 = 0) \<and> data = Some s \<and> cstr_of s \<noteq> []"
    then obtain c cs where "cstr_of s = c # cs" by (meson neq_Nil_conv)
    with n wait_ready_None [of hw d] u show "serial_send hw [] data (st, d) = None"
      by (simp add: serial_send_def)
  qed
qed

text \<open>A port that is busy for three reads of its status after each byte.\<close>

definition slow_port :: "(nat \<times> u8 list) port" where
  "slow_port = \<lparr>inb = (\<lambda>p (n, bs). if n = 0 then (0x20, 0, bs) else (0, n - 1, bs)),
     outb = (\<lambda>p b (n, bs). if n = 0 then (3, bs @ [b]) else (n, bs))\<rparr>"

lemma serial_write_delivers_witness:
  "\<exists>st' n. serial_send slow_port [] (Some ''up'') ((True, SPINLOCK_INIT), 2, []) = Some (st', n, [0x75, 0x70]) \<and>
     interrupts_enabled st'"
proof -
  have t: "transmits slow_port snd fst" by (auto simp: transmits_def slow_port_def split_beta)
  have f: "\<not> spinlock_is_locked (Some (snd (True, SPINLOCK_INIT)))"
    by (simp add: spinlock_is_locked_def SPINLOCK_INIT_def)
  have w: "map serial_byte (serial_out (serial_write (Some ''up'') boot_terminal)) = [0x75, 0x70]"
    by code_simp
  have b: "snd (2 :: nat, []) = map serial_byte (serial_out boot_terminal)" by (simp add: boot_terminal_def)
  note d = serial_write_delivers [where wire = snd and s = "[]", OF f b, of slow_port fst "Some ''up''"]
  from mp [OF conjunct1 [OF d] t, unfolded w] show ?thesis by (force simp: interrupts_enabled_def)
qed

end
