(* ===== verification/ErrorLog.thy ===== *)
theory ErrorLog
  imports Printf
begin

text \<open>
  \<^verbatim>\<open>src/error.c\<close>: log messages are put together in a buffer of 512 bytes on the stack, whose
  previous content is an argument. The state of the composition is the buffer and the offset; the result
  \<^term>\<open>None\<close> is a store outside the buffer or a format that disagrees with its arguments. A message
  that has been composed is a triple: the text for the serial line, whether the terminal gets it too, and
  whether the processor is halted.
\<close>

section \<open>Levels and codes\<close>

datatype log_level = LOG_DEBUG | LOG_INFO | LOG_WARN | LOG_ERROR | LOG_FATAL

datatype error_code =
    ERR_SUCCESS | ERR_OUT_OF_MEMORY | ERR_INVALID_PARAMETER | ERR_NOT_IMPLEMENTED | ERR_IO_ERROR | ERR_NETWORK_ERROR
  | ERR_MODEL_LOAD_ERROR | ERR_INFERENCE_ERROR | ERR_CUDA_ERROR | ERR_UNKNOWN_ERROR

fun log_level_strings :: "log_level \<Rightarrow> string" where
  "log_level_strings LOG_DEBUG = ''DEBUG''"
| "log_level_strings LOG_INFO = ''INFO''"
| "log_level_strings LOG_WARN = ''WARN''"
| "log_level_strings LOG_ERROR = ''ERROR''"
| "log_level_strings LOG_FATAL = ''FATAL''"

fun error_code_strings :: "error_code \<Rightarrow> string" where
  "error_code_strings ERR_SUCCESS = ''SUCCESS''"
| "error_code_strings ERR_OUT_OF_MEMORY = ''OUT_OF_MEMORY''"
| "error_code_strings ERR_INVALID_PARAMETER = ''INVALID_PARAMETER''"
| "error_code_strings ERR_NOT_IMPLEMENTED = ''NOT_IMPLEMENTED''"
| "error_code_strings ERR_IO_ERROR = ''IO_ERROR''"
| "error_code_strings ERR_NETWORK_ERROR = ''NETWORK_ERROR''"
| "error_code_strings ERR_MODEL_LOAD_ERROR = ''MODEL_LOAD_ERROR''"
| "error_code_strings ERR_INFERENCE_ERROR = ''INFERENCE_ERROR''"
| "error_code_strings ERR_CUDA_ERROR = ''CUDA_ERROR''"
| "error_code_strings ERR_UNKNOWN_ERROR = ''UNKNOWN_ERROR''"

text \<open>The code compares levels; the order is that of the enumeration.\<close>

fun level_number :: "log_level \<Rightarrow> nat" where
  "level_number LOG_DEBUG = 0"
| "level_number LOG_INFO = 1"
| "level_number LOG_WARN = 2"
| "level_number LOG_ERROR = 3"
| "level_number LOG_FATAL = 4"

lemma level_number_inj: "level_number a = level_number b \<Longrightarrow> a = b"
  by (cases a; cases b) simp_all

instantiation log_level :: linorder
begin

definition less_eq_log_level :: "log_level \<Rightarrow> log_level \<Rightarrow> bool" where
  "less_eq_log_level a b \<longleftrightarrow> level_number a \<le> level_number b"

definition less_log_level :: "log_level \<Rightarrow> log_level \<Rightarrow> bool" where
  "less_log_level a b \<longleftrightarrow> level_number a < level_number b"

instance
  by standard (auto simp: less_eq_log_level_def less_log_level_def intro: level_number_inj)

end

lemma level_from [simp]:
  "LOG_INFO \<le> level \<longleftrightarrow> level \<noteq> LOG_DEBUG"
  "LOG_ERROR \<le> level \<longleftrightarrow> level = LOG_ERROR \<or> level = LOG_FATAL"
  by (cases level; simp add: less_eq_log_level_def)+

definition LOG_BUFFER_SIZE :: nat where "LOG_BUFFER_SIZE = 512"

section \<open>Composition\<close>

definition emit :: "char \<Rightarrow> out_state \<Rightarrow> out_state option" where
  "emit c = (\<lambda>(buffer, offset). map_option (\<lambda>buffer. (buffer, offset + 1)) (wr buffer offset c))"

definition emit_str :: "string \<Rightarrow> out_state \<Rightarrow> out_state option" where
  "emit_str s = (\<lambda>(buffer, offset).
     map_option (\<lambda>tail. (take offset buffer @ tail, offset + length s))
       (strncpy (drop offset buffer) s (length s)))"

definition log_timestamp :: "out_state \<Rightarrow> out_state option" where
  "log_timestamp st =
     (let timestamp = ''[00:00:00]''
      in if snd st + length timestamp < LOG_BUFFER_SIZE - 1 then emit_str timestamp st else Some st)"

definition log_level_part :: "log_level \<Rightarrow> out_state \<Rightarrow> out_state option" where
  "log_level_part level st =
     (let level_str = log_level_strings level in
      if snd st + length level_str + 3 < LOG_BUFFER_SIZE - 1
      then do { st \<leftarrow> emit (CHR '' '') st; st \<leftarrow> emit (CHR ''['') st; st \<leftarrow> emit_str level_str st; emit (CHR '']'') st }
      else Some st)"

text \<open>The part of a path behind its last slash, searched from the end.\<close>

primrec file_name :: "string \<Rightarrow> nat \<Rightarrow> string" where
  "file_name path 0 = path"
| "file_name path (Suc i) = (if path ! i = CHR ''/'' then drop (i + 1) path else file_name path i)"

text \<open>The digits, last one first; \<open>k\<close> slots of \<^verbatim>\<open>line_str\<close> are left.\<close>

primrec line_digits :: "nat \<Rightarrow> int \<Rightarrow> string" where
  "line_digits 0 n = []"
| "line_digits (Suc k) n = (if 0 < n then char_of (nat (48 + n mod 10)) # line_digits k (n div 10) else [])"

fun emit_below :: "string \<Rightarrow> out_state \<Rightarrow> out_state option" where
  "emit_below [] st = Some st"
| "emit_below (c # cs) st = (if snd st < LOG_BUFFER_SIZE - 1 then Option.bind (emit c st) (emit_below cs) else Some st)"

definition log_location :: "string \<Rightarrow> int \<Rightarrow> out_state \<Rightarrow> out_state option" where
  "log_location file line st =
     (let filename = file_name file (length file) in
      if snd st + length filename + 16 < LOG_BUFFER_SIZE - 1
      then do {
        st \<leftarrow> emit (CHR '' '') st;
        st \<leftarrow> emit (CHR ''['') st;
        st \<leftarrow> emit_str filename st;
        let line_str = (if line = 0 then ''0'' else line_digits 15 line) @ '':'';
        st \<leftarrow> emit_below (rev line_str) st;
        emit (CHR '']'') st }
      else Some st)"

definition log_separator :: "out_state \<Rightarrow> out_state option" where
  "log_separator st =
     (if snd st < LOG_BUFFER_SIZE - 3 then Option.bind (emit (CHR '':'') st) (emit (CHR '' '')) else Some st)"

definition log_formatted :: "string \<Rightarrow> va list \<Rightarrow> out_state \<Rightarrow> out_state option" where
  "log_formatted format args = (\<lambda>(buffer, offset).
     if offset < LOG_BUFFER_SIZE - 1 then
       map_option (\<lambda>(written, tail). (take offset buffer @ tail, offset + nat written))
         (vsnprintf (drop offset buffer) (LOG_BUFFER_SIZE - 1 - offset) format args)
     else Some (buffer, offset))"

text \<open>The line feed and the terminator.\<close>

definition log_end :: "out_state \<Rightarrow> string option" where
  "log_end = (\<lambda>(buffer, offset).
     let offset = (if LOG_BUFFER_SIZE - 1 \<le> offset then LOG_BUFFER_SIZE - 2 else offset)
     in Option.bind (wr buffer offset LF) (\<lambda>buffer. wr buffer (offset + 1) NUL))"

definition log_message ::
  "log_level \<Rightarrow> string \<Rightarrow> int \<Rightarrow> string \<Rightarrow> va list \<Rightarrow> string \<Rightarrow> (string \<times> bool \<times> bool) option" where
  "log_message level file line format args buffer = do {
     st \<leftarrow> log_timestamp (buffer, 0);
     st \<leftarrow> log_level_part level st;
     st \<leftarrow> (if LOG_ERROR \<le> level then log_location file line st else Some st);
     st \<leftarrow> log_separator st;
     st \<leftarrow> log_formatted format args st;
     buffer \<leftarrow> log_end st;
     Some (cstr_of buffer, LOG_INFO \<le> level, level = LOG_FATAL) }"

definition log_code_part :: "error_code \<Rightarrow> out_state \<Rightarrow> out_state option" where
  "log_code_part code st =
     (let code_str = error_code_strings code in
      if snd st + length code_str + 4 < LOG_BUFFER_SIZE - 1
      then do { st \<leftarrow> emit (CHR ''['') st; st \<leftarrow> emit_str code_str st; st \<leftarrow> emit (CHR '']'') st; emit (CHR '' '') st }
      else Some st)"

definition log_error ::
  "error_code \<Rightarrow> string \<Rightarrow> int \<Rightarrow> string \<Rightarrow> va list \<Rightarrow> string \<Rightarrow> string \<Rightarrow> (string \<times> bool \<times> bool) option" where
  "log_error code file line format args buffer buffer2 = do {
     st \<leftarrow> log_code_part code (buffer, 0);
     st \<leftarrow> log_formatted format args st;
     buffer \<leftarrow> log_end st;
     log_message LOG_ERROR file line ''%s'' [VStr (cstr_of buffer)] buffer2 }"

definition log_panic ::
  "string \<Rightarrow> int \<Rightarrow> string \<Rightarrow> va list \<Rightarrow> string \<Rightarrow> string \<Rightarrow> (string \<times> bool \<times> bool) option" where
  "log_panic file line format args buffer buffer2 = do {
     (n, buffer) \<leftarrow> vsnprintf buffer LOG_BUFFER_SIZE format args;
     log_message LOG_FATAL file line ''%s'' [VStr (cstr_of buffer)] buffer2 }"

section \<open>The text\<close>

text \<open>The buffer \<open>b\<close> with the text \<open>out\<close> at its start.\<close>

definition holds :: "string \<Rightarrow> string \<Rightarrow> out_state" where
  "holds b out = (overwrite b 0 out, length out)"

lemma emit_holds: "length b = 512 \<Longrightarrow> length out < 512 \<Longrightarrow> emit c (holds b out) = Some (holds b (out @ [c]))"
  using overwrite_snoc [of 0 out b c] by (simp add: emit_def holds_def wr_def)

lemma emit_str_holds:
  assumes "length b = 512" "length out + length s \<le> 512" "NUL \<notin> set s"
  shows "emit_str s (holds b out) = Some (holds b (out @ s))"
proof -
  have "strncpy (drop (length out) (overwrite b 0 out)) s (length s) =
      Some (overwrite (drop (length out) (overwrite b 0 out)) 0 s)"
    using assms by (subst strncpy_eq) (simp_all add: strncpy_bytes_def cstr_of_id)
  moreover have "take (length out) (overwrite b 0 out) @ overwrite (drop (length out) (overwrite b 0 out)) 0 s =
      overwrite b 0 (out @ s)"
    by (simp add: overwrite_def add.commute)
  ultimately show ?thesis by (simp add: emit_str_def holds_def)
qed

lemma emit_below_holds:
  "length b = 512 \<Longrightarrow> length out + length cs \<le> 511 \<Longrightarrow> emit_below cs (holds b out) = Some (holds b (out @ cs))"
proof (induction cs arbitrary: out)
  case (Cons c cs)
  then show ?case
    using emit_holds [of b out c] Cons.IH [of "out @ [c]"] by (simp add: holds_def LOG_BUFFER_SIZE_def)
qed simp

lemma snd_holds [simp]: "snd (holds b out) = length out"
  by (simp add: holds_def)

lemma cstr_overwrite: "NUL \<notin> set s \<Longrightarrow> cstr_of (overwrite b 0 (s @ [NUL])) = s"
  by (simp add: overwrite_def cstr_of_append)

lemma holds_start: "(b, 0) = holds b []"
  by (simp add: holds_def)

text \<open>The line number is its decimal text.\<close>

lemma line_digits_uint: "line_digits k (int n) = uint_digits k n 10 False"
proof (induction k arbitrary: n)
  case (Suc k)
  have "uchar (char_of (nat (48 + int n mod 10)) :: char) = uchar (digit_char False (n mod 10))"
    using digit_char_dec [of "n mod 10" False] by (simp add: uchar_def nat_add_distrib nat_mod_distrib)
  then have "char_of (nat (48 + int n mod 10)) = digit_char False (n mod 10)" by (simp add: uchar_def)
  then show ?case using Suc.IH [of "n div 10"] by (simp add: zdiv_int)
qed simp

lemma line_text:
  assumes "0 \<le> line" "line < 2 ^ 31"
  shows "rev (if line = 0 then ''0'' else line_digits 15 line) = uint_text (nat line) 10 False"
proof -
  obtain n where n: "line = int n" using assms(1) by (metis nonneg_int_cases)
  have "n < 10 ^ 10" using assms(2) n by simp
  then show ?thesis
    using uint_digits_more [of n 10 10 22 False] uint_digits_more [of n 10 10 5 False]
    by (simp add: n line_digits_uint uint_text_def)
qed

lemma file_name_sub: "set (file_name path n) \<subseteq> set path" "length (file_name path n) \<le> length path"
  by (induction n) (auto dest: in_set_dropD)

definition is_error :: "log_level \<Rightarrow> bool" where
  "is_error level \<longleftrightarrow> LOG_ERROR \<le> level"

definition location_text :: "log_level \<Rightarrow> string \<Rightarrow> int \<Rightarrow> string" where
  "location_text level file line =
     (let f = file_name file (length file)
      in if is_error level \<and> length f < 477 then '' ['' @ f @ '':'' @ uint_text (nat line) 10 False @ '']'' else [])"

definition log_prefix :: "log_level \<Rightarrow> string \<Rightarrow> int \<Rightarrow> string" where
  "log_prefix level file line =
     ''[00:00:00] ['' @ log_level_strings level @ '']'' @ location_text level file line @ '': ''"

lemma level_plain: "length (log_level_strings level) \<le> 5" "NUL \<notin> set (log_level_strings level)"
  "is_error level \<Longrightarrow> length (log_level_strings level) = 5"
  by (cases level; simp add: is_error_def)+

lemma code_plain: "length (error_code_strings code) \<le> 17" "NUL \<notin> set (error_code_strings code)"
  by (cases code; simp)+

lemma timestamp_holds:
  "length b = 512 \<Longrightarrow> log_timestamp (holds b []) = Some (holds b ''[00:00:00]'')"
  using emit_str_holds [of b "[]" "''[00:00:00]''"] by (simp add: log_timestamp_def LOG_BUFFER_SIZE_def)

lemma level_holds:
  assumes "length b = 512" "length out < 100"
  shows "log_level_part level (holds b out) = Some (holds b (out @ '' ['' @ log_level_strings level @ '']''))"
  using assms level_plain [of level]
  by (simp add: log_level_part_def LOG_BUFFER_SIZE_def emit_holds emit_str_holds)

lemma location_holds:
  assumes "length b = 512" "length out = 18" "NUL \<notin> set file" "0 \<le> line" "line < 2 ^ 31"
  shows "log_location file line (holds b out) = Some (holds b (out @ location_text LOG_ERROR file line))"
proof -
  let ?f = "file_name file (length file)"
  have nul: "NUL \<notin> set ?f" using assms(3) file_name_sub(1) [of "file" "length file"] by blast
  have "nat line < 2 ^ 32" using assms(5) by simp
  note digits = length_uint_text_le [OF this, of False]
  show ?thesis
    using assms nul digits line_text [OF assms(4,5)]
    by (simp add: log_location_def location_text_def is_error_def LOG_BUFFER_SIZE_def emit_holds emit_str_holds
        emit_below_holds Let_def)
qed

lemma location_bound:
  assumes "0 \<le> line" "line < 2 ^ 31"
  shows "length (location_text level file line) \<le> 490"
proof -
  have "nat line < 2 ^ 32" using assms(2) by simp
  from length_uint_text_le [OF this, of False] show ?thesis by (simp add: location_text_def Let_def)
qed

lemma formatted_holds:
  assumes "length b = 512" "length out \<le> 510" "render format args = Some t"
  shows "Option.bind (log_formatted format args (holds b out)) log_end =
    Some (overwrite b 0 (out @ take (510 - length out) t @ [LF, NUL]))"
proof -
  let ?n = "511 - length out" and ?u = "take (510 - length out) t"
  have tail: "vsnprintf (drop (length out) (overwrite b 0 out)) ?n format args =
      Some (int (length t), overwrite (drop (length out) (overwrite b 0 out)) 0 (take (?n - 1) t @ [NUL]))"
    using assms by (simp add: vsnprintf_render)
  have n: "?n - 1 = 510 - length out" by simp
  have out: "take (length out) (overwrite b 0 out) @ overwrite (drop (length out) (overwrite b 0 out)) 0 (?u @ [NUL]) =
      overwrite b 0 (out @ ?u @ [NUL])"
    by (simp add: overwrite_def add.commute)
  have f: "log_formatted format args (holds b out) = Some (overwrite b 0 (out @ ?u @ [NUL]), length out + length t)"
    using assms(2) tail unfolding n by (simp add: log_formatted_def holds_def LOG_BUFFER_SIZE_def out)
  let ?o = "if 511 \<le> length out + length t then 510 else length out + length t"
  have o: "?o = length (out @ ?u)" using assms(2) by auto
  have stop: "wr (overwrite b 0 (out @ ?u @ [NUL])) (length (out @ ?u)) LF = Some (overwrite b 0 (out @ ?u @ [LF]))"
    using assms(1,2) by (auto simp: wr_def overwrite_def list_update_append)
  have "wr (overwrite b 0 (out @ ?u @ [LF])) (length (out @ ?u) + 1) NUL = Some (overwrite b 0 (out @ ?u @ [LF, NUL]))"
    using assms(1,2) overwrite_snoc [of 0 "out @ ?u @ [LF]" b NUL] by (simp add: wr_def)
  with stop have "Option.bind (wr (overwrite b 0 (out @ ?u @ [NUL])) (length (out @ ?u)) LF)
      (\<lambda>buffer. wr buffer (length (out @ ?u) + 1) NUL) = Some (overwrite b 0 (out @ ?u @ [LF, NUL]))"
    by (simp only: Option.bind.simps)
  moreover have "log_end (buffer, length out + length t) =
      Option.bind (wr buffer ?o LF) (\<lambda>buffer. wr buffer (?o + 1) NUL)" for buffer
    by (simp add: log_end_def LOG_BUFFER_SIZE_def Let_def)
  ultimately show ?thesis unfolding f by (simp only: Option.bind.simps o)
qed

lemma message_text:
  assumes "length b = 512" "NUL \<notin> set file" "0 \<le> line" "line < 2 ^ 31" "render format args = Some t" "NUL \<notin> set t"
  shows "log_message level file line format args b =
    Some (log_prefix level file line @ take (510 - length (log_prefix level file line)) t @ [LF],
          LOG_INFO \<le> level, level = LOG_FATAL)"
proof -
  let ?l = "''[00:00:00]'' @ '' ['' @ log_level_strings level @ '']''"
  let ?p = "?l @ location_text level file line"
  have loc: "(if LOG_ERROR \<le> level then log_location file line (holds b ?l) else Some (holds b ?l)) =
      Some (holds b ?p)"
    using location_holds [OF assms(1) _ assms(2-4), of ?l] level_plain(3) [of level]
    by (auto simp: location_text_def is_error_def Let_def)
  have bound: "length ?p \<le> 508"
    using location_bound [OF assms(3,4), of level "file"] level_plain(1) [of level] by simp
  have sep: "log_separator (holds b ?p) = Some (holds b (?p @ '': ''))"
    using bound assms(1) by (simp add: log_separator_def LOG_BUFFER_SIZE_def emit_holds)
  have p: "?p @ '': '' = log_prefix level file line" by (simp add: log_prefix_def)
  have "NUL \<notin> set (log_prefix level file line)"
  proof -
    have "nat line < 2 ^ 32" using assms(4) by simp
    from NUL_notin_uint_text [OF this] show ?thesis
      using level_plain(2) [of level] assms(2) file_name_sub(1) [of "file" "length file"]
      by (auto simp: log_prefix_def location_text_def Let_def)
  qed
  then have "NUL \<notin> set (log_prefix level file line @ take n t @ [LF])" for n
    using assms(6) by (auto dest: in_set_takeD)
  from cstr_overwrite [OF this] have cut: "cstr_of (overwrite b 0 (log_prefix level file line @ take n t @ [LF, NUL])) =
      log_prefix level file line @ take n t @ [LF]" for n
    by simp
  have "length (log_prefix level file line) \<le> 510" unfolding p [symmetric] using bound by simp
  note f = formatted_holds [OF assms(1) this assms(5)]
  then obtain st where st: "log_formatted format args (holds b (log_prefix level file line)) = Some st"
    "log_end st = Some (overwrite b 0 (log_prefix level file line @
       take (510 - length (log_prefix level file line)) t @ [LF, NUL]))"
    by (auto simp: bind_eq_Some_conv)
  have lev: "log_level_part level (holds b ''[00:00:00]'') = Some (holds b ?l)"
    using level_holds [OF assms(1), of "''[00:00:00]''" level] by simp
  show ?thesis
    unfolding log_message_def holds_start
    by (simp only: timestamp_holds [OF assms(1)] lev loc sep [unfolded p] st cut Option.bind.simps)
qed

text \<open>
  A log message never leaves its buffer, and its text is what the levels say: the time, the
  level, for errors the file name without its directories and the line number (unless the name has more than
  476 characters), and the formatted message, cut so that the whole has at most 511 characters and ends in a
  line feed. The terminal gets it from \<^verbatim>\<open>LOG_INFO\<close> on, and only
  \<^verbatim>\<open>LOG_FATAL\<close> halts.
\<close>

theorem log_message_correct:
  assumes "length b = 512" "NUL \<notin> set file" "0 \<le> line" "line < 2 ^ 31" "render format args = Some t" "NUL \<notin> set t"
  shows "log_message level file line format args b =
    Some (log_prefix level file line @ take (510 - length (log_prefix level file line)) t @ [LF],
          LOG_INFO \<le> level, level = LOG_FATAL)"
  using assms by (rule message_text)

lemma log_message_correct_witness:
  "log_message LOG_ERROR ''src/tcp.c'' 42 ''n=%d'' [VInt 7] (replicate 512 NUL) =
     Some (''[00:00:00] [ERROR] [tcp.c:42]: n=7'' @ [LF], True, False)"
proof -
  have r: "render ''n=%d'' [VInt 7] = Some ''n=7''" by code_simp
  have u: "uint_text 42 10 False = ''42''" "file_name ''src/tcp.c'' 9 = ''tcp.c''" by code_simp+
  have "log_prefix LOG_ERROR ''src/tcp.c'' 42 = ''[00:00:00] [ERROR] [tcp.c:42]: ''"
    by (simp add: log_prefix_def location_text_def is_error_def u)
  then show ?thesis
    using log_message_correct [of "replicate 512 NUL" "''src/tcp.c''" 42 "''n=%d''" "[VInt 7]" "''n=7''" LOG_ERROR] r
    by simp
qed

text \<open>An error and a panic format their message in a buffer of their own and hand it on.\<close>

definition error_text :: "error_code \<Rightarrow> string \<Rightarrow> string" where
  "error_text code t =
     (let c = ''['' @ error_code_strings code @ ''] '' in c @ take (510 - length c) t @ [LF])"

lemma render_s: "render ''%s'' [VStr s] = Some s"
  by (simp add: render_Cons)

lemma error_message:
  assumes "length b = 512" "length b2 = 512" "NUL \<notin> set file" "0 \<le> line" "line < 2 ^ 31" "render format args = Some t"
    "NUL \<notin> set t"
  shows "log_error code file line format args b b2 = log_message LOG_ERROR file line ''%s'' [VStr (error_text code t)] b2"
proof -
  let ?c = "''['' @ error_code_strings code @ ''] ''"
  have c: "log_code_part code (holds b []) = Some (holds b ?c)"
    using assms(1) code_plain [of code]
    by (simp add: log_code_part_def LOG_BUFFER_SIZE_def emit_holds emit_str_holds)
  have l: "length ?c \<le> 510" using code_plain(1) [of code] by simp
  have "NUL \<notin> set (error_text code t)"
    using assms(7) code_plain(2) [of code] by (auto simp: error_text_def Let_def dest: in_set_takeD)
  from cstr_overwrite [OF this] have "cstr_of (overwrite b 0 (?c @ take (510 - length ?c) t @ [LF, NUL])) = error_text code t"
    by (simp add: error_text_def Let_def)
  then show ?thesis
    using formatted_holds [OF assms(1) l assms(6)] c
    by (simp add: log_error_def holds_start Option.bind_assoc [symmetric] del: Option.bind_assoc)
qed

lemma panic_message:
  assumes "length b = 512" "render format args = Some t" "NUL \<notin> set t"
  shows "log_panic file line format args b b2 = log_message LOG_FATAL file line ''%s'' [VStr (take 511 t)] b2"
proof -
  have "NUL \<notin> set (take 511 t)" using assms(3) by (auto dest: in_set_takeD)
  from cstr_overwrite [OF this] have "cstr_of (overwrite b 0 (take 511 t @ [NUL])) = take 511 t" .
  then show ?thesis using assms(1,2) by (simp add: log_panic_def LOG_BUFFER_SIZE_def vsnprintf_render)
qed

text \<open>
  Errors and panics are log messages. \<open>log_error\<close> puts the name of the code in
  front of the message and logs it at level \<^verbatim>\<open>ERROR\<close>, ending, because both steps append
  one, in two line feeds when it fits; \<open>log_panic\<close> logs its message at level
  \<^verbatim>\<open>FATAL\<close> and always halts.
\<close>

theorem log_error_and_panic:
  assumes "length b = 512" "length b2 = 512" "NUL \<notin> set file" "0 \<le> line" "line < 2 ^ 31" "render format args = Some t"
    "NUL \<notin> set t"
  shows "log_error code file line format args b b2 =
      Some (log_prefix LOG_ERROR file line @
              take (510 - length (log_prefix LOG_ERROR file line)) (error_text code t) @ [LF], True, False) \<and>
    (\<exists>txt. log_panic file line format args b b2 = Some (txt, True, True))"
proof -
  have "NUL \<notin> set (error_text code t)" "NUL \<notin> set (take 511 t)"
    using assms(7) code_plain(2) [of code] by (auto simp: error_text_def Let_def dest: in_set_takeD)
  then show ?thesis
    using message_text [OF assms(2-5) render_s, of "error_text code t" LOG_ERROR]
      message_text [OF assms(2-5) render_s, of "take 511 t" LOG_FATAL]
    by (simp add: error_message [OF assms] panic_message [OF assms(1,6,7)])
qed

lemma log_error_and_panic_witness:
  "log_error ERR_IO_ERROR ''io.c'' 7 ''bad'' [] (replicate 512 NUL) (replicate 512 NUL) =
     Some (''[00:00:00] [ERROR] [io.c:7]: [IO_ERROR] bad'' @ [LF, LF], True, False)"
proof -
  have r: "render ''bad'' [] = Some ''bad''" by code_simp
  have u: "uint_text 7 10 False = ''7''" "file_name ''io.c'' 4 = ''io.c''" by code_simp+
  have "log_prefix LOG_ERROR ''io.c'' 7 = ''[00:00:00] [ERROR] [io.c:7]: ''"
    "error_text ERR_IO_ERROR ''bad'' = ''[IO_ERROR] bad'' @ [LF]"
    by (simp_all add: log_prefix_def location_text_def is_error_def u error_text_def)
  then show ?thesis
    using log_error_and_panic [of "replicate 512 NUL" "replicate 512 NUL" "''io.c''" 7 "''bad''" "[]" "''bad''" ERR_IO_ERROR] r
    by simp
qed

end
