(* ===== verification/ModelInfo.thy ===== *)
theory ModelInfo
  imports Llm ErrorLog
begin

text \<open>
  The reporting functions of \<^verbatim>\<open>src/model_embedding.c\<close>, which format what they have to
  say in a buffer of their own and log it, on top of the loggers of ErrorLog. A result lists the messages
  composed, in order. The arguments \<open>stk\<close> are the two buffers of the loggers with whatever the stack
  holds, and \<open>file\<close> is \<^verbatim>\<open>__FILE__\<close>; no result depends on the former.
\<close>

section \<open>Operations\<close>

type_synonym message = "string \<times> bool \<times> bool"

definition log_info :: "string \<times> string \<Rightarrow> string \<Rightarrow> int \<Rightarrow> string \<Rightarrow> va list \<Rightarrow> message option" where
  "log_info stk file line format args = log_message LOG_INFO file line format args (fst stk)"

definition log_err ::
  "error_code \<Rightarrow> string \<times> string \<Rightarrow> string \<Rightarrow> int \<Rightarrow> string \<Rightarrow> va list \<Rightarrow> message option" where
  "log_err code stk file line format args = log_error code file line format args (fst stk) (snd stk)"

text \<open>A line formatted with \<^verbatim>\<open>snprintf\<close> and logged with \<^verbatim>\<open>LOG_INFO("%s", buffer)\<close>.\<close>

definition log_line :: "string \<times> string \<Rightarrow> string \<Rightarrow> nat \<Rightarrow> int \<Rightarrow> string \<Rightarrow> va list \<Rightarrow> message option" where
  "log_line stk file buffer_size line format args =
     Option.bind (snprintf_text buffer_size format args) (\<lambda>(n, buffer). log_info stk file line ''%s'' [VStr buffer])"

definition print_model_info ::
  "string \<times> string \<Rightarrow> string \<Rightarrow> model_embedding_info option \<Rightarrow> message list option" where
  "print_model_info stk file model_info =
     (case model_info of
        None \<Rightarrow> those [log_err ERR_INVALID_PARAMETER stk file 115
          (''MODEL_EMBEDDING: Invalid model info for printing'' @ [LF]) []]
      | Some i \<Rightarrow> those
          [log_line stk file 128 123 (''MODEL_EMBEDDING: Model size: %zu bytes'' @ [LF]) [VInt (of_nat (me_size i))],
           log_line stk file 128 128 (''MODEL_EMBEDDING: Model validity: %s'' @ [LF])
             [VStr (if me_is_valid i \<noteq> 0 then ''Valid'' else ''Invalid'')],
           log_line stk file 128 132 (''MODEL_EMBEDDING: Model checksum: %08x'' @ [LF]) [VInt (me_checksum i)],
           log_info stk file 134 (''MODEL_EMBEDDING: Model information printed'' @ [LF]) []])"

definition embed_model_from_file ::
  "string \<times> string \<Rightarrow> string \<Rightarrow> string option \<Rightarrow> (int \<times> message list) option" where
  "embed_model_from_file stk file file_path =
     (case file_path of
        None \<Rightarrow> map_option (Pair (- 1)) (those
          [log_err ERR_INVALID_PARAMETER stk file 140 (''MODEL_EMBEDDING: Invalid file path'' @ [LF]) []])
      | Some path \<Rightarrow> map_option (Pair 0) (those
          [log_line stk file 128 146 (''MODEL_EMBEDDING: Embedding model from file: %s'' @ [LF]) [VStr path],
           log_info stk file 154 (''MODEL_EMBEDDING: Model embedding from file completed (stub)'' @ [LF]) []]))"

definition embed_model_data ::
  "string \<times> string \<Rightarrow> string \<Rightarrow> u8 list option \<Rightarrow> nat \<Rightarrow> (int \<times> message list) option" where
  "embed_model_data stk file model_data sz =
     (if model_data = None \<or> sz = 0 then map_option (Pair (- 1)) (those
          [log_err ERR_INVALID_PARAMETER stk file 161 (''MODEL_EMBEDDING: Invalid model data'' @ [LF]) []])
      else map_option (Pair 0) (those
          [log_line stk file 64 167 (''MODEL_EMBEDDING: Embedding model data of size: %zu bytes'' @ [LF]) [VInt (of_nat sz)],
           log_info stk file 174 (''MODEL_EMBEDDING: Model data embedding completed (stub)'' @ [LF]) []]))"

definition generate_model_embedding_code ::
  "string \<times> string \<Rightarrow> string \<Rightarrow> u8 list option \<Rightarrow> nat \<Rightarrow> string option \<Rightarrow> (int \<times> message list) option" where
  "generate_model_embedding_code stk file model_data sz output_path =
     (case output_path of
        Some path \<Rightarrow>
          if model_data = None \<or> sz = 0 then map_option (Pair (- 1)) (those
            [log_err ERR_INVALID_PARAMETER stk file 181
              (''MODEL_EMBEDDING: Invalid parameters for code generation'' @ [LF]) []])
          else map_option (Pair 0) (those
            [log_line stk file 128 187 (''MODEL_EMBEDDING: Generating model embedding code to: %s'' @ [LF]) [VStr path],
             log_line stk file 128 190 (''MODEL_EMBEDDING: Model data size: %zu bytes'' @ [LF]) [VInt (of_nat sz)],
             log_info stk file 196 (''MODEL_EMBEDDING: Model embedding code generation completed (stub)'' @ [LF]) []])
      | None \<Rightarrow> map_option (Pair (- 1)) (those
            [log_err ERR_INVALID_PARAMETER stk file 181
              (''MODEL_EMBEDDING: Invalid parameters for code generation'' @ [LF]) []]))"

section \<open>What is reported\<close>

definition info_message :: "string \<Rightarrow> message" where
  "info_message t = (''[00:00:00] [INFO]: '' @ t @ [LF], True, False)"

text \<open>A short message is logged whole; the line feed it ends in is followed by that of the logger.\<close>

lemma log_info_text:
  assumes "length (fst stk) = 512" "0 \<le> line" "line < 2 ^ 31" "render format args = Some t" "NUL \<notin> set t"
    "length t \<le> 400" "NUL \<notin> set file"
  shows "log_info stk file line format args = Some (info_message t)"
proof -
  have p: "log_prefix LOG_INFO file line = ''[00:00:00] [INFO]: ''"
    by (simp add: log_prefix_def location_text_def is_error_def)
  show ?thesis
    using message_text [OF assms(1,7,2-5), of LOG_INFO] assms(6)
    by (simp add: log_info_def p info_message_def)
qed

lemma log_line_text:
  assumes "length (fst stk) = 512" "NUL \<notin> set file" "0 \<le> line" "line < 2 ^ 31" "render format args = Some t"
    "NUL \<notin> set t" "n \<le> 128"
  shows "log_line stk file n line format args = Some (info_message (take (n - 1) t))"
proof -
  have "NUL \<notin> set (take (n - 1) t)" using assms(6) by (auto dest: in_set_takeD)
  with assms show ?thesis
    by (simp add: log_line_def snprintf_text_def log_info_text render_s)
qed

lemma report_formats:
  "render (''MODEL_EMBEDDING: Model size: %zu bytes'' @ [LF]) [VInt n] =
     Some (''MODEL_EMBEDDING: Model size: '' @ uint_text (unat n) 10 False @ '' bytes'' @ [LF])"
  "render (''MODEL_EMBEDDING: Model validity: %s'' @ [LF]) [VStr v] = Some (''MODEL_EMBEDDING: Model validity: '' @ v @ [LF])"
  "render (''MODEL_EMBEDDING: Model checksum: %08x'' @ [LF]) args = Some (''MODEL_EMBEDDING: Model checksum: %08x'' @ [LF])"
  "render (''MODEL_EMBEDDING: Model information printed'' @ [LF]) [] =
     Some (''MODEL_EMBEDDING: Model information printed'' @ [LF])"
  by (simp_all add: render_Cons)

lemma from_file_formats:
  "render (''MODEL_EMBEDDING: Embedding model from file: %s'' @ [LF]) [VStr path] =
     Some (''MODEL_EMBEDDING: Embedding model from file: '' @ path @ [LF])"
  "render (''MODEL_EMBEDDING: Model embedding from file completed (stub)'' @ [LF]) [] =
     Some (''MODEL_EMBEDDING: Model embedding from file completed (stub)'' @ [LF])"
  by (simp_all add: render_Cons)

text \<open>
  What \<^verbatim>\<open>print_model_info\<close> reports: size, validity and, because the formatter does not know
  the flags of \<^verbatim>\<open>%08x\<close>, this conversion itself where the checksum is meant.
\<close>

theorem print_model_info_lines:
  assumes "length (fst stk) = 512" "NUL \<notin> set file" "me_size i < 2 ^ 32"
  shows "print_model_info stk file (Some i) = Some
    [info_message (''MODEL_EMBEDDING: Model size: '' @ uint_text (me_size i) 10 False @ '' bytes'' @ [LF]),
     info_message (''MODEL_EMBEDDING: Model validity: '' @ (if me_is_valid i \<noteq> 0 then ''Valid'' else ''Invalid'') @ [LF]),
     info_message (''MODEL_EMBEDDING: Model checksum: %08x'' @ [LF]),
     info_message (''MODEL_EMBEDDING: Model information printed'' @ [LF])]"
proof -
  let ?n = "uint_text (me_size i) 10 False"
  have n: "unat (of_nat (me_size i) :: u32) = me_size i" using assms(3) by (simp add: unat_of_nat)
  have m: "NUL \<notin> set ?n" "length ?n \<le> 10" using NUL_notin_uint_text length_uint_text_le assms(3) by blast+
  note line = log_line_text [OF assms(1,2), of _ _ _ _ 128] and info = log_info_text [OF assms(1)]
  have l1: "log_line stk file 128 123 (''MODEL_EMBEDDING: Model size: %zu bytes'' @ [LF]) [VInt (of_nat (me_size i))] =
      Some (info_message (''MODEL_EMBEDDING: Model size: '' @ ?n @ '' bytes'' @ [LF]))"
    using line [OF _ _ report_formats(1)] m n by simp
  have l2: "log_line stk file 128 128 (''MODEL_EMBEDDING: Model validity: %s'' @ [LF]) [VStr v] =
      Some (info_message (''MODEL_EMBEDDING: Model validity: '' @ v @ [LF]))" if "v \<in> {''Valid'', ''Invalid''}" for v
    using line [OF _ _ report_formats(2)] that by auto
  have l3: "log_line stk file 128 132 (''MODEL_EMBEDDING: Model checksum: %08x'' @ [LF]) args =
      Some (info_message (''MODEL_EMBEDDING: Model checksum: %08x'' @ [LF]))" for args
    using line [OF _ _ report_formats(3)] by simp
  have l4: "log_info stk file 134 (''MODEL_EMBEDDING: Model information printed'' @ [LF]) [] =
      Some (info_message (''MODEL_EMBEDDING: Model information printed'' @ [LF]))"
    using info [OF _ _ report_formats(4)] assms(2) by simp
  show ?thesis
    unfolding print_model_info_def option.case l1 l3 l4 using l2 by simp
qed

text \<open>The report of a long path is cut at 127 characters, and the call succeeds all the same.\<close>

theorem embed_model_from_file_reports:
  assumes "length (fst stk) = 512" "NUL \<notin> set file" "NUL \<notin> set path"
  shows "embed_model_from_file stk file (Some path) = Some (0,
    [info_message (take 127 (''MODEL_EMBEDDING: Embedding model from file: '' @ path @ [LF])),
     info_message (''MODEL_EMBEDDING: Model embedding from file completed (stub)'' @ [LF])])"
proof -
  have l1: "log_line stk file 128 146 (''MODEL_EMBEDDING: Embedding model from file: %s'' @ [LF]) [VStr path] =
      Some (info_message (take 127 (''MODEL_EMBEDDING: Embedding model from file: '' @ path @ [LF])))"
    using log_line_text [where line = 146 and n = 128, OF assms(1,2) _ _ from_file_formats(1)] assms(3) by simp
  have l2: "log_info stk file 154 (''MODEL_EMBEDDING: Model embedding from file completed (stub)'' @ [LF]) [] =
      Some (info_message (''MODEL_EMBEDDING: Model embedding from file completed (stub)'' @ [LF]))"
    using log_info_text [OF assms(1) _ _ from_file_formats(2), of 154] assms(2) by simp
  show ?thesis unfolding embed_model_from_file_def option.case l1 l2 by simp
qed

end
