(* ===== verification/Kernel.thy ===== *)
theory Kernel
  imports IpProps TcpProps Terminal
begin

text \<open>
  \<^verbatim>\<open>kernel_main\<close> and the self tests of \<^verbatim>\<open>src/kernel.c\<close>, which tie the parts
  together: the allocator, the router, the embedded model, the terminal and the network. Also the stack guard
  and the stubs of \<^verbatim>\<open>src/memory.c\<close>.

  Memory fresh from \<^verbatim>\<open>malloc\<close> has any content; it is an argument of the definitions that use it
  (the bytes, the request and the response structure). Of the serial output only the lines of
  \<^verbatim>\<open>kernel.c\<close> are kept.
\<close>

section \<open>Memory management\<close>

definition get_memory_usage :: nat where "get_memory_usage = 0"
definition get_free_memory :: nat where "get_free_memory = 0"

text \<open>The operations on pools log their call and do nothing else.\<close>

record memory_pool =
  mp_buffer :: "nat option"
  mp_block_size :: nat
  mp_num_blocks :: nat
  mp_free_blocks :: "int list"
  mp_free_count :: nat

definition create_memory_pool :: "nat \<Rightarrow> nat \<Rightarrow> terminal \<Rightarrow> memory_pool option \<times> terminal" where
  "create_memory_pool block_size num_blocks t =
     (None, serial_write (Some (''MEMORY: create_memory_pool called (stub)'' @ [LF])) t)"

definition destroy_memory_pool :: "memory_pool option \<Rightarrow> terminal \<Rightarrow> terminal" where
  "destroy_memory_pool pool t = serial_write (Some (''MEMORY: destroy_memory_pool called (stub)'' @ [LF])) t"

definition pool_malloc :: "memory_pool option \<Rightarrow> nat \<Rightarrow> terminal \<Rightarrow> nat option \<times> terminal" where
  "pool_malloc pool n t = (None, serial_write (Some (''MEMORY: pool_malloc called (stub)'' @ [LF])) t)"

definition pool_free :: "memory_pool option \<Rightarrow> nat option \<Rightarrow> terminal \<Rightarrow> terminal" where
  "pool_free pool ptr t = serial_write (Some (''MEMORY: pool_free called (stub)'' @ [LF])) t"

text \<open>The guard: how many words it has and the words from its base on.\<close>

record stack_guard =
  stack_canary_words :: nat
  stack_canary_base :: "u32 list"

definition STACK_CANARY_PATTERN :: u32 where "STACK_CANARY_PATTERN = 0xDEADBEEF"
definition STACK_CANARY_SIZE :: nat where "STACK_CANARY_SIZE = 256"

text \<open>The memory from the base on is an argument; none if it has fewer words than the guard takes.\<close>

definition memory_init_stack_guard :: "u32 list \<Rightarrow> nat \<Rightarrow> stack_guard option" where
  "memory_init_stack_guard mem n =
     (let n = (if n < STACK_CANARY_SIZE * 4 then STACK_CANARY_SIZE * 4 else n); ws = n div 4
      in if length mem < ws then None
         else Some \<lparr>stack_canary_words = ws,
                    stack_canary_base = fold (\<lambda>i m. m[i := STACK_CANARY_PATTERN]) [0 ..< ws] mem\<rparr>)"

fun count_intact :: "u32 list \<Rightarrow> nat \<Rightarrow> nat" where
  "count_intact mem 0 = 0"
| "count_intact [] (Suc n) = 0"
| "count_intact (w # mem) (Suc n) = (if w = STACK_CANARY_PATTERN then Suc (count_intact mem n) else 0)"

definition memory_check_stack_guard :: "stack_guard \<Rightarrow> nat" where
  "memory_check_stack_guard g = count_intact (stack_canary_base g) (stack_canary_words g)"

text \<open>The margin, and whether the warning is logged.\<close>

definition memory_get_stack_margin :: "stack_guard \<Rightarrow> nat \<times> bool" where
  "memory_get_stack_margin g =
     (if stack_canary_words g = 0 then (0, False)
      else let margin = memory_check_stack_guard g * 4 in (margin, margin < 256))"

section \<open>Self tests\<close>

definition HTTP_REQUEST_SIZE :: nat where "HTTP_REQUEST_SIZE = 9576"
definition HTTP_RESPONSE_SIZE :: nat where "HTTP_RESPONSE_SIZE = 17416"

definition write_pattern :: "u8 list \<Rightarrow> u8 list" where
  "write_pattern p = fold (\<lambda>i p. p[i := of_nat i AND 0xFF]) [0 ..< 64] p"

definition pattern_ok :: "u8 list \<Rightarrow> bool" where
  "pattern_ok p \<longleftrightarrow> list_all (\<lambda>i. p ! i = of_nat i AND 0xFF) [0 ..< 64]"

definition test_memory :: "u8 list \<Rightarrow> server \<Rightarrow> (int \<times> server) option" where
  "test_memory mem = (\<lambda>(g, h).
     Option.bind (malloc 64 h) (\<lambda>(p, h).
       case p of
         None \<Rightarrow> Some (1, g, h)
       | Some a \<Rightarrow>
           let failed = (if pattern_ok (write_pattern mem) then 0 else 1)
           in map_option (\<lambda>h. (failed, g, h)) (free p h)))"

definition test_health :: "http_request \<Rightarrow> http_response \<Rightarrow> server \<Rightarrow> (int \<times> server) option" where
  "test_health request response = (\<lambda>(g, h).
     Option.bind (malloc HTTP_REQUEST_SIZE h) (\<lambda>(p, h).
     Option.bind (malloc HTTP_RESPONSE_SIZE h) (\<lambda>(q, h).
       if p = None \<or> q = None then Some (1, g, h)
       else
         let request = request\<lparr>rq_path := strncpy_bytes ''/health'' 256, rq_method := strncpy_bytes ''GET'' 16\<rparr>
         in Option.bind (route_request request response (g, h)) (\<lambda>(rc, response, g, h).
              let failed = (if rc \<noteq> 0 \<or> rs_status response \<noteq> 200 then 1 else 0)
              in Option.bind (free p h) (\<lambda>h. map_option (\<lambda>h. (failed, g, h)) (free q h))))))"

definition test_model :: int where
  "test_model = (if em_is_valid c_load_embedded_model = 0 then 1 else 0)"

definition run_self_tests ::
  "u8 list \<Rightarrow> http_request \<Rightarrow> http_response \<Rightarrow> server \<Rightarrow> (int \<times> server) option" where
  "run_self_tests mem request response sv =
     Option.bind (test_memory mem sv) (\<lambda>(f1, sv).
     map_option (\<lambda>(f2, sv). (if f1 + f2 + test_model = 0 then 0 else -1, sv)) (test_health request response sv))"

section \<open>Booting\<close>

record 'd kernel =
  k_terminal :: terminal
  k_net :: "'d net"

definition k_server :: "'d kernel \<Rightarrow> server" where
  "k_server k = tcp_server (net_tcp (k_net k))"

definition set_server :: "server \<Rightarrow> 'd kernel \<Rightarrow> 'd kernel" where
  "set_server sv k = k\<lparr>k_net := (k_net k)\<lparr>net_tcp := (net_tcp (k_net k))\<lparr>tcp_server := sv\<rparr>\<rparr>\<rparr>"

definition say :: "string \<Rightarrow> 'd kernel \<Rightarrow> 'd kernel" where
  "say s k = k\<lparr>k_terminal := serial_write (Some (s @ [LF])) (k_terminal k)\<rparr>"

definition memory_init :: "'d kernel \<Rightarrow> 'd kernel" where
  "memory_init k = set_server (fst (k_server k), memory_init_heap (snd (k_server k))) k"

definition show_text :: "string \<Rightarrow> 'd kernel \<Rightarrow> 'd kernel option" where
  "show_text s k = map_option (\<lambda>t. k\<lparr>k_terminal := t\<rparr>) (terminal_writestring (s @ [LF]) (k_terminal k))"

definition start_network :: "'d hardware \<Rightarrow> 'd kernel \<Rightarrow> 'd kernel" where
  "start_network hw k =
     (let (rc, net) = network_init hw (k_net k); k = k\<lparr>k_net := net\<rparr>
      in if rc = 0 then say ''KERNEL: Network initialized'' k
         else say ''KERNEL: Network initialization failed; continuing without networking'' k)"

text \<open>The first component of the result: the network loop is entered (otherwise the processor halts for good).\<close>

definition test_and_run ::
  "u8 list \<Rightarrow> http_request \<Rightarrow> http_response \<Rightarrow> 'd kernel \<Rightarrow> (bool \<times> 'd kernel) option" where
  "test_and_run mem request response k =
     Option.bind (run_self_tests mem request response (k_server k)) (\<lambda>(rc, sv).
       let k = set_server sv k in
       if rc \<noteq> 0 then
         map_option (Pair False)
           (show_text ''Self-tests failed; halting'' (say ''KERNEL: Self-tests failed; halting'' k))
       else Some (True, say ''KERNEL: Entering network loop'' (say ''KERNEL: Self-tests passed'' k)))"

definition kernel_main ::
  "'d hardware \<Rightarrow> u8 list \<Rightarrow> http_request \<Rightarrow> http_response \<Rightarrow> 'd kernel \<Rightarrow> (bool \<times> 'd kernel) option" where
  "kernel_main hw mem request response k =
     (let k = say ''KERNEL: CLLM unikernel booting'' k;
          k = say ''KERNEL: Memory initialized'' (memory_init k);
          k = k\<lparr>k_terminal := terminal_init (vga_init (k_terminal k))\<rparr>
      in Option.bind (show_text ''CLLM unikernel'' k) (\<lambda>k.
           test_and_run mem request response (start_network hw k)))"

section \<open>The stack guard\<close>

lemma fold_store:
  "n \<le> length mem \<Longrightarrow> fold (\<lambda>i m. m[i := f i]) [0 ..< n] mem = map f [0 ..< n] @ drop n mem"
proof (induction n)
  case (Suc n)
  then show ?case by (simp add: list_update_append Cons_nth_drop_Suc [symmetric])
qed simp

lemma count_intact_eq: "count_intact mem n = length (takeWhile (\<lambda>w. w = STACK_CANARY_PATTERN) (take n mem))"
  by (induction mem n rule: count_intact.induct) auto

lemma guard_words:
  assumes "memory_init_stack_guard mem n = Some g"
  shows "stack_canary_words g = max n 1024 div 4" "take (stack_canary_words g) (stack_canary_base g) =
    replicate (stack_canary_words g) STACK_CANARY_PATTERN" "256 \<le> stack_canary_words g"
  using assms
  by (auto simp: memory_init_stack_guard_def STACK_CANARY_SIZE_def Let_def fold_store map_replicate_const max_def
      split: if_splits)

lemma intact_until:
  assumes "take k mem = replicate k STACK_CANARY_PATTERN" "k < length mem" "mem ! k \<noteq> STACK_CANARY_PATTERN" "k < n"
  shows "count_intact mem n = k"
proof -
  have "take n mem = take k mem @ take (n - k) (drop k mem)" using assms(4) by (metis add_diff_inverse_nat less_imp_not_less take_add)
  moreover have "take (n - k) (drop k mem) = mem ! k # take (n - k - 1) (drop (Suc k) mem)"
    using assms(2,4) by (simp add: Cons_nth_drop_Suc [symmetric] take_Cons')
  ultimately show ?thesis using assms(1,3) by (simp add: count_intact_eq takeWhile_append)
qed

text \<open>
  The stack guard measures what it says. After its initialization the margin is the whole
  guard, at least 1024 bytes, also when the region it was given is smaller; and once anything from word
  \<open>k\<close> on has been overwritten, it is \<open>4 * k\<close> bytes, whatever else happened beyond, with a
  warning below 256.
\<close>

theorem stack_guard_margin:
  assumes "memory_init_stack_guard mem n = Some g"
  shows "memory_get_stack_margin g = (4 * (max n 1024 div 4), False) \<and>
    (k < stack_canary_words g \<and> k < length used \<and> take k used = take k (stack_canary_base g) \<and>
       used ! k \<noteq> STACK_CANARY_PATTERN \<longrightarrow>
     memory_get_stack_margin (g\<lparr>stack_canary_base := used\<rparr>) = (4 * k, 4 * k < 256))"
proof -
  note w = guard_words [OF assms]
  have full: "count_intact (stack_canary_base g) (stack_canary_words g) = stack_canary_words g"
    unfolding count_intact_eq w(2) by (simp add: takeWhile_replicate)
  have "take k (stack_canary_base g) = replicate k STACK_CANARY_PATTERN" if "k < stack_canary_words g"
    using arg_cong [OF w(2), of "take k"] that by (simp add: min_def)
  then show ?thesis
    using w full intact_until [of k used "stack_canary_words g"]
    by (auto simp: memory_get_stack_margin_def memory_check_stack_guard_def Let_def)
qed

lemma stack_guard_margin_witness:
  "\<exists>g. memory_init_stack_guard (replicate 512 0) 100 = Some g \<and> memory_get_stack_margin g = (1024, False)"
proof -
  obtain g where g: "memory_init_stack_guard (replicate 512 0) 100 = Some g"
    by (simp add: memory_init_stack_guard_def STACK_CANARY_SIZE_def)
  from stack_guard_margin [OF this] g show ?thesis by auto
qed

section \<open>The self tests pass\<close>

lemma pattern_written:
  assumes "64 \<le> length mem"
  shows "pattern_ok (write_pattern mem)"
proof -
  let ?f = "\<lambda>i. of_nat i AND 0xFF :: u8"
  have "write_pattern mem = map ?f [0 ..< 64] @ drop 64 mem"
    unfolding write_pattern_def using assms by (rule fold_store)
  then have "write_pattern mem ! i = ?f i" if "i < 64" for i using that by (simp add: nth_append)
  then show ?thesis by (simp add: pattern_ok_def list_all_iff)
qed

lemma health_answer:
  assumes "cstr_of (rq_path request) = ''/health''"
  shows "\<exists>rs. route_request request response sv = Some (0, rs, sv) \<and> rs_status rs = 200"
  using assms
  by (simp add: route_request_def str_eqn_iff legacy_def handle_health_check_def measured_def static_body_def Let_def)

lemma memory_test_passes:
  assumes "heap_full h [(0, HEAP_SIZE - HEADER_SIZE)] []" "64 \<le> length mem"
  obtains h' where "test_memory mem (g, h) = Some (0, g, h')" "heap_full h' [(0, HEAP_SIZE - HEADER_SIZE)] []"
proof -
  let ?x = "(0, HEAP_SIZE - HEADER_SIZE)"
  have "heap_full h ([] @ ?x # []) []" using assms(1) by simp
  moreover have "align8 64 \<le> snd ?x" by (simp add: align8_def HEAP_SIZE_def HEADER_SIZE_def)
  ultimately obtain h1 where h1: "malloc 64 h = Some (Some (fst ?x + HEADER_SIZE), h1)"
    "heap_full h1 (split_rest (align8 64) ?x) [split_taken (align8 64) ?x]"
    by (elim malloc_full_at [where n = 64]) simp_all
  from free_last [OF h1(2)] obtain h2 where h2: "free (Some (fst (split_taken (align8 64) ?x) + HEADER_SIZE)) h1 = Some h2"
    "heap_full h2 [?x] []" by blast
  show ?thesis
    by (rule that [OF _ h2(2)])
      (use h1(1) h2(1) pattern_written [OF assms(2)] in \<open>simp add: test_memory_def split_taken_def\<close>)
qed

lemma cstr_of_zeros: "cstr_of (replicate n NUL) = []"
  by (cases n) simp_all

lemma health_test_passes:
  assumes "heap_full h [(0, HEAP_SIZE - HEADER_SIZE)] []"
  obtains h' where "test_health request response (g, h) = Some (0, g, h')" "heap_full h' [(0, HEAP_SIZE - HEADER_SIZE)] []"
proof -
  let ?x = "(0, HEAP_SIZE - HEADER_SIZE)"
  let ?a = "split_taken (align8 HTTP_REQUEST_SIZE) ?x"
  obtain y where y: "split_rest (align8 HTTP_REQUEST_SIZE) ?x = [y]" "snd y = HEAP_SIZE - HEADER_SIZE - 9592"
    "fst ?a = 0"
    by (simp add: split_rest_def split_taken_def align8_def HTTP_REQUEST_SIZE_def HEAP_SIZE_def HEADER_SIZE_def)
  let ?b = "split_taken (align8 HTTP_RESPONSE_SIZE) y"
  have pos: "0 < HTTP_REQUEST_SIZE" "0 < HTTP_RESPONSE_SIZE"
    by (simp_all add: HTTP_REQUEST_SIZE_def HTTP_RESPONSE_SIZE_def)
  have "heap_full h ([] @ ?x # []) []" using assms by simp
  moreover have "align8 HTTP_REQUEST_SIZE \<le> snd ?x"
    by (simp add: align8_def HTTP_REQUEST_SIZE_def HEAP_SIZE_def HEADER_SIZE_def)
  ultimately obtain h1 where h1: "malloc HTTP_REQUEST_SIZE h = Some (Some (fst ?a + HEADER_SIZE), h1)" "heap_full h1 [y] [?a]"
    using pos by (elim malloc_full_at [where n = HTTP_REQUEST_SIZE]) (simp_all add: y)
  then have "heap_full h1 ([] @ y # []) [?a]" by simp
  moreover have "align8 HTTP_RESPONSE_SIZE \<le> snd y"
    by (simp add: align8_def HTTP_RESPONSE_SIZE_def y HEAP_SIZE_def HEADER_SIZE_def)
  ultimately obtain h2 where h2: "malloc HTTP_RESPONSE_SIZE h1 = Some (Some (fst ?b + HEADER_SIZE), h2)"
    "heap_full h2 (split_rest (align8 HTTP_RESPONSE_SIZE) y) [?b, ?a]"
    using pos by (elim malloc_full_at [where n = HTTP_RESPONSE_SIZE]) (simp_all add: split_taken_def)
  then have "heap_full h2 (split_rest (align8 HTTP_RESPONSE_SIZE) y) ([?b] @ ?a # [])" by simp
  from free_full [OF this] obtain h3 fl where
    h3: "free (Some (fst ?a + HEADER_SIZE)) h2 = Some h3" "heap_full h3 fl [?b]" by auto
  from free_last [OF h3(2)] obtain h4 where h4: "free (Some (fst ?b + HEADER_SIZE)) h3 = Some h4" "heap_full h4 [?x] []" by blast
  let ?request = "request\<lparr>rq_path := strncpy_bytes ''/health'' 256, rq_method := strncpy_bytes ''GET'' 16\<rparr>"
  have "cstr_of (rq_path ?request) = ''/health''" by (simp add: strncpy_bytes_def cstr_of_append cstr_of_zeros)
  from health_answer [OF this] obtain rs where
    "route_request ?request response (g, h2) = Some (0, rs, g, h2)" "rs_status rs = 200" by blast
  then show ?thesis
    by (intro that [OF _ h4(2)]) (use h1 h2 h3 h4 in \<open>simp add: test_health_def\<close>)
qed

lemma model_test_passes: "test_model = 0"
  by code_simp

lemma self_tests_pass:
  assumes "heap_full h [(0, HEAP_SIZE - HEADER_SIZE)] []" "64 \<le> length mem"
  obtains h' where "run_self_tests mem request response (g, h) = Some (0, g, h')"
    "heap_full h' [(0, HEAP_SIZE - HEADER_SIZE)] []"
proof -
  obtain h1 where h1: "test_memory mem (g, h) = Some (0, g, h1)" "heap_full h1 [(0, HEAP_SIZE - HEADER_SIZE)] []"
    using memory_test_passes [OF assms] by blast
  obtain h2 where h2: "test_health request response (g, h1) = Some (0, g, h2)" "heap_full h2 [(0, HEAP_SIZE - HEADER_SIZE)] []"
    using health_test_passes [OF h1(2)] by blast
  from h1(1) h2(1) show ?thesis
    by (intro that [OF _ h2(2)]) (simp add: run_self_tests_def model_test_passes)
qed

section \<open>The machine boots\<close>

lemma say_fields [simp]: "k_net (say s k) = k_net k" "terminal_buffer (k_terminal (say s k)) = terminal_buffer (k_terminal k)"
  by (simp_all add: say_def serial_write_def)

lemma terminal_ok_say [simp]: "terminal_ok (k_terminal (say s k)) = terminal_ok (k_terminal k)"
  "screen_of (k_terminal (say s k)) = screen_of (k_terminal k)"
  by (simp_all add: say_def serial_write_def terminal_ok_def screen_of_def)

lemma set_server_fields [simp]: "k_terminal (set_server sv k) = k_terminal k" "k_server (set_server sv k) = sv"
  by (simp_all add: set_server_def k_server_def)

lemma network_init_server:
  "tcp_server (net_tcp (snd (network_init hw net))) = tcp_server (net_tcp net)"
  by (auto simp: network_init_def Let_def tcp_init_def arp_init_def split: prod.splits option.splits)

lemma arp_init_ok: "net_ok (arp_init net)"
  by (auto simp: net_ok_def arp_inv_def arp_init_def net_sizes)

lemma network_init_ok:
  "fst (network_init hw net) = 0 \<Longrightarrow> net_ok (snd (network_init hw net)) \<and> tcp_inv (net_tcp (snd (network_init hw net)))"
  using arp_init_ok tcp_init_inv
  by (auto simp: network_init_def Let_def net_ok_def split: prod.splits)

definition fresh_kernel :: "'d kernel \<Rightarrow> bool" where
  "fresh_kernel k \<longleftrightarrow> k_server k = (boot_api_context, boot_heap)"

lemma banner_position:
  "fst (screen_of (terminal_init t)) = 0"
  "fst (fold (screen_put c) (''CLLM unikernel'' @ [LF]) (0, cells)) = 80"
  by (simp_all add: screen_of_def terminal_init_def serial_write_def Let_def screen_put_def)

lemma start_network_fields:
  "k_server (start_network hw k) = k_server k"
  "terminal_ok (k_terminal (start_network hw k)) = terminal_ok (k_terminal k)"
  "screen_of (k_terminal (start_network hw k)) = screen_of (k_terminal k)"
  "k_net (start_network hw k) = snd (network_init hw (k_net k))"
  using network_init_server [of hw "k_net k"]
  by (simp_all add: start_network_def k_server_def split_beta Let_def)

lemma tests_and_runs:
  assumes "k_server k = (g, h)" "heap_full h [(0, HEAP_SIZE - HEADER_SIZE)] []" "64 \<le> length mem"
  shows "\<exists>k'. test_and_run mem request response k = Some (True, k') \<and> fst (k_server k') = g \<and>
    heap_full (snd (k_server k')) [(0, HEAP_SIZE - HEADER_SIZE)] [] \<and>
    terminal_ok (k_terminal k') = terminal_ok (k_terminal k) \<and> screen_of (k_terminal k') = screen_of (k_terminal k) \<and>
    k_net k' = (k_net k)\<lparr>net_tcp := (net_tcp (k_net k))\<lparr>tcp_server := k_server k'\<rparr>\<rparr>"
proof -
  obtain h' where h: "run_self_tests mem request response (g, h) = Some (0, g, h')"
    "heap_full h' [(0, HEAP_SIZE - HEADER_SIZE)] []"
    using self_tests_pass [OF assms(2,3)] by blast
  let ?k = "say ''KERNEL: Entering network loop'' (say ''KERNEL: Self-tests passed'' (set_server (g, h') k))"
  have "test_and_run mem request response k = Some (True, ?k)" by (simp add: test_and_run_def assms(1) h(1))
  moreover have "k_server ?k = (g, h')" by (simp add: k_server_def set_server_def)
  moreover have "k_net ?k = (k_net k)\<lparr>net_tcp := (net_tcp (k_net k))\<lparr>tcp_server := (g, h')\<rparr>\<rparr>"
    by (simp add: set_server_def)
  ultimately show ?thesis using h(2) by (intro exI [of _ ?k]) simp
qed

lemma banner_shown:
  "\<exists>t. terminal_writestring (''CLLM unikernel'' @ [LF]) (terminal_init s) = Some t \<and> terminal_ok t \<and> fst (screen_of t) = 80"
proof -
  let ?T = "terminal_init s"
  have plain: "cstr_of (''CLLM unikernel'' @ [LF]) = ''CLLM unikernel'' @ [LF]" by (simp add: cstr_of_id)
  obtain t where t: "terminal_writestring (''CLLM unikernel'' @ [LF]) ?T = Some t" "terminal_ok t"
    "screen_of t = fold (screen_put (terminal_color ?T)) (''CLLM unikernel'' @ [LF]) (screen_of ?T)"
    using terminal_text [OF terminal_init_ok, of "''CLLM unikernel'' @ [LF]"] unfolding plain by blast
  have "screen_of ?T = (0, snd (screen_of ?T))" by (simp add: prod_eq_iff banner_position(1))
  then have "fst (screen_of t) = 80" unfolding t(3) using banner_position(2) by metis
  with t(1,2) show ?thesis by blast
qed

lemma boots_into:
  assumes "fresh_kernel k" "64 \<le> length mem"
  shows "\<exists>k'. kernel_main hw mem request response k = Some (True, k') \<and>
    terminal_ok (k_terminal k') \<and> fst (screen_of (k_terminal k')) = 80 \<and> fst (k_server k') = boot_api_context \<and>
    heap_full (snd (k_server k')) [(0, HEAP_SIZE - HEADER_SIZE)] [] \<and>
    k_net k' = (snd (network_init hw (k_net (memory_init k))))
      \<lparr>net_tcp := (net_tcp (snd (network_init hw (k_net (memory_init k)))))\<lparr>tcp_server := k_server k'\<rparr>\<rparr>"
proof -
  let ?k = "say ''KERNEL: Memory initialized'' (memory_init (say ''KERNEL: CLLM unikernel booting'' k))"
  let ?k1 = "?k\<lparr>k_terminal := terminal_init (vga_init (k_terminal ?k))\<rparr>"
  have net: "k_net ?k1 = k_net (memory_init k)" by (simp add: memory_init_def set_server_def k_server_def)
  obtain t where t: "show_text ''CLLM unikernel'' ?k1 = Some (?k1\<lparr>k_terminal := t\<rparr>)" "terminal_ok t" "fst (screen_of t) = 80"
    using banner_shown [of "vga_init (k_terminal ?k)"] by (auto simp: show_text_def)
  let ?k2 = "start_network hw (?k1\<lparr>k_terminal := t\<rparr>)"
  have net2: "k_net (?k1\<lparr>k_terminal := t\<rparr>) = k_net (memory_init k)" using net by simp
  have "k_server ?k2 = (boot_api_context, memory_init_heap boot_heap)"
    unfolding start_network_fields(1) unfolding k_server_def net2
    using assms(1) by (simp add: memory_init_def fresh_kernel_def set_server_def)
  from tests_and_runs [OF this heap_full_init assms(2)] obtain k' where
    k': "test_and_run mem request response ?k2 = Some (True, k')" "fst (k_server k') = boot_api_context"
      "heap_full (snd (k_server k')) [(0, HEAP_SIZE - HEADER_SIZE)] []"
      "terminal_ok (k_terminal k') = terminal_ok (k_terminal ?k2)" "screen_of (k_terminal k') = screen_of (k_terminal ?k2)"
      "k_net k' = (k_net ?k2)\<lparr>net_tcp := (net_tcp (k_net ?k2))\<lparr>tcp_server := k_server k'\<rparr>\<rparr>"
    by blast
  have "kernel_main hw mem request response k = Some (True, k')"
    unfolding kernel_main_def Let_def t(1) by (simp only: Option.bind.simps k'(1))
  moreover have "terminal_ok (k_terminal k')" "fst (screen_of (k_terminal k')) = 80"
    unfolding k'(4,5) start_network_fields using t(2,3) by simp_all
  moreover note k'(6) [unfolded start_network_fields net2]
  ultimately show ?thesis using k'(2,3) by blast
qed

lemma boots:
  assumes "fresh_kernel k" "64 \<le> length mem"
  shows "\<exists>k'. kernel_main hw mem request response k = Some (True, k') \<and>
    terminal_ok (k_terminal k') \<and> fst (screen_of (k_terminal k')) = 80 \<and> fst (k_server k') = boot_api_context \<and>
    heap_full (snd (k_server k')) [(0, HEAP_SIZE - HEADER_SIZE)] [] \<and>
    (fst (network_init hw (k_net (memory_init k))) = 0 \<longrightarrow> net_ok (k_net k') \<and> tcp_inv (net_tcp (k_net k')))"
proof -
  from boots_into [OF assms, of hw request response] obtain k' where
    k': "kernel_main hw mem request response k = Some (True, k')" "terminal_ok (k_terminal k')" "fst (screen_of (k_terminal k')) = 80"
      "fst (k_server k') = boot_api_context" "heap_full (snd (k_server k')) [(0, HEAP_SIZE - HEADER_SIZE)] []"
      "k_net k' = (snd (network_init hw (k_net (memory_init k))))
        \<lparr>net_tcp := (net_tcp (snd (network_init hw (k_net (memory_init k)))))\<lparr>tcp_server := k_server k'\<rparr>\<rparr>" by blast
  have "net_ok (k_net k') \<and> tcp_inv (net_tcp (k_net k'))" if "fst (network_init hw (k_net (memory_init k))) = 0"
    using network_init_ok [OF that] by (subst (1 2) k'(6)) (simp add: net_ok_def tcp_inv_def)
  with k'(1-5) show ?thesis by blast
qed


definition sample_kernel :: "unit kernel" where
  "sample_kernel = \<lparr>k_terminal = boot_terminal,
     k_net = sample_net \<lparr>sockets = replicate 4 zero_socket, tcp_now = 0, tcp_server = (boot_api_context, boot_heap)\<rparr>\<rparr>"


end
