(* ===== verification/Cuda.thy ===== *)
theory Cuda
  imports Printf
begin

text \<open>
  \<^verbatim>\<open>src/cuda_interface.c\<close>: the interface to a graphics processor that is not there. Pointers are
  addresses or null; a null context, where the code tests for it, is \<^term>\<open>None\<close>. The contents
  copied and the lines logged do not matter, because no call gets as far as using them; only
  \<open>cuda_uk_launch_kernel\<close> formats its line first.
\<close>

datatype cuda_uk_error =
    CUDA_UK_SUCCESS | CUDA_UK_ERROR_NOT_SUPPORTED | CUDA_UK_ERROR_OUT_OF_MEMORY | CUDA_UK_ERROR_INVALID_VALUE
  | CUDA_UK_ERROR_INITIALIZATION_FAILED

record cuda_context =
  cu_device_id :: int
  cu_gpu_memory_base :: "nat option"
  cu_gpu_memory_size :: nat
  cu_gpu_context :: "nat option"
  cu_is_initialized :: int

definition cuda_uk_init :: "cuda_context \<Rightarrow> int \<Rightarrow> cuda_uk_error \<times> cuda_context" where
  "cuda_uk_init ctx device_id =
     (CUDA_UK_ERROR_NOT_SUPPORTED,
      ctx\<lparr>cu_device_id := device_id, cu_gpu_memory_base := None, cu_gpu_memory_size := 0, cu_gpu_context := None,
          cu_is_initialized := 0\<rparr>)"

definition usable :: "cuda_context option \<Rightarrow> bool" where
  "usable ctx \<longleftrightarrow> (case ctx of None \<Rightarrow> False | Some c \<Rightarrow> cu_is_initialized c \<noteq> 0)"

text \<open>The stub behind the guard returns null as well.\<close>

definition cuda_uk_malloc :: "cuda_context option \<Rightarrow> nat \<Rightarrow> nat option" where
  "cuda_uk_malloc ctx n = (if \<not> usable ctx then None else None)"

text \<open>The line logged, if any.\<close>

definition cuda_uk_free :: "cuda_context option \<Rightarrow> nat option \<Rightarrow> string" where
  "cuda_uk_free ctx ptr =
     (if \<not> usable ctx \<or> ptr = None then [] else ''CUDA: cuda_uk_free called (stub)'' @ [LF])"

definition cuda_uk_memcpy_htod :: "cuda_context option \<Rightarrow> nat option \<Rightarrow> nat option \<Rightarrow> cuda_uk_error" where
  "cuda_uk_memcpy_htod ctx dst src =
     (if \<not> usable ctx \<or> dst = None \<or> src = None then CUDA_UK_ERROR_INVALID_VALUE else CUDA_UK_ERROR_NOT_SUPPORTED)"

definition cuda_uk_memcpy_dtoh :: "cuda_context option \<Rightarrow> nat option \<Rightarrow> nat option \<Rightarrow> cuda_uk_error" where
  "cuda_uk_memcpy_dtoh ctx dst src =
     (if \<not> usable ctx \<or> dst = None \<or> src = None then CUDA_UK_ERROR_INVALID_VALUE else CUDA_UK_ERROR_NOT_SUPPORTED)"

definition launch_format :: string where
  "launch_format = ''CUDA: Launching kernel '' @ [CHR 0x27] @ ''%s'' @ [CHR 0x27] @ '' (stub)'' @ [LF]"

text \<open>The error and the line logged, if any.\<close>

definition cuda_uk_launch_kernel ::
  "cuda_context option \<Rightarrow> string option \<Rightarrow> (cuda_uk_error \<times> string) option" where
  "cuda_uk_launch_kernel ctx kernel_name =
     (case kernel_name of
        None \<Rightarrow> Some (CUDA_UK_ERROR_INVALID_VALUE, [])
      | Some name \<Rightarrow>
          if \<not> usable ctx then Some (CUDA_UK_ERROR_INVALID_VALUE, [])
          else map_option (\<lambda>(n, line). (CUDA_UK_ERROR_NOT_SUPPORTED, line))
            (snprintf_text 128 launch_format [VStr name]))"

definition cuda_uk_get_device_count :: int where "cuda_uk_get_device_count = 0"
definition cuda_uk_is_available :: int where "cuda_uk_is_available = 0"

definition cuda_uk_get_device_description :: "string option \<Rightarrow> nat \<Rightarrow> string option option" where
  "cuda_uk_get_device_description description description_size =
     (case description of
        None \<Rightarrow> Some None
      | Some d \<Rightarrow>
          if description_size = 0 then Some description
          else Option.bind (strncpy d (''CUDA Device (Stub)'' @ [NUL]) description_size) (\<lambda>d.
            map_option Some (wr d (description_size - 1) NUL)))"

section \<open>What the stubs do\<close>

lemma launch_text:
  "render launch_format [VStr name] =
     Some (''CUDA: Launching kernel '' @ [CHR 0x27] @ name @ [CHR 0x27] @ '' (stub)'' @ [LF])"
  by (simp add: launch_format_def render_Cons)

text \<open>
  No graphics processor ever appears to be there: whatever the context, also after its
  initialization, allocation gives null, and copies and launches fail, with \<^verbatim>\<open>INVALID_VALUE\<close>
  where the context or an argument is missing and \<^verbatim>\<open>NOT_SUPPORTED\<close> otherwise, the name of the
  kernel cut to fit its buffer of 128 bytes.
\<close>

theorem cuda_never_succeeds:
  "fst (cuda_uk_init c dev) = CUDA_UK_ERROR_NOT_SUPPORTED \<and> \<not> usable (Some (snd (cuda_uk_init c dev))) \<and>
   cuda_uk_malloc ctx n = None \<and> cuda_uk_memcpy_htod ctx dst src \<noteq> CUDA_UK_SUCCESS \<and>
   cuda_uk_memcpy_dtoh ctx dst src \<noteq> CUDA_UK_SUCCESS \<and>
   (\<exists>err line. cuda_uk_launch_kernel ctx kernel_name = Some (err, line) \<and> err \<noteq> CUDA_UK_SUCCESS \<and> length line < 128)"
  by (auto simp: cuda_uk_init_def usable_def cuda_uk_malloc_def cuda_uk_memcpy_htod_def cuda_uk_memcpy_dtoh_def cuda_uk_launch_kernel_def
      snprintf_text_def launch_text split: option.split)

end
