(* ===== verification/LlamaBridge.thy ===== *)
theory LlamaBridge
  imports Llm "HOL-Library.Multiset"
begin

text \<open>
  \<^verbatim>\<open>src/llm.cpp\<close>, the bridge to the llama.cpp library that replaces \<^verbatim>\<open>llm.c\<close> in
  builds with a real model. The names of its functions carry the suffix \<open>_cpp\<close> here, to tell them from those
  of theory Llm.

  The library is not part of the program: it is the record \<open>llama\<close> of functions on a state \<open>'l\<close> of which
  nothing is known, and on the heap, from which it allocates. Objects of the library are reached through their
  addresses. What its documentation promises are the predicates \<open>llama_manages\<close> (memory and ownership) and
  \<open>llama_decodes\<close> (evaluation and sampling) below. The result \<^term>\<open>None\<close> is an access outside an array or
  a call that the documentation does not allow. The messages on the serial line are left out.
\<close>

section \<open>The library\<close>

type_synonym 'l world = "'l \<times> heap"

text \<open>Of the parameter structures the fields the bridge sets.\<close>

record llama_model_params =
  n_gpu_layers :: int
  use_mlock :: bool
  use_mmap :: bool

record llama_context_params =
  n_ctx :: u32
  n_batch :: u32
  n_threads :: int
  n_threads_batch :: int
  embeddings :: bool

text \<open>A batch with its arrays, as long as they were allocated.\<close>

record llama_batch =
  b_n_tokens :: int
  b_token :: "int list"
  b_pos :: "int list"
  b_n_seq_id :: "int list"
  b_seq_id :: "int list list"
  b_logits :: "bool list"

record 'l llama =
  llama_model_default_params :: llama_model_params
  llama_context_default_params :: llama_context_params
  llama_model_load_from_file :: "string \<Rightarrow> llama_model_params \<Rightarrow> 'l world \<Rightarrow> nat option \<times> 'l world"
  llama_init_from_model :: "nat \<Rightarrow> llama_context_params \<Rightarrow> 'l world \<Rightarrow> nat option \<times> 'l world"
  llama_model_free :: "nat \<Rightarrow> 'l world \<Rightarrow> 'l world"
  llama_free :: "nat \<Rightarrow> 'l world \<Rightarrow> 'l world"
  llama_model_get_vocab :: "'l \<Rightarrow> nat \<Rightarrow> nat"
  llama_vocab_n_tokens :: "'l \<Rightarrow> nat \<Rightarrow> int"
  llama_sampler_chain_init :: "'l world \<Rightarrow> nat option \<times> 'l world"
  llama_sampler_init_greedy :: "'l world \<Rightarrow> nat option \<times> 'l world"
  llama_sampler_chain_add :: "nat option \<Rightarrow> nat option \<Rightarrow> 'l world \<Rightarrow> 'l world"
  llama_sampler_free :: "nat \<Rightarrow> 'l world \<Rightarrow> 'l world"
  llama_batch_init :: "int \<Rightarrow> int \<Rightarrow> int \<Rightarrow> 'l world \<Rightarrow> llama_batch \<times> 'l world"
  llama_batch_free :: "llama_batch \<Rightarrow> 'l world \<Rightarrow> 'l world"
  llama_tokenize :: "'l \<Rightarrow> nat \<Rightarrow> string \<Rightarrow> int \<Rightarrow> int \<Rightarrow> bool \<Rightarrow> bool \<Rightarrow> int \<times> int list"
  llama_vocab_get_text :: "'l \<Rightarrow> nat \<Rightarrow> int \<Rightarrow> string option"
  llama_vocab_is_eog :: "'l \<Rightarrow> nat \<Rightarrow> int \<Rightarrow> bool"
  llama_decode :: "nat \<Rightarrow> llama_batch \<Rightarrow> 'l world \<Rightarrow> int \<times> 'l world"
  llama_kv_cache_clear :: "nat \<Rightarrow> 'l world \<Rightarrow> 'l world"
  llama_get_kv_cache_used_cells :: "'l \<Rightarrow> nat \<Rightarrow> int"
  llama_sampler_sample :: "nat option \<Rightarrow> nat \<Rightarrow> int \<Rightarrow> 'l world \<Rightarrow> (int \<times> 'l world) option"

section \<open>The bridge\<close>

text \<open>The operators \<^verbatim>\<open>new\<close> and \<^verbatim>\<open>delete\<close> for the library's own objects.\<close>

definition operator_new :: "nat \<Rightarrow> heap \<Rightarrow> (nat option \<times> heap) option" where
  "operator_new n = malloc n"

definition operator_delete :: "nat option \<Rightarrow> heap \<Rightarrow> heap option" where
  "operator_delete p = free p"

record llm_context_cpp =
  c_model :: nat
  c_ctx :: nat
  c_sampler :: "nat option"
  c_batch :: llama_batch
  c_n_vocab :: int
  c_n_batch :: int

definition llm_default_params_cpp :: llm_params where
  "llm_default_params_cpp = \<lparr>lp_context_size = 512, lp_threads = 1, lp_gpu_layers = 0\<rparr>"

text \<open>\<^verbatim>\<open>sizeof(llm_context_t)\<close> on i386: three pointers, a batch of seven words, two integers.\<close>

definition CONTEXT_SIZE :: nat where "CONTEXT_SIZE = 48"

definition malloc_world :: "nat \<Rightarrow> 'l world \<Rightarrow> (nat option \<times> 'l world) option" where
  "malloc_world n w = map_option (\<lambda>(p, h). (p, fst w, h)) (malloc n (snd w))"

definition free_world :: "nat \<Rightarrow> 'l world \<Rightarrow> 'l world option" where
  "free_world p w = map_option (Pair (fst w)) (free (Some p) (snd w))"

definition model_params_of :: "'l llama \<Rightarrow> llm_params option \<Rightarrow> llama_model_params" where
  "model_params_of L params =
     (llama_model_default_params L)
       \<lparr>n_gpu_layers := (case params of Some p \<Rightarrow> lp_gpu_layers p | None \<Rightarrow> 0), use_mlock := False, use_mmap := False\<rparr>"

definition context_params_of :: "'l llama \<Rightarrow> llm_params option \<Rightarrow> llama_context_params" where
  "context_params_of L params =
     (let threads = (case params of Some p \<Rightarrow> lp_threads p | None \<Rightarrow> 1);
          ctx = word_of_int (case params of Some p \<Rightarrow> lp_context_size p | None \<Rightarrow> 512)
      in (llama_context_default_params L)
           \<lparr>n_ctx := ctx, n_batch := ctx, n_threads := threads, n_threads_batch := threads, embeddings := False\<rparr>)"

text \<open>What is left to do with a model and a context: the sampler and the batch.\<close>

definition finish_init :: "'l llama \<Rightarrow> llama_context_params \<Rightarrow> nat \<Rightarrow> nat \<Rightarrow> 'l world \<Rightarrow> llm_context_cpp \<times> 'l world" where
  "finish_init L cparams model ctx w =
     (let vocab = llama_vocab_n_tokens L (fst w) (llama_model_get_vocab L (fst w) model);
          batch_size = sint (n_batch cparams);
          (sampler, w) = llama_sampler_chain_init L w;
          (greedy, w) = llama_sampler_init_greedy L w;
          w = llama_sampler_chain_add L sampler greedy w;
          (batch, w) = llama_batch_init L batch_size 0 1 w
      in (\<lparr>c_model = model, c_ctx = ctx, c_sampler = sampler, c_batch = batch, c_n_vocab = vocab, c_n_batch = batch_size\<rparr>,
          w))"

text \<open>The embedded model is generated by the build; the arguments for model data are ignored.\<close>

definition llm_init_cpp ::
  "'l llama \<Rightarrow> u8 list option \<Rightarrow> nat \<Rightarrow> llm_params option \<Rightarrow> 'l world
     \<Rightarrow> ((nat \<times> llm_context_cpp) option \<times> 'l world) option" where
  "llm_init_cpp L embedded embedded_size params w =
     (if embedded = None \<or> embedded_size = 0 then Some (None, w)
      else Option.bind (malloc_world CONTEXT_SIZE w) (\<lambda>(llm, w).
        case llm of
          None \<Rightarrow> Some (None, w)
        | Some llm \<Rightarrow>
            (case llama_model_load_from_file L ''/model.gguf'' (model_params_of L params) w of
               (None, w) \<Rightarrow> map_option (Pair None) (free_world llm w)
             | (Some model, w) \<Rightarrow>
                 (case llama_init_from_model L model (context_params_of L params) w of
                    (None, w) \<Rightarrow> map_option (Pair None) (free_world llm (llama_model_free L model w))
                  | (Some ctx, w) \<Rightarrow>
                      (let (c, w) = finish_init L (context_params_of L params) model ctx w in Some (Some (llm, c), w))))))"

definition llm_free_cpp :: "'l llama \<Rightarrow> (nat \<times> llm_context_cpp) option \<Rightarrow> 'l world \<Rightarrow> 'l world option" where
  "llm_free_cpp L llm w =
     (case llm of
        None \<Rightarrow> Some w
      | Some (p, c) \<Rightarrow>
          (let w = (case c_sampler c of None \<Rightarrow> w | Some s \<Rightarrow> llama_sampler_free L s w);
               w = llama_model_free L (c_model c) (llama_free L (c_ctx c) w)
           in free_world p (llama_batch_free L (c_batch c) w)))"

text \<open>The result and the tokens written.\<close>

definition llm_tokenize_cpp ::
  "'l llama \<Rightarrow> llm_context_cpp option \<Rightarrow> string option \<Rightarrow> int \<Rightarrow> 'l world \<Rightarrow> int \<times> int list" where
  "llm_tokenize_cpp L llm text max_tokens w =
     (if llm = None \<or> text = None \<or> max_tokens \<le> 0 then (- 1, [])
      else let s = cstr_of (the text) in
        llama_tokenize L (fst w) (llama_model_get_vocab L (fst w) (c_model (the llm))) s (swrap32 (int (length s)))
          max_tokens True False)"

fun detokenize_loop :: "(int \<Rightarrow> string option) \<Rightarrow> nat \<Rightarrow> int list \<Rightarrow> nat \<Rightarrow> string \<Rightarrow> string option" where
  "detokenize_loop piece text_size tokens 0 out = Some out"
| "detokenize_loop piece text_size tokens (Suc n) out =
     (if length out + 1 < text_size then
        (case tokens of
           [] \<Rightarrow> None
         | t # tokens \<Rightarrow> Option.bind (piece t) (\<lambda>s.
             let s = cstr_of s;
                 len = (if text_size \<le> length out + length s then text_size - length out - 1 else length s)
             in detokenize_loop piece text_size tokens n (out @ take len s)))
      else Some out)"

text \<open>The result and the text written, without its terminator.\<close>

definition llm_detokenize_cpp ::
  "'l llama \<Rightarrow> llm_context_cpp option \<Rightarrow> int list option \<Rightarrow> int \<Rightarrow> nat \<Rightarrow> 'l world \<Rightarrow> (int \<times> string) option" where
  "llm_detokenize_cpp L llm tokens token_count text_size w =
     (if llm = None \<or> tokens = None \<or> token_count \<le> 0 \<or> text_size = 0 then Some (- 1, [])
      else let vocab = llama_model_get_vocab L (fst w) (c_model (the llm)) in
        map_option (\<lambda>out. (swrap32 (int (length out)), out))
          (detokenize_loop (llama_vocab_get_text L (fst w) vocab) text_size (the tokens) (nat token_count) []))"

text \<open>The loop that fills the batch, from position \<open>i\<close> on.\<close>

fun fill_batch :: "int list \<Rightarrow> nat \<Rightarrow> llama_batch \<Rightarrow> llama_batch option" where
  "fill_batch [] i b = Some b"
| "fill_batch (t # ts) i b = do {
     token \<leftarrow> wr (b_token b) i t;
     pos \<leftarrow> wr (b_pos b) i (int i);
     n_seq_id \<leftarrow> wr (b_n_seq_id b) i 1;
     row \<leftarrow> rd (b_seq_id b) i;
     row \<leftarrow> wr row 0 0;
     seq_id \<leftarrow> wr (b_seq_id b) i row;
     logits \<leftarrow> wr (b_logits b) i False;
     fill_batch ts (i + 1)
       (b\<lparr>b_token := token, b_pos := pos, b_n_seq_id := n_seq_id, b_seq_id := seq_id, b_logits := logits\<rparr>) }"

definition llm_eval_cpp ::
  "'l llama \<Rightarrow> llm_context_cpp option \<Rightarrow> int list option \<Rightarrow> int \<Rightarrow> 'l world
     \<Rightarrow> (int \<times> llm_context_cpp option \<times> 'l world) option" where
  "llm_eval_cpp L llm tokens token_count w =
     (case (llm, tokens) of
        (Some c, Some ts) \<Rightarrow>
          if token_count \<le> 0 then Some (- 1, llm, w)
          else if length ts < nat token_count then None
          else do {
            b \<leftarrow> fill_batch (take (nat token_count) ts) 0 ((c_batch c)\<lparr>b_n_tokens := token_count\<rparr>);
            logits \<leftarrow> wr (b_logits b) (nat token_count - 1) True;
            let c = c\<lparr>c_batch := b\<lparr>b_logits := logits\<rparr>\<rparr>;
            let (rc, w) = llama_decode L (c_ctx c) (c_batch c) w;
            Some (if rc \<noteq> 0 then - 1 else 0, Some c, w) }
      | _ \<Rightarrow> Some (- 1, llm, w))"

definition llm_sample_cpp :: "'l llama \<Rightarrow> llm_context_cpp option \<Rightarrow> 'l world \<Rightarrow> (int \<times> int \<times> 'l world) option" where
  "llm_sample_cpp L llm w =
     (case llm of
        None \<Rightarrow> Some (- 1, 0, w)
      | Some c \<Rightarrow>
          let n_tokens = llama_get_kv_cache_used_cells L (fst w) (c_ctx c) in
          if n_tokens \<le> 0 then Some (- 1, 0, w)
          else map_option (\<lambda>(t, w). (0, t, w)) (llama_sampler_sample L (c_sampler c) (c_ctx c) (n_tokens - 1) w))"

text \<open>
  The generation loop, with the iterations left and the text written so far. (The counter
  \<^verbatim>\<open>prev_tokens\<close> is never read.)
\<close>

fun generate_loop ::
  "'l llama \<Rightarrow> nat \<Rightarrow> nat \<Rightarrow> llm_context_cpp \<Rightarrow> 'l world \<Rightarrow> string \<Rightarrow> (string \<times> llm_context_cpp \<times> 'l world) option" where
  "generate_loop L 0 output_size c w out = Some (out, c, w)"
| "generate_loop L (Suc k) output_size c w out =
     Option.bind (llm_sample_cpp L (Some c) w) (\<lambda>(rc, next_token, w).
       if rc \<noteq> 0 then Some (out, c, w)
       else let vocab = llama_model_get_vocab L (fst w) (c_model c) in
         if llama_vocab_is_eog L (fst w) vocab next_token then Some (out, c, w)
         else Option.bind (llama_vocab_get_text L (fst w) vocab next_token) (\<lambda>piece.
           let piece = cstr_of piece in
           if output_size \<le> length out + length piece then Some (out, c, w)
           else Option.bind (llm_eval_cpp L (Some c) (Some [next_token]) 1 w) (\<lambda>(rc, c, w).
             if rc \<noteq> 0 then Some (out @ piece, the c, w)
             else generate_loop L k output_size (the c) w (out @ piece))))"

definition llm_generate_cpp ::
  "'l llama \<Rightarrow> llm_context_cpp option \<Rightarrow> string option \<Rightarrow> int \<Rightarrow> nat \<Rightarrow> 'l world
     \<Rightarrow> (int \<times> string \<times> llm_context_cpp option \<times> 'l world) option" where
  "llm_generate_cpp L llm prompt max_tokens output_size w =
     (if llm = None \<or> prompt = None \<or> output_size = 0 then Some (- 1, [], llm, w)
      else let (n_prompt, tokens) = llm_tokenize_cpp L llm prompt 512 w in
        if n_prompt < 0 then Some (- 1, [], llm, w)
        else Option.bind (llm_eval_cpp L llm (Some tokens) n_prompt (llama_kv_cache_clear L (c_ctx (the llm)) w)) (\<lambda>(rc, llm, w).
          if rc \<noteq> 0 then Some (- 1, [], llm, w)
          else map_option (\<lambda>(out, c, w). (swrap32 (int (length out)), out, Some c, w))
                 (generate_loop L (nat max_tokens) output_size (the llm) w [])))"

section \<open>Evaluation\<close>

text \<open>The arrays of a batch for \<open>cap\<close> tokens, each in at least one sequence.\<close>

definition batch_room :: "llama_batch \<Rightarrow> nat \<Rightarrow> bool" where
  "batch_room b cap \<longleftrightarrow> length (b_token b) = cap \<and> length (b_pos b) = cap \<and> length (b_n_seq_id b) = cap \<and>
     length (b_seq_id b) = cap \<and> length (b_logits b) = cap \<and> (\<forall>row \<in> set (b_seq_id b). row \<noteq> [])"

text \<open>The batch asks for the tokens at the positions from 0 on, in sequence 0, and for the output of the last.\<close>

definition batch_of :: "int list \<Rightarrow> llama_batch \<Rightarrow> bool" where
  "batch_of ts b \<longleftrightarrow> (let n = length ts in
     b_n_tokens b = int n \<and> take n (b_token b) = ts \<and> take n (b_pos b) = map int [0 ..< n] \<and>
     take n (b_n_seq_id b) = replicate n 1 \<and> (\<forall>i < n. b_seq_id b ! i ! 0 = 0) \<and>
     take n (b_logits b) = replicate (n - 1) False @ [True])"

text \<open>One round of the loop.\<close>

definition put_token :: "int \<Rightarrow> nat \<Rightarrow> llama_batch \<Rightarrow> llama_batch" where
  "put_token t i b = b\<lparr>b_token := (b_token b)[i := t], b_pos := (b_pos b)[i := int i], b_n_seq_id := (b_n_seq_id b)[i := 1],
     b_seq_id := (b_seq_id b)[i := (b_seq_id b ! i)[0 := 0]], b_logits := (b_logits b)[i := False]\<rparr>"

lemma fill_batch_step:
  assumes "batch_room b cap" "i < cap"
  shows "fill_batch (t # ts) i b = fill_batch ts (i + 1) (put_token t i b)" "batch_room (put_token t i b) cap"
    "b_seq_id b ! i \<noteq> []"
proof -
  show row: "b_seq_id b ! i \<noteq> []" using assms by (auto simp: batch_room_def)
  show "fill_batch (t # ts) i b = fill_batch ts (i + 1) (put_token t i b)"
    using assms row by (simp add: batch_room_def put_token_def carr)
  have "set ((b_seq_id b)[i := (b_seq_id b ! i)[0 := 0]]) \<subseteq> {r. r \<noteq> []}"
    using assms row by (intro set_update_subsetI) (auto simp: batch_room_def)
  then show "batch_room (put_token t i b) cap" using assms by (auto simp: batch_room_def put_token_def)
qed

lemma fill_batch_overflow: "batch_room b cap \<Longrightarrow> i \<le> cap \<Longrightarrow> cap < i + length ts \<Longrightarrow> fill_batch ts i b = None"
proof (induction ts arbitrary: i b)
  case (Cons t ts)
  show ?case
  proof (cases "i < cap")
    case True
    then show ?thesis
      using Cons.IH [of "put_token t i b" "i + 1"] fill_batch_step [OF Cons.prems(1) True] Cons.prems(3) by simp
  qed (use Cons.prems in \<open>simp add: batch_room_def carr\<close>)
qed simp

lemma fill_batch_fills:
  "batch_room b cap \<Longrightarrow> i + length ts \<le> cap \<Longrightarrow>
   \<exists>b'. fill_batch ts i b = Some b' \<and> batch_room b' cap \<and> b_n_tokens b' = b_n_tokens b \<and>
     b_token b' = overwrite (b_token b) i ts \<and>
     b_pos b' = overwrite (b_pos b) i (map int [i ..< i + length ts]) \<and>
     b_n_seq_id b' = overwrite (b_n_seq_id b) i (replicate (length ts) 1) \<and>
     (\<forall>j < cap. b_seq_id b' ! j ! 0 = (if i \<le> j \<and> j < i + length ts then 0 else b_seq_id b ! j ! 0)) \<and>
     b_logits b' = overwrite (b_logits b) i (replicate (length ts) False)"
proof (induction ts arbitrary: i b)
  case (Cons t ts)
  have i: "i < cap" using Cons.prems(2) by simp
  note step = fill_batch_step(1,2) [OF Cons.prems(1) i, of t] fill_batch_step(3) [OF Cons.prems(1) i]
  have len: "i < length (b_token b)" "i < length (b_pos b)" "i < length (b_n_seq_id b)" "i < length (b_logits b)"
    "length (b_seq_id b) = cap"
    using i Cons.prems(1) by (simp_all add: batch_room_def)
  have up: "[i ..< i + length (t # ts)] = i # [i + 1 ..< i + 1 + length ts]" by (simp add: upt_conv_Cons del: upt_Suc)
  from Cons.IH [OF step(2), of "i + 1"] Cons.prems(2) obtain b' where
    b': "fill_batch ts (i + 1) (put_token t i b) = Some b'" "batch_room b' cap" "b_n_tokens b' = b_n_tokens b"
      "b_token b' = overwrite ((b_token b)[i := t]) (i + 1) ts"
      "b_pos b' = overwrite ((b_pos b)[i := int i]) (i + 1) (map int [i + 1 ..< i + 1 + length ts])"
      "b_n_seq_id b' = overwrite ((b_n_seq_id b)[i := 1]) (i + 1) (replicate (length ts) 1)"
      "\<forall>j < cap. b_seq_id b' ! j ! 0 = (if i + 1 \<le> j \<and> j < i + 1 + length ts then 0
         else (b_seq_id b)[i := (b_seq_id b ! i)[0 := 0]] ! j ! 0)"
      "b_logits b' = overwrite ((b_logits b)[i := False]) (i + 1) (replicate (length ts) False)"
    by (auto simp: put_token_def)
  have "b_seq_id b' ! j ! 0 = (if i \<le> j \<and> j < i + length (t # ts) then 0 else b_seq_id b ! j ! 0)" if "j < cap" for j
    using b'(7) that len(5) step(3) i by (cases "j = i") (auto simp: nth_list_update)
  with b' len show ?case
    unfolding step(1) up by (simp add: overwrite_Cons del: upt_Suc)
qed simp

lemma replicate_update_last: "(replicate (Suc m) a)[m := b] = replicate m a @ [b]"
  by (induction m) simp_all

lemma take_overwrite_0: "length xs \<le> length a \<Longrightarrow> take (length xs) (overwrite a 0 xs) = xs"
  by (simp add: overwrite_def)

lemma eval_batch:
  assumes "batch_room (c_batch c) cap" "ts \<noteq> []"
  shows "if cap < length ts then llm_eval_cpp L (Some c) (Some ts) (int (length ts)) w = None
    else \<exists>b. batch_of ts b \<and> batch_room b cap \<and>
      llm_eval_cpp L (Some c) (Some ts) (int (length ts)) w =
        (let (rc, w') = llama_decode L (c_ctx c) b w in Some (if rc \<noteq> 0 then - 1 else 0, Some (c\<lparr>c_batch := b\<rparr>), w'))"
proof -
  let ?n = "length ts"
  let ?b0 = "(c_batch c)\<lparr>b_n_tokens := int ?n\<rparr>"
  have room: "batch_room ?b0 cap" using assms(1) by (simp add: batch_room_def)
  show ?thesis
  proof (cases "cap < ?n")
    case True
    with fill_batch_overflow [OF room, of 0 ts] assms(2) show ?thesis by (simp add: llm_eval_cpp_def)
  next
    case False
    from fill_batch_fills [OF room, of 0 ts] False obtain b where
      b: "fill_batch ts 0 ?b0 = Some b" "batch_room b cap" "b_n_tokens b = int ?n" "b_token b = overwrite (b_token (c_batch c)) 0 ts"
        "b_pos b = overwrite (b_pos (c_batch c)) 0 (map int [0 ..< ?n])"
        "b_n_seq_id b = overwrite (b_n_seq_id (c_batch c)) 0 (replicate ?n 1)"
        "\<forall>j < cap. b_seq_id b ! j ! 0 = (if j < ?n then 0 else b_seq_id (c_batch c) ! j ! 0)"
        "b_logits b = overwrite (b_logits (c_batch c)) 0 (replicate ?n False)"
      by auto
    let ?b = "b\<lparr>b_logits := (b_logits b)[?n - 1 := True]\<rparr>"
    have l: "?n \<le> cap" "0 < ?n" "length (b_token (c_batch c)) = cap" "length (b_pos (c_batch c)) = cap"
      "length (b_n_seq_id (c_batch c)) = cap" "length (b_logits (c_batch c)) = cap" "length (b_logits b) = cap"
      using False assms b(2) by (simp_all add: batch_room_def)
    have t: "take ?n (b_token ?b) = ts" "take ?n (b_pos ?b) = map int [0 ..< ?n]" "take ?n (b_n_seq_id ?b) = replicate ?n 1"
      using take_overwrite_0 [of ts "b_token (c_batch c)"] take_overwrite_0 [of "map int [0 ..< ?n]" "b_pos (c_batch c)"]
        take_overwrite_0 [of "replicate ?n 1" "b_n_seq_id (c_batch c)"] l b(4-6) by simp_all
    have "take ?n (b_logits ?b) = (replicate ?n False)[?n - 1 := True]"
      using take_overwrite_0 [of "replicate ?n False" "b_logits (c_batch c)"] l b(8) by (simp add: take_update_swap)
    also have "\<dots> = replicate (?n - 1) False @ [True]"
      using l(2) replicate_update_last [of "?n - 1"] by simp
    finally have "batch_of ts ?b"
      using b(3,7) t l(1) by (simp add: batch_of_def Let_def)
    moreover have "batch_room ?b cap" using b(2) by (simp add: batch_room_def)
    moreover have "wr (b_logits b) (?n - 1) True = Some ((b_logits b)[?n - 1 := True])" using l by (intro wr_in) linarith
    then have "llm_eval_cpp L (Some c) (Some ts) (int ?n) w =
        (let (rc, w') = llama_decode L (c_ctx c) ?b w in Some (if rc \<noteq> 0 then - 1 else 0, Some (c\<lparr>c_batch := ?b\<rparr>), w'))"
      using b(1) l assms(2) by (simp add: llm_eval_cpp_def Let_def)
    ultimately show ?thesis unfolding if_not_P [OF False] by blast
  qed
qed

section \<open>Ownership\<close>

text \<open>What the library has created and not yet released.\<close>

datatype llama_object = Model nat | Context nat | Sampler nat | Batch

text \<open>The caller holds the blocks \<open>mine\<close> of the heap; the others in use belong to the library.\<close>

definition holds_memory :: "'l world \<Rightarrow> (nat \<times> nat) list \<Rightarrow> bool" where
  "holds_memory w mine \<longleftrightarrow> (\<exists>theirs. heap_owns (snd w) (mine @ theirs))"

text \<open>A call of the library: it creates and releases objects and leaves the caller's memory alone.\<close>

definition performs ::
  "('l \<Rightarrow> llama_object multiset) \<Rightarrow> 'l world \<Rightarrow> 'l world \<Rightarrow> llama_object multiset \<Rightarrow> llama_object multiset \<Rightarrow> bool" where
  "performs live w w' created released \<longleftrightarrow>
     (released \<subseteq># live (fst w) \<longrightarrow> live (fst w') = live (fst w) - released + created) \<and>
     (\<forall>mine. holds_memory w mine \<longrightarrow> holds_memory w' mine)"

definition created :: "(nat \<Rightarrow> llama_object) \<Rightarrow> nat option \<Rightarrow> llama_object multiset" where
  "created obj r = (case r of None \<Rightarrow> {#} | Some p \<Rightarrow> {#obj p#})"

text \<open>The documented ownership rules: a chain takes over the samplers added to it.\<close>

definition llama_manages :: "'l llama \<Rightarrow> ('l \<Rightarrow> llama_object multiset) \<Rightarrow> bool" where
  "llama_manages L live \<longleftrightarrow>
     (\<forall>path p w r w'. llama_model_load_from_file L path p w = (r, w') \<longrightarrow> performs live w w' (created Model r) {#}) \<and>
     (\<forall>m p w r w'. llama_init_from_model L m p w = (r, w') \<longrightarrow> performs live w w' (created Context r) {#}) \<and>
     (\<forall>m w. performs live w (llama_model_free L m w) {#} {#Model m#}) \<and>
     (\<forall>c w. performs live w (llama_free L c w) {#} {#Context c#}) \<and>
     (\<forall>s w. performs live w (llama_sampler_free L s w) {#} {#Sampler s#}) \<and>
     (\<forall>b w. performs live w (llama_batch_free L b w) {#} {#Batch#}) \<and>
     (\<forall>w. \<exists>s w'. llama_sampler_chain_init L w = (Some s, w') \<and> performs live w w' {#Sampler s#} {#}) \<and>
     (\<forall>w. \<exists>s w'. llama_sampler_init_greedy L w = (Some s, w') \<and> performs live w w' {#Sampler s#} {#}) \<and>
     (\<forall>s g w. performs live w (llama_sampler_chain_add L (Some s) (Some g) w) {#} {#Sampler g#}) \<and>
     (\<forall>n e s w b w'. llama_batch_init L n e s w = (b, w') \<longrightarrow> performs live w w' {#Batch#} {#})"

lemmas managesD =
  llama_manages_def [THEN iffD1, THEN conjunct1, rule_format]
  llama_manages_def [THEN iffD1, THEN conjunct2, THEN conjunct1, rule_format]
  llama_manages_def [THEN iffD1, THEN conjunct2, THEN conjunct2, THEN conjunct1, rule_format]
  llama_manages_def [THEN iffD1, THEN conjunct2, THEN conjunct2, THEN conjunct2, THEN conjunct1, rule_format]
  llama_manages_def [THEN iffD1, THEN conjunct2, THEN conjunct2, THEN conjunct2, THEN conjunct2, THEN conjunct1, rule_format]
  llama_manages_def [THEN iffD1, THEN conjunct2, THEN conjunct2, THEN conjunct2, THEN conjunct2, THEN conjunct2, THEN conjunct1, rule_format]
  llama_manages_def [THEN iffD1, THEN conjunct2, THEN conjunct2, THEN conjunct2, THEN conjunct2, THEN conjunct2, THEN conjunct2, THEN conjunct1, rule_format]
  llama_manages_def [THEN iffD1, THEN conjunct2, THEN conjunct2, THEN conjunct2, THEN conjunct2, THEN conjunct2, THEN conjunct2, THEN conjunct2, THEN conjunct1, rule_format]
  llama_manages_def [THEN iffD1, THEN conjunct2, THEN conjunct2, THEN conjunct2, THEN conjunct2, THEN conjunct2, THEN conjunct2, THEN conjunct2, THEN conjunct2, THEN conjunct1, rule_format]
  llama_manages_def [THEN iffD1, THEN conjunct2, THEN conjunct2, THEN conjunct2, THEN conjunct2, THEN conjunct2, THEN conjunct2, THEN conjunct2, THEN conjunct2, THEN conjunct2, rule_format]

lemma performsD:
  "performs live w w' new old \<Longrightarrow> live (fst w) = X + old \<Longrightarrow> live (fst w') = X + new"
  "performs live w w' new old \<Longrightarrow> holds_memory w mine \<Longrightarrow> holds_memory w' mine"
  by (simp_all add: performs_def)

lemma malloc_holds:
  assumes "holds_memory w mine" "0 < n" "n \<le> 2 ^ 32 - 8"
  shows "\<exists>r w'. malloc_world n w = Some (r, w') \<and> fst w' = fst w \<and>
    (case r of None \<Rightarrow> holds_memory w' mine | Some p \<Rightarrow> \<exists>cap\<ge>n. holds_memory w' ((p, cap) # mine))"
proof -
  obtain theirs where "heap_owns (snd w) (mine @ theirs)" using assms(1) by (auto simp: holds_memory_def)
  from heap.alloc_ok [OF this assms(2,3)] show ?thesis
    by (fastforce simp: malloc_world_def holds_memory_def split: option.splits)
qed

lemma free_holds:
  assumes "holds_memory w ((p, cap) # mine)"
  shows "\<exists>w'. free_world p w = Some w' \<and> fst w' = fst w \<and> holds_memory w' mine"
proof -
  obtain theirs where "heap_owns (snd w) ([] @ (p, cap) # mine @ theirs)" using assms by (auto simp: holds_memory_def)
  from heap.release_ok [OF this] show ?thesis by (auto simp: free_world_def holds_memory_def)
qed

definition parts :: "llm_context_cpp \<Rightarrow> llama_object multiset" where
  "parts c = {#Model (c_model c), Context (c_ctx c), Batch#} + created Sampler (c_sampler c)"

lemma finish_init_parts:
  assumes "llama_manages L live" "live (fst w) = X + {#Model m, Context x#}" "holds_memory w mine"
    "finish_init L cp m x w = (c, w')"
  shows "live (fst w') = X + parts c" "holds_memory w' mine"
proof -
  obtain s w1 where s: "llama_sampler_chain_init L w = (Some s, w1)" "performs live w w1 {#Sampler s#} {#}"
    using managesD(7) [OF assms(1), of w] by blast
  obtain g w2 where g: "llama_sampler_init_greedy L w1 = (Some g, w2)" "performs live w1 w2 {#Sampler g#} {#}"
    using managesD(8) [OF assms(1), of w1] by blast
  define w3 where "w3 = llama_sampler_chain_add L (Some s) (Some g) w2"
  have a: "performs live w2 w3 {#} {#Sampler g#}" unfolding w3_def by (rule managesD(9) [OF assms(1)])
  obtain b w4 where b: "llama_batch_init L (sint (n_batch cp)) 0 1 w3 = (b, w4)" by (metis surj_pair)
  then have p: "performs live w3 w4 {#Batch#} {#}" by (rule managesD(10) [OF assms(1)])
  have c: "c_model c = m" "c_ctx c = x" "c_sampler c = Some s" "w' = w4"
    using assms(4) s g b by (auto simp: finish_init_def w3_def)
  show "holds_memory w' mine"
    unfolding c(4) using assms(3) s(2) g(2) a p by (blast intro: performsD(2))
  have "live (fst w1) = (X + {#Model m, Context x#}) + {#Sampler s#}" using performsD(1) [OF s(2)] assms(2) by simp
  then have "live (fst w2) = (X + {#Model m, Context x#} + {#Sampler s#}) + {#Sampler g#}"
    using performsD(1) [OF g(2), of "X + {#Model m, Context x#} + {#Sampler s#}"] by simp
  then have "live (fst w3) = (X + {#Model m, Context x#} + {#Sampler s#}) + {#}" by (rule performsD(1) [OF a])
  then have "live (fst w4) = (X + {#Model m, Context x#} + {#Sampler s#}) + {#Batch#}"
    using performsD(1) [OF p, of "X + {#Model m, Context x#} + {#Sampler s#}"] by simp
  then show "live (fst w') = X + parts c" by (simp add: c parts_def created_def)
qed

lemma free_releases:
  assumes "llama_manages L live" "live (fst w) = X + parts c" "holds_memory w ((p, cap) # mine)"
  shows "\<exists>w'. llm_free_cpp L (Some (p, c)) w = Some w' \<and> live (fst w') = X \<and> holds_memory w' mine"
proof -
  define w1 where "w1 = (case c_sampler c of None \<Rightarrow> w | Some s \<Rightarrow> llama_sampler_free L s w)"
  define w2 where "w2 = llama_free L (c_ctx c) w1"
  define w3 where "w3 = llama_model_free L (c_model c) w2"
  define w4 where "w4 = llama_batch_free L (c_batch c) w3"
  have f: "performs live w (llama_sampler_free L s w) {#} {#Sampler s#}" "performs live w1 w2 {#} {#Context (c_ctx c)#}"
    "performs live w2 w3 {#} {#Model (c_model c)#}" "performs live w3 w4 {#} {#Batch#}" for s
    unfolding w2_def w3_def w4_def using managesD(3-6) [OF assms(1)] by blast+
  have "live (fst w1) = (X + {#Model (c_model c), Batch#}) + {#Context (c_ctx c)#}"
  proof (cases "c_sampler c")
    case (Some s)
    with assms(2) have "live (fst w) = (X + {#Model (c_model c), Batch, Context (c_ctx c)#}) + {#Sampler s#}"
      by (simp add: parts_def created_def)
    from performsD(1) [OF f(1) this] Some show ?thesis by (simp add: w1_def)
  qed (use assms(2) in \<open>simp add: w1_def parts_def created_def\<close>)
  from performsD(1) [OF f(2) this] have "live (fst w2) = (X + {#Batch#}) + {#Model (c_model c)#}" by simp
  from performsD(1) [OF f(3) this] have "live (fst w3) = X + {#Batch#}" by simp
  from performsD(1) [OF f(4) this] have l: "live (fst w4) = X" by simp
  have "holds_memory w1 ((p, cap) # mine)"
    using assms(3) performsD(2) [OF f(1)] by (simp add: w1_def split: option.split)
  then have "holds_memory w4 ((p, cap) # mine)" using f(2-4) by (blast intro: performsD(2))
  from free_holds [OF this] l show ?thesis
    by (auto simp: llm_free_cpp_def Let_def w1_def w2_def w3_def w4_def)
qed

lemma init_outcome:
  assumes "llama_manages L live" "holds_memory w mine"
  shows "\<exists>r w'. llm_init_cpp L embedded n params w = Some (r, w') \<and>
    (case r of
       None \<Rightarrow> live (fst w') = live (fst w) \<and> holds_memory w' mine
     | Some (p, c) \<Rightarrow> live (fst w') = live (fst w) + parts c \<and> (\<exists>cap\<ge>CONTEXT_SIZE. holds_memory w' ((p, cap) # mine)))"
proof (cases "embedded = None \<or> n = 0")
  case False
  obtain r w1 where m: "malloc_world CONTEXT_SIZE w = Some (r, w1)" "fst w1 = fst w"
    "case r of None \<Rightarrow> holds_memory w1 mine | Some p \<Rightarrow> \<exists>cap\<ge>CONTEXT_SIZE. holds_memory w1 ((p, cap) # mine)"
    using malloc_holds [OF assms(2), of CONTEXT_SIZE] by (auto simp: CONTEXT_SIZE_def)
  show ?thesis
  proof (cases r)
    case (Some p)
    with m(3) obtain cap where cap: "CONTEXT_SIZE \<le> cap" "holds_memory w1 ((p, cap) # mine)" by auto
    obtain ml w2 where load: "llama_model_load_from_file L ''/model.gguf'' (model_params_of L params) w1 = (ml, w2)" by (metis surj_pair)
    then have p2: "performs live w1 w2 (created Model ml) {#}" by (rule managesD(1) [OF assms(1)])
    have l2: "live (fst w2) = live (fst w) + created Model ml" "holds_memory w2 ((p, cap) # mine)"
      using performsD(1) [OF p2, of "live (fst w)"] performsD(2) [OF p2 cap(2)] m(2) by simp_all
    show ?thesis
    proof (cases ml)
      case None
      with free_holds [OF l2(2)] l2(1) m(1) load Some False show ?thesis
        by (auto simp: llm_init_cpp_def created_def)
    next
      case model: (Some ma)
      obtain x w3 where ini: "llama_init_from_model L ma (context_params_of L params) w2 = (x, w3)" by (metis surj_pair)
      then have p3: "performs live w2 w3 (created Context x) {#}" by (rule managesD(2) [OF assms(1)])
      have l3: "live (fst w3) = live (fst w) + {#Model ma#} + created Context x" "holds_memory w3 ((p, cap) # mine)"
        using performsD(1) [OF p3, of "live (fst w) + {#Model ma#}"] performsD(2) [OF p3 l2(2)] l2(1) model
        by (simp_all add: created_def)
      show ?thesis
      proof (cases x)
        case None
        have p4: "performs live w3 (llama_model_free L ma w3) {#} {#Model ma#}"
          by (rule managesD(3) [OF assms(1)])
        have "live (fst (llama_model_free L ma w3)) = live (fst w)"
          using performsD(1) [OF p4, of "live (fst w)"] l3(1) None by (simp add: created_def)
        with free_holds [OF performsD(2) [OF p4 l3(2)]] m(1) load ini Some model None False show ?thesis
          by (auto simp: llm_init_cpp_def)
      next
        case ctx: (Some xa)
        obtain c w4 where fin: "finish_init L (context_params_of L params) ma xa w3 = (c, w4)" by (metis surj_pair)
        have "live (fst w3) = live (fst w) + {#Model ma, Context xa#}" using l3(1) ctx by (simp add: created_def)
        note parts = finish_init_parts [OF assms(1) this l3(2) fin]
        have "llm_init_cpp L embedded n params w = Some (Some (p, c), w4)"
          using m(1) load ini Some model ctx fin False by (auto simp: llm_init_cpp_def)
        with parts cap(1) show ?thesis by (auto simp del: split_paired_Ex)
      qed
    qed
  next
    case None
    with m(1) False have "llm_init_cpp L embedded n params w = Some (None, w1)" by (auto simp: llm_init_cpp_def)
    with m(2,3) None show ?thesis by (auto simp del: split_paired_Ex)
  qed
next
  case True
  then have "llm_init_cpp L embedded n params w = Some (None, w)" by (auto simp: llm_init_cpp_def)
  with assms(2) show ?thesis by (auto simp del: split_paired_Ex)
qed

section \<open>Generation\<close>

text \<open>
  The documented behaviour of evaluation and sampling: a successful evaluation takes one cell of the cache for
  each token and leaves the outputs its batch asks for; sampling needs one of the outputs of the last
  evaluation (of a negative index nothing is said) and takes no cell.
\<close>

definition llama_decodes :: "'l llama \<Rightarrow> ('l \<Rightarrow> nat \<Rightarrow> int set) \<Rightarrow> bool" where
  "llama_decodes L outputs \<longleftrightarrow> (let used = llama_get_kv_cache_used_cells L in
     (\<forall>x b w w'. llama_decode L x b w = (0, w') \<longrightarrow>
        used (fst w') x = used (fst w) x + b_n_tokens b \<and>
        outputs (fst w') x = {int i | i. i < nat (b_n_tokens b) \<and> b_logits b ! i}) \<and>
     (\<forall>x w. used (fst (llama_kv_cache_clear L x w)) x = 0) \<and>
     (\<forall>s x i w. 0 \<le> i \<longrightarrow> (llama_sampler_sample L s x i w = None \<longleftrightarrow> i \<notin> outputs (fst w) x)) \<and>
     (\<forall>s x i w t w'. llama_sampler_sample L s x i w = Some (t, w') \<longrightarrow> used (fst w') x = used (fst w) x))"

lemma batch_outputs:
  assumes "batch_of ts b" "ts \<noteq> []"
  shows "b_n_tokens b = int (length ts)" "{int i | i. i < nat (b_n_tokens b) \<and> b_logits b ! i} = {int (length ts) - 1}"
proof -
  show n: "b_n_tokens b = int (length ts)" using assms(1) by (simp add: batch_of_def Let_def)
  have t: "take (length ts) (b_logits b) = replicate (length ts - 1) False @ [True]"
    using assms(1) by (simp add: batch_of_def Let_def)
  have "b_logits b ! i \<longleftrightarrow> i = length ts - 1" if "i < length ts" for i
    using nth_take [OF that, of "b_logits b"] that unfolding t by (auto simp: nth_append split: if_splits)
  then show "{int i | i. i < nat (b_n_tokens b) \<and> b_logits b ! i} = {int (length ts) - 1}"
    using assms(2) by (auto simp: n of_nat_diff Suc_le_eq intro!: exI [of _ "length ts - 1"])
qed

lemmas decodes_rules =
  llama_decodes_def [unfolded Let_def, THEN iffD1, THEN conjunct1, rule_format]
  llama_decodes_def [unfolded Let_def, THEN iffD1, THEN conjunct2, THEN conjunct1, rule_format]
  llama_decodes_def [unfolded Let_def, THEN iffD1, THEN conjunct2, THEN conjunct2, THEN conjunct1, rule_format]
  llama_decodes_def [unfolded Let_def, THEN iffD1, THEN conjunct2, THEN conjunct2, THEN conjunct2, rule_format]

lemma decoded:
  assumes "llama_decodes L outputs" "llama_decode L x b w = (0, w')" "batch_of ts b" "ts \<noteq> []"
  shows "llama_get_kv_cache_used_cells L (fst w') x = llama_get_kv_cache_used_cells L (fst w) x + int (length ts)"
    "outputs (fst w') x = {int (length ts) - 1}"
  using decodes_rules(1) [OF assms(1,2)] batch_outputs [OF assms(3,4)] by simp_all

text \<open>The return value and the text of a call.\<close>

definition answer_of :: "(int \<times> string \<times> llm_context_cpp option \<times> 'l world) option \<Rightarrow> (int \<times> string) option" where
  "answer_of = map_option (\<lambda>(rc, out, c, w). (rc, out))"

text \<open>After the evaluation of a sampled token there is no second one: its index is out of range.\<close>

lemma second_sample:
  assumes "llama_decodes L outputs" "0 < llama_get_kv_cache_used_cells L (fst w) (c_ctx c)"
    "llama_decode L (c_ctx c) b w = (0, w')" "batch_of [t] b"
  shows "llm_sample_cpp L (Some c) w' = None"
proof -
  let ?used = "\<lambda>w. llama_get_kv_cache_used_cells L (fst w) (c_ctx c)"
  have u: "?used w' = ?used w + 1" using decoded(1) [OF assms(1,3,4)] by simp
  have "outputs (fst w') (c_ctx c) = {0}" using decoded(2) [OF assms(1,3,4)] by simp
  then have "llama_sampler_sample L (c_sampler c) (c_ctx c) (?used w' - 1) w' = None"
    using decodes_rules(3) [OF assms(1), of "?used w' - 1"] u assms(2) by simp
  then show ?thesis using u assms(2) by (simp add: llm_sample_cpp_def)
qed

text \<open>The loop from a state in which the prompt has been evaluated.\<close>

definition text_of_loop :: "(string \<times> llm_context_cpp \<times> 'l world) option \<Rightarrow> (int \<times> string) option" where
  "text_of_loop = map_option (\<lambda>(out, c, w). (swrap32 (int (length out)), out))"

lemma first_sample:
  assumes "llama_decodes L outputs" "batch_room (c_batch c) cap" "0 < cap" "0 < n"
    "llama_get_kv_cache_used_cells L (fst w) (c_ctx c) = n" "outputs (fst w) (c_ctx c) = {n - 1}" "output_size < 2 ^ 31"
  shows "\<exists>t w2. llama_sampler_sample L (c_sampler c) (c_ctx c) (n - 1) w = Some (t, w2) \<and>
    (let vocab = llama_model_get_vocab L (fst w2) (c_model c);
         answer = text_of_loop (generate_loop L (Suc k) output_size c w [])
     in if llama_vocab_is_eog L (fst w2) vocab t then answer = Some (0, [])
        else case llama_vocab_get_text L (fst w2) vocab t of
          None \<Rightarrow> answer = None
        | Some s \<Rightarrow>
            if output_size \<le> length (cstr_of s) then answer = Some (0, [])
            else \<exists>b rc w3. batch_of [t] b \<and> llama_decode L (c_ctx c) b w2 = (rc, w3) \<and>
              answer = (if rc \<noteq> 0 \<or> k = 0 then Some (int (length (cstr_of s)), cstr_of s) else None))"
proof -
  obtain t w2 where t: "llama_sampler_sample L (c_sampler c) (c_ctx c) (n - 1) w = Some (t, w2)"
    using decodes_rules(3) [OF assms(1), of "n - 1" "c_sampler c" "c_ctx c" w] assms(4,6) by fastforce
  then have smp: "llm_sample_cpp L (Some c) w = Some (0, t, w2)" using assms(4,5) by (simp add: llm_sample_cpp_def)
  have u: "0 < llama_get_kv_cache_used_cells L (fst w2) (c_ctx c)" using decodes_rules(4) [OF assms(1) t] assms(4,5) by simp
  obtain b where b: "batch_of [t] b" "llm_eval_cpp L (Some c) (Some [t]) 1 w2 =
      (let (rc, w') = llama_decode L (c_ctx c) b w2 in Some (if rc \<noteq> 0 then - 1 else 0, Some (c\<lparr>c_batch := b\<rparr>), w'))"
    using eval_batch [OF assms(2), of "[t]" L w2] assms(3) by auto
  obtain rc w3 where d: "llama_decode L (c_ctx c) b w2 = (rc, w3)" by (metis surj_pair)
  have none: "llm_sample_cpp L (Some (c\<lparr>c_batch := b\<rparr>)) w3 = None" if "rc = 0"
    using second_sample [OF assms(1), of w2 "c\<lparr>c_batch := b\<rparr>" b w3 t] u d b(1) that by simp
  have s: "length s < output_size \<Longrightarrow> swrap32 (int (length s)) = int (length s)" for s :: string
    using assms(7) by (intro swrap32_id) simp_all
  have loop: "text_of_loop (generate_loop L k output_size (c\<lparr>c_batch := b\<rparr>) w3 s) =
      (if k = 0 then Some (int (length s), s) else None)" if "rc = 0" "length s < output_size" for s
    using none [OF that(1)] s [OF that(2)] by (cases k) (simp_all add: text_of_loop_def)
  show ?thesis
    using t b(1) d loop s
    by (auto simp: smp b(2) Let_def text_of_loop_def swrap32_id split: option.split intro!: exI [of _ b])
qed

section \<open>Detokenization\<close>

lemma detokenize_loop_text:
  assumes "\<forall>t \<in> set (take n ts). piece t \<noteq> None" "n \<le> length ts" "length out < text_size"
  shows "detokenize_loop piece text_size ts n out =
    Some (take (text_size - 1) (out @ concat (map (\<lambda>t. cstr_of (the (piece t))) (take n ts))))"
  using assms
proof (induction piece text_size ts n out rule: detokenize_loop.induct)
  case (2 piece text_size ts n out)
  obtain t ts' where ts: "ts = t # ts'" using 2(3) by (cases ts) auto
  obtain s where s: "piece t = Some s" using 2(2) ts by auto
  show ?case
  proof (cases "length out + 1 < text_size")
    case True
    let ?N = "text_size - 1" and ?rest = "concat (map (\<lambda>t. cstr_of (the (piece t))) (take n ts'))"
    let ?s = "take (if text_size \<le> length out + length (cstr_of s) then text_size - length out - 1 else length (cstr_of s)) (cstr_of s)"
    have e: "?s = take (?N - length out) (cstr_of s)" using True by auto
    have "detokenize_loop piece text_size ts' n (out @ ?s) = Some (take ?N ((out @ ?s) @ ?rest))"
      using 2(2-4) True ts s by (intro 2(1) [OF True ts s refl refl]) auto
    also have "take ?N ((out @ ?s) @ ?rest) = take ?N (out @ cstr_of s @ ?rest)"
      unfolding e using True by (cases "length (cstr_of s) \<le> ?N - length out") simp_all
    finally have "detokenize_loop piece text_size ts' n (out @ ?s) = Some (take ?N (out @ cstr_of s @ ?rest))" .
    moreover have "detokenize_loop piece text_size ts (Suc n) out = detokenize_loop piece text_size ts' n (out @ ?s)"
      using True by (simp add: ts s Let_def)
    ultimately show ?thesis by (simp only: ts s take_Suc_Cons list.map concat.simps option.sel)
  qed (use 2(4) in simp)
qed simp

text \<open>Detokenization writes the texts of the tokens one after the other, cut to the buffer.\<close>

theorem llm_detokenize_cpp_text:
  assumes "\<forall>t \<in> set ts. llama_vocab_get_text L (fst w) (llama_model_get_vocab L (fst w) (c_model c)) t \<noteq> None"
    "ts \<noteq> []" "0 < text_size" "text_size < 2 ^ 31"
  defines "out \<equiv> take (text_size - 1) (concat (map (\<lambda>t.
      cstr_of (the (llama_vocab_get_text L (fst w) (llama_model_get_vocab L (fst w) (c_model c)) t))) ts))"
  shows "llm_detokenize_cpp L (Some c) (Some ts) (int (length ts)) text_size w = Some (int (length out), out)"
proof -
  have "int (length out) < 2 ^ 31" using assms(3,4) by (simp add: out_def)
  then show ?thesis
    using detokenize_loop_text [of "length ts" ts _ "[]" text_size] assms(1-3)
    by (simp add: llm_detokenize_cpp_def out_def swrap32_id)
qed

section \<open>Results\<close>

text \<open>
  Evaluation hands the library exactly the batch meant: the tokens at the positions from 0 on, all
  in sequence 0, with the output of the last requested, and reports its result. But the number of tokens is not
  compared with the room of the batch, which has \<^verbatim>\<open>context_size\<close> entries: more tokens are
  written behind its arrays.
\<close>

theorem llm_eval_cpp_batch:
  assumes "batch_room (c_batch c) cap" "ts \<noteq> []"
  shows "if cap < length ts then llm_eval_cpp L (Some c) (Some ts) (int (length ts)) w = None
    else \<exists>b. batch_of ts b \<and> batch_room b cap \<and>
      llm_eval_cpp L (Some c) (Some ts) (int (length ts)) w =
        (let (rc, w') = llama_decode L (c_ctx c) b w in Some (if rc \<noteq> 0 then - 1 else 0, Some (c\<lparr>c_batch := b\<rparr>), w'))"
  using assms by (rule eval_batch)


text \<open>
  \<^bold>\<open>C30.\<close> Generation, on every branch, when the prompt fits the batch. The prompt is evaluated on an empty cache
  (-1 when that fails) and the first token sampled from its last output; an end token, or one whose text does not
  fit the buffer, ends the text. With a limit of one token the text of the first is the answer. With a larger
  limit the call is not defined by the library's documentation: the evaluation of the token leaves one output,
  with index 0, but the next sample is asked for at the last used cell of the cache.
\<close>

theorem llm_generate_cpp_one_token:
  assumes "llama_decodes L outputs" "batch_room (c_batch c) cap" "0 < cap" "length ts \<le> cap" "ts \<noteq> []"
    "llm_tokenize_cpp L (Some c) (Some prompt) 512 w = (int (length ts), ts)" "0 < output_size" "output_size < 2 ^ 31"
  shows "\<exists>b rc w1. batch_of ts b \<and> llama_decode L (c_ctx c) b (llama_kv_cache_clear L (c_ctx c) w) = (rc, w1) \<and>
    (let answer = answer_of (llm_generate_cpp L (Some c) (Some prompt) max_tokens output_size w) in
     if rc \<noteq> 0 then answer = Some (- 1, [])
     else if max_tokens \<le> 0 then answer = Some (0, [])
     else \<exists>t w2. llama_sampler_sample L (c_sampler c) (c_ctx c) (int (length ts) - 1) w1 = Some (t, w2) \<and>
       (let vocab = llama_model_get_vocab L (fst w2) (c_model c) in
        if llama_vocab_is_eog L (fst w2) vocab t then answer = Some (0, [])
        else case llama_vocab_get_text L (fst w2) vocab t of
          None \<Rightarrow> answer = None
        | Some s \<Rightarrow>
            if output_size \<le> length (cstr_of s) then answer = Some (0, [])
            else \<exists>b' rc' w3. batch_of [t] b' \<and> llama_decode L (c_ctx c) b' w2 = (rc', w3) \<and>
              answer = (if rc' \<noteq> 0 \<or> max_tokens = 1 then Some (int (length (cstr_of s)), cstr_of s) else None)))"
proof -
  let ?clear = "llama_kv_cache_clear L (c_ctx c) w"
  obtain b where b: "batch_of ts b" "batch_room b cap" "llm_eval_cpp L (Some c) (Some ts) (int (length ts)) ?clear =
      (let (rc, w') = llama_decode L (c_ctx c) b ?clear in Some (if rc \<noteq> 0 then - 1 else 0, Some (c\<lparr>c_batch := b\<rparr>), w'))"
    using eval_batch [OF assms(2,5), of L ?clear] assms(4) by auto
  obtain rc w1 where d: "llama_decode L (c_ctx c) b ?clear = (rc, w1)" by (metis surj_pair)
  let ?c = "c\<lparr>c_batch := b\<rparr>"
  have gen: "answer_of (llm_generate_cpp L (Some c) (Some prompt) max_tokens output_size w) =
      (if rc \<noteq> 0 then Some (- 1, []) else text_of_loop (generate_loop L (nat max_tokens) output_size ?c w1 []))"
    using assms(6,7) b(3) d
    by (auto simp: llm_generate_cpp_def answer_of_def text_of_loop_def option.map_comp comp_def split_beta intro!: option.map_cong0)
  show ?thesis
  proof (cases "rc = 0 \<and> 0 < max_tokens")
    case False
    then show ?thesis using b(1) d gen by (auto simp: swrap32_id text_of_loop_def Let_def intro!: exI [of _ b])
  next
    case True
    then have run: "\<not> rc \<noteq> 0" "\<not> max_tokens \<le> 0" and k: "nat max_tokens = Suc (nat max_tokens - 1)"
      and one: "nat max_tokens - 1 = 0 \<longleftrightarrow> max_tokens = 1" by auto
    have rc: "rc = 0" and n: "0 < int (length ts)" using True assms(5) by simp_all
    have u: "llama_get_kv_cache_used_cells L (fst w1) (c_ctx ?c) = int (length ts)"
      "outputs (fst w1) (c_ctx ?c) = {int (length ts) - 1}"
      using decoded [OF assms(1) d [unfolded rc] b(1) assms(5)] decodes_rules(2) [OF assms(1)] by simp_all
    have room: "batch_room (c_batch ?c) cap" using b(2) by simp
    have fields: "c_model ?c = c_model c" "c_ctx ?c = c_ctx c" "c_sampler ?c = c_sampler c" by simp_all
    note first = first_sample [OF assms(1) room assms(3) n u assms(8), of "nat max_tokens - 1", unfolded k [symmetric] one fields]
    show ?thesis
      unfolding gen Let_def
      by (rule exI [of _ b], rule exI [of _ rc], rule exI [of _ w1], intro conjI, rule b(1), rule d,
          unfold if_not_P [OF run(1)] if_not_P [OF run(2)], rule first [unfolded Let_def])
  qed
qed

section \<open>A small library\<close>

text \<open>
  A library that keeps the promises, for the examples: it counts its objects, the cells in use and the outputs, and
  its sampler always gives the token of \<^verbatim>\<open>a\<close>.
\<close>

type_synonym sample_state = "llama_object multiset \<times> int \<times> int set"

definition make :: "llama_object \<Rightarrow> sample_state world \<Rightarrow> sample_state world" where
  "make x = (\<lambda>((m, s), h). ((add_mset x m, s), h))"

definition drop_object :: "llama_object \<Rightarrow> sample_state world \<Rightarrow> sample_state world" where
  "drop_object x = (\<lambda>((m, s), h). ((m - {#x#}, s), h))"

definition sample_llama :: "sample_state llama" where
  "sample_llama = \<lparr>
     llama_model_default_params = \<lparr>n_gpu_layers = 99, use_mlock = False, use_mmap = True\<rparr>,
     llama_context_default_params = \<lparr>n_ctx = 512, n_batch = 2048, n_threads = 4, n_threads_batch = 4, embeddings = False\<rparr>,
     llama_model_load_from_file = (\<lambda>path p w. (Some 1, make (Model 1) w)),
     llama_init_from_model = (\<lambda>m p w. (Some 2, make (Context 2) w)),
     llama_model_free = (\<lambda>m. drop_object (Model m)), llama_free = (\<lambda>c. drop_object (Context c)),
     llama_model_get_vocab = (\<lambda>l m. m), llama_vocab_n_tokens = (\<lambda>l v. 256),
     llama_sampler_chain_init = (\<lambda>w. (Some 3, make (Sampler 3) w)),
     llama_sampler_init_greedy = (\<lambda>w. (Some 4, make (Sampler 4) w)),
     llama_sampler_chain_add = (\<lambda>s g. drop_object (Sampler (the g))), llama_sampler_free = (\<lambda>s. drop_object (Sampler s)),
     llama_batch_init = (\<lambda>n e k w. let z = replicate (nat n) 0 in
       (\<lparr>b_n_tokens = 0, b_token = z, b_pos = z, b_n_seq_id = z, b_seq_id = replicate (nat n) [0],
         b_logits = replicate (nat n) False\<rparr>, make Batch w)),
     llama_batch_free = (\<lambda>b. drop_object Batch),
     llama_tokenize = (\<lambda>l v s n k a p. (int (length s), map (\<lambda>c. int (uchar c)) s)),
     llama_vocab_get_text = (\<lambda>l v t. Some [char_of (nat t)]), llama_vocab_is_eog = (\<lambda>l v t. t = 0),
     llama_decode = (\<lambda>x b ((m, u, outs), h).
       (0, ((m, u + b_n_tokens b, int ` set (filter (\<lambda>i. b_logits b ! i) [0 ..< nat (b_n_tokens b)])), h))),
     llama_kv_cache_clear = (\<lambda>x ((m, u, outs), h). ((m, 0, {}), h)),
     llama_get_kv_cache_used_cells = (\<lambda>(m, u, outs) x. u),
     llama_sampler_sample = (\<lambda>s x i ((m, u, outs), h). if 0 \<le> i \<and> i \<notin> outs then None else Some (97, ((m, u, outs), h)))\<rparr>"

lemma sample_manages: "llama_manages sample_llama fst"
  by (auto simp: llama_manages_def sample_llama_def performs_def make_def drop_object_def created_def holds_memory_def Let_def
      split: prod.splits)

lemma sample_decodes: "llama_decodes sample_llama (\<lambda>l x. snd (snd l))"
  by (auto simp: llama_decodes_def sample_llama_def)

definition sample_context :: "nat \<Rightarrow> llm_context_cpp" where
  "sample_context n = \<lparr>c_model = 1, c_ctx = 2, c_sampler = Some 3, c_batch = \<lparr>b_n_tokens = 0, b_token = replicate n 0,
     b_pos = replicate n 0, b_n_seq_id = replicate n 0, b_seq_id = replicate n [0], b_logits = replicate n False\<rparr>,
     c_n_vocab = 256, c_n_batch = int n\<rparr>"

lemma sample_room: "batch_room (c_batch (sample_context n)) n"
  by (simp add: batch_room_def sample_context_def)

lemma llm_eval_cpp_batch_witness:
  "llm_eval_cpp sample_llama (Some (sample_context 2)) (Some [72, 105, 33]) 3 (({#}, 0, {}), boot_heap) = None"
  using llm_eval_cpp_batch [OF sample_room, of "[72, 105, 33]" 2 sample_llama "(({#}, 0, {}), boot_heap)"] by simp

lemma sample_operations:
  "llama_decode sample_llama x b w =
     (0, (fst (fst w), fst (snd (fst w)) + b_n_tokens b, int ` set (filter (\<lambda>i. b_logits b ! i) [0 ..< nat (b_n_tokens b)])), snd w)"
  "llama_sampler_sample sample_llama s x i w = (if 0 \<le> i \<and> i \<notin> snd (snd (fst w)) then None else Some (97, w))"
  "llama_vocab_is_eog sample_llama l v t \<longleftrightarrow> t = 0"
  "llama_vocab_get_text sample_llama l v t = Some [char_of (nat t)]"
  by (simp_all add: sample_llama_def split_beta)


lemma llm_generate_cpp_one_token_witness:
  "answer_of (llm_generate_cpp sample_llama (Some (sample_context 8)) (Some ''Hi'') 1 64 (({#}, 0, {}), boot_heap)) = Some (1, ''a'')"
proof -
  let ?w = "(({#}, 0, {}), boot_heap) :: sample_state world"
  have tok: "llm_tokenize_cpp sample_llama (Some (sample_context 8)) (Some ''Hi'') 512 ?w = (int (length [72, 105]), [72, 105])"
    by code_simp
  have a: "char_of (97 :: nat) = CHR ''a''" by code_simp
  define ans where "ans = answer_of (llm_generate_cpp sample_llama (Some (sample_context 8)) (Some ''Hi'') 1 64 ?w)"
  have "ans = Some (1, ''a'')"
    using llm_generate_cpp_one_token [OF sample_decodes sample_room _ _ _ tok, of 64 1]
    unfolding ans_def [symmetric] Let_def sample_operations by (auto simp: a split: if_splits)
  then show ?thesis unfolding ans_def .
qed

end
