(* ===== verification/Session.thy ===== *)
theory Session
  imports TcpProps IpProps
begin

text \<open>
  The server as its clients see it: \<^verbatim>\<open>network/tcp.c\<close> with the HTTP server on top of it and the
  network below. A run is a sequence of segments from any addresses and of ticks of the clock. What is
  shown: which segments stop the server and that no others do; that the connections of different clients do not
  disturb each other; what a client gets from its first segment to its last, whoever talks to the server in
  between; and that a frame on the wire does to the connections what its segment does.
\<close>

section \<open>Requests\<close>

text \<open>The request on which the router dereferences a character (see theory Api).\<close>

definition asks_metadata :: "string \<Rightarrow> nat \<Rightarrow> bool" where
  "asks_metadata rx n \<longleftrightarrow>
     (\<exists>req. http_parse_request rx n = Some req \<and> take 15 (cstr_of (rq_path req)) = ''/model/metadata'')"

lemma bad_request_good: "good_response bad_request_response"
proof -
  have "cstr_of (strncpy_bytes t k) = t" if "NUL \<notin> set t" "length t < k" for t k
    using that by (cases "k - length t") (simp_all add: strncpy_bytes_def cstr_of_append)
  then have "cstr_of (strncpy_bytes json_content_type 1024) = json_content_type"
    "cstr_of (strncpy_bytes bad_request_body 16384) = bad_request_body"
    by (simp_all add: json_content_type_def bad_request_body_def)
  then show ?thesis by (simp add: good_response_def bad_request_response_def) (simp add: bad_request_body_def)
qed

lemma serve_metadata: "asks_metadata rx n \<Longrightarrow> serve_http rx n sv = None"
proof -
  assume "asks_metadata rx n"
  then obtain req where req: "http_parse_request rx n = Some req" "take 15 (cstr_of (rq_path req)) = ''/model/metadata''"
    by (auto simp: asks_metadata_def)
  from req(2) obtain rest where "cstr_of (rq_path req) = ''/model/metadata'' @ rest" by (metis append_take_drop_id)
  with req(1) show ?thesis by (simp add: serve_http_def route_request_def str_eqn_iff metadata_undefined)
qed

lemma serve_answers:
  assumes "server_ok sv ps" "\<not> asks_metadata rx n"
  obtains resp sv' msg where "serve_http rx n sv = Some (resp, sv')" "server_ok sv' ps"
    "http_generate_response resp RESPONSE_BUF_SIZE = Some msg"
proof -
  have sent: "\<exists>msg. http_generate_response resp RESPONSE_BUF_SIZE = Some msg" if "good_response resp" for resp
    using good_response_sent [OF that] by (simp add: RESPONSE_BUF_SIZE_def)
  show thesis
  proof (cases "http_parse_request rx n")
    case None
    then show thesis using that sent [OF bad_request_good] assms(1) by (auto simp: serve_http_def)
  next
    case (Some req)
    then have "take 15 (cstr_of (rq_path req)) \<noteq> ''/model/metadata''" using assms(2) by (auto simp: asks_metadata_def)
    from route_answered [OF assms(1) this, of zero_response] obtain resp sv' where
      "route_request req zero_response sv = Some (0, resp, sv')" "good_response resp" "server_ok sv' ps"
      by (auto simp: answered_def split: option.splits)
    moreover from sent [OF this(2)] obtain msg where "http_generate_response resp RESPONSE_BUF_SIZE = Some msg" by blast
    ultimately show thesis using Some by (intro that [of resp sv' msg]) (simp_all add: serve_http_def)
  qed
qed

text \<open>The answer to a complete request: the response in one segment, then the close.\<close>

definition segment_to :: "u32 \<Rightarrow> u16 \<Rightarrow> u32 \<Rightarrow> u32 \<Rightarrow> u8 \<Rightarrow> u8 list \<Rightarrow> segment" where
  "segment_to ip port sq ack flags data = \<lparr>sg_src_port = HTTP_PORT, sg_dst_port = port, sg_dst_ip = ip, sg_seq = sq,
     sg_ack = ack, sg_flags = flags, sg_payload = data\<rparr>"

definition peer :: "u32 \<Rightarrow> u16 \<Rightarrow> tcp_socket \<Rightarrow> bool" where
  "peer ip port s \<longleftrightarrow> sk_local_port s = HTTP_PORT \<and> sk_remote_ip s = ip \<and> sk_remote_port s = port"

lemma send_ctrl_to: "peer ip port s \<Longrightarrow> tcp_send_ctrl s flags = segment_to ip port (sk_seq s) (sk_ack s) flags []"
  by (simp add: tcp_send_ctrl_def segment_to_def peer_def)

lemma finish_answers:
  assumes "serve_http (to_string (sk_rx s)) n sv = Some (resp, sv')" "http_generate_response resp RESPONSE_BUF_SIZE = Some msg"
    "peer ip port s"
  shows "finish_connection s n sv =
    (let after = sk_seq s + of_nat (length msg) in
     Some (s\<lparr>sk_seq := after, sk_rx := [], sk_state := TCP_FIN_WAIT_1\<rparr>, sv',
       [segment_to ip port (sk_seq s) (sk_ack s) (TCP_FLAG_ACK OR TCP_FLAG_PSH) (to_bytes msg),
        segment_to ip port after (sk_ack s) (TCP_FLAG_FIN OR TCP_FLAG_ACK) []]))"
  using assms
  by (simp add: finish_connection_def tcp_send_data_def tcp_send_ctrl_def segment_to_def peer_def Let_def to_bytes_def)

section \<open>One segment\<close>

text \<open>The socket that handles a segment, as \<^verbatim>\<open>tcp_receive\<close> passes it to the state machine.\<close>

definition touched :: "u32 \<Rightarrow> u32 \<Rightarrow> tcp_socket \<Rightarrow> tcp_socket" where
  "touched ip now s = s\<lparr>sk_remote_ip := ip, sk_last_activity := now\<rparr>"

lemma receive_handled:
  assumes "20 \<le> length packet" "socket_for (read_tcp_header packet) ip (tcp_now st) (sockets st) = (Some i, socks)"
    "sk_remote_ip (socks ! i) = 0 \<or> sk_remote_ip (socks ! i) = ip"
  shows "tcp_receive packet ip st =
    map_option (\<lambda>(t, sv, out). (st\<lparr>sockets := socks[i := t], tcp_server := sv\<rparr>, out))
      (socket_segment (read_tcp_header packet) (tcp_payload packet) (touched ip (tcp_now st) (socks ! i)) (tcp_server st))"
proof -
  have "(if sk_remote_ip s = 0 then s\<lparr>sk_remote_ip := ip\<rparr> else s)\<lparr>sk_last_activity := now\<rparr> = touched ip now s"
    if "sk_remote_ip s = 0 \<or> sk_remote_ip s = ip" for s now
    using that by (cases s) (auto simp: touched_def)
  from this [OF assms(3)] assms(1,2) show ?thesis by (simp add: tcp_receive_def Let_def)
qed

lemma receive_found:
  assumes "tcp_receive packet ip st = Some (st', out)" "tcp_inv st"
  obtains (ignored) "length packet < 20" "st' = st" "out = []"
  | (refused) "20 \<le> length packet" "st' = st" "\<forall>sg \<in> set out. sg = reset_segment (read_tcp_header packet) ip"
  | (handled) i s t sv where "20 \<le> length packet" "i < 4"
      "socket_match ip (th_src_port (read_tcp_header packet)) (th_dst_port (read_tcp_header packet)) False (sockets st ! i) \<and>
         s = sockets st ! i \<or>
       sk_state (sockets st ! i) = TCP_CLOSED \<and> th_dst_port (read_tcp_header packet) = HTTP_PORT \<and>
         s = opened_socket (read_tcp_header packet) ip (tcp_now st) i"
      "socket_segment (read_tcp_header packet) (tcp_payload packet) (touched ip (tcp_now st) s) (tcp_server st) = Some (t, sv, out)"
      "st' = st\<lparr>sockets := (sockets st)[i := t], tcp_server := sv\<rparr>"
proof (cases "length packet < 20")
  case True
  with assms(1) ignored show thesis by (simp add: tcp_receive_def)
next
  case False
  let ?th = "read_tcp_header packet"
  obtain found socks where sf: "socket_for ?th ip (tcp_now st) (sockets st) = (found, socks)" by force
  note h = receive_handled [of packet ip st]
  from sf tcp_invD(1) [OF assms(2)] show thesis
  proof (cases rule: socket_for_cases)
    case (known i)
    then have "sk_remote_ip (sockets st ! i) = 0 \<or> sk_remote_ip (sockets st ! i) = ip" by (auto simp: socket_match_def)
    with known assms(1) False sf h [of i socks] obtain t sv where
      "socket_segment ?th (tcp_payload packet) (touched ip (tcp_now st) (sockets st ! i)) (tcp_server st) = Some (t, sv, out)"
      "st' = st\<lparr>sockets := (sockets st)[i := t], tcp_server := sv\<rparr>" by auto
    then show thesis using known False by (intro handled [of i "sockets st ! i" t sv]) auto
  next
    case (fresh i l)
    let ?s = "opened_socket ?th ip (tcp_now st) i"
    have i: "socks ! i = ?s" using fresh(2,5) tcp_invD(1) [OF assms(2)] by simp
    have "sk_remote_ip ?s = ip" by (simp add: opened_socket_def)
    then have "map_option (\<lambda>(t, sv, out). (st\<lparr>sockets := socks[i := t], tcp_server := sv\<rparr>, out))
        (socket_segment ?th (tcp_payload packet) (touched ip (tcp_now st) ?s) (tcp_server st)) = Some (st', out)"
      using h [of i socks] fresh(1) sf assms(1) False i by simp
    then obtain t sv where
      "socket_segment ?th (tcp_payload packet) (touched ip (tcp_now st) ?s) (tcp_server st) = Some (t, sv, out)"
      "st' = st\<lparr>sockets := (sockets st)[i := t], tcp_server := sv\<rparr>" using fresh(5) by auto
    moreover have "l = 0" using tcp_invD(3) [OF assms(2), of l] fresh(6,7) by (cases l) (auto simp: conn_ok_def live_state_def)
    then have "th_dst_port ?th = HTTP_PORT" using tcp_invD(2) [OF assms(2)] fresh(8) by (simp add: listener_ok_def)
    ultimately show thesis using fresh False by (intro handled [of i ?s t sv]) auto
  next
    case none
    with assms(1) False sf show thesis by (auto simp: tcp_receive_def Let_def split: if_splits intro!: refused)
  qed
qed

text \<open>What a segment sends goes back to its sender, and what it changes belongs to the sender from then on.\<close>

definition replies :: "u32 \<Rightarrow> u16 \<Rightarrow> segment list \<Rightarrow> bool" where
  "replies ip port out \<longleftrightarrow> (\<forall>sg \<in> set out. sg_dst_ip sg = ip \<and> sg_dst_port sg = port)"

lemma replies_simps [simp]:
  "replies ip port []" "replies ip port (xs @ ys) \<longleftrightarrow> replies ip port xs \<and> replies ip port ys"
  "replies ip port (sg # out) \<longleftrightarrow> sg_dst_ip sg = ip \<and> sg_dst_port sg = port \<and> replies ip port out"
  "sg_dst_ip (tcp_send_ctrl s flags) = sk_remote_ip s" "sg_dst_port (tcp_send_ctrl s flags) = sk_remote_port s"
  by (auto simp: replies_def tcp_send_ctrl_def)

lemma finish_replies:
  "finish_connection s n sv = Some (t, sv', out) \<Longrightarrow> same_peer s t \<and> replies (sk_remote_ip s) (sk_remote_port s) out"
  by (auto simp: finish_connection_def bind_eq_Some tcp_send_data_def same_peer_def Let_def split: option.splits)

lemma segment_replies:
  assumes "socket_segment th payload s sv = Some (t, sv', out)"
  shows "same_peer s t \<and> replies (sk_remote_ip s) (sk_remote_port s) out"
proof -
  have data: "same_peer s t \<and> replies (sk_remote_ip s) (sk_remote_port s) out"
    if d: "established_data th payload s sv = Some (t, sv', out)" for s t sv' out
  proof -
    define u where "u = (if payload \<noteq> [] \<and> length (sk_rx s) + length payload < TCP_RX_BUF_SIZE
         then s\<lparr>sk_rx := sk_rx s @ payload\<rparr> else s)"
    have u: "same_peer s u \<and> sk_remote_ip u = sk_remote_ip s \<and> sk_remote_port u = sk_remote_port s"
      by (simp add: u_def same_peer_def)
    from d consider n out' where "finish_connection u n sv = Some (t, sv', out')"
        "out = out' \<or> out = tcp_send_ctrl u TCP_FLAG_ACK # out'"
      | "t = u" "replies (sk_remote_ip u) (sk_remote_port u) out"
      unfolding established_data_def Let_def u_def [symmetric] by (auto split: if_splits option.splits)
    then show ?thesis
      using u by cases (auto simp: same_peer_def dest: finish_replies)
  qed
  show ?thesis
  proof (cases "sk_state s \<in> {TCP_ESTABLISHED, TCP_CLOSE_WAIT}")
    case True
    define u where "u = s\<lparr>sk_ack := th_seq th + of_nat (length payload)\<rparr>"
    have u: "same_peer u t = same_peer s t" "sk_remote_ip u = sk_remote_ip s" "sk_remote_port u = sk_remote_port s"
      by (simp_all add: u_def same_peer_def)
    have "established_segment th payload s sv = Some (t, sv', out)"
      using assms True by (auto simp: socket_segment_def)
    then show ?thesis
      using data [of u t sv' out]
      by (auto simp: established_segment_def Let_def u socket_close_def same_peer_def u_def [symmetric] split: if_splits)
         (auto simp: u_def)
  qed (use assms in \<open>auto simp: socket_segment_def socket_close_def same_peer_def Let_def split: tcp_state.splits if_splits\<close>)
qed

lemma receive_replies:
  assumes "tcp_receive packet ip st = Some (st', out)" "tcp_inv st"
  shows "replies ip (th_src_port (read_tcp_header packet)) out \<and>
    (\<forall>i < 4. sockets st' ! i = sockets st ! i \<or>
       sk_remote_ip (sockets st' ! i) = ip \<and> sk_remote_port (sockets st' ! i) = th_src_port (read_tcp_header packet))"
  using assms
proof (cases rule: receive_found)
  case refused
  then show ?thesis by (auto simp: replies_def reset_segment_def)
next
  case (handled i s t sv)
  have "sk_remote_port s = th_src_port (read_tcp_header packet)"
    using handled(3) by (auto simp: socket_match_def opened_socket_def)
  with segment_replies [OF handled(4)] handled(2,5) tcp_invD(1) [OF assms(2)] show ?thesis
    by (auto simp: touched_def same_peer_def nth_list_update)
qed simp

section \<open>The segments that stop the server\<close>

text \<open>A segment completes a request for the metadata of the model, on the socket that handles it.\<close>

definition buffered :: "u8 list \<Rightarrow> tcp_socket \<Rightarrow> string" where
  "buffered payload s =
     to_string (if length (sk_rx s) + length payload < TCP_RX_BUF_SIZE then sk_rx s @ payload else sk_rx s)"

lemma buffered_fields [simp]: "buffered payload (s\<lparr>sk_ack := a\<rparr>) = buffered payload s"
  "buffered payload (touched ip now s) = buffered payload s"
  by (simp_all add: buffered_def touched_def)

definition completes_metadata :: "tcp_header \<Rightarrow> u8 list \<Rightarrow> tcp_socket \<Rightarrow> bool" where
  "completes_metadata th payload s \<longleftrightarrow>
     (let rx = buffered payload s in
      sk_state s \<in> {TCP_ESTABLISHED, TCP_CLOSE_WAIT} \<and> data_segment th \<and>
      (\<exists>n. request_end rx = Some n \<and> asks_metadata rx n))"

definition fatal :: "u8 list \<Rightarrow> u32 \<Rightarrow> tcp \<Rightarrow> bool" where
  "fatal packet ip st \<longleftrightarrow> 20 \<le> length packet \<and>
     (\<exists>i. socket_lookup ip (th_src_port (read_tcp_header packet)) (th_dst_port (read_tcp_header packet)) False (sockets st) = Some i \<and>
       completes_metadata (read_tcp_header packet) (tcp_payload packet) (sockets st ! i))"

lemma finish_outcome:
  assumes "server_ok sv ps"
  shows "if asks_metadata (to_string (sk_rx s)) n then finish_connection s n sv = None
    else \<exists>t sv' out. finish_connection s n sv = Some (t, sv', out) \<and> server_ok sv' ps"
proof (cases "asks_metadata (to_string (sk_rx s)) n")
  case True
  then show ?thesis by (simp add: finish_connection_def serve_metadata)
next
  case False
  from serve_answers [OF assms False] obtain resp sv' where
    "serve_http (to_string (sk_rx s)) n sv = Some (resp, sv')" "server_ok sv' ps" by metis
  then show ?thesis using False by (auto simp: finish_connection_def Let_def split: prod.splits simp del: split_paired_Ex)
qed

lemma request_end_nonempty: "request_end (to_string xs) = Some n \<Longrightarrow> xs \<noteq> []"
  using request_end_Some [of "to_string xs" n] by (auto simp: to_string_def)

lemma data_outcome:
  assumes "server_ok sv ps"
  shows "if \<exists>n. request_end (buffered payload s) = Some n \<and> asks_metadata (buffered payload s) n then established_data th payload s sv = None
    else \<exists>t sv' out. established_data th payload s sv = Some (t, sv', out) \<and> server_ok sv' ps"
proof -
  define u where "u = (if payload \<noteq> [] \<and> length (sk_rx s) + length payload < TCP_RX_BUF_SIZE
       then s\<lparr>sk_rx := sk_rx s @ payload\<rparr> else s)"
  have rx: "to_string (sk_rx u) = buffered payload s" by (auto simp: u_def buffered_def)
  show ?thesis
  proof (cases "request_end (buffered payload s)")
    case None
    then show ?thesis
      using assms(1) unfolding established_data_def Let_def u_def [symmetric] by (auto simp: rx simp del: split_paired_Ex)
  next
    case (Some n)
    have ne: "sk_rx u \<noteq> []" by (rule request_end_nonempty [of _ n]) (simp add: rx Some)
    have "established_data th payload s sv = map_option (\<lambda>(t, sv, out).
        (t, sv, (if payload \<noteq> [] then [tcp_send_ctrl u TCP_FLAG_ACK] else []) @ out)) (finish_connection u n sv)"
      using ne unfolding established_data_def Let_def u_def [symmetric] by (simp add: rx Some)
    then show ?thesis using finish_outcome [OF assms(1), of u n] by (auto simp: rx Some split: if_splits simp del: split_paired_Ex)
  qed
qed

lemma segment_outcome:
  assumes "server_ok sv ps"
  shows "if completes_metadata th payload s then socket_segment th payload s sv = None
    else \<exists>t sv' out. socket_segment th payload s sv = Some (t, sv', out) \<and> server_ok sv' ps"
proof (cases "sk_state s \<in> {TCP_ESTABLISHED, TCP_CLOSE_WAIT}")
  case True
  then have e: "socket_segment th payload s sv = established_segment th payload s sv"
    by (auto simp: socket_segment_def)
  show ?thesis
  proof (cases "data_segment th")
    case d: True
    then have "socket_segment th payload s sv =
        established_data th payload (s\<lparr>sk_ack := th_seq th + of_nat (length payload)\<rparr>) sv"
      by (simp add: e established_segment_def data_segment_def)
    with data_outcome [OF assms, of payload "s\<lparr>sk_ack := th_seq th + of_nat (length payload)\<rparr>" th] True d
    show ?thesis by (auto simp: completes_metadata_def Let_def split: if_splits simp del: split_paired_Ex)
  next
    case False
    then show ?thesis
      using assms by (auto simp: e established_segment_def data_segment_def completes_metadata_def Let_def simp del: split_paired_Ex)
  qed
next
  case False
  with assms show ?thesis
    by (auto simp: socket_segment_def completes_metadata_def Let_def split: tcp_state.splits simp del: split_paired_Ex)
qed

lemma receive_outcome:
  assumes "tcp_inv st" "server_ok (tcp_server st) ps"
  shows "if fatal packet ip st then tcp_receive packet ip st = None
    else \<exists>st' out. tcp_receive packet ip st = Some (st', out) \<and> tcp_inv st' \<and> server_ok (tcp_server st') ps"
proof (cases "length packet < 20")
  case True
  with assms show ?thesis by (simp add: tcp_receive_def fatal_def)
next
  case False
  let ?th = "read_tcp_header packet"
  let ?lookup = "socket_lookup ip (th_src_port ?th) (th_dst_port ?th) False (sockets st)"
  have kept: "tcp_inv st'" if "tcp_receive packet ip st = Some (st', out)" for st' out
    using step_inv [OF tcp_step.received [OF that] assms(1)] .
  obtain found socks where sf: "socket_for ?th ip (tcp_now st) (sockets st) = (found, socks)" by force
  from sf tcp_invD(1) [OF assms(1)] show ?thesis
  proof (cases rule: socket_for_cases)
    case (known i)
    then have "sk_remote_ip (socks ! i) = 0 \<or> sk_remote_ip (socks ! i) = ip" by (auto simp: socket_match_def)
    with known sf False have r: "tcp_receive packet ip st =
        map_option (\<lambda>(t, sv, out). (st\<lparr>sockets := socks[i := t], tcp_server := sv\<rparr>, out))
          (socket_segment ?th (tcp_payload packet) (touched ip (tcp_now st) (sockets st ! i)) (tcp_server st))"
      by (simp add: receive_handled)
    have "?lookup = Some i"
    proof (cases ?lookup)
      case None
      then show ?thesis using known(3,4) by (simp add: socket_lookup_def find_upt(2) TCP_MAX_SOCKETS_def)
    next
      case (Some k)
      then show ?thesis using sf known(1) by (simp add: socket_for_def)
    qed
    then have "fatal packet ip st \<longleftrightarrow> completes_metadata ?th (tcp_payload packet) (touched ip (tcp_now st) (sockets st ! i))"
      using False by (simp add: fatal_def completes_metadata_def Let_def) (simp add: touched_def)
    with segment_outcome [OF assms(2), of ?th "tcp_payload packet" "touched ip (tcp_now st) (sockets st ! i)"] r kept
    show ?thesis by (auto split: if_splits simp del: split_paired_Ex)
  next
    case (fresh i l)
    let ?s = "opened_socket ?th ip (tcp_now st) i"
    have i: "socks ! i = ?s" using fresh(2,5) tcp_invD(1) [OF assms(1)] by simp
    have o: "sk_remote_ip ?s = ip" "\<not> completes_metadata ?th (tcp_payload packet) (touched ip (tcp_now st) ?s)"
      by (simp_all add: opened_socket_def completes_metadata_def touched_def Let_def)
    then have r: "tcp_receive packet ip st =
        map_option (\<lambda>(t, sv, out). (st\<lparr>sockets := socks[i := t], tcp_server := sv\<rparr>, out))
          (socket_segment ?th (tcp_payload packet) (touched ip (tcp_now st) ?s) (tcp_server st))"
      using receive_handled [of packet ip st i socks] False sf fresh(1) i by simp
    have "?lookup = None" using fresh(9) by (simp add: socket_lookup_def find_upt(2) TCP_MAX_SOCKETS_def)
    then have "\<not> fatal packet ip st" by (simp add: fatal_def)
    with segment_outcome [OF assms(2), of ?th "tcp_payload packet" "touched ip (tcp_now st) ?s"] o(2) r kept
    show ?thesis by (auto split: if_splits simp del: split_paired_Ex)
  next
    case none
    have "?lookup = None" using sf none(1) by (cases ?lookup) (auto simp: socket_for_def)
    then have "\<not> fatal packet ip st" by (simp add: fatal_def)
    moreover have "tcp_receive packet ip st =
        Some (st, if has_flag (th_flags ?th) TCP_FLAG_RST then [] else [reset_segment ?th ip])"
      using False sf none by (simp add: tcp_receive_def Let_def)
    ultimately show ?thesis using assms by simp
  qed
qed

section \<open>Runs with many clients\<close>

datatype net_event = Segment u32 "u8 list" | Tick

fun event_step :: "net_event \<Rightarrow> tcp \<Rightarrow> (tcp \<times> segment list) option" where
  "event_step (Segment ip packet) st = tcp_receive packet ip st"
| "event_step Tick st = Some (tcp_periodic st)"

text \<open>The events that do not come from a client; one with the address 0.0.0.0 is taken for any client.\<close>

fun foreign :: "u32 \<Rightarrow> u16 \<Rightarrow> net_event \<Rightarrow> bool" where
  "foreign ip port (Segment ip' packet) \<longleftrightarrow> ip' \<noteq> 0 \<and> (ip' \<noteq> ip \<or> th_src_port (read_tcp_header packet) \<noteq> port)"
| "foreign ip port Tick \<longleftrightarrow> True"

lemma event_step_inv: "event_step e st = Some (st', out) \<Longrightarrow> tcp_inv st \<Longrightarrow> tcp_inv st'"
  by (cases e) (auto intro: step_inv tcp_step.intros)

text \<open>The connection of a client in socket \<open>i\<close>, the only one its segments can reach.\<close>

definition owns :: "u32 \<Rightarrow> u16 \<Rightarrow> nat \<Rightarrow> tcp \<Rightarrow> bool" where
  "owns ip port i st \<longleftrightarrow> tcp_inv st \<and> 0 < i \<and> i < 4 \<and> sk_state (sockets st ! i) \<noteq> TCP_CLOSED \<and> peer ip port (sockets st ! i) \<and>
     (\<forall>j < 4. j \<noteq> i \<longrightarrow> \<not> socket_match ip port HTTP_PORT False (sockets st ! j))"

text \<open>The socket apart from its time stamp.\<close>

definition content :: "tcp_socket \<Rightarrow> tcp_socket" where
  "content s = s\<lparr>sk_last_activity := 0\<rparr>"

lemma content_eq: "content s = content t \<longleftrightarrow> sk_state s = sk_state t \<and> sk_local_ip s = sk_local_ip t \<and>
    sk_local_port s = sk_local_port t \<and> sk_remote_ip s = sk_remote_ip t \<and> sk_remote_port s = sk_remote_port t \<and>
    sk_seq s = sk_seq t \<and> sk_ack s = sk_ack t \<and> sk_rx s = sk_rx t \<and> sk_tx s = sk_tx t"
  by (cases s; cases t) (simp add: content_def)

lemma content_retransmit: "content (fst (retransmit now s)) = content s"
  by (simp add: retransmit_def content_def)

lemma match_content: "content s = content t \<Longrightarrow> socket_match ip port lp any s = socket_match ip port lp any t"
  by (simp add: content_eq socket_match_def)

lemma foreign_no_match:
  assumes "event_step e st = Some (st', out)" "foreign ip port e" "tcp_inv st" "j < 4"
    "\<not> socket_match ip port HTTP_PORT False (sockets st ! j)"
  shows "\<not> socket_match ip port HTTP_PORT False (sockets st' ! j)"
proof (cases e)
  case (Segment ip' packet)
  with assms(1,3) receive_replies [of packet ip' st st' out] assms(4)
  consider "sockets st' ! j = sockets st ! j"
    | "sk_remote_ip (sockets st' ! j) = ip'" "sk_remote_port (sockets st' ! j) = th_src_port (read_tcp_header packet)" by auto
  then show ?thesis by cases (use assms(2,5) Segment in \<open>auto simp: socket_match_def\<close>)
next
  case Tick
  then have "sockets st' = map (\<lambda>s. fst (retransmit (tcp_now st + 1) s)) (sockets st)"
    using assms(1) by (auto simp: tcp_periodic_def Let_def)
  then have "content (sockets st' ! j) = content (sockets st ! j)"
    using assms(4) tcp_invD(1) [OF assms(3)] by (simp add: content_retransmit)
  from match_content [OF this] assms(5) show ?thesis by simp
qed

lemma foreign_segment:
  assumes "tcp_receive packet ip' st = Some (st', out)" "foreign ip port (Segment ip' packet)" "ip \<noteq> 0" "owns ip port i st"
  shows "owns ip port i st' \<and> sockets st' ! i = sockets st ! i \<and> \<not> (\<exists>sg \<in> set out. sg_dst_ip sg = ip \<and> sg_dst_port sg = port)"
proof -
  have inv: "tcp_inv st" "tcp_inv st'" using assms(4) event_step_inv [of "Segment ip' packet" st st' out] assms(1)
    by (auto simp: owns_def)
  note r = receive_replies [OF assms(1) inv(1)]
  have i: "sockets st' ! i = sockets st ! i"
    using assms(1) inv(1)
  proof (cases rule: receive_found)
    case (handled k s t sv)
    have "k \<noteq> i" using handled(3) assms(2-4) by (auto simp: owns_def socket_match_def peer_def)
    with handled(5) show ?thesis by simp
  qed simp_all
  moreover have "\<not> socket_match ip port HTTP_PORT False (sockets st' ! j)" if "j < 4" "j \<noteq> i" for j
    using foreign_no_match [OF _ assms(2) inv(1) that(1), of st' out] that assms(1,4) by (simp add: owns_def)
  moreover have "\<not> (\<exists>sg \<in> set out. sg_dst_ip sg = ip \<and> sg_dst_port sg = port)"
    using r assms(2) by (auto simp: replies_def)
  ultimately show ?thesis using assms(4) inv by (simp add: owns_def)
qed

lemma foreign_tick:
  assumes "tcp_periodic st = (st', out)" "owns ip port i st"
  shows "owns ip port i st' \<and> content (sockets st' ! i) = content (sockets st ! i)"
proof -
  have inv: "tcp_inv st'" using step_inv [OF tcp_step.ticked [OF assms(1)]] assms(2) by (simp add: owns_def)
  have "sockets st' = map (\<lambda>s. fst (retransmit (tcp_now st + 1) s)) (sockets st)"
    using assms(1) by (auto simp: tcp_periodic_def Let_def)
  then have c: "content (sockets st' ! j) = content (sockets st ! j)" if "j < 4" for j
    using that assms(2) tcp_invD(1) [of st] by (simp add: owns_def content_retransmit)
  have "\<not> socket_match ip port HTTP_PORT False (sockets st' ! j)" if "j < 4" "j \<noteq> i" for j
    using foreign_no_match [of Tick st st' out ip port j] that assms by (simp add: owns_def)
  with c [of i] assms(2) inv show ?thesis by (simp add: owns_def content_eq peer_def)
qed

lemma foreign_step:
  assumes "event_step e st = Some (st', out)" "foreign ip port e" "ip \<noteq> 0" "owns ip port i st"
  shows "owns ip port i st'" "content (sockets st' ! i) = content (sockets st ! i)"
  using assms foreign_segment foreign_tick by (cases e; fastforce)+

text \<open>A run, with what is sent at each event; and the part of it that answers a client's own segments.\<close>

fun tcp_run :: "net_event list \<Rightarrow> tcp \<Rightarrow> (tcp \<times> segment list list) option" where
  "tcp_run [] st = Some (st, [])"
| "tcp_run (e # es) st = Option.bind (event_step e st) (\<lambda>(st, out).
     map_option (\<lambda>(st, outs). (st, out # outs)) (tcp_run es st))"

definition answers :: "u32 \<Rightarrow> u16 \<Rightarrow> net_event list \<Rightarrow> segment list list \<Rightarrow> segment list list" where
  "answers ip port es outs = map snd (filter (\<lambda>(e, out). \<not> foreign ip port e) (zip es outs))"

lemma run_next:
  assumes "tcp_run es st = Some (st', outs)" "filter (\<lambda>e. \<not> foreign ip port e) es = e # own" "I st"
    "\<And>e st st' out. I st \<Longrightarrow> foreign ip port e \<Longrightarrow> event_step e st = Some (st', out) \<Longrightarrow> I st'"
  obtains st1 st2 out es' outs' where "I st1" "event_step e st1 = Some (st2, out)" "tcp_run es' st2 = Some (st', outs')"
    "filter (\<lambda>e. \<not> foreign ip port e) es' = own" "answers ip port es outs = out # answers ip port es' outs'"
  using assms(1-3)
proof (induction es arbitrary: st outs thesis)
  case (Cons a es)
  from Cons.prems(2) obtain st1 out outs1 where a: "event_step a st = Some (st1, out)" "tcp_run es st1 = Some (st', outs1)"
    "outs = out # outs1"
    by (auto simp: bind_eq_Some)
  show ?case
  proof (cases "foreign ip port a")
    case True
    from Cons.IH [OF _ a(2) _ assms(4) [OF Cons.prems(4) True a(1)]] Cons.prems(1,3) True show ?thesis
      by (auto simp: a(3) answers_def)
  next
    case False
    with Cons.prems show ?thesis using a by (auto simp: answers_def)
  qed
qed simp

lemma run_rest:
  assumes "tcp_run es st = Some (st', outs)" "filter (\<lambda>e. \<not> foreign ip port e) es = []" "I st"
    "\<And>e st st' out. I st \<Longrightarrow> foreign ip port e \<Longrightarrow> event_step e st = Some (st', out) \<Longrightarrow> I st'"
  shows "I st' \<and> answers ip port es outs = []"
  using assms(1-3)
proof (induction es arbitrary: st outs)
  case (Cons a es)
  then show ?case using assms(4) by (auto simp: bind_eq_Some answers_def split: if_splits)
qed (simp add: answers_def)

section \<open>A whole session\<close>

text \<open>A packet with these fields, from the client's port to the server.\<close>

definition carries :: "u8 list \<Rightarrow> u16 \<Rightarrow> u32 \<Rightarrow> u32 \<Rightarrow> u8 \<Rightarrow> u8 list \<Rightarrow> bool" where
  "carries packet port sq ack flags data \<longleftrightarrow> 20 \<le> length packet \<and> tcp_payload packet = data \<and>
     (let th = read_tcp_header packet in
      th_src_port th = port \<and> th_dst_port th = HTTP_PORT \<and> th_seq th = sq \<and> th_ack th = ack \<and> th_flags th = flags)"

text \<open>The connection is in socket \<open>i\<close> with this content; or there is none.\<close>

definition connected :: "u32 \<Rightarrow> u16 \<Rightarrow> (nat \<times> nat) list \<Rightarrow> nat \<Rightarrow> tcp_socket \<Rightarrow> tcp \<Rightarrow> bool" where
  "connected ip port ps i c st \<longleftrightarrow> owns ip port i st \<and> content (sockets st ! i) = content c \<and> server_ok (tcp_server st) ps"

definition disconnected :: "u32 \<Rightarrow> u16 \<Rightarrow> (nat \<times> nat) list \<Rightarrow> tcp \<Rightarrow> bool" where
  "disconnected ip port ps st \<longleftrightarrow> tcp_inv st \<and> server_ok (tcp_server st) ps \<and>
     (\<forall>j < 4. \<not> socket_match ip port HTTP_PORT False (sockets st ! j))"

lemma event_server:
  assumes "event_step e st = Some (st', out)" "tcp_inv st" "server_ok (tcp_server st) ps"
  shows "server_ok (tcp_server st') ps"
proof (cases e)
  case (Segment ip packet)
  with assms(1) receive_outcome [OF assms(2,3), of packet ip] show ?thesis by (auto split: if_splits)
next
  case Tick
  with assms show ?thesis by (auto simp: tcp_periodic_def Let_def)
qed

lemma foreign_connected:
  assumes "ip \<noteq> 0" "connected ip port ps i c st" "foreign ip port e" "event_step e st = Some (st', out)"
  shows "connected ip port ps i c st'"
proof -
  have c: "owns ip port i st" "tcp_inv st" using assms(2) by (simp_all add: connected_def owns_def)
  then show ?thesis
    using foreign_step [OF assms(4,3,1) c(1)] event_server [OF assms(4) c(2)] assms(2) by (simp add: connected_def)
qed

lemma foreign_disconnected:
  assumes "disconnected ip port ps st" "foreign ip port e" "event_step e st = Some (st', out)"
  shows "disconnected ip port ps st'"
  using foreign_no_match [OF assms(3,2)] event_server [OF assms(3)] event_step_inv [OF assms(3)] assms(1)
  by (simp add: disconnected_def)

lemma own_lookup:
  assumes "owns ip port i st"
  shows "socket_lookup ip port HTTP_PORT False (sockets st) = Some i"
proof -
  have m: "socket_match ip port HTTP_PORT False (sockets st ! i)" using assms by (simp add: owns_def socket_match_def peer_def)
  show ?thesis
  proof (cases "socket_lookup ip port HTTP_PORT False (sockets st)")
    case None
    with m assms show ?thesis by (auto simp: socket_lookup_def find_upt(2) TCP_MAX_SOCKETS_def owns_def)
  next
    case (Some k)
    then have "k < 4 \<and> socket_match ip port HTTP_PORT False (sockets st ! k)"
      using find_upt(1) [OF Some [unfolded socket_lookup_def]] by (simp add: TCP_MAX_SOCKETS_def)
    with Some assms show ?thesis by (auto simp: owns_def)
  qed
qed

text \<open>What a segment of the client does to its connection.\<close>

lemma own_segment:
  assumes "event_step (Segment ip packet) st = Some (st', out)" "connected ip port ps i c st" "carries packet port sq ack flags data"
  obtains th now t sv sv' where "th_seq th = sq" "th_ack th = ack" "th_flags th = flags" "server_ok sv ps"
    "socket_segment th data (c\<lparr>sk_last_activity := now\<rparr>) sv = Some (t, sv', out)"
    "sk_state t \<noteq> TCP_CLOSED \<Longrightarrow> connected ip port ps i t st'" "sk_state t = TCP_CLOSED \<Longrightarrow> disconnected ip port ps st'"
proof -
  let ?th = "read_tcp_header packet" and ?s = "sockets st ! i"
  have o: "owns ip port i st" "content ?s = content c" "server_ok (tcp_server st) ps" using assms(2) by (simp_all add: connected_def)
  have inv: "tcp_inv st" "0 < i" "i < 4" "peer ip port ?s" using o(1) by (simp_all add: owns_def)
  note kept = event_step_inv [OF assms(1) inv(1)] event_server [OF assms(1) inv(1) o(3)]
  have p: "20 \<le> length packet" "tcp_payload packet = data" "th_src_port ?th = port" "th_dst_port ?th = HTTP_PORT"
    "th_seq ?th = sq" "th_ack ?th = ack" "th_flags ?th = flags"
    using assms(3) by (simp_all add: carries_def Let_def)
  have c: "touched ip (tcp_now st) ?s = c\<lparr>sk_last_activity := tcp_now st\<rparr>"
    using o(2) inv(4) by (cases c; cases ?s) (simp add: content_eq touched_def peer_def)
  have "socket_for ?th ip (tcp_now st) (sockets st) = (Some i, sockets st)"
    using own_lookup [OF o(1)] p(3,4) by (simp add: socket_for_def)
  then have r: "map_option (\<lambda>(t, sv, out). (st\<lparr>sockets := (sockets st)[i := t], tcp_server := sv\<rparr>, out))
      (socket_segment ?th data (c\<lparr>sk_last_activity := tcp_now st\<rparr>) (tcp_server st)) = Some (st', out)"
    using receive_handled [of packet ip st i "sockets st"] inv(4) p(1,2) c assms(1) by (simp add: peer_def)
  then obtain t sv' where t: "socket_segment ?th data (c\<lparr>sk_last_activity := tcp_now st\<rparr>) (tcp_server st) = Some (t, sv', out)"
    "st' = st\<lparr>sockets := (sockets st)[i := t], tcp_server := sv'\<rparr>" by (auto simp del: split_paired_Ex split_paired_All)
  have "peer ip port c" using o(2) inv(4) by (simp add: content_eq peer_def)
  then have pt: "peer ip port t" using segment_replies [OF t(1)] by (simp add: same_peer_def peer_def)
  have socks: "sockets st' ! i = t" "\<And>j. j \<noteq> i \<Longrightarrow> sockets st' ! j = sockets st ! j"
    using t(2) inv(3) tcp_invD(1) [OF inv(1)] by simp_all
  show thesis
  proof (rule that [OF p(5-7) o(3) t(1)])
    show "connected ip port ps i t st'" if "sk_state t \<noteq> TCP_CLOSED"
      using that kept pt socks o(1) by (simp add: connected_def owns_def)
    show "disconnected ip port ps st'" if "sk_state t = TCP_CLOSED"
      using that kept socks o(1) unfolding disconnected_def owns_def
      by (metis socket_match_def)
  qed
qed

text \<open>The five segments of a client that sends one request.\<close>

lemma same_server [simp]: "st\<lparr>sockets := socks, tcp_server := tcp_server st\<rparr> = st\<lparr>sockets := socks\<rparr>"
  by (cases st) simp

lemma syn_opens:
  assumes "event_step (Segment ip packet) st = Some (st', out)" "disconnected ip port ps st"
    "\<exists>s \<in> set (sockets st). sk_state s = TCP_CLOSED" "carries packet port sq ack TCP_FLAG_SYN data"
  obtains i c where "connected ip port ps i c st'" "sk_state c = TCP_SYN_RECEIVED" "sk_rx c = []" "peer ip port c"
    "out = [segment_to ip port (sk_seq c) (sq + 1) (TCP_FLAG_SYN OR TCP_FLAG_ACK) []]"
proof -
  let ?th = "read_tcp_header packet" and ?socks = "sockets st"
  have inv: "tcp_inv st" "length ?socks = 4" "server_ok (tcp_server st) ps" "listener_ok (?socks ! 0)"
    using assms(2) tcp_invD by (auto simp: disconnected_def)
  have p: "20 \<le> length packet" "tcp_payload packet = data" "th_src_port ?th = port" "th_dst_port ?th = HTTP_PORT"
    "th_seq ?th = sq" "th_flags ?th = TCP_FLAG_SYN"
    using assms(4) by (simp_all add: carries_def Let_def)
  have f: "has_flag TCP_FLAG_SYN TCP_FLAG_SYN" "\<not> has_flag TCP_FLAG_SYN TCP_FLAG_ACK" by (simp_all add: has_flag_def tcp_flags)
  have "List.find (\<lambda>i. sk_state (?socks ! i) = TCP_CLOSED) [0 ..< 4] \<noteq> None"
    using assms(3) inv(2) by (auto simp: find_upt(2) in_set_conv_nth)
  then obtain i where i: "List.find (\<lambda>i. sk_state (?socks ! i) = TCP_CLOSED) [0 ..< 4] = Some i" by blast
  note free = find_upt(1) [OF i]
  have pos: "0 < i" using free inv(4) by (cases i) (auto simp: listener_ok_def)
  define s where "s = opened_socket ?th ip (tcp_now st) i"
  have "socket_lookup ip port HTTP_PORT False ?socks = None"
    using assms(2) by (simp add: socket_lookup_def find_upt(2) TCP_MAX_SOCKETS_def disconnected_def)
  moreover have "listener_lookup HTTP_PORT ?socks \<noteq> None"
    using inv(4) by (auto simp: listener_lookup_def find_upt(2) TCP_MAX_SOCKETS_def listener_ok_def intro!: exI [of _ "0 :: nat"])
  ultimately have "socket_for ?th ip (tcp_now st) ?socks = (Some i, ?socks[i := s])"
    using p f free inv(2) i by (auto simp: socket_for_def socket_alloc_def TCP_MAX_SOCKETS_def opened_socket_def s_def)
  moreover have "sk_remote_ip s = ip" by (simp add: s_def opened_socket_def)
  moreover define c where "c = touched ip (tcp_now st) s\<lparr>sk_ack := sq + 1\<rparr>"
  have "socket_segment ?th data (touched ip (tcp_now st) s) (tcp_server st) =
      Some (c, tcp_server st, [tcp_send_ctrl c (TCP_FLAG_SYN OR TCP_FLAG_ACK)])"
    using f p by (simp add: socket_segment_def c_def s_def opened_socket_def touched_def Let_def)
  ultimately have r: "st' = st\<lparr>sockets := ?socks[i := c]\<rparr>" "out = [tcp_send_ctrl c (TCP_FLAG_SYN OR TCP_FLAG_ACK)]"
    using receive_handled [of packet ip st i "?socks[i := s]"] p(1,2) free inv(2) assms(1) by simp_all
  have c: "sk_state c = TCP_SYN_RECEIVED" "sk_rx c = []" "peer ip port c" "sk_ack c = sq + 1"
    using p by (simp_all add: c_def s_def opened_socket_def touched_def peer_def zero_socket_def)
  have "connected ip port ps i c st'"
    using r(1) c pos free inv(2) assms(2) event_step_inv [OF assms(1) inv(1)] event_server [OF assms(1) inv(1,3)]
    by (simp add: connected_def owns_def disconnected_def)
  with c r(2) send_ctrl_to [OF c(3)] show thesis by (intro that) simp_all
qed

lemma connected_peer: "connected ip port ps i c st \<Longrightarrow> peer ip port c"
  by (auto simp: connected_def owns_def content_eq peer_def)

lemma ack_establishes:
  assumes "event_step (Segment ip packet) st = Some (st', out)" "connected ip port ps i c st" "carries packet port sq ack TCP_FLAG_ACK data"
    "sk_state c = TCP_SYN_RECEIVED" "sk_rx c = []"
  obtains t where "connected ip port ps i t st'" "sk_state t = TCP_ESTABLISHED" "sk_rx t = []" "sk_seq t = ack"
    "out = [segment_to ip port ack (sq + 1) TCP_FLAG_ACK []]"
proof -
  from own_segment [OF assms(1-3)] obtain th now t sv sv' where o: "th_seq th = sq" "th_ack th = ack" "th_flags th = TCP_FLAG_ACK"
    "socket_segment th data (c\<lparr>sk_last_activity := now\<rparr>) sv = Some (t, sv', out)"
    "sk_state t \<noteq> TCP_CLOSED \<Longrightarrow> connected ip port ps i t st'" by metis
  have t: "t = c\<lparr>sk_last_activity := now, sk_ack := sq + 1, sk_state := TCP_ESTABLISHED, sk_seq := ack\<rparr>"
    "out = [tcp_send_ctrl t TCP_FLAG_ACK]"
    using o(1-4) assms(4) by (auto simp: socket_segment_def has_flag_def tcp_flags Let_def)
  then have "connected ip port ps i t st'" using o(5) by simp
  with t assms(5) send_ctrl_to [OF connected_peer [OF this]] show thesis by (intro that [of t]) simp_all
qed

lemma data_answered:
  assumes "event_step (Segment ip packet) st = Some (st', out)" "connected ip port ps i c st" "carries packet port sq ack flags data"
    "sk_state c = TCP_ESTABLISHED" "sk_rx c = []" "flags \<in> {TCP_FLAG_ACK, TCP_FLAG_ACK OR TCP_FLAG_PSH}"
    "data \<noteq> []" "length data < TCP_RX_BUF_SIZE" "request_end (to_string data) = Some n"
  obtains t sv resp sv' msg where "server_ok sv ps" "serve_http (to_string data) n sv = Some (resp, sv')"
    "http_generate_response resp RESPONSE_BUF_SIZE = Some msg" "connected ip port ps i t st'" "sk_state t = TCP_FIN_WAIT_1"
    "sk_seq t = sk_seq c + of_nat (length msg)" "sk_ack t = sq + of_nat (length data)"
    "out = [segment_to ip port (sk_seq c) (sk_ack t) TCP_FLAG_ACK [],
       segment_to ip port (sk_seq c) (sk_ack t) (TCP_FLAG_ACK OR TCP_FLAG_PSH) (to_bytes msg),
       segment_to ip port (sk_seq t) (sk_ack t) (TCP_FLAG_FIN OR TCP_FLAG_ACK) []]"
proof -
  from own_segment [OF assms(1-3)] obtain th now t sv sv' where o: "th_seq th = sq" "th_flags th = flags" "server_ok sv ps"
    "socket_segment th data (c\<lparr>sk_last_activity := now\<rparr>) sv = Some (t, sv', out)"
    "sk_state t \<noteq> TCP_CLOSED \<Longrightarrow> connected ip port ps i t st'" by metis
  have d: "data_segment th" using o(2) assms(6) by (auto simp: data_segment_def has_flag_def tcp_flags)
  define u where "u = c\<lparr>sk_last_activity := now, sk_ack := sq + of_nat (length data), sk_rx := data\<rparr>"
  have u: "sk_rx u = data" "sk_seq u = sk_seq c" "sk_ack u = sq + of_nat (length data)" "peer ip port u"
    using connected_peer [OF assms(2)] by (simp_all add: u_def peer_def)
  have "socket_segment th data (c\<lparr>sk_last_activity := now\<rparr>) sv =
      map_option (\<lambda>(t, sv, out). (t, sv, tcp_send_ctrl u TCP_FLAG_ACK # out)) (finish_connection u n sv)"
    using data_complete [OF d assms(7), of "c\<lparr>sk_last_activity := now\<rparr>" n sv] assms(4,5,8,9) o(1)
    by (simp add: u_def tcp_send_ctrl_def)
  then have "map_option (\<lambda>(t, sv, out). (t, sv, tcp_send_ctrl u TCP_FLAG_ACK # out)) (finish_connection u n sv) =
      Some (t, sv', out)"
    using o(4) by simp
  then obtain out' where f: "finish_connection u n sv = Some (t, sv', out')" "out = tcp_send_ctrl u TCP_FLAG_ACK # out'"
    by auto
  have "\<not> asks_metadata (to_string (sk_rx u)) n" using finish_outcome [OF o(3), of u n] f(1) by (auto split: if_splits)
  from serve_answers [OF o(3) this] obtain resp sv2 msg where r: "serve_http (to_string (sk_rx u)) n sv = Some (resp, sv2)"
    "http_generate_response resp RESPONSE_BUF_SIZE = Some msg" by metis
  note fin = finish_answers [OF r u(4)]
  have t: "sk_state t = TCP_FIN_WAIT_1" "sk_seq t = sk_seq c + of_nat (length msg)" "sk_ack t = sq + of_nat (length data)"
    using fin f(1) u by (auto simp: Let_def)
  show thesis
    using fin f t u r o(3,5) send_ctrl_to [OF u(4)] by (intro that [of sv resp sv2 msg t]) (simp_all add: Let_def)
qed

lemma fin_acked:
  assumes "event_step (Segment ip packet) st = Some (st', out)" "connected ip port ps i c st" "carries packet port sq ack TCP_FLAG_ACK data"
    "sk_state c = TCP_FIN_WAIT_1"
  obtains t where "connected ip port ps i t st'" "sk_state t = TCP_FIN_WAIT_2" "sk_seq t = sk_seq c" "sk_ack t = sk_ack c" "out = []"
proof -
  from own_segment [OF assms(1-3)] obtain th now t sv sv' where o: "th_flags th = TCP_FLAG_ACK"
    "socket_segment th data (c\<lparr>sk_last_activity := now\<rparr>) sv = Some (t, sv', out)"
    "sk_state t \<noteq> TCP_CLOSED \<Longrightarrow> connected ip port ps i t st'" by metis
  have "t = c\<lparr>sk_last_activity := now, sk_state := TCP_FIN_WAIT_2\<rparr>" "out = []"
    using o(1,2) assms(4) by (auto simp: socket_segment_def has_flag_def tcp_flags)
  with o(3) show thesis by (intro that [of t]) simp_all
qed

lemma fin_closes:
  assumes "event_step (Segment ip packet) st = Some (st', out)" "connected ip port ps i c st" "carries packet port sq ack flags data"
    "sk_state c = TCP_FIN_WAIT_2" "has_flag flags TCP_FLAG_FIN"
  shows "disconnected ip port ps st'" "out = [segment_to ip port (sk_seq c) (sk_ack c + 1) TCP_FLAG_ACK []]"
proof -
  from own_segment [OF assms(1-3)] obtain th now t sv sv' where o: "th_flags th = flags"
    "socket_segment th data (c\<lparr>sk_last_activity := now\<rparr>) sv = Some (t, sv', out)"
    "sk_state t = TCP_CLOSED \<Longrightarrow> disconnected ip port ps st'" by metis
  have "sk_state t = TCP_CLOSED" "out = [tcp_send_ctrl (c\<lparr>sk_ack := sk_ack c + 1\<rparr>) TCP_FLAG_ACK]"
    using o(1,2) assms(4,5) by (auto simp: socket_segment_def socket_close_def tcp_send_ctrl_def Let_def)
  moreover have "peer ip port (c\<lparr>sk_ack := sk_ack c + 1\<rparr>)" using connected_peer [OF assms(2)] by (simp add: peer_def)
  ultimately show "disconnected ip port ps st'" "out = [segment_to ip port (sk_seq c) (sk_ack c + 1) TCP_FLAG_ACK []]"
    using o(3) send_ctrl_to by simp_all
qed

text \<open>A segment of the client is fatal only where it completes the request for the metadata.\<close>

lemma not_fatal:
  assumes "connected ip port ps i c st" "carries packet port sq ack flags data"
    "sk_state c \<in> {TCP_ESTABLISHED, TCP_CLOSE_WAIT} \<longrightarrow> \<not> has_flag flags TCP_FLAG_FIN \<longrightarrow>
       (\<forall>n. request_end (buffered data c) = Some n \<longrightarrow> \<not> asks_metadata (buffered data c) n)"
  obtains st' out where "event_step (Segment ip packet) st = Some (st', out)"
proof -
  have o: "owns ip port i st" "content (sockets st ! i) = content c" "tcp_inv st" "server_ok (tcp_server st) ps"
    using assms(1) by (simp_all add: connected_def owns_def)
  have "buffered data (sockets st ! i) = buffered data c" "sk_state (sockets st ! i) = sk_state c"
    using o(2) by (simp_all add: content_eq buffered_def)
  then have "\<not> fatal packet ip st"
    using own_lookup [OF o(1)] assms(2,3)
    by (auto simp: fatal_def carries_def completes_metadata_def data_segment_def Let_def)
  with receive_outcome [OF o(3,4), of packet ip] that show thesis by auto
qed

lemma session_runs:
  assumes "disconnected ip port ps st" "\<exists>s \<in> set (sockets st). sk_state s = TCP_CLOSED"
    "carries p1 port x a1 TCP_FLAG_SYN d1" "carries p2 port q2 y TCP_FLAG_ACK d2" "carries p3 port q3 a3 flags request"
    "carries p4 port q4 a4 TCP_FLAG_ACK d4" "carries p5 port q5 a5 (TCP_FLAG_FIN OR TCP_FLAG_ACK) d5"
    "flags \<in> {TCP_FLAG_ACK, TCP_FLAG_ACK OR TCP_FLAG_PSH}"
    "request \<noteq> []" "length request < TCP_RX_BUF_SIZE" "request_end (to_string request) = Some n"
    "\<not> asks_metadata (to_string request) n"
  shows "tcp_run (map (Segment ip) [p1, p2, p3, p4, p5]) st \<noteq> None"
proof -
  have "tcp_inv st" "server_ok (tcp_server st) ps" "\<not> fatal p1 ip st"
    using assms(1,3) by (auto simp: disconnected_def fatal_def completes_metadata_def carries_def data_segment_def Let_def
        has_flag_def tcp_flags)
  then obtain st1 o1 where e1: "event_step (Segment ip p1) st = Some (st1, o1)"
    using receive_outcome [of st ps p1 ip] by auto
  from syn_opens [OF e1 assms(1-3)] obtain i c1 where c1: "connected ip port ps i c1 st1" "sk_state c1 = TCP_SYN_RECEIVED" "sk_rx c1 = []"
    by blast
  obtain st2 o2 where e2: "event_step (Segment ip p2) st1 = Some (st2, o2)" by (rule not_fatal [OF c1(1) assms(4)]) (simp add: c1)
  from ack_establishes [OF e2 c1(1) assms(4) c1(2,3)] obtain c2 where
    c2: "connected ip port ps i c2 st2" "sk_state c2 = TCP_ESTABLISHED" "sk_rx c2 = []" by blast
  obtain st3 o3 where e3: "event_step (Segment ip p3) st2 = Some (st3, o3)"
    by (rule not_fatal [OF c2(1) assms(5)]) (use c2 assms(10-12) in \<open>simp add: buffered_def\<close>)
  from data_answered [OF e3 c2(1) assms(5) c2(2,3) assms(8-11)] obtain c3 where
    c3: "connected ip port ps i c3 st3" "sk_state c3 = TCP_FIN_WAIT_1" by metis
  obtain st4 o4 where e4: "event_step (Segment ip p4) st3 = Some (st4, o4)" by (rule not_fatal [OF c3(1) assms(6)]) (simp add: c3)
  from fin_acked [OF e4 c3(1) assms(6) c3(2)] obtain c4 where c4: "connected ip port ps i c4 st4" "sk_state c4 = TCP_FIN_WAIT_2"
    by blast
  obtain st5 o5 where e5: "event_step (Segment ip p5) st4 = Some (st5, o5)" by (rule not_fatal [OF c4(1) assms(7)]) (simp add: c4)
  from e1 e2 e3 e4 e5 show ?thesis by simp
qed

section \<open>The network loop\<close>

text \<open>The TCP segment in a frame, with its sender, where the frame gets through to \<^verbatim>\<open>tcp_receive\<close>.\<close>

definition tcp_of_frame :: "u8 list \<Rightarrow> (u32 \<times> u8 list) option" where
  "tcp_of_frame frame =
     (let packet = drop ETH_HDR_LEN frame; ihl = unat (packet ! 0 AND 0x0F) * 4 in
      if ETH_HDR_LEN + IP_HDR_LEN \<le> length frame \<and> be16 (ld16 frame 12) = ETHERTYPE_IP \<and> packet ! 0 AND 0xF0 = 0x40 \<and>
         IP_HDR_LEN \<le> ihl \<and> ihl \<le> length packet \<and> be32 (ld32 packet 16) = NET_IP_ADDR \<and> packet ! 9 = IP_PROTO_TCP
      then Some (be32 (ld32 packet 12), drop ihl packet) else None)"

lemma dispatch_segment:
  assumes "tcp_of_frame frame = Some (ip, seg)"
  shows "dispatch hw frame st = Option.bind (tcp_receive seg ip (net_tcp st))
    (\<lambda>(tcp, sgs). send_segments hw sgs (st\<lparr>tcp_current_remote_ip := ip, net_tcp := tcp\<rparr>))"
  using assms
  by (auto simp: tcp_of_frame_def dispatch_def ip_receive_def Let_def net_sizes ETHERTYPE_IP_def ETHERTYPE_ARP_def
      IP_PROTO_TCP_def IP_PROTO_ICMP_def split: if_splits)

lemma sending_keeps_tcp:
  "net_send_eth hw et mac payload st = Some (rc, st') \<Longrightarrow> net_tcp st' = net_tcp st"
  "arp_resolve hw ip st = Some (m, st') \<Longrightarrow> net_tcp st' = net_tcp st"
  "net_send_ip hw proto ip payload st = Some (rc, st') \<Longrightarrow> net_tcp st' = net_tcp st"
  "send_segments hw sgs st = Some st' \<Longrightarrow> net_tcp st' = net_tcp st"
proof -
  show eth: "net_send_eth hw et mac payload st = Some (rc, st') \<Longrightarrow> net_tcp st' = net_tcp st" for et mac payload st st' rc
    by (auto simp: net_send_eth_def split: if_splits)
  show arp: "arp_resolve hw ip st = Some (m, st') \<Longrightarrow> net_tcp st' = net_tcp st" for ip m st st'
    by (auto simp: arp_resolve_def split: option.splits dest: eth)
  show ip: "net_send_ip hw proto ip payload st = Some (rc, st') \<Longrightarrow> net_tcp st' = net_tcp st" for proto ip payload st rc st'
    by (auto simp: net_send_ip_def Let_def bind_eq_Some split: if_splits option.splits dest!: eth arp)
  show "send_segments hw sgs st = Some st' \<Longrightarrow> net_tcp st' = net_tcp st"
    by (induction sgs arbitrary: st) (auto simp: bind_eq_Some net_send_tcp_def split: if_splits dest!: ip)
qed

lemma input_keeps_tcp:
  "icmp_receive hw payload src st = Some st' \<Longrightarrow> net_tcp st' = net_tcp st"
  "arp_receive hw frame st = Some st' \<Longrightarrow> net_tcp st' = net_tcp st"
  by (auto simp: icmp_receive_def arp_receive_def Let_def bind_eq_Some split: if_splits option.splits
      dest!: sending_keeps_tcp(1,2))

lemma dispatch_other:
  assumes "tcp_of_frame frame = None" "net_ok st" "length frame \<le> 2048"
  obtains st' where "dispatch hw frame st = Some st'" "net_ok st'" "net_tcp st' = net_tcp st"
proof -
  let ?packet = "drop ETH_HDR_LEN frame"
  let ?st = "st\<lparr>tcp_current_remote_ip := be32 (ld32 ?packet 12)\<rparr>"
  let ?ok = "\<lambda>st'. net_ok st' \<and> net_tcp st' = net_tcp st"
  have ok: "net_ok ?st" using assms(2) by (simp add: net_ok_def)
  have arp: "\<exists>st'. arp_receive hw ?packet st = Some st' \<and> ?ok st'"
    using arp_total [OF assms(2)] input_keeps_tcp(2) by metis
  have icmp: "\<exists>st'. icmp_receive hw (drop n ?packet) src ?st = Some st' \<and> ?ok st'" if "20 \<le> n" for n src
    using icmp_total [OF ok, of "drop n ?packet" hw src] that assms(3) input_keeps_tcp(1) by (fastforce simp: ETH_HDR_LEN_def)
  have "\<exists>st'. dispatch hw frame st = Some st' \<and> ?ok st'"
  proof (cases "ETH_HDR_LEN \<le> length frame \<and> be16 (ld16 frame 12) = ETHERTYPE_IP \<and> IP_HDR_LEN \<le> unat (?packet ! 0 AND 0x0F) * 4 \<and>
      ?packet ! 9 = IP_PROTO_ICMP")
    case True
    then show ?thesis
      using icmp assms(2) by (simp add: dispatch_def ip_receive_def Let_def net_sizes ETHERTYPE_IP_def ETHERTYPE_ARP_def)
  next
    case False
    then show ?thesis
      using arp assms(1,2) ok
      by (auto simp: tcp_of_frame_def dispatch_def ip_receive_def Let_def net_sizes ETHERTYPE_IP_def ETHERTYPE_ARP_def
          split: if_splits)
  qed
  then show thesis using that by blast
qed

text \<open>The events that a round of the loop hands to TCP.\<close>

definition round_events :: "'d hardware \<Rightarrow> 'd net \<times> u32 \<Rightarrow> net_event list" where
  "round_events hw = (\<lambda>(st, t).
     (case network_receive_packet hw st of
        None \<Rightarrow> []
      | Some (frame, st) \<Rightarrow> (case tcp_of_frame frame of None \<Rightarrow> [] | Some (ip, seg) \<Rightarrow> [Segment ip seg])) @
     (if 100000 \<le> t + 1 then [Tick] else []))"

definition serving :: "(nat \<times> nat) list \<Rightarrow> tcp \<Rightarrow> bool" where
  "serving ps tcp \<longleftrightarrow> tcp_inv tcp \<and> server_ok (tcp_server tcp) ps"

definition fatal_frame :: "'d hardware \<Rightarrow> 'd net \<Rightarrow> bool" where
  "fatal_frame hw st \<longleftrightarrow> (\<exists>frame st1 ip seg. network_receive_packet hw st = Some (frame, st1) \<and>
     tcp_of_frame frame = Some (ip, seg) \<and> fatal seg ip (net_tcp st))"

lemma serving_receive:
  "serving ps tcp \<Longrightarrow> if fatal seg ip tcp then tcp_receive seg ip tcp = None
    else \<exists>tcp' out. tcp_receive seg ip tcp = Some (tcp', out) \<and> serving ps tcp'"
  using receive_outcome [of tcp ps seg ip] by (auto simp: serving_def split: if_splits)

lemma serving_tick: "serving ps tcp \<Longrightarrow> tcp_periodic tcp = (tcp', out) \<Longrightarrow> serving ps tcp'"
  using event_step_inv [of Tick tcp tcp' out] event_server [of Tick tcp tcp' out] by (simp add: serving_def)

lemma tick_round:
  fixes t :: u32
  assumes "net_ok st" "serving ps (net_tcp st)"
  obtains st' t' outs where "(let tick = t + 1 in
      if 100000 \<le> tick then let (tcp, sgs) = tcp_periodic (net_tcp st)
        in map_option (\<lambda>st. (st, 0)) (send_segments hw sgs (st\<lparr>net_tcp := tcp\<rparr>))
      else Some (st, tick)) = Some (st', t')" "net_ok st'" "serving ps (net_tcp st')" "t' < 100000"
    "tcp_run (if 100000 \<le> t + 1 then [Tick] else []) (net_tcp st) = Some (net_tcp st', outs)"
proof (cases "100000 \<le> t + 1")
  case True
  obtain tcp sgs where p: "tcp_periodic (net_tcp st) = (tcp, sgs)" by fastforce
  have "net_ok (st\<lparr>net_tcp := tcp\<rparr>)" using assms(1) by (simp add: net_ok_def)
  from send_segments_total [OF this, of hw sgs] obtain st' where s: "send_segments hw sgs (st\<lparr>net_tcp := tcp\<rparr>) = Some st'" "net_ok st'"
    by blast
  from sending_keeps_tcp(4) [OF s(1)] have "net_tcp st' = tcp" by simp
  with s p True serving_tick [OF assms(2) p] show thesis by (intro that [of st' 0 "[sgs]"]) (simp_all add: Let_def)
qed (use assms that [of st "t + 1" "[]"] in \<open>simp add: Let_def\<close>)

lemma tcp_run_append:
  "tcp_run (es @ es') st = Option.bind (tcp_run es st) (\<lambda>(st, outs). map_option (\<lambda>(st, outs'). (st, outs @ outs')) (tcp_run es' st))"
proof (induction es arbitrary: st)
  case (Cons e es)
  then show ?case by (cases "event_step e st") (auto simp: option.map_comp comp_def split_beta map_option_bind bind_map_option)
qed (simp add: split_beta option.map_id)

lemma round_serves:
  assumes "net_ok st" "serving ps (net_tcp st)"
  shows "if fatal_frame hw st then network_round hw (st, t) = None
    else \<exists>st' t' outs. network_round hw (st, t) = Some (st', t') \<and> net_ok st' \<and> serving ps (net_tcp st') \<and> t' < 100000 \<and>
      tcp_run (round_events hw (st, t)) (net_tcp st) = Some (net_tcp st', outs)"
proof -
  have after: "\<exists>st' t' outs. network_round hw (st, t) = Some (st', t') \<and> net_ok st' \<and> serving ps (net_tcp st') \<and> t' < 100000 \<and>
      tcp_run (round_events hw (st, t)) (net_tcp st) = Some (net_tcp st', outs)"
    if m: "(case network_receive_packet hw st of None \<Rightarrow> Some st | Some (frame, st) \<Rightarrow> dispatch hw frame st) = Some st2"
      "net_ok st2" "serving ps (net_tcp st2)" "tcp_run es (net_tcp st) = Some (net_tcp st2, outs)"
      "round_events hw (st, t) = es @ (if 100000 \<le> t + 1 then [Tick] else [])" for st2 es outs
  proof -
    from tick_round [OF m(2,3), of t hw] obtain st' t' outs' where
      "network_round hw (st, t) = Some (st', t')" "net_ok st'" "serving ps (net_tcp st')" "t' < 100000"
      "tcp_run (if 100000 \<le> t + 1 then [Tick] else []) (net_tcp st2) = Some (net_tcp st', outs')"
      using m(1) unfolding network_round_def by auto
    then show ?thesis using m(4,5) by (simp add: tcp_run_append)
  qed
  show ?thesis
  proof (cases "network_receive_packet hw st")
    case None
    then have "\<not> fatal_frame hw st" by (simp add: fatal_frame_def)
    with after [of st "[]" "[]"] None assms show ?thesis by (simp add: round_events_def)
  next
    case (Some fs)
    obtain frame st1 where fs: "fs = (frame, st1)" by fastforce
    note b = receive_bounded [OF Some [unfolded fs]]
    show ?thesis
    proof (cases "tcp_of_frame frame")
      case none: None
      then have "\<not> fatal_frame hw st" using Some fs by (simp add: fatal_frame_def)
      moreover obtain st2 where "dispatch hw frame st1 = Some st2" "net_ok st2" "net_tcp st2 = net_tcp st1"
        using dispatch_other [OF none] b assms(1) by blast
      ultimately show ?thesis
        using after [of st2 "[]" "[]"] Some fs none b assms(2) by (simp add: round_events_def)
    next
      case seg: (Some found)
      obtain ip segm where fd: "found = (ip, segm)" by fastforce
      note d = dispatch_segment [OF seg [unfolded fd], of hw st1]
      note r = serving_receive [OF assms(2), of segm ip]
      have fatal: "fatal_frame hw st \<longleftrightarrow> fatal segm ip (net_tcp st)" using Some fs seg fd by (simp add: fatal_frame_def)
      show ?thesis
      proof (cases "fatal segm ip (net_tcp st)")
        case True
        with d r b fatal Some fs show ?thesis by (simp add: network_round_def)
      next
        case False
        with r obtain tcp out where t: "tcp_receive segm ip (net_tcp st) = Some (tcp, out)" "serving ps tcp" by auto
        have "net_ok (st1\<lparr>tcp_current_remote_ip := ip, net_tcp := tcp\<rparr>)" using b assms(1) by (simp add: net_ok_def)
        from send_segments_total [OF this, of hw out] obtain st2 where
          s: "send_segments hw out (st1\<lparr>tcp_current_remote_ip := ip, net_tcp := tcp\<rparr>) = Some st2" "net_ok st2" by blast
        from sending_keeps_tcp(4) [OF s(1)] have "net_tcp st2 = tcp" by simp
        with after [of st2 "[Segment ip segm]" "[out]"] d s t b Some fs seg fd fatal False
        show ?thesis by (simp add: round_events_def)
      qed
    qed
  qed
qed

text \<open>A number of rounds of the endless loop of \<^verbatim>\<open>network_loop\<close>, and the events of all of them.\<close>

fun network_rounds :: "'d hardware \<Rightarrow> nat \<Rightarrow> 'd net \<times> u32 \<Rightarrow> ('d net \<times> u32) option" where
  "network_rounds hw 0 s = Some s"
| "network_rounds hw (Suc n) s = Option.bind (network_round hw s) (network_rounds hw n)"

fun heard :: "'d hardware \<Rightarrow> nat \<Rightarrow> 'd net \<times> u32 \<Rightarrow> net_event list" where
  "heard hw 0 s = []"
| "heard hw (Suc n) s = round_events hw s @ (case network_round hw s of None \<Rightarrow> [] | Some s' \<Rightarrow> heard hw n s')"

lemma rounds_serve:
  assumes "net_ok st" "serving ps (net_tcp st)"
  shows "case network_rounds hw n (st, t) of
      Some (st', t') \<Rightarrow> net_ok st' \<and> serving ps (net_tcp st') \<and> (0 < n \<longrightarrow> t' < 100000) \<and>
        (\<exists>outs. tcp_run (heard hw n (st, t)) (net_tcp st) = Some (net_tcp st', outs))
    | None \<Rightarrow> \<exists>k < n. \<exists>st1 t1. network_rounds hw k (st, t) = Some (st1, t1) \<and> fatal_frame hw st1"
  using assms
proof (induction n arbitrary: st t)
  case (Suc n)
  show ?case
  proof (cases "fatal_frame hw st")
    case True
    then have "network_rounds hw (Suc n) (st, t) = None" using round_serves [OF Suc.prems, of hw t] by simp
    with True show ?thesis by (auto intro!: exI [of _ "0 :: nat"])
  next
    case False
    then obtain st1 t1 outs where r: "network_round hw (st, t) = Some (st1, t1)" "net_ok st1" "serving ps (net_tcp st1)"
      "t1 < 100000"
      "tcp_run (round_events hw (st, t)) (net_tcp st) = Some (net_tcp st1, outs)"
      using round_serves [OF Suc.prems, of hw t] by auto
    have "\<exists>k < Suc n. \<exists>st2 t2. network_rounds hw k (st, t) = Some (st2, t2) \<and> fatal_frame hw st2"
      if "\<exists>k < n. \<exists>st2 t2. network_rounds hw k (st1, t1) = Some (st2, t2) \<and> fatal_frame hw st2"
    proof -
      from that obtain k st2 t2 where "k < n" "network_rounds hw k (st1, t1) = Some (st2, t2)" "fatal_frame hw st2" by blast
      then show ?thesis using r(1) by (intro exI [of _ "Suc k"]) auto
    qed
    with Suc.IH [OF r(2,3), of t1] r show ?thesis
      by (cases n) (auto simp: tcp_run_append split: option.splits)
  qed
qed simp

lemma network_rounds_split:
  "k \<le> n \<Longrightarrow> network_rounds hw n s = Option.bind (network_rounds hw k s) (network_rounds hw (n - k))"
proof (induction k arbitrary: n s)
  case (Suc k)
  then obtain m where m: "n = Suc m" "k \<le> m" by (cases n) auto
  with Suc.IH [of m] show ?case by (cases "network_round hw s") auto
qed simp

lemma rounds_stop:
  assumes "net_ok st" "serving ps (net_tcp st)"
  shows "network_rounds hw n (st, t) = None \<longleftrightarrow>
    (\<exists>k < n. \<exists>st1 t1. network_rounds hw k (st, t) = Some (st1, t1) \<and> fatal_frame hw st1)"
proof
  assume "network_rounds hw n (st, t) = None"
  with rounds_serve [OF assms, of n hw t] show "\<exists>k < n. \<exists>st1 t1. network_rounds hw k (st, t) = Some (st1, t1) \<and> fatal_frame hw st1"
    by simp
next
  assume "\<exists>k < n. \<exists>st1 t1. network_rounds hw k (st, t) = Some (st1, t1) \<and> fatal_frame hw st1"
  then obtain k st1 t1 where k: "k < n" "network_rounds hw k (st, t) = Some (st1, t1)" "fatal_frame hw st1" by blast
  have "network_round hw (st1, t1) = None"
    using rounds_serve [OF assms, of k hw t] round_serves [of st1 ps hw t1] k(2,3) by simp
  moreover obtain m where "n - k = Suc m" using k(1) by (cases "n - k") simp_all
  ultimately show "network_rounds hw n (st, t) = None"
    using network_rounds_split [of k n hw "(st, t)"] k(1,2) by simp
qed

text \<open>All that is sent to a client without a segment of its own is the repetition of the handshake.\<close>

definition repeats_handshake :: "u32 \<Rightarrow> u16 \<Rightarrow> tcp_socket \<Rightarrow> net_event \<Rightarrow> segment list \<Rightarrow> bool" where
  "repeats_handshake ip port s e out \<longleftrightarrow> (\<forall>sg \<in> set out. sg_dst_ip sg = ip \<and> sg_dst_port sg = port \<longrightarrow>
     e = Tick \<and> sk_state s = TCP_SYN_RECEIVED \<and>
     sg = segment_to ip port (sk_seq s) (sk_ack s) (TCP_FLAG_SYN OR TCP_FLAG_ACK) [])"

lemma repeats_content: "content s = content t \<Longrightarrow> repeats_handshake ip port s e out = repeats_handshake ip port t e out"
  by (simp add: repeats_handshake_def content_eq)

lemma tick_output:
  assumes "tcp_periodic st = (st', out)" "owns ip port i st"
  shows "repeats_handshake ip port (sockets st ! i) Tick out"
  unfolding repeats_handshake_def
proof (intro ballI impI)
  fix sg
  assume sg: "sg \<in> set out" "sg_dst_ip sg = ip \<and> sg_dst_port sg = port"
  have inv: "tcp_inv st" using assms(2) by (simp add: owns_def)
  from sg(1) assms(1) obtain s where s: "s \<in> set (sockets st)" "sg \<in> set (snd (retransmit (tcp_now st + 1) s))"
    by (auto simp: tcp_periodic_def Let_def)
  then obtain j where j: "j < 4" "s = sockets st ! j" using tcp_invD(1) [OF inv] by (auto simp: in_set_conv_nth)
  have r: "sk_state s = TCP_SYN_RECEIVED" "sg = tcp_send_ctrl s (TCP_FLAG_SYN OR TCP_FLAG_ACK)"
    using s(2) by (auto simp: retransmit_def split: if_splits)
  have "0 < j" using tcp_invD(2) [OF inv] r(1) j(2) by (cases j) (auto simp: listener_ok_def)
  then have port: "sk_local_port s = HTTP_PORT" using tcp_invD(3) [OF inv _ j(1)] r(1) j(2) by (auto simp: conn_ok_def)
  then have "socket_match ip port HTTP_PORT False s" "peer ip port s"
    using r sg(2) by (simp_all add: socket_match_def peer_def)
  with j assms(2) r send_ctrl_to [of ip port s]
  show "Tick = Tick \<and> sk_state (sockets st ! i) = TCP_SYN_RECEIVED \<and>
      sg = segment_to ip port (sk_seq (sockets st ! i)) (sk_ack (sockets st ! i)) (TCP_FLAG_SYN OR TCP_FLAG_ACK) []"
    by (auto simp: owns_def)
qed

lemma foreign_output:
  assumes "event_step e st = Some (st', out)" "foreign ip port e" "ip \<noteq> 0" "owns ip port i st"
  shows "repeats_handshake ip port (sockets st ! i) e out"
proof (cases e)
  case (Segment ip' packet)
  with foreign_segment [of packet ip' st st' out ip port i] assms show ?thesis by (auto simp: repeats_handshake_def)
next
  case Tick
  with tick_output [of st st' out] assms show ?thesis by simp
qed

lemma run_isolated:
  assumes "ip \<noteq> 0" "owns ip port i st" "tcp_run es st = Some (st', outs)" "\<forall>e \<in> set es. foreign ip port e"
  shows "owns ip port i st' \<and> content (sockets st' ! i) = content (sockets st ! i) \<and>
    (\<forall>(e, out) \<in> set (zip es outs). repeats_handshake ip port (sockets st ! i) e out)"
  using assms(2-4)
proof (induction es arbitrary: st outs)
  case (Cons e es)
  from Cons.prems(2) obtain st1 out outs1 where a: "event_step e st = Some (st1, out)" "tcp_run es st1 = Some (st', outs1)"
    "outs = out # outs1"
    by (auto simp: bind_eq_Some)
  have f: "foreign ip port e" using Cons.prems(3) by simp
  note step = foreign_step [OF a(1) f assms(1) Cons.prems(1)]
  with Cons.IH [OF step(1) a(2)] Cons.prems(3) foreign_output [OF a(1) f assms(1) Cons.prems(1)] repeats_content [OF step(2)]
  show ?case by (auto simp: a(3))
qed simp

lemma own_next:
  assumes "ip \<noteq> 0" "connected ip port ps i c st" "tcp_run es st = Some (st', outs)"
    "filter (\<lambda>e. \<not> foreign ip port e) es = e # own"
  obtains st1 st2 out es' outs' where "connected ip port ps i c st1" "event_step e st1 = Some (st2, out)"
    "tcp_run es' st2 = Some (st', outs')" "filter (\<lambda>e. \<not> foreign ip port e) es' = own"
    "answers ip port es outs = out # answers ip port es' outs'"
  using run_next [of es st st' outs ip port e own "connected ip port ps i c"] foreign_connected [OF assms(1)] assms(2-4) by metis

text \<open>
  What is sent from the request to the end, with the server at sequence number \<open>y\<close> and the client's data
  received up to \<open>got\<close>: the acknowledgement, the response and the close; nothing; the last acknowledgement.
\<close>

definition request_answered :: "u32 \<Rightarrow> u16 \<Rightarrow> u32 \<Rightarrow> u32 \<Rightarrow> u8 list \<Rightarrow> segment list list" where
  "request_answered ip port y got msg =
     (let after = y + of_nat (length msg) in
      [[segment_to ip port y got TCP_FLAG_ACK [],
        segment_to ip port y got (TCP_FLAG_ACK OR TCP_FLAG_PSH) msg,
        segment_to ip port after got (TCP_FLAG_FIN OR TCP_FLAG_ACK) []],
       [],
       [segment_to ip port after (got + 1) TCP_FLAG_ACK []]])"

lemma request_answers:
  assumes "ip \<noteq> 0" "connected ip port ps i c st" "sk_state c = TCP_ESTABLISHED" "sk_rx c = []" "sk_seq c = y"
    "carries p3 port q3 a3 flags request" "carries p4 port q4 a4 TCP_FLAG_ACK d4"
    "carries p5 port q5 a5 (TCP_FLAG_FIN OR TCP_FLAG_ACK) d5" "flags \<in> {TCP_FLAG_ACK, TCP_FLAG_ACK OR TCP_FLAG_PSH}"
    "request \<noteq> []" "length request < TCP_RX_BUF_SIZE" "request_end (to_string request) = Some n"
    "filter (\<lambda>e. \<not> foreign ip port e) es = map (Segment ip) [p3, p4, p5]" "tcp_run es st = Some (st', outs)"
  shows "disconnected ip port ps st' \<and>
    (\<exists>sv resp sv' msg. server_ok sv ps \<and> serve_http (to_string request) n sv = Some (resp, sv') \<and>
      http_generate_response resp RESPONSE_BUF_SIZE = Some msg \<and>
      answers ip port es outs = request_answered ip port y (q3 + of_nat (length request)) (to_bytes msg))"
proof -
  have own: "filter (\<lambda>e. \<not> foreign ip port e) es = Segment ip p3 # [Segment ip p4, Segment ip p5]"
    using assms(13) by simp
  from own_next [OF assms(1,2,14) own] obtain st1 st1' o1 es1 outs1 where
    r1: "connected ip port ps i c st1" "event_step (Segment ip p3) st1 = Some (st1', o1)"
      "tcp_run es1 st1' = Some (st', outs1)" "filter (\<lambda>e. \<not> foreign ip port e) es1 = Segment ip p4 # [Segment ip p5]"
      "answers ip port es outs = o1 # answers ip port es1 outs1" by metis
  from data_answered [OF r1(2,1) assms(6,3,4,9-12)] obtain c1 sv resp sv' msg where v: "server_ok sv ps"
    "serve_http (to_string request) n sv = Some (resp, sv')" "http_generate_response resp RESPONSE_BUF_SIZE = Some msg"
    and c1: "connected ip port ps i c1 st1'" "sk_state c1 = TCP_FIN_WAIT_1" "sk_seq c1 = y + of_nat (length msg)"
    "sk_ack c1 = q3 + of_nat (length request)"
    "o1 = [segment_to ip port y (sk_ack c1) TCP_FLAG_ACK [],
       segment_to ip port y (sk_ack c1) (TCP_FLAG_ACK OR TCP_FLAG_PSH) (to_bytes msg),
       segment_to ip port (sk_seq c1) (sk_ack c1) (TCP_FLAG_FIN OR TCP_FLAG_ACK) []]" unfolding assms(5) by metis
  from own_next [OF assms(1) c1(1) r1(3,4)] obtain st2 st2' o2 es2 outs2 where
    r2: "connected ip port ps i c1 st2" "event_step (Segment ip p4) st2 = Some (st2', o2)"
      "tcp_run es2 st2' = Some (st', outs2)" "filter (\<lambda>e. \<not> foreign ip port e) es2 = Segment ip p5 # []"
      "answers ip port es1 outs1 = o2 # answers ip port es2 outs2" by metis
  from fin_acked [OF r2(2,1) assms(7) c1(2)] obtain c2 where c2: "connected ip port ps i c2 st2'" "sk_state c2 = TCP_FIN_WAIT_2"
    "sk_seq c2 = sk_seq c1" "sk_ack c2 = sk_ack c1" "o2 = []" by blast
  from own_next [OF assms(1) c2(1) r2(3,4)] obtain st3 st3' o3 es3 outs3 where
    r3: "connected ip port ps i c2 st3" "event_step (Segment ip p5) st3 = Some (st3', o3)"
      "tcp_run es3 st3' = Some (st', outs3)" "filter (\<lambda>e. \<not> foreign ip port e) es3 = []"
      "answers ip port es2 outs2 = o3 # answers ip port es3 outs3" by metis
  have "has_flag (TCP_FLAG_FIN OR TCP_FLAG_ACK) TCP_FLAG_FIN" by (simp add: has_flag_def tcp_flags)
  note closed = fin_closes [OF r3(2,1) assms(8) c2(2) this]
  have rest: "disconnected ip port ps st'" "answers ip port es3 outs3 = []"
    using run_rest [of es3 st3' st' outs3 ip port "disconnected ip port ps"] r3(3,4) closed(1) foreign_disconnected by blast+
  show ?thesis
    using rest v c1(3-5) c2(3-5) closed(2) r1(5) r2(5) r3(5)
    by (intro conjI exI [of _ sv] exI [of _ resp] exI [of _ sv'] exI [of _ msg])
      (simp_all add: request_answered_def Let_def to_bytes_def)
qed

lemma http_session_result:
  assumes "ip \<noteq> 0" "tcp_inv st" "server_ok (tcp_server st) ps" "\<exists>s \<in> set (sockets st). sk_state s = TCP_CLOSED"
    "\<forall>s \<in> set (sockets st). \<not> socket_match ip port HTTP_PORT False s"
    "carries p1 port x a1 TCP_FLAG_SYN d1" "carries p2 port q2 y TCP_FLAG_ACK d2" "carries p3 port q3 a3 flags request"
    "carries p4 port q4 a4 TCP_FLAG_ACK d4" "carries p5 port q5 a5 (TCP_FLAG_FIN OR TCP_FLAG_ACK) d5"
    "flags \<in> {TCP_FLAG_ACK, TCP_FLAG_ACK OR TCP_FLAG_PSH}"
    "request \<noteq> []" "length request < TCP_RX_BUF_SIZE" "request_end (to_string request) = Some n"
    "filter (\<lambda>e. \<not> foreign ip port e) es = map (Segment ip) [p2, p3, p4, p5]"
    "tcp_run (Segment ip p1 # es) st = Some (st', outs)"
  shows "(\<exists>y0 sv resp sv' msg. server_ok sv ps \<and> serve_http (to_string request) n sv = Some (resp, sv') \<and>
      http_generate_response resp RESPONSE_BUF_SIZE = Some msg \<and>
      answers ip port (Segment ip p1 # es) outs =
        [segment_to ip port y0 (x + 1) (TCP_FLAG_SYN OR TCP_FLAG_ACK) []] #
        [segment_to ip port y (q2 + 1) TCP_FLAG_ACK []] #
        request_answered ip port y (q3 + of_nat (length request)) (to_bytes msg)) \<and>
    tcp_inv st' \<and> server_ok (tcp_server st') ps \<and> (\<forall>s \<in> set (sockets st'). \<not> socket_match ip port HTTP_PORT False s)"
proof -
  have fp: "\<not> foreign ip port (Segment ip p1)" using assms(6) by (simp add: carries_def Let_def)
  from assms(16) obtain st0 o0 outs0 where s: "event_step (Segment ip p1) st = Some (st0, o0)" "tcp_run es st0 = Some (st', outs0)"
    "outs = o0 # outs0" by (auto simp: bind_eq_Some)
  have all: "answers ip port (Segment ip p1 # es) outs = o0 # answers ip port es outs0"
    using fp s(3) by (simp add: answers_def)
  have "disconnected ip port ps st" using assms(2,3,5) tcp_invD(1) [OF assms(2)] by (simp add: disconnected_def)
  from syn_opens [OF s(1) this assms(4,6)] obtain i c where c: "connected ip port ps i c st0" "sk_state c = TCP_SYN_RECEIVED"
    "sk_rx c = []" "o0 = [segment_to ip port (sk_seq c) (x + 1) (TCP_FLAG_SYN OR TCP_FLAG_ACK) []]" by blast
  have "filter (\<lambda>e. \<not> foreign ip port e) es = Segment ip p2 # map (Segment ip) [p3, p4, p5]" using assms(15) by simp
  from own_next [OF assms(1) c(1) s(2) this] obtain st1 st1' o1 es1 outs1 where
    r1: "connected ip port ps i c st1" "event_step (Segment ip p2) st1 = Some (st1', o1)"
      "tcp_run es1 st1' = Some (st', outs1)" "filter (\<lambda>e. \<not> foreign ip port e) es1 = map (Segment ip) [p3, p4, p5]"
      "answers ip port es outs0 = o1 # answers ip port es1 outs1" by metis
  from ack_establishes [OF r1(2,1) assms(7) c(2,3)] obtain c1 where c1: "connected ip port ps i c1 st1'" "sk_state c1 = TCP_ESTABLISHED"
    "sk_rx c1 = []" "sk_seq c1 = y" "o1 = [segment_to ip port y (q2 + 1) TCP_FLAG_ACK []]" by blast
  from request_answers [OF assms(1) c1(1-4) assms(8-14) r1(4,3)] obtain sv resp sv' msg where
    d: "disconnected ip port ps st'" and v: "server_ok sv ps" "serve_http (to_string request) n sv = Some (resp, sv')"
      "http_generate_response resp RESPONSE_BUF_SIZE = Some msg"
      "answers ip port es1 outs1 = request_answered ip port y (q3 + of_nat (length request)) (to_bytes msg)"
    by metis
  have "\<forall>s \<in> set (sockets st'). \<not> socket_match ip port HTTP_PORT False s" "tcp_inv st'" "server_ok (tcp_server st') ps"
    using d tcp_invD(1) [of st'] by (auto simp: disconnected_def in_set_conv_nth)
  with v show ?thesis
    unfolding all r1(5) c(4) c1(5) by blast
qed

section \<open>Results\<close>

text \<open>
  \<^bold>\<open>C3.\<close> A client gets its answer, whoever else talks to the server. When the client with this address and port
  opens a connection on a free socket, acknowledges, sends its request in one segment, acknowledges the response
  and closes, and between these segments come any ticks and any segments of other clients, then its five
  segments are answered with exactly: \<^verbatim>\<open>SYN|ACK\<close>; \<^verbatim>\<open>ACK\<close>; the acknowledgement of the request,
  the rendered answer of the router to it and \<^verbatim>\<open>FIN|ACK\<close>; nothing; the last \<^verbatim>\<open>ACK\<close>. The sequence
  numbers continue from the client's and cover the response. At the end the connection is gone, and the invariants of
  the sockets and of the heap hold again. (The second acknowledgement is one byte too high: the code adds one for
  the \<^verbatim>\<open>SYN\<close> to the number of a segment that comes after it.)
\<close>

theorem http_session:
  assumes "ip \<noteq> 0" "tcp_inv st" "server_ok (tcp_server st) ps" "\<exists>s \<in> set (sockets st). sk_state s = TCP_CLOSED"
    "\<forall>s \<in> set (sockets st). \<not> socket_match ip port HTTP_PORT False s"
    "carries p1 port x a1 TCP_FLAG_SYN d1" "carries p2 port q2 y TCP_FLAG_ACK d2" "carries p3 port q3 a3 flags request"
    "carries p4 port q4 a4 TCP_FLAG_ACK d4" "carries p5 port q5 a5 (TCP_FLAG_FIN OR TCP_FLAG_ACK) d5"
    "flags \<in> {TCP_FLAG_ACK, TCP_FLAG_ACK OR TCP_FLAG_PSH}"
    "request \<noteq> []" "length request < TCP_RX_BUF_SIZE" "request_end (to_string request) = Some n"
    "filter (\<lambda>e. \<not> foreign ip port e) es = map (Segment ip) [p2, p3, p4, p5]"
    "tcp_run (Segment ip p1 # es) st = Some (st', outs)"
  shows "(\<exists>y0 sv resp sv' msg. server_ok sv ps \<and> serve_http (to_string request) n sv = Some (resp, sv') \<and>
      http_generate_response resp RESPONSE_BUF_SIZE = Some msg \<and>
      answers ip port (Segment ip p1 # es) outs =
        [segment_to ip port y0 (x + 1) (TCP_FLAG_SYN OR TCP_FLAG_ACK) []] #
        [segment_to ip port y (q2 + 1) TCP_FLAG_ACK []] #
        request_answered ip port y (q3 + of_nat (length request)) (to_bytes msg)) \<and>
    tcp_inv st' \<and> server_ok (tcp_server st') ps \<and> (\<forall>s \<in> set (sockets st'). \<not> socket_match ip port HTTP_PORT False s)"
  using assms by (rule http_session_result)

text \<open>A client on port 40000.\<close>

definition client_packet :: "u32 \<Rightarrow> u32 \<Rightarrow> u8 \<Rightarrow> u8 list \<Rightarrow> u8 list" where
  "client_packet sq ack flags data = tcp_segment \<lparr>sg_src_port = 40000, sg_dst_port = HTTP_PORT, sg_dst_ip = NET_IP_ADDR,
     sg_seq = sq, sg_ack = ack, sg_flags = flags, sg_payload = data\<rparr>"

lemma client_carries: "carries (client_packet sq ack flags data) 40000 sq ack flags data"
  by (simp add: carries_def client_packet_def read_tcp_segment tcp_payload_segment)

lemma boot_serving: "tcp_inv boot_tcp" "server_ok (tcp_server boot_tcp) []"
  unfolding boot_tcp_def by (rule tcp_init_inv)
    (simp add: server_ok_def boot_api_context_def heap_owns_def tcp_init_def Let_def split: option.splits prod.splits)

lemma boot_disconnected:
  "\<forall>s \<in> set (sockets boot_tcp). \<not> socket_match ip 40000 HTTP_PORT False s" "\<exists>s \<in> set (sockets boot_tcp). sk_state s = TCP_CLOSED"
proof -
  have "sockets boot_tcp = zero_socket\<lparr>sk_state := TCP_LISTEN, sk_local_port := HTTP_PORT, sk_local_ip := NET_IP_ADDR\<rparr> #
      replicate 3 zero_socket" by code_simp
  then show "\<forall>s \<in> set (sockets boot_tcp). \<not> socket_match ip 40000 HTTP_PORT False s"
    "\<exists>s \<in> set (sockets boot_tcp). sk_state s = TCP_CLOSED"
    by (auto simp: socket_match_def zero_socket_def)
qed

definition sample_request :: "u8 list" where
  "sample_request = to_bytes (''GET /health HTTP/1.0'' @ crlf @ crlf)"

lemma sample_request_path: "map_option rq_path (http_parse_request (to_string sample_request) 24) = Some ''/health''"
  by code_simp

lemma sample_request:
  "sample_request \<noteq> []" "length sample_request < TCP_RX_BUF_SIZE" "request_end (to_string sample_request) = Some 24"
  "\<not> asks_metadata (to_string sample_request) 24"
proof -
  show "sample_request \<noteq> []" "length sample_request < TCP_RX_BUF_SIZE"
    by (simp_all add: sample_request_def to_bytes_def TCP_RX_BUF_SIZE_def)
  show "request_end (to_string sample_request) = Some 24" by code_simp
  show "\<not> asks_metadata (to_string sample_request) 24" using sample_request_path by (auto simp: asks_metadata_def)
qed

lemma http_session_witness:
  "\<exists>st' outs sv resp sv' msg y0.
     tcp_run (map (Segment 0x0A000202) [client_packet 7 0 TCP_FLAG_SYN [], client_packet 8 1101 TCP_FLAG_ACK [],
       client_packet 8 1101 TCP_FLAG_ACK sample_request, client_packet 32 1300 TCP_FLAG_ACK [],
       client_packet 32 1300 (TCP_FLAG_FIN OR TCP_FLAG_ACK) []]) boot_tcp = Some (st', outs) \<and>
     serve_http (to_string sample_request) 24 sv = Some (resp, sv') \<and>
     http_generate_response resp RESPONSE_BUF_SIZE = Some msg \<and>
     outs = [segment_to 0x0A000202 40000 y0 8 (TCP_FLAG_SYN OR TCP_FLAG_ACK) []] # [segment_to 0x0A000202 40000 1101 9 TCP_FLAG_ACK []] #
       request_answered 0x0A000202 40000 1101 32 (to_bytes msg)"
proof -
  let ?ps = "[client_packet 8 1101 TCP_FLAG_ACK [], client_packet 8 1101 TCP_FLAG_ACK sample_request,
    client_packet 32 1300 TCP_FLAG_ACK [], client_packet 32 1300 (TCP_FLAG_FIN OR TCP_FLAG_ACK) []]"
  let ?es = "map (Segment 0x0A000202) ?ps" and ?syn = "client_packet 7 0 TCP_FLAG_SYN []"
  have "disconnected 0x0A000202 40000 [] boot_tcp"
    using boot_serving boot_disconnected(1) tcp_invD(1) [OF boot_serving(1)] by (simp add: disconnected_def)
  from session_runs [OF this boot_disconnected(2) client_carries client_carries client_carries client_carries client_carries
      _ sample_request] obtain st' outs where r: "tcp_run (Segment 0x0A000202 ?syn # ?es) boot_tcp = Some (st', outs)"
    by fastforce
  have port: "th_src_port (read_tcp_header (client_packet sq ack flags data)) = 40000" for sq ack flags data
    by (simp add: client_packet_def read_tcp_segment)
  have own: "filter (\<lambda>e. \<not> foreign 0x0A000202 40000 e) ?es = ?es" by (simp add: port)
  have "length outs = 5" using r by (auto simp: bind_eq_Some)
  then have a: "answers 0x0A000202 40000 (Segment 0x0A000202 ?syn # ?es) outs = outs"
    by (auto simp: answers_def port numeral_eq_Suc length_Suc_conv)
  have len: "8 + of_nat (length sample_request) = (32 :: u32)" by (simp add: sample_request_def to_bytes_def)
  show ?thesis
    using http_session [OF _ boot_serving boot_disconnected(2,1) client_carries client_carries client_carries client_carries
        client_carries _ sample_request(1-3) own r] r unfolding a len by simp blast
qed

text \<open>
  \<^bold>\<open>C10.\<close> Clients do not disturb each other. Whatever segments arrive from other clients and however often the clock
  ticks, the connection of a client keeps its socket, its state, its sequence numbers and its buffer, no other
  socket ever takes its segments, and nothing is sent to it but the repetition of the handshake at a tick. (An
  address 0.0.0.0 is excluded: a socket opened with it accepts the segments of any address.)
\<close>

theorem tcp_connections_isolated:
  assumes "ip \<noteq> 0" "owns ip port i st" "tcp_run es st = Some (st', outs)" "\<forall>e \<in> set es. foreign ip port e"
  shows "owns ip port i st' \<and> content (sockets st' ! i) = content (sockets st ! i) \<and>
    (\<forall>(e, out) \<in> set (zip es outs). repeats_handshake ip port (sockets st ! i) e out)"
  using assms by (rule run_isolated)

lemma tcp_connections_isolated_witness:
  "\<exists>i st st' outs. owns 0x0A000202 40000 i st \<and> sk_state (sockets st ! i) = TCP_SYN_RECEIVED \<and>
     tcp_run [Tick, Segment 0x0A000203 syn_packet] st = Some (st', outs) \<and> owns 0x0A000202 40000 i st' \<and>
     sk_state (sockets st' ! i) = TCP_SYN_RECEIVED"
proof -
  let ?syn = "client_packet 7 0 TCP_FLAG_SYN []" and ?es = "[Tick, Segment 0x0A000203 syn_packet]"
  have d: "disconnected 0x0A000202 40000 [] boot_tcp"
    using boot_serving boot_disconnected(1) tcp_invD(1) [OF boot_serving(1)] by (simp add: disconnected_def)
  have nodata: "\<not> data_segment (read_tcp_header ?syn)" "\<not> data_segment (read_tcp_header syn_packet)"
    by (simp_all add: data_segment_def client_packet_def read_tcp_segment has_flag_def tcp_flags)
      (simp_all add: read_tcp_header_def syn_packet_def)
  then have harmless: "\<not> fatal ?syn ip st" "\<not> fatal syn_packet ip st" for ip st
    by (auto simp: fatal_def completes_metadata_def Let_def)
  with receive_outcome [OF boot_serving, where packet = ?syn and ip = "0x0A000202"] obtain st out where
    s: "event_step (Segment 0x0A000202 ?syn) boot_tcp = Some (st, out)" by auto
  from syn_opens [OF s d boot_disconnected(2) client_carries] obtain i c where
    c: "connected 0x0A000202 40000 [] i c st" "sk_state c = TCP_SYN_RECEIVED" by blast
  then have o: "owns 0x0A000202 40000 i st" "sk_state (sockets st ! i) = TCP_SYN_RECEIVED" "tcp_inv st" "server_ok (tcp_server st) []"
    by (auto simp: connected_def owns_def content_eq)
  obtain st1 out1 where t: "tcp_periodic st = (st1, out1)" by fastforce
  then have "tcp_inv st1" "server_ok (tcp_server st1) []"
    using event_step_inv [of Tick st st1 out1] event_server [of Tick st st1 out1] o(3,4) by simp_all
  with receive_outcome [where st = st1 and ps = "[]" and packet = syn_packet and ip = "0x0A000203"] harmless(2) obtain st' outs where
    r: "tcp_run ?es st = Some (st', outs)" using t by auto
  have "\<forall>e \<in> set ?es. foreign 0x0A000202 40000 e" by simp
  from tcp_connections_isolated [OF _ o(1) r this] o r show ?thesis by (auto simp: content_eq)
qed

text \<open>
  \<^bold>\<open>C11.\<close> The network loop serves as long as nobody asks for the metadata of the model. From a good state, for
  any hardware and any number of rounds: the rounds fail to complete exactly when, after fewer of them, the card
  hands over a frame with a segment that completes a request below \<^verbatim>\<open>/model/metadata\<close> (on which the
  router dereferences a character). Otherwise the state is good again, the timer below its bound, and the connections have changed exactly as
  by the segments of the TCP frames received and the ticks, in their order.
\<close>

theorem network_loop_serves:
  assumes "net_ok st" "serving ps (net_tcp st)"
  shows "(network_rounds hw n (st, t) = None \<longleftrightarrow>
      (\<exists>k < n. \<exists>st1 t1. network_rounds hw k (st, t) = Some (st1, t1) \<and> fatal_frame hw st1)) \<and>
    (\<forall>st' t'. network_rounds hw n (st, t) = Some (st', t') \<longrightarrow> net_ok st' \<and> serving ps (net_tcp st') \<and> (0 < n \<longrightarrow> t' < 100000) \<and>
      (\<exists>outs. tcp_run (heard hw n (st, t)) (net_tcp st) = Some (net_tcp st', outs)))"
  using rounds_stop [OF assms, of hw n t] rounds_serve [OF assms, of n hw t] by auto

lemma network_loop_serves_witness:
  "\<exists>st' t'. network_rounds sample_hw 2 (sample_net boot_tcp, 99998) = Some (st', t') \<and> serving [] (net_tcp st')"
proof -
  let ?st = "sample_net boot_tcp"
  have none: "network_receive_packet sample_hw ?st = None"
    by (simp add: network_receive_packet_def e1000_receive_packet_def sample_net_def)
  then have quiet: "\<not> fatal_frame sample_hw ?st" by (simp add: fatal_frame_def)
  have one: "network_rounds sample_hw 1 (?st, 99998) = Some (?st, 99999)"
    using none by (simp add: network_round_def Let_def)
  have "net_tcp ?st = boot_tcp" by (simp add: sample_net_def)
  then have ok: "serving [] (net_tcp ?st)" using boot_serving by (simp add: serving_def)
  have "\<not> (\<exists>k < 2. \<exists>st1 t1. network_rounds sample_hw k (?st, 99998) = Some (st1, t1) \<and> fatal_frame sample_hw st1)"
    using quiet one by (metis Pair_inject less_2_cases network_rounds.simps(1) One_nat_def option.inject)
  with network_loop_serves [OF sample_ok ok, of sample_hw 2 99998] show ?thesis by fastforce
qed

end
