(* ===== verification/WireCard.thy ===== *)
theory WireCard
  imports E1000Queue
begin

unbundle bit_operations_syntax

text \<open>
  A card that transmits, as its manual describes it: while the head of the transmit ring is behind the tail it
  takes the descriptor at the head, puts the first \<^verbatim>\<open>length\<close> bytes of its buffer on the
  wire, reports the descriptor done and moves the head. Against it the driver's \<open>e1000_send_packet\<close>
  puts exactly the frame given to it on the wire, and \<open>e1000_receive_packet\<close> takes the frames of the
  receive ring in order; the two do not disturb each other. That is the interface \<open>link\<close>.
\<close>

section \<open>The transmitting card\<close>

record wire_card = card +
  card_base :: u32
  card_wire :: "u8 list list"

definition transmit :: "wire_card \<times> rings \<Rightarrow> wire_card \<times> rings" where
  "transmit = (\<lambda>(d, r).
     let h = card_regs d (card_base d + E1000_TXDESCHEAD); i = unat h; e = tx_desc_ring r ! i in
     if h = card_regs d (card_base d + E1000_TXDESCTAIL) then (d, r)
     else (d\<lparr>card_regs := (card_regs d)(card_base d + E1000_TXDESCHEAD := (h + 1) mod 32),
             card_wire := card_wire d @ [take (unat (td_length e)) (tx_buffers r ! i)]\<rparr>,
           r\<lparr>tx_desc_ring := (tx_desc_ring r)[i := e\<lparr>td_status := td_status e OR E1000_TXD_STAT_DD\<rparr>]\<rparr>))"

abbreviation wire_hw :: "wire_card hardware" where
  "wire_hw \<equiv> card_with transmit"

definition sent :: "wire_card nic \<Rightarrow> u8 list list" where
  "sent nic = card_wire (nic_dev nic)"

text \<open>Between two operations of the driver: the receive ring is sound and nothing is left to transmit.\<close>

definition tx_idle :: "wire_card nic \<Rightarrow> bool" where
  "tx_idle nic \<longleftrightarrow> tx_ok nic \<and> card_base (nic_dev nic) = e1000_base nic \<and>
     card_reg nic E1000_TXDESCHEAD = ucast (tx_tail nic) \<and> card_reg nic E1000_TXDESCTAIL = ucast (tx_tail nic)"

definition link_ok :: "wire_card nic \<Rightarrow> bool" where
  "link_ok nic \<longleftrightarrow> rx_inv nic \<and> tx_idle nic"

lemma rx_cong:
  assumes "e1000_base nic' = e1000_base nic" "rx_head nic' = rx_head nic"
    "rx_desc_ring (nic_rings nic') = rx_desc_ring (nic_rings nic)" "rx_buffers (nic_rings nic') = rx_buffers (nic_rings nic)"
    "card_reg nic' E1000_RXDESCHEAD = card_reg nic E1000_RXDESCHEAD" "card_reg nic' E1000_RXDESCTAIL = card_reg nic E1000_RXDESCTAIL"
  shows "rx_inv nic' = rx_inv nic" "waiting nic' = waiting nic"
  using assms by (simp_all add: rx_inv_def waiting_def pending_def slot_def done_at_def frame_at_def)

lemma widen:
  fixes t :: u16
  shows "unat (ucast t :: u32) = unat t" "ucast (ucast t :: u32) = t"
proof -
  have t: "unat t < 2 ^ 16" using unsigned_less [of t] by simp
  then show u: "unat (ucast t :: u32) = unat t"
    by (simp add: unsigned_ucast_eq take_bit_nat_eq_self)
  have "unat (ucast (ucast t :: u32) :: u16) = unat t"
    unfolding unsigned_ucast_eq [of "ucast t :: u32"] u using t by (simp add: take_bit_nat_eq_self)
  then show "ucast (ucast t :: u32) = t" by (simp add: word_unat_eq_iff)
qed

lemma next_slot:
  fixes t :: u16
  assumes "unat t < 32"
  shows "(unat ((t + 1) mod 32) + 31) mod 32 = unat t" "unat (ucast t :: u32) = unat t"
    "ucast ((t + 1) mod 32) = ((ucast t + 1) mod 32 :: u32)" "ucast ((t + 1) mod 32) \<noteq> (ucast t :: u32)"
proof -
  show u: "unat (ucast t :: u32) = unat t" by (rule widen)
  have n: "unat ((t + 1) mod 32) = (unat t + 1) mod 32" using unat_next32(1) [OF assms] .
  show "(unat ((t + 1) mod 32) + 31) mod 32 = unat t" unfolding n using assms by (auto simp: mod_if)
  have "unat (ucast ((t + 1) mod 32) :: u32) = unat ((t + 1) mod 32)" by (rule widen)
  moreover have "unat ((ucast t + 1) mod 32 :: u32) = (unat t + 1) mod 32"
    using unat_next32(2) [of "ucast t"] assms unfolding u by blast
  ultimately show "ucast ((t + 1) mod 32) = ((ucast t + 1) mod 32 :: u32)" by (simp add: word_unat_eq_iff n)
  have "(unat t + 1) mod 32 \<noteq> unat t" using assms by (auto simp: mod_if)
  then show "ucast ((t + 1) mod 32) \<noteq> (ucast t :: u32)"
    using n u \<open>unat (ucast ((t + 1) mod 32) :: u32) = _\<close> by metis
qed

section \<open>Sending and receiving\<close>

lemma wire_tick:
  assumes "tx_idle nic" "length f \<le> TX_BUFFER_SIZE"
  defines "nic1 \<equiv> tx_enqueue wire_hw f nic"
  shows "\<not> done_bit nic1" "done_bit (tick wire_hw nic1)" "tx_idle (tick wire_hw nic1)"
    "sent (tick wire_hw nic1) = sent nic @ [f]" "waiting (tick wire_hw nic1) = waiting nic"
    "rx_inv (tick wire_hw nic1) = rx_inv nic"
proof -
  let ?t = "tx_tail nic" and ?r = "nic_rings nic"
  let ?i = "unat ?t" and ?t' = "(tx_tail nic + 1) mod 32"
  have ok: "?i < 32" "length (tx_desc_ring ?r) = 32" "length (tx_buffers ?r) = 32" using assms(1) by (simp_all add: tx_idle_def tx_ok_def)
  note s = next_slot [OF ok(1)]
  have len: "unat (of_nat (length f) :: u16) = length f"
    using assms(2) by (simp add: TX_BUFFER_SIZE_def unat_of_nat)
  let ?e = "(tx_desc_ring ?r ! ?i)\<lparr>td_length := of_nat (length f), td_cso := 0, td_command := txd_command,
    td_status := 0, td_css := 0, td_special := 0\<rparr>"
  let ?r1 = "?r\<lparr>tx_buffers := (tx_buffers ?r)[?i := copy_into (tx_buffers ?r ! ?i) f],
      tx_desc_ring := (tx_desc_ring ?r)[?i := ?e]\<rparr>"
  have n1: "nic1 = e1000_write_reg wire_hw E1000_TXDESCTAIL (ucast ?t') (nic\<lparr>nic_rings := ?r1, tx_tail := ?t'\<rparr>)"
    by (simp add: nic1_def tx_enqueue_def Let_def TX_DESC_COUNT_def)
  have n1s: "tx_tail nic1 = ?t'" "nic_rings nic1 = ?r1" "e1000_base nic1 = e1000_base nic" "rx_head nic1 = rx_head nic"
    "card_base (nic_dev nic1) = e1000_base nic" "card_wire (nic_dev nic1) = sent nic"
    "card_reg nic1 reg = (if reg = E1000_TXDESCTAIL then ucast ?t' else card_reg nic reg)" for reg
    using assms(1) by (auto simp: n1 e1000_write_reg_def card_with_def card_reg_def sent_def tx_idle_def)
  have head: "card_reg nic E1000_TXDESCHEAD = ucast ?t" using assms(1) by (simp add: tx_idle_def)
  let ?r2 = "?r1\<lparr>tx_desc_ring := (tx_desc_ring ?r)[?i := ?e\<lparr>td_status := E1000_TXD_STAT_DD\<rparr>]\<rparr>"
  let ?d2 = "(nic_dev nic1)\<lparr>card_regs := (card_regs (nic_dev nic1))(e1000_base nic + E1000_TXDESCHEAD := ucast ?t'),
      card_wire := sent nic @ [f]\<rparr>"
  have regs: "card_regs (nic_dev nic1) (e1000_base nic + E1000_TXDESCHEAD) = ucast ?t"
    "card_regs (nic_dev nic1) (e1000_base nic + E1000_TXDESCTAIL) = ucast ?t'"
    using n1s(7) [of E1000_TXDESCHEAD] n1s(7) [of E1000_TXDESCTAIL] n1s(3) head
    by (simp_all add: card_reg_def e1000_registers)
  have t2: "tick wire_hw nic1 = nic1\<lparr>nic_dev := ?d2, nic_rings := ?r2\<rparr>"
  proof -
    have "hw_tick wire_hw = transmit" by (simp add: card_with_def)
    moreover have "transmit (nic_dev nic1, ?r1) = (?d2, ?r2)"
      using s(2-4) ok len n1s(5,6) regs
      by (simp add: transmit_def Let_def copy_into_def)
    ultimately show ?thesis by (simp add: tick_def n1s(2))
  qed
  have c2: "card_reg (tick wire_hw nic1) reg = (if reg = E1000_TXDESCHEAD then ucast ?t' else card_reg nic1 reg)" for reg
    by (simp add: t2 card_reg_def n1s(3))
  have pos: "(unat (tx_tail nic1) + TX_DESC_COUNT - 1) mod TX_DESC_COUNT = ?i" using s(1) by (simp add: n1s(1) TX_DESC_COUNT_def add.commute)
  show "\<not> done_bit nic1" using ok pos by (simp add: done_bit_def n1s(2))
  have "tx_tail (tick wire_hw nic1) = tx_tail nic1" by simp
  then show "done_bit (tick wire_hw nic1)"
    unfolding done_bit_def \<open>tx_tail (tick wire_hw nic1) = _\<close> pos using ok by (simp add: t2 E1000_TXD_STAT_DD_def)
  have "unat ?t' < 32" using unat_next32(1) [OF ok(1)] by simp
  then show "tx_idle (tick wire_hw nic1)"
    using ok n1s(1,3,5) by (simp add: tx_idle_def tx_ok_def c2 n1s(7)) (simp add: t2 e1000_registers)
  show "sent (tick wire_hw nic1) = sent nic @ [f]" by (simp add: t2 sent_def)
  have "e1000_base (tick wire_hw nic1) = e1000_base nic" "rx_head (tick wire_hw nic1) = rx_head nic"
    "rx_desc_ring (nic_rings (tick wire_hw nic1)) = rx_desc_ring ?r" "rx_buffers (nic_rings (tick wire_hw nic1)) = rx_buffers ?r"
    "card_reg (tick wire_hw nic1) E1000_RXDESCHEAD = card_reg nic E1000_RXDESCHEAD"
    "card_reg (tick wire_hw nic1) E1000_RXDESCTAIL = card_reg nic E1000_RXDESCTAIL"
    by (simp_all add: c2 n1s(7)) (simp_all add: t2 n1s e1000_registers)
  note same = rx_cong [OF this]
  show "waiting (tick wire_hw nic1) = waiting nic" "rx_inv (tick wire_hw nic1) = rx_inv nic" by (rule same)+
qed

lemma wire_send:
  assumes "link_ok nic" "length f \<le> 2048"
  shows "\<exists>nic'. e1000_send_packet wire_hw f nic = Some (0, nic') \<and> link_ok nic' \<and> waiting nic' = waiting nic \<and>
    sent nic' = sent nic @ [f]"
proof -
  let ?nic1 = "tx_enqueue wire_hw f nic"
  have i: "tx_idle nic" "rx_inv nic" "length f \<le> TX_BUFFER_SIZE" using assms by (simp_all add: link_ok_def TX_BUFFER_SIZE_def)
  note w = wire_tick [OF i(1,3)]
  have "wait_done wire_hw (Suc (Suc 998)) ?nic1 = (0, tick wire_hw ?nic1)"
    using w(1,2) unfolding wait_done.simps done_bit_def Let_def by simp
  then have "wait_done wire_hw 1000 ?nic1 = (0, tick wire_hw ?nic1)" by simp
  moreover have "e1000_base nic \<noteq> 0" using i(2) by (simp add: rx_inv_def)
  moreover have "ucast (e1000_read_reg wire_hw nic E1000_TXDESCHEAD) = tx_tail nic"
    using i(1) by (simp add: tx_idle_def card_reg_def e1000_read_reg_def card_with_def widen)
  moreover have "(tx_tail nic + 1) mod 32 \<noteq> tx_tail nic"
    using next_slot(4) [of "tx_tail nic"] i(1) by (auto simp: tx_idle_def tx_ok_def)
  ultimately have "e1000_send_packet wire_hw f nic = Some (0, tick wire_hw ?nic1)"
    using i(3) by (simp add: e1000_send_packet_def TX_DESC_COUNT_def Let_def)
  then show ?thesis using w(3-6) i(2) by (simp add: link_ok_def)
qed

lemma wire_receive:
  assumes "link_ok nic" "waiting nic = f # fs"
  shows "\<exists>nic'. e1000_receive_packet wire_hw nic = Some (f, nic') \<and> link_ok nic' \<and> waiting nic' = fs \<and> sent nic' = sent nic"
proof -
  obtain nic' where n: "e1000_receive_packet wire_hw nic = Some (f, nic')" "rx_inv nic'" "waiting nic' = fs"
    using receive_first [of nic f fs transmit] assms by (auto simp: link_ok_def)
  have "tx_tail nic' = tx_tail nic" "tx_desc_ring (nic_rings nic') = tx_desc_ring (nic_rings nic)"
    "tx_buffers (nic_rings nic') = tx_buffers (nic_rings nic)" "e1000_base nic' = e1000_base nic"
    "card_base (nic_dev nic') = card_base (nic_dev nic)" "card_wire (nic_dev nic') = card_wire (nic_dev nic)"
    "card_reg nic' E1000_TXDESCHEAD = card_reg nic E1000_TXDESCHEAD" "card_reg nic' E1000_TXDESCTAIL = card_reg nic E1000_TXDESCTAIL"
    using n(1) by (auto simp: e1000_receive_packet_def Let_def e1000_write_reg_def card_with_def card_reg_def e1000_registers
        split: if_splits)
  with n assms(1) show ?thesis by (auto simp: link_ok_def tx_idle_def tx_ok_def sent_def)
qed

section \<open>Frames arrive, and the state after initialization\<close>

lemma deliver_link:
  assumes "link_ok nic" "fits_buffer f" "length (waiting nic) < 31"
  shows "link_ok (deliver f nic)" "waiting (deliver f nic) = waiting nic @ [f]" "sent (deliver f nic) = sent nic"
proof -
  have d: "tx_tail (deliver f nic) = tx_tail nic" "tx_desc_ring (nic_rings (deliver f nic)) = tx_desc_ring (nic_rings nic)"
    "tx_buffers (nic_rings (deliver f nic)) = tx_buffers (nic_rings nic)" "e1000_base (deliver f nic) = e1000_base nic"
    "card_base (nic_dev (deliver f nic)) = card_base (nic_dev nic)" "card_wire (nic_dev (deliver f nic)) = card_wire (nic_dev nic)"
    "card_reg (deliver f nic) E1000_TXDESCHEAD = card_reg nic E1000_TXDESCHEAD"
    "card_reg (deliver f nic) E1000_TXDESCTAIL = card_reg nic E1000_TXDESCTAIL"
    by (auto simp: deliver_def Let_def e1000_write_reg_def card_with_def card_reg_def e1000_registers)
  show "waiting (deliver f nic) = waiting nic @ [f]" "link_ok (deliver f nic)"
    using deliver_room [of nic f] assms d by (simp_all add: link_ok_def tx_idle_def tx_ok_def)
  show "sent (deliver f nic) = sent nic" by (simp add: sent_def d)
qed

lemma deliver_all_link:
  assumes "link_ok nic" "\<forall>f \<in> set fs. fits_buffer f" "length (waiting nic) + length fs \<le> 31"
  shows "link_ok (fold deliver fs nic) \<and> waiting (fold deliver fs nic) = waiting nic @ fs \<and> sent (fold deliver fs nic) = sent nic"
  using assms
proof (induction fs arbitrary: nic)
  case (Cons f fs)
  note d = deliver_link [of nic f]
  show ?case using Cons.IH [of "deliver f nic"] d Cons.prems by simp
qed simp

text \<open>The transmitter has nothing to do while the driver waits for the reset.\<close>

definition tx_quiet :: "wire_card nic \<Rightarrow> bool" where
  "tx_quiet nic \<longleftrightarrow> card_base (nic_dev nic) = e1000_base nic \<and>
     card_reg nic E1000_TXDESCHEAD = card_reg nic E1000_TXDESCTAIL"

lemma tick_quiet: "tx_quiet nic \<Longrightarrow> tick wire_hw nic = nic"
  by (simp add: tick_def tx_quiet_def card_reg_def card_with_def transmit_def Let_def)

lemma reset_wait_quiet: "tx_quiet nic \<Longrightarrow> reset_wait wire_hw n nic = nic"
  by (induction n) (simp_all add: tick_quiet)

lemma reset_wait_base [simp]: "e1000_base (reset_wait hw n nic) = e1000_base nic"
  by (induction n arbitrary: nic) simp_all

lemma write_keeps:
  "tx_tail (e1000_write_reg (hw :: wire_card hardware) reg v nic) = tx_tail nic"
  "card_base (nic_dev (e1000_write_reg wire_hw reg v nic)) = card_base (nic_dev nic)"
  "card_wire (nic_dev (e1000_write_reg wire_hw reg v nic)) = card_wire (nic_dev nic)"
  by (simp_all add: e1000_write_reg_def card_with_def)

definition same_ports :: "wire_card nic \<Rightarrow> wire_card nic \<Rightarrow> bool" where
  "same_ports nic nic' \<longleftrightarrow> nic_rings nic' = nic_rings nic \<and> tx_tail nic' = tx_tail nic \<and>
     e1000_base nic' = e1000_base nic \<and> card_base (nic_dev nic') = card_base (nic_dev nic) \<and>
     card_wire (nic_dev nic') = card_wire (nic_dev nic)"

lemma setup_rx_ports:
  "same_ports nic (setup_rx wire_hw nic)" "rx_head (setup_rx wire_hw nic) = 0"
  "card_reg (setup_rx wire_hw nic) E1000_RXDESCHEAD = 0" "card_reg (setup_rx wire_hw nic) E1000_RXDESCTAIL = 31"
  by (simp_all add: same_ports_def setup_rx_def e1000_registers RX_DESC_COUNT_def Let_def write_keeps)

lemma setup_tx_ports:
  "same_ports nic (setup_tx wire_hw nic)" "rx_head (setup_tx wire_hw nic) = rx_head nic"
  "card_reg (setup_tx wire_hw nic) E1000_RXDESCHEAD = card_reg nic E1000_RXDESCHEAD"
  "card_reg (setup_tx wire_hw nic) E1000_RXDESCTAIL = card_reg nic E1000_RXDESCTAIL"
  "card_reg (setup_tx wire_hw nic) E1000_TXDESCHEAD = 0" "card_reg (setup_tx wire_hw nic) E1000_TXDESCTAIL = 0"
  by (simp_all add: same_ports_def setup_tx_def e1000_registers Let_def write_keeps)

lemma setup_address_ports:
  "same_ports nic (setup_address wire_hw nic)" "rx_head (setup_address wire_hw nic) = rx_head nic"
  "reg \<in> {E1000_RXDESCHEAD, E1000_RXDESCTAIL, E1000_TXDESCHEAD, E1000_TXDESCTAIL} \<Longrightarrow>
   card_reg (setup_address wire_hw nic) reg = card_reg nic reg"
  by (auto simp: same_ports_def setup_address_def e1000_registers Let_def write_keeps)

lemma same_ports_trans: "same_ports a b \<Longrightarrow> same_ports b c \<Longrightarrow> same_ports a c"
  by (simp add: same_ports_def)

text \<open>The three setups, the two control registers and the link bit.\<close>

lemma finish_init:
  fixes nic :: "wire_card nic" and u v w :: u32
  defines "fin \<equiv> setup_address wire_hw (setup_tx wire_hw (setup_rx wire_hw nic))"
  defines "nic' \<equiv> e1000_write_reg wire_hw E1000_CTRL v
    (e1000_write_reg wire_hw E1000_TCTRL w (e1000_write_reg wire_hw E1000_RCTRL u fin))"
  shows "same_ports nic nic'" "rx_head nic' = 0"
    "card_reg nic' E1000_RXDESCHEAD = 0" "card_reg nic' E1000_RXDESCTAIL = 31"
    "card_reg nic' E1000_TXDESCHEAD = 0" "card_reg nic' E1000_TXDESCTAIL = 0"
proof -
  have fin: "same_ports nic fin" unfolding fin_def
    by (rule same_ports_trans [OF same_ports_trans [OF setup_rx_ports(1) setup_tx_ports(1)] setup_address_ports(1)])
  then show "same_ports nic nic'" by (simp add: nic'_def same_ports_def write_keeps)
  show "rx_head nic' = 0"
    by (simp add: nic'_def fin_def setup_address_ports(2) setup_tx_ports(2) setup_rx_ports(2))
  have "card_reg nic' reg = card_reg (setup_tx wire_hw (setup_rx wire_hw nic)) reg"
    if "reg \<in> {E1000_RXDESCHEAD, E1000_RXDESCTAIL, E1000_TXDESCHEAD, E1000_TXDESCTAIL}" for reg
    using setup_address_ports(3) [OF that] that by (auto simp: nic'_def fin_def e1000_registers)
  then show "card_reg nic' E1000_RXDESCHEAD = 0" "card_reg nic' E1000_RXDESCTAIL = 31"
    "card_reg nic' E1000_TXDESCHEAD = 0" "card_reg nic' E1000_TXDESCTAIL = 0"
    by (simp_all add: setup_tx_ports setup_rx_ports)
qed

text \<open>The base address is the one the device has after bus mastering was enabled.\<close>

lemma init_base:
  assumes "e1000_init hw nic = (0, nic')" "pci_find_device E1000_VENDOR_ID E1000_DEVICE_ID (nic_devices nic) = Some e"
  shows "e1000_base nic' =
    pci_read_dword (hw_inl hw)
      (pci_write_word (hw_inl hw) (hw_outl hw) (nic_dev nic) (pd_bus e) (pd_slot e) (pd_func e) PCI_COMMAND
        (pci_read_word (hw_inl hw) (nic_dev nic) (pd_bus e) (pd_slot e) (pd_func e) PCI_COMMAND OR 4))
      (pd_bus e) (pd_slot e) (pd_func e) (PCI_BASE_ADDRESS 0) AND 0xFFFFFFF0"
  using assms by (auto simp: e1000_init_def Let_def setup_rx_def setup_tx_def setup_address_def)

lemma init_link:
  assumes "e1000_init wire_hw nic = (0, nic')" "e1000_base nic' \<noteq> 0" "buffers_ok (nic_rings nic)"
    "length (tx_buffers (nic_rings nic)) = 32" "tx_tail nic = 0" "card_base (nic_dev nic) = e1000_base nic'"
    "card_regs (nic_dev nic) (e1000_base nic' + E1000_TXDESCHEAD) = card_regs (nic_dev nic) (e1000_base nic' + E1000_TXDESCTAIL)"
  shows "link_ok nic'" "waiting nic' = []" "sent nic' = sent nic"
proof -
  obtain e where e: "pci_find_device E1000_VENDOR_ID E1000_DEVICE_ID (nic_devices nic) = Some e"
    using assms(1) by (auto simp: e1000_init_def split: option.splits)
  let ?d = "pci_write_word (hw_inl wire_hw) (hw_outl wire_hw) (nic_dev nic) (pd_bus e) (pd_slot e) (pd_func e) PCI_COMMAND
    (pci_read_word (hw_inl wire_hw) (nic_dev nic) (pd_bus e) (pd_slot e) (pd_func e) PCI_COMMAND OR 4)"
  let ?nic = "e1000_write_reg wire_hw E1000_CTRL E1000_CTRL_RST (nic\<lparr>nic_dev := ?d, e1000_base := e1000_base nic'\<rparr>)"
  have base: "e1000_base nic' = pci_read_dword (hw_inl wire_hw) ?d (pd_bus e) (pd_slot e) (pd_func e) (PCI_BASE_ADDRESS 0) AND 0xFFFFFFF0"
    using init_base [OF assms(1) e] .
  have d: "card_regs ?d = card_regs (nic_dev nic)" "card_base ?d = card_base (nic_dev nic)" "card_wire ?d = card_wire (nic_dev nic)"
    by (simp_all add: pci_write_word_def pci_config_write_def card_with_def Let_def)
  have "tx_quiet ?nic"
    using assms(6,7) d by (simp add: tx_quiet_def card_reg_def e1000_registers e1000_write_reg_def card_with_def)
  note w = reset_wait_quiet [OF this, of 1000]
  let ?start = "?nic\<lparr>nic_rings := init_rings wire_hw (nic_rings ?nic)\<rparr>"
  let ?fin = "e1000_write_reg wire_hw E1000_TCTRL tctl_flags (e1000_write_reg wire_hw E1000_RCTRL rctl_flags
    (setup_address wire_hw (setup_tx wire_hw (setup_rx wire_hw ?start))))"
  have "e1000_init wire_hw nic =
      (0, e1000_write_reg wire_hw E1000_CTRL (e1000_read_reg wire_hw ?fin E1000_CTRL OR E1000_CTRL_SLU) ?fin)"
    by (simp only: e1000_init_def e Let_def option.case base [symmetric] w)
  then have n': "nic' = e1000_write_reg wire_hw E1000_CTRL (e1000_read_reg wire_hw ?fin E1000_CTRL OR E1000_CTRL_SLU) ?fin"
    using assms(1) by simp
  note f = finish_init [where nic = ?start and v = "e1000_read_reg wire_hw ?fin E1000_CTRL OR E1000_CTRL_SLU"
      and w = tctl_flags and u = rctl_flags,
      folded n']
  have h: "rx_head nic' = 0" and c: "card_reg nic' E1000_RXDESCHEAD = 0" "card_reg nic' E1000_RXDESCTAIL = 31"
      "card_reg nic' E1000_TXDESCHEAD = 0" "card_reg nic' E1000_TXDESCTAIL = 0" using f by simp_all
  have r: "nic_rings nic' = init_rings wire_hw (nic_rings nic)" "tx_tail nic' = 0"
    "card_base (nic_dev nic') = e1000_base nic'" "card_wire (nic_dev nic') = card_wire (nic_dev nic)"
    using f(1) assms(5,6) d by (simp_all add: same_ports_def write_keeps)
  have p: "pending nic' = 0" by (simp add: pending_def c h)
  have "rx_inv nic'"
    using assms(2,3)
    by (simp add: rx_inv_def p r h c init_rings_def buffers_ok_def done_at_def slot_def RX_DESC_COUNT_def)
  moreover have "tx_idle nic'" using assms(4) by (simp add: tx_idle_def tx_ok_def c r init_rings_def TX_DESC_COUNT_def)
  ultimately show "link_ok nic'" "waiting nic' = []" "sent nic' = sent nic"
    by (simp_all add: link_ok_def waiting_def p sent_def r)
qed

end
