(* ===== verification/Wire.thy ===== *)
theory Wire
  imports Session WireCard
begin

unbundle bit_operations_syntax

text \<open>
  From the frames in the card's receive ring to the frames on the wire. The locale \<open>link\<close> says what
  the network code relies on in the card and its driver; on top of it the whole path is followed through:
  reception, \<open>dispatch\<close>, TCP, the output of segments in IP packets in Ethernet frames. The
  interpretation on the transmitting card of \<open>WireCard\<close> discharges the contract.
\<close>

section \<open>Frames and segments\<close>

text \<open>
  The frame goes from this machine to \<open>mac\<close>, its IP header and its TCP segment verify, and the
  segment reads as \<open>sg\<close>.
\<close>

definition frame_carries :: "u8 list \<Rightarrow> u8 list \<Rightarrow> segment \<Rightarrow> bool" where
  "frame_carries mac frame sg \<longleftrightarrow>
     (\<exists>ip seg. frame = mac @ NET_MAC_ADDR @ [8, 0] @ ip @ seg \<and>
        ip_checksum ip = 0 \<and> length ip = 20 \<and> be16 (ld16 ip 2) = of_nat (20 + length seg) \<and> ip ! 9 = IP_PROTO_TCP \<and>
        be32 (ld32 ip 12) = NET_IP_ADDR \<and> be32 (ld32 ip 16) = sg_dst_ip sg \<and>
        tcp_checksum NET_IP_ADDR (sg_dst_ip sg) seg = 0 \<and> tcp_payload seg = sg_payload sg \<and>
        read_tcp_header seg = \<lparr>th_src_port = sg_src_port sg, th_dst_port = sg_dst_port sg, th_seq = sg_seq sg,
          th_ack = sg_ack sg, th_data_offset = 0x50, th_flags = sg_flags sg\<rparr>)"

definition carried :: "arp_entry list \<Rightarrow> u8 list \<Rightarrow> segment \<Rightarrow> bool" where
  "carried tab frame sg \<longleftrightarrow> (\<exists>mac. arp_find (sg_dst_ip sg) tab = Some mac \<and> frame_carries mac frame sg)"

text \<open>The segment fits a frame and the hardware address of its receiver is known.\<close>

definition sendable :: "arp_entry list \<Rightarrow> segment \<Rightarrow> bool" where
  "sendable tab sg \<longleftrightarrow> length (sg_payload sg) \<le> 1994 \<and> arp_find (sg_dst_ip sg) tab \<noteq> None"

text \<open>
  What \<open>n\<close> rounds of the loop hand to TCP, when these segments wait in the ring and \<open>t\<close> is the
  tick counter.
\<close>

fun timeline :: "nat \<Rightarrow> u32 \<Rightarrow> (u32 \<times> u8 list) list \<Rightarrow> net_event list" where
  "timeline 0 t segs = []"
| "timeline (Suc n) t segs =
     (case segs of [] \<Rightarrow> [] | (ip, packet) # _ \<Rightarrow> [Segment ip packet]) @
     (if 100000 \<le> t + 1 then Tick # timeline n 0 (tl segs) else timeline n (t + 1) (tl segs))"

definition frame_events :: "(u32 \<times> u8 list) list \<Rightarrow> net_event list" where
  "frame_events segs = (case segs of [] \<Rightarrow> [] | (ip, packet) # _ \<Rightarrow> [Segment ip packet])"

definition clock :: "u32 \<Rightarrow> u32" where
  "clock t = (if 100000 \<le> t + 1 then 0 else t + 1)"

definition tick_events :: "u32 \<Rightarrow> net_event list" where
  "tick_events t = (if 100000 \<le> t + 1 then [Tick] else [])"

lemma timeline_Suc: "timeline (Suc n) t segs = frame_events segs @ tick_events t @ timeline n (clock t) (tl segs)"
  by (simp add: frame_events_def tick_events_def clock_def)

text \<open>The packet in an ARP frame is stored, and answered when it asks for the address of this machine.\<close>

definition arp_valid :: "arp_packet_t \<Rightarrow> bool" where
  "arp_valid a \<longleftrightarrow> arp_ok a \<and> be16 (arp_htype a) = 1 \<and> be16 (arp_ptype a) = ETHERTYPE_IP"

definition asks_us :: "arp_packet_t \<Rightarrow> bool" where
  "asks_us a \<longleftrightarrow> be16 (arp_oper a) = 1 \<and> be32 (arp_tpa a) = NET_IP_ADDR"

definition arp_reply :: "arp_packet_t \<Rightarrow> u8 list" where
  "arp_reply a = eth_frame ETHERTYPE_ARP (arp_sha a) (arp_packet 2 (arp_sha a) (be32 (arp_spa a)))"

section \<open>What the network code relies on\<close>

locale link =
  fixes hw :: "'d hardware"
    and ok :: "'d nic \<Rightarrow> bool"
    and inbox :: "'d nic \<Rightarrow> u8 list list"
    and wire :: "'d nic \<Rightarrow> u8 list list"
  assumes send: "ok nic \<Longrightarrow> length f \<le> 2048 \<Longrightarrow>
      \<exists>nic'. e1000_send_packet hw f nic = Some (0, nic') \<and> ok nic' \<and> inbox nic' = inbox nic \<and> wire nic' = wire nic @ [f]"
    and receive: "ok nic \<Longrightarrow> inbox nic = f # fs \<Longrightarrow>
      \<exists>nic'. e1000_receive_packet hw nic = Some (f, nic') \<and> ok nic' \<and> inbox nic' = fs \<and> wire nic' = wire nic"
    and receive_none: "ok nic \<Longrightarrow> inbox nic = [] \<Longrightarrow> e1000_receive_packet hw nic = None"
begin

text \<open>The frames \<open>fs\<close> were sent between the two states, and nothing was received.\<close>

definition sends :: "'d net \<Rightarrow> u8 list list \<Rightarrow> 'd net \<Rightarrow> bool" where
  "sends st fs st' \<longleftrightarrow> ok (net_nic st') \<and> inbox (net_nic st') = inbox (net_nic st) \<and>
     wire (net_nic st') = wire (net_nic st) @ fs \<and> arp_table st' = arp_table st \<and> net_tcp st' = net_tcp st"

lemma sends_trans: "sends st fs st' \<Longrightarrow> sends st' gs st'' \<Longrightarrow> sends st (fs @ gs) st''"
  by (simp add: sends_def)

lemma send_eth:
  assumes "ok (net_nic st)" "length payload \<le> 2034" "length mac = 6"
  shows "\<exists>st'. net_send_eth hw et mac payload st = Some (0, st') \<and> sends st [eth_frame et mac payload] st'"
proof -
  have "length (eth_frame et mac payload) \<le> 2048" using assms(2,3) by (simp add: eth_frame_def net_sizes)
  from send [OF assms(1) this] obtain nic' where
    "e1000_send_packet hw (eth_frame et mac payload) (net_nic st) = Some (0, nic')" "ok nic'"
    "inbox nic' = inbox (net_nic st)" "wire nic' = wire (net_nic st) @ [eth_frame et mac payload]" by blast
  with assms(2) show ?thesis by (simp add: net_send_eth_def net_sizes sends_def)
qed

lemma send_tcp:
  assumes "ok (net_nic st)" "arp_inv (arp_table st)" "sendable (arp_table st) sg"
  shows "\<exists>st' f. net_send_tcp hw sg st = Some (0, st') \<and> sends st [f] st' \<and> carried (arp_table st) f sg"
proof -
  from assms(3) obtain i where i: "length (sg_payload sg) \<le> 1994" "arp_lookup (sg_dst_ip sg) (arp_table st) = Some i"
    by (auto simp: sendable_def arp_find_def)
  let ?mac = "ae_mac (arp_table st ! i)"
  have mac: "length ?mac = 6" using lookup_Some [OF i(2)] assms(2) by (simp add: arp_inv_def)
  from net_send_tcp_wire_frame [OF i mac, of hw] obtain ip seg where
    f: "net_send_tcp hw sg st = map_option (\<lambda>(rc, nic). (rc, st\<lparr>ip_id := ip_id st + 1, net_nic := nic\<rparr>))
        (e1000_send_packet hw (?mac @ NET_MAC_ADDR @ [8, 0] @ ip @ seg) (net_nic st))"
      "frame_carries ?mac (?mac @ NET_MAC_ADDR @ [8, 0] @ ip @ seg) sg" "length ip = 20" "length seg = 20 + length (sg_payload sg)"
    unfolding frame_carries_def by blast
  let ?f = "?mac @ NET_MAC_ADDR @ [8, 0] @ ip @ seg"
  have "length ?f \<le> 2048" using mac f(3,4) i(1) by simp
  from send [OF assms(1) this] obtain nic' where
    "e1000_send_packet hw ?f (net_nic st) = Some (0, nic')" "ok nic'" "inbox nic' = inbox (net_nic st)"
    "wire nic' = wire (net_nic st) @ [?f]" by blast
  moreover have "carried (arp_table st) ?f sg" using f(2) i(2) by (auto simp: carried_def arp_find_def)
  ultimately show ?thesis
    by (intro exI [of _ "st\<lparr>ip_id := ip_id st + 1, net_nic := nic'\<rparr>"] exI [of _ ?f]) (simp add: f(1) sends_def)
qed

lemma send_all:
  assumes "ok (net_nic st)" "arp_inv (arp_table st)" "\<forall>sg \<in> set sgs. sendable (arp_table st) sg"
  shows "\<exists>st' fs. send_segments hw sgs st = Some st' \<and> sends st fs st' \<and> list_all2 (carried (arp_table st)) fs sgs"
  using assms
proof (induction sgs arbitrary: st)
  case Nil
  then show ?case by (auto simp: sends_def)
next
  case (Cons sg sgs)
  obtain st1 f where 1: "net_send_tcp hw sg st = Some (0, st1)" "sends st [f] st1" "carried (arp_table st) f sg"
    using send_tcp [of st sg] Cons.prems by auto
  have tab: "arp_table st1 = arp_table st" "ok (net_nic st1)" using 1(2) by (simp_all add: sends_def)
  with Cons.IH [of st1] Cons.prems obtain st2 fs where
    "send_segments hw sgs st1 = Some st2" "sends st1 fs st2" "list_all2 (carried (arp_table st)) fs sgs" by auto
  with 1 sends_trans [OF 1(2)] show ?case by (intro exI [of _ st2] exI [of _ "f # fs"]) auto
qed

text \<open>A segment to an address that is not known is dropped, and the address is asked for.\<close>

lemma send_unknown:
  assumes "ok (net_nic st)" "length (sg_payload sg) \<le> 1994" "arp_find (sg_dst_ip sg) (arp_table st) = None"
  shows "\<exists>st'. net_send_tcp hw sg st = Some (-1, st') \<and>
    sends st [eth_frame ETHERTYPE_ARP broadcast_mac (arp_packet 1 broadcast_mac (sg_dst_ip sg))] st'"
proof -
  let ?p = "arp_packet 1 broadcast_mac (sg_dst_ip sg)" and ?st = "st\<lparr>ip_id := ip_id st + 1\<rparr>"
  have none: "arp_lookup (sg_dst_ip sg) (arp_table st) = None" using assms(3) by (simp add: arp_find_def)
  obtain st' where "net_send_eth hw ETHERTYPE_ARP broadcast_mac ?p ?st = Some (0, st')"
    "sends ?st [eth_frame ETHERTYPE_ARP broadcast_mac ?p] st'"
    using send_eth [of ?st ?p broadcast_mac ETHERTYPE_ARP] assms(1) by auto
  with none assms(2) show ?thesis
    by (intro exI [of _ st']) (simp add: net_send_tcp_def net_send_ip_def arp_resolve_def net_sizes sends_def)
qed

lemma dispatch_arp:
  assumes "ok (net_nic st)" "eth_ok e" "be16 (eth_ethertype e) = ETHERTYPE_ARP" "arp_valid a"
  shows "\<exists>st'. dispatch hw (eth_bytes e @ arp_bytes a @ pad) st = Some st' \<and> ok (net_nic st') \<and>
    inbox (net_nic st') = inbox (net_nic st) \<and>
    wire (net_nic st') = wire (net_nic st) @ (if asks_us a then [arp_reply a] else []) \<and>
    arp_table st' = arp_store (be32 (arp_spa a)) (arp_sha a) (arp_table st) \<and> net_tcp st' = net_tcp st"
proof -
  let ?p = "arp_bytes a @ pad" and ?st = "st\<lparr>arp_table := arp_store (be32 (arp_spa a)) (arp_sha a) (arp_table st)\<rparr>"
  have a: "arp_ok a" using assms(4) by (simp add: arp_valid_def)
  have l: "length (arp_bytes a) = 28" "length (eth_bytes e) = 14"
    by (rule arp_hdr.length_bytes [OF a], rule eth_hdr.length_bytes [OF assms(2)])
  have "dispatch hw (eth_bytes e @ ?p) st = arp_receive hw ?p st"
    using eth_hdr.read_bytes [OF assms(2), of ?p] eth_hdr.rest_bytes [OF assms(2), of ?p] assms(3) l
    by (simp add: dispatch_def net_sizes Let_def del: eth_bytes_def arp_bytes_def read_eth_def)
  also have "\<dots> = (if asks_us a
      then map_option snd (net_send_eth hw ETHERTYPE_ARP (arp_sha a) (arp_packet 2 (arp_sha a) (be32 (arp_spa a))) ?st)
      else Some ?st)"
    using arp_hdr.read_bytes [OF a, of pad] assms(4) l
    by (simp add: arp_receive_def net_sizes Let_def asks_us_def arp_valid_def del: arp_bytes_def read_arp_def)
  finally have d: "dispatch hw (eth_bytes e @ ?p) st = \<dots>" .
  show ?thesis
  proof (cases "asks_us a")
    case True
    have "length (arp_sha a) = 6" using a by (simp add: header_simps)
    then obtain st' where "net_send_eth hw ETHERTYPE_ARP (arp_sha a) (arp_packet 2 (arp_sha a) (be32 (arp_spa a))) ?st = Some (0, st')"
      "sends ?st [arp_reply a] st'"
      using send_eth [of ?st "arp_packet 2 (arp_sha a) (be32 (arp_spa a))" "arp_sha a" ETHERTYPE_ARP] assms(1)
      by (auto simp: arp_reply_def)
    with d True show ?thesis by (simp add: sends_def)
  qed (use d assms(1) in simp)
qed

definition moves :: "'d net \<Rightarrow> tcp \<Rightarrow> u8 list list \<Rightarrow> 'd net \<Rightarrow> bool" where
  "moves st tcp fs st' \<longleftrightarrow> ok (net_nic st') \<and> wire (net_nic st') = wire (net_nic st) @ fs \<and>
     arp_table st' = arp_table st \<and> net_tcp st' = tcp"

text \<open>One round of the loop: the next frame is answered, then the clock may tick.\<close>

lemma frame_round:
  assumes "ok (net_nic st)" "arp_inv (arp_table st)" "map tcp_of_frame (inbox (net_nic st)) = map Some segs"
    "tcp_run (frame_events segs) (net_tcp st) = Some (tcp, outs)" "\<forall>sg \<in> set (concat outs). sendable (arp_table st) sg"
  shows "\<exists>st' fs. (case network_receive_packet hw st of None \<Rightarrow> Some st | Some (frame, st) \<Rightarrow> dispatch hw frame st) = Some st' \<and>
    moves st tcp fs st' \<and> inbox (net_nic st') = tl (inbox (net_nic st)) \<and> list_all2 (carried (arp_table st)) fs (concat outs)"
proof (cases "inbox (net_nic st)")
  case Nil
  then have "network_receive_packet hw st = None" "segs = []"
    using receive_none [OF assms(1)] assms(3) by (simp_all add: network_receive_packet_def)
  with Nil assms show ?thesis by (auto simp: frame_events_def moves_def)
next
  case (Cons f fs)
  obtain ip p segs' where s: "segs = (ip, p) # segs'" "tcp_of_frame f = Some (ip, p)"
    using assms(3) Cons by (cases segs) auto
  obtain nic' where n: "e1000_receive_packet hw (net_nic st) = Some (f, nic')" "ok nic'" "inbox nic' = fs"
    "wire nic' = wire (net_nic st)" using receive [OF assms(1) Cons] by blast
  obtain out where o: "tcp_receive p ip (net_tcp st) = Some (tcp, out)" "outs = [out]"
    using assms(4) s(1) by (auto simp: frame_events_def bind_eq_Some)
  let ?st = "st\<lparr>net_nic := nic', tcp_current_remote_ip := ip, net_tcp := tcp\<rparr>"
  obtain st' ws where w: "send_segments hw out ?st = Some st'" "sends ?st ws st'" "list_all2 (carried (arp_table st)) ws out"
    using send_all [of ?st out] n(2) assms(2,5) o(2) by auto
  have "dispatch hw f (st\<lparr>net_nic := nic'\<rparr>) = Some st'"
    using dispatch_segment [OF s(2), of hw "st\<lparr>net_nic := nic'\<rparr>"] o(1) w(1) by simp
  with n w(2,3) o(2) Cons show ?thesis by (auto simp: network_receive_packet_def moves_def sends_def)
qed

lemma one_round:
  assumes "ok (net_nic st)" "arp_inv (arp_table st)" "map tcp_of_frame (inbox (net_nic st)) = map Some segs"
    "tcp_run (frame_events segs) (net_tcp st) = Some (tcp1, outs1)" "tcp_run (tick_events t) tcp1 = Some (tcp, outs2)"
    "\<forall>sg \<in> set (concat (outs1 @ outs2)). sendable (arp_table st) sg"
  shows "\<exists>st' fs. network_round hw (st, t) = Some (st', clock t) \<and> moves st tcp fs st' \<and>
    inbox (net_nic st') = tl (inbox (net_nic st)) \<and> list_all2 (carried (arp_table st)) fs (concat (outs1 @ outs2))"
proof -
  obtain st1 fs1 where 1: "(case network_receive_packet hw st of None \<Rightarrow> Some st | Some (frame, st) \<Rightarrow> dispatch hw frame st) = Some st1"
    "moves st tcp1 fs1 st1" "inbox (net_nic st1) = tl (inbox (net_nic st))" "list_all2 (carried (arp_table st)) fs1 (concat outs1)"
    using frame_round [OF assms(1-4)] assms(6) by auto
  note r = network_round_def 1(1)
  show ?thesis
  proof (cases "100000 \<le> t + 1")
    case False
    with assms(5) have "tcp = tcp1" "outs2 = []" by (simp_all add: tick_events_def)
    with False 1 show ?thesis by (intro exI [of _ st1] exI [of _ fs1]) (simp add: network_round_def clock_def Let_def)
  next
    case True
    obtain out where o: "tcp_periodic tcp1 = (tcp, out)" "outs2 = [out]"
      using assms(5) True by (auto simp: tick_events_def bind_eq_Some split: prod.splits)
    let ?st = "st1\<lparr>net_tcp := tcp\<rparr>"
    have m: "ok (net_nic ?st)" "arp_table ?st = arp_table st" "net_tcp st1 = tcp1" using 1(2) by (simp_all add: moves_def)
    obtain st2 fs2 where w: "send_segments hw out ?st = Some st2" "sends ?st fs2 st2" "list_all2 (carried (arp_table st)) fs2 out"
      using send_all [of ?st out] m assms(2,6) o(2) by auto
    have "network_round hw (st, t) = Some (st2, clock t)"
      using True 1(1) o(1) w(1) m(3) by (simp add: network_round_def clock_def Let_def)
    moreover have "moves st tcp (fs1 @ fs2) st2" "inbox (net_nic st2) = tl (inbox (net_nic st))"
      using 1(2,3) w(2) by (simp_all add: moves_def sends_def)
    moreover have "list_all2 (carried (arp_table st)) (fs1 @ fs2) (concat (outs1 @ outs2))"
      using 1(4) w(3) o(2) by (simp add: list_all2_appendI)
    ultimately show ?thesis by blast
  qed
qed

text \<open>Any number of rounds.\<close>

lemma rounds_on_wire:
  assumes "ok (net_nic st)" "arp_inv (arp_table st)" "map tcp_of_frame (inbox (net_nic st)) = map Some segs"
    "tcp_run (timeline n t segs) (net_tcp st) = Some (tcp, outs)" "\<forall>sg \<in> set (concat outs). sendable (arp_table st) sg"
  shows "\<exists>st' t' fs. network_rounds hw n (st, t) = Some (st', t') \<and> moves st tcp fs st' \<and>
    inbox (net_nic st') = drop n (inbox (net_nic st)) \<and> list_all2 (carried (arp_table st)) fs (concat outs)"
  using assms
proof (induction n arbitrary: st t segs outs)
  case 0
  then show ?case by (auto simp: moves_def)
next
  case (Suc n)
  from Suc.prems(4) obtain tcp1 outs1 tcp2 outs2 outs3 where
    r: "tcp_run (frame_events segs) (net_tcp st) = Some (tcp1, outs1)" "tcp_run (tick_events t) tcp1 = Some (tcp2, outs2)"
      "tcp_run (timeline n (clock t) (tl segs)) tcp2 = Some (tcp, outs3)" "outs = outs1 @ outs2 @ outs3"
    unfolding timeline_Suc tcp_run_append by (auto simp: bind_eq_Some)
  have sendable: "\<forall>sg \<in> set (concat (outs1 @ outs2)). sendable (arp_table st) sg" using Suc.prems(5) r(4) by auto
  obtain st1 fs1 where 1: "network_round hw (st, t) = Some (st1, clock t)" "moves st tcp2 fs1 st1"
    "inbox (net_nic st1) = tl (inbox (net_nic st))" "list_all2 (carried (arp_table st)) fs1 (concat (outs1 @ outs2))"
    using one_round [OF Suc.prems(1-3) r(1,2) sendable] by blast
  have m: "ok (net_nic st1)" "arp_table st1 = arp_table st" "net_tcp st1 = tcp2" using 1(2) by (simp_all add: moves_def)
  have "map tcp_of_frame (inbox (net_nic st1)) = map Some (tl segs)"
    using Suc.prems(3) 1(3) by (metis map_tl)
  from Suc.IH [OF _ _ this, of "clock t" outs3] m Suc.prems(2,5) r(3,4) obtain st2 t2 fs2 where
    2: "network_rounds hw n (st1, clock t) = Some (st2, t2)" "moves st1 tcp fs2 st2"
      "inbox (net_nic st2) = drop n (inbox (net_nic st1))" "list_all2 (carried (arp_table st)) fs2 (concat outs3)" by auto
  have "moves st tcp (fs1 @ fs2) st2" "inbox (net_nic st2) = drop (Suc n) (inbox (net_nic st))"
    using 1(2,3) 2(2,3) by (simp_all add: moves_def drop_Suc)
  moreover have "list_all2 (carried (arp_table st)) (fs1 @ fs2) (concat outs)"
    using list_all2_appendI [OF 1(4) 2(4)] r(4) by simp
  ultimately show ?case using 1(1) 2(1) by auto
qed

end

interpretation wired: link wire_hw link_ok waiting sent
proof
  show "e1000_receive_packet wire_hw nic = None" if "link_ok nic" "waiting nic = []" for nic
    using that receive_empty [of nic transmit] by (simp add: link_ok_def)
qed (use wire_send wire_receive in \<open>blast+\<close>)

end
