(* ===== verification/Exchange.thy ===== *)
theory Exchange
  imports Wire
begin

unbundle bit_operations_syntax

text \<open>
  What a peer sees on the wire, on the transmitting card: the segments TCP hands out become frames, the address
  resolution answers and asks, and a whole HTTP exchange from the receive ring to the wire, after the peer has made
  itself known by ARP or before.
\<close>

section \<open>Output and address resolution\<close>

text \<open>
  \<^bold>\<open>C13.\<close> Whatever segments wait in the receive ring and however often the clock ticks: if the events
  of the next \<open>n\<close> rounds move TCP from its state to another with certain output, and every segment of this
  output fits a frame and goes to a known address, then the rounds of the network loop take the frames from
  the ring in order, leave TCP in exactly that state and put on the wire exactly one frame for every segment, in the
  order TCP handed them out, each of which verifies and reads back as its segment.
\<close>

theorem network_output_on_wire:
  assumes "link_ok (net_nic st)" "net_ok st" "map tcp_of_frame (waiting (net_nic st)) = map Some segs"
    "tcp_run (timeline n t segs) (net_tcp st) = Some (tcp, outs)" "\<forall>sg \<in> set (concat outs). sendable (arp_table st) sg"
  shows "\<exists>st' t' fs. network_rounds wire_hw n (st, t) = Some (st', t') \<and> net_tcp st' = tcp \<and>
    link_ok (net_nic st') \<and> arp_table st' = arp_table st \<and> waiting (net_nic st') = drop n (waiting (net_nic st)) \<and>
    sent (net_nic st') = sent (net_nic st) @ fs \<and> list_all2 (carried (arp_table st)) fs (concat outs)"
  using wired.rounds_on_wire [OF assms(1) _ assms(3-5)] assms(2) by (auto simp: net_ok_def wired.moves_def)

text \<open>The frame asks everybody for the hardware address of \<open>ip\<close>; the frame answers the packet \<open>a\<close>.\<close>

definition asks_for :: "u32 \<Rightarrow> u8 list \<Rightarrow> bool" where
  "asks_for ip f \<longleftrightarrow> read_eth f = \<lparr>eth_dst = broadcast_mac, eth_src = NET_MAC_ADDR, eth_ethertype = be16 ETHERTYPE_ARP\<rparr> \<and>
     read_arp (drop 14 f) = \<lparr>arp_htype = be16 1, arp_ptype = be16 ETHERTYPE_IP, arp_hlen = 6, arp_plen = 4,
       arp_oper = be16 1, arp_sha = NET_MAC_ADDR, arp_spa = be32 NET_IP_ADDR, arp_tha = broadcast_mac, arp_tpa = be32 ip\<rparr>"

definition answers_arp :: "arp_packet_t \<Rightarrow> u8 list \<Rightarrow> bool" where
  "answers_arp a f \<longleftrightarrow> read_eth f = \<lparr>eth_dst = arp_sha a, eth_src = NET_MAC_ADDR, eth_ethertype = be16 ETHERTYPE_ARP\<rparr> \<and>
     read_arp (drop 14 f) = \<lparr>arp_htype = be16 1, arp_ptype = be16 ETHERTYPE_IP, arp_hlen = 6, arp_plen = 4,
       arp_oper = be16 2, arp_sha = NET_MAC_ADDR, arp_spa = be32 NET_IP_ADDR, arp_tha = arp_sha a, arp_tpa = arp_spa a\<rparr>"

lemma arp_frame:
  fixes mac tha :: "u8 list" and oper :: u16 and tpa :: u32
  assumes "length mac = 6" "length tha = 6"
  defines "f \<equiv> eth_frame ETHERTYPE_ARP mac (arp_packet oper tha tpa)"
  shows "read_eth f = \<lparr>eth_dst = mac, eth_src = NET_MAC_ADDR, eth_ethertype = be16 ETHERTYPE_ARP\<rparr>"
    "read_arp (drop 14 f) = \<lparr>arp_htype = be16 1, arp_ptype = be16 ETHERTYPE_IP, arp_hlen = 6, arp_plen = 4,
       arp_oper = be16 oper, arp_sha = NET_MAC_ADDR, arp_spa = be32 NET_IP_ADDR, arp_tha = tha, arp_tpa = be32 tpa\<rparr>"
proof -
  let ?e = "\<lparr>eth_dst = mac, eth_src = NET_MAC_ADDR, eth_ethertype = be16 ETHERTYPE_ARP\<rparr>"
  let ?a = "\<lparr>arp_htype = be16 1, arp_ptype = be16 ETHERTYPE_IP, arp_hlen = 6, arp_plen = 4, arp_oper = be16 oper,
      arp_sha = NET_MAC_ADDR, arp_spa = be32 NET_IP_ADDR, arp_tha = tha, arp_tpa = be32 tpa\<rparr>"
  have ok: "eth_ok ?e" "arp_ok ?a" using assms(1,2) by (simp_all add: header_simps)
  have f: "f = eth_bytes ?e @ arp_bytes ?a @ []"
    using assms(1,2) by (simp add: f_def eth_frame_def arp_packet_def net_sizes)
  show "read_eth f = ?e" "read_arp (drop 14 f) = ?a"
    unfolding f eth_hdr.read_bytes [OF ok(1)] eth_hdr.rest_bytes [OF ok(1)] arp_hdr.read_bytes [OF ok(2)] by simp_all
qed

lemma asked: "asks_for ip (eth_frame ETHERTYPE_ARP broadcast_mac (arp_packet 1 broadcast_mac ip))"
  unfolding asks_for_def by (intro conjI arp_frame) simp_all

lemma answered: "arp_valid a \<Longrightarrow> answers_arp a (arp_reply a)"
  using arp_frame [of "arp_sha a" "arp_sha a" 2 "be32 (arp_spa a)"]
  by (simp add: answers_arp_def arp_reply_def arp_valid_def header_simps del: read_eth_def read_arp_def)

lemma arp_heard:
  assumes "link_ok (net_nic st)" "net_ok st" "eth_ok e" "be16 (eth_ethertype e) = ETHERTYPE_ARP" "arp_valid a"
  shows "\<exists>st' fs. dispatch wire_hw (eth_bytes e @ arp_bytes a @ pad) st = Some st' \<and>
    arp_find (be32 (arp_spa a)) (arp_table st') = Some (arp_sha a) \<and> sent (net_nic st') = sent (net_nic st) @ fs \<and>
    (if asks_us a then \<exists>f. fs = [f] \<and> answers_arp a f else fs = []) \<and>
    net_tcp st' = net_tcp st \<and> waiting (net_nic st') = waiting (net_nic st) \<and> link_ok (net_nic st') \<and> net_ok st'"
proof -
  have sha: "length (arp_sha a) = 6" using assms(5) by (simp add: arp_valid_def header_simps)
  obtain st' where s: "dispatch wire_hw (eth_bytes e @ arp_bytes a @ pad) st = Some st'" "link_ok (net_nic st')"
      "waiting (net_nic st') = waiting (net_nic st)"
      "sent (net_nic st') = sent (net_nic st) @ (if asks_us a then [arp_reply a] else [])"
      "arp_table st' = arp_store (be32 (arp_spa a)) (arp_sha a) (arp_table st)" "net_tcp st' = net_tcp st"
    using wired.dispatch_arp [OF assms(1,3-5), of pad] by blast
  have "arp_find (be32 (arp_spa a)) (arp_table st') = Some (arp_sha a)" "net_ok st'"
    using arp_find_store arp_store_inv assms(2) sha by (simp_all add: s(5) net_ok_def)
  with s answered [OF assms(5)] show ?thesis
    by (intro exI [of _ st'] exI [of _ "if asks_us a then [arp_reply a] else []"]) simp
qed

text \<open>
  \<^bold>\<open>C36.\<close> Address resolution on the wire. A segment to an unknown address is not sent; in its place
  one broadcast frame asks for the address. A valid ARP packet, whatever its operation, makes the address of its sender known; if it
  is a request for the address of this machine, exactly one frame answers it, to the sender's hardware address, and
  that frame reads as the reply with this machine's two addresses. Nothing else is sent and TCP is not touched.
\<close>

theorem arp_exchange:
  assumes "link_ok (net_nic st)" "net_ok st"
  shows "(length (sg_payload sg) \<le> 1994 \<and> arp_find (sg_dst_ip sg) (arp_table st) = None \<longrightarrow>
      (\<exists>st' f. net_send_tcp wire_hw sg st = Some (-1, st') \<and> sent (net_nic st') = sent (net_nic st) @ [f] \<and>
        asks_for (sg_dst_ip sg) f \<and> net_tcp st' = net_tcp st \<and> link_ok (net_nic st') \<and> net_ok st')) \<and>
    (eth_ok e \<and> be16 (eth_ethertype e) = ETHERTYPE_ARP \<and> arp_valid a \<longrightarrow>
      (\<exists>st' fs. dispatch wire_hw (eth_bytes e @ arp_bytes a @ pad) st = Some st' \<and>
        arp_find (be32 (arp_spa a)) (arp_table st') = Some (arp_sha a) \<and> sent (net_nic st') = sent (net_nic st) @ fs \<and>
        (if asks_us a then \<exists>f. fs = [f] \<and> answers_arp a f else fs = []) \<and>
        net_tcp st' = net_tcp st \<and> link_ok (net_nic st') \<and> net_ok st'))"
proof (intro conjI impI)
  assume u: "length (sg_payload sg) \<le> 1994 \<and> arp_find (sg_dst_ip sg) (arp_table st) = None"
  obtain st' where "net_send_tcp wire_hw sg st = Some (-1, st')"
    "wired.sends st [eth_frame ETHERTYPE_ARP broadcast_mac (arp_packet 1 broadcast_mac (sg_dst_ip sg))] st'"
    using wired.send_unknown [OF assms(1), of sg] u by auto
  with asked assms(2) show "\<exists>st' f. net_send_tcp wire_hw sg st = Some (-1, st') \<and>
      sent (net_nic st') = sent (net_nic st) @ [f] \<and> asks_for (sg_dst_ip sg) f \<and> net_tcp st' = net_tcp st \<and>
      link_ok (net_nic st') \<and> net_ok st'"
    by (auto simp: wired.sends_def net_ok_def)
next
  assume "eth_ok e \<and> be16 (eth_ethertype e) = ETHERTYPE_ARP \<and> arp_valid a"
  with arp_heard [OF assms, of e a pad] show "\<exists>st' fs. dispatch wire_hw (eth_bytes e @ arp_bytes a @ pad) st = Some st' \<and>
      arp_find (be32 (arp_spa a)) (arp_table st') = Some (arp_sha a) \<and> sent (net_nic st') = sent (net_nic st) @ fs \<and>
      (if asks_us a then \<exists>f. fs = [f] \<and> answers_arp a f else fs = []) \<and>
      net_tcp st' = net_tcp st \<and> link_ok (net_nic st') \<and> net_ok st'" by blast
qed

section \<open>A whole HTTP exchange\<close>

lemma timeline_no_tick:
  "unat t + n < 100000 \<Longrightarrow> timeline n t segs = map (\<lambda>(ip, packet). Segment ip packet) (take n segs)"
proof (induction n arbitrary: t segs)
  case (Suc n)
  have t: "unat (t + 1) = unat t + 1" using Suc.prems by (intro unat_plus_simple [THEN iffD1, THEN trans]) (simp_all add: word_le_nat_alt unat_word_ariths(1))
  then have "\<not> 100000 \<le> t + 1" using Suc.prems by (simp add: word_le_nat_alt)
  then show ?case using Suc.IH [of "t + 1" "tl segs"] Suc.prems t by (cases segs) auto
qed simp

lemma answers_own:
  "tcp_run es st = Some (st', outs) \<Longrightarrow> \<forall>e \<in> set es. \<not> foreign ip port e \<Longrightarrow> answers ip port es outs = outs"
proof (induction es arbitrary: st outs)
  case (Cons e es)
  then obtain st1 out outs' where "tcp_run es st1 = Some (st', outs')" "outs = out # outs'" by (auto simp: bind_eq_Some)
  with Cons.IH [of st1 outs'] Cons.prems(2) show ?case by (simp add: answers_def)
qed (simp add: answers_def)

lemma carried_to: "arp_find ip tab = Some mac \<Longrightarrow> sg_dst_ip sg = ip \<Longrightarrow> carried tab f sg = frame_carries mac f sg"
  by (simp add: carried_def)

text \<open>The segments of the answer, in order.\<close>

definition session_segments :: "u32 \<Rightarrow> u16 \<Rightarrow> u32 \<Rightarrow> u32 \<Rightarrow> u32 \<Rightarrow> u32 \<Rightarrow> u32 \<Rightarrow> u8 list \<Rightarrow> segment list" where
  "session_segments ip port y0 x q2 y got msg =
     segment_to ip port y0 (x + 1) (TCP_FLAG_SYN OR TCP_FLAG_ACK) [] # segment_to ip port y (q2 + 1) TCP_FLAG_ACK [] #
     concat (request_answered ip port y got msg)"

lemma session_segments_to:
  "sg \<in> set (session_segments ip port y0 x q2 y got msg) \<Longrightarrow> sg_dst_ip sg = ip \<and> sg_payload sg \<in> {[], msg}"
  by (auto simp: session_segments_def request_answered_def segment_to_def Let_def)

text \<open>
  The five segments of a client at \<open>ip\<close> and \<open>port\<close>: the opening with sequence number \<open>x\<close>, its
  acknowledgement (\<open>q2\<close>, \<open>y\<close>), the request at \<open>q3\<close>, which ends after \<open>n\<close> bytes and does
  not ask for the metadata, the acknowledgement of the answer and the closing.
\<close>

definition http_client :: "u32 \<Rightarrow> u16 \<Rightarrow> u32 \<Rightarrow> u32 \<Rightarrow> u32 \<Rightarrow> u32 \<Rightarrow> u8 list \<Rightarrow> nat \<Rightarrow> u8 list list \<Rightarrow> bool" where
  "http_client ip port x q2 y q3 request n packets \<longleftrightarrow>
     ip \<noteq> 0 \<and> request \<noteq> [] \<and> length request < TCP_RX_BUF_SIZE \<and> request_end (to_string request) = Some n \<and>
     \<not> asks_metadata (to_string request) n \<and>
     (\<exists>p1 p2 p3 p4 p5 a1 a3 q4 a4 q5 a5 d1 d2 d4 d5 flags. packets = [p1, p2, p3, p4, p5] \<and>
        carries p1 port x a1 TCP_FLAG_SYN d1 \<and> carries p2 port q2 y TCP_FLAG_ACK d2 \<and>
        carries p3 port q3 a3 flags request \<and> flags \<in> {TCP_FLAG_ACK, TCP_FLAG_ACK OR TCP_FLAG_PSH} \<and>
        carries p4 port q4 a4 TCP_FLAG_ACK d4 \<and> carries p5 port q5 a5 (TCP_FLAG_FIN OR TCP_FLAG_ACK) d5)"

text \<open>Whatever the state of the server, its answer fits one frame.\<close>

definition short_answer :: "(nat \<times> nat) list \<Rightarrow> u8 list \<Rightarrow> nat \<Rightarrow> bool" where
  "short_answer ps request n \<longleftrightarrow> (\<forall>sv resp sv' msg. server_ok sv ps \<and>
     serve_http (to_string request) n sv = Some (resp, sv') \<and>
     http_generate_response resp RESPONSE_BUF_SIZE = Some msg \<longrightarrow> length msg \<le> 1994)"

text \<open>The frames carry the whole answer of the router to the request.\<close>

definition http_answered ::
  "u8 list \<Rightarrow> u32 \<Rightarrow> u16 \<Rightarrow> u32 \<Rightarrow> u32 \<Rightarrow> u32 \<Rightarrow> u32 \<Rightarrow> u8 list \<Rightarrow> nat \<Rightarrow> (nat \<times> nat) list \<Rightarrow> u8 list list \<Rightarrow> bool" where
  "http_answered mac ip port x q2 y q3 request n ps fs \<longleftrightarrow>
     (\<exists>y0 sv resp sv' msg. server_ok sv ps \<and> serve_http (to_string request) n sv = Some (resp, sv') \<and>
        http_generate_response resp RESPONSE_BUF_SIZE = Some msg \<and>
        list_all2 (frame_carries mac) fs
          (session_segments ip port y0 x q2 y (q3 + of_nat (length request)) (to_bytes msg)))"

text \<open>No socket is taken by the client, and one is free.\<close>

definition can_connect :: "u32 \<Rightarrow> u16 \<Rightarrow> tcp \<Rightarrow> bool" where
  "can_connect ip port tcp \<longleftrightarrow> (\<exists>s \<in> set (sockets tcp). sk_state s = TCP_CLOSED) \<and>
     (\<forall>s \<in> set (sockets tcp). \<not> socket_match ip port HTTP_PORT False s)"

lemma exchange:
  assumes card: "link_ok (net_nic st)" "net_ok st" "map tcp_of_frame (waiting (net_nic st)) = map (\<lambda>p. Some (ip, p)) packets"
      "arp_find ip (arp_table st) = Some mac" "unat t + 5 < 100000"
    and tcp: "serving ps (net_tcp st)" "can_connect ip port (net_tcp st)"
    and client: "http_client ip port x q2 y q3 request n packets" "short_answer ps request n"
  shows "\<exists>st' t' fs. network_rounds wire_hw 5 (st, t) = Some (st', t') \<and>
    sent (net_nic st') = sent (net_nic st) @ fs \<and> length fs = 6 \<and>
    http_answered mac ip port x q2 y q3 request n ps fs \<and> waiting (net_nic st') = [] \<and>
    link_ok (net_nic st') \<and> net_ok st' \<and> serving ps (net_tcp st') \<and>
    (\<forall>s \<in> set (sockets (net_tcp st')). \<not> socket_match ip port HTTP_PORT False s)"
proof -
  from client(1) obtain p1 p2 p3 p4 p5 a1 a3 q4 a4 q5 a5 d1 d2 d4 d5 flags where
    p: "packets = [p1, p2, p3, p4, p5]" and c: "carries p1 port x a1 TCP_FLAG_SYN d1" "carries p2 port q2 y TCP_FLAG_ACK d2"
      "carries p3 port q3 a3 flags request" "carries p4 port q4 a4 TCP_FLAG_ACK d4"
      "carries p5 port q5 a5 (TCP_FLAG_FIN OR TCP_FLAG_ACK) d5" "flags \<in> {TCP_FLAG_ACK, TCP_FLAG_ACK OR TCP_FLAG_PSH}"
    and request: "request \<noteq> []" "length request < TCP_RX_BUF_SIZE" "request_end (to_string request) = Some n"
      "\<not> asks_metadata (to_string request) n" and ip: "ip \<noteq> 0"
    unfolding http_client_def by blast
  have free: "\<exists>s \<in> set (sockets (net_tcp st)). sk_state s = TCP_CLOSED"
    "\<forall>s \<in> set (sockets (net_tcp st)). \<not> socket_match ip port HTTP_PORT False s"
    using tcp(2) by (simp_all add: can_connect_def)
  let ?es = "map (Segment ip) [p2, p3, p4, p5]"
  have inv: "tcp_inv (net_tcp st)" "server_ok (tcp_server (net_tcp st)) ps" using tcp(1) by (simp_all add: serving_def)
  then have "disconnected ip port ps (net_tcp st)" using free(2) tcp_invD(1) [OF inv(1)] by (simp add: disconnected_def)
  from session_runs [OF this free(1) c request] obtain tcp' outs where
    r: "tcp_run (Segment ip p1 # ?es) (net_tcp st) = Some (tcp', outs)" by fastforce
  have own: "\<forall>e \<in> set (Segment ip p1 # ?es). \<not> foreign ip port e"
    using c(1-5) by (simp add: carries_def Let_def)
  then have "filter (\<lambda>e. \<not> foreign ip port e) ?es = ?es" by simp
  from http_session_result [OF ip inv free c request(1-3) this r] obtain y0 sv resp sv' msg where
    s: "server_ok sv ps" "serve_http (to_string request) n sv = Some (resp, sv')"
      "http_generate_response resp RESPONSE_BUF_SIZE = Some msg"
      "answers ip port (Segment ip p1 # ?es) outs =
        [segment_to ip port y0 (x + 1) (TCP_FLAG_SYN OR TCP_FLAG_ACK) []] #
        [segment_to ip port y (q2 + 1) TCP_FLAG_ACK []] #
        request_answered ip port y (q3 + of_nat (length request)) (to_bytes msg)"
      "tcp_inv tcp'" "server_ok (tcp_server tcp') ps" "\<forall>s \<in> set (sockets tcp'). \<not> socket_match ip port HTTP_PORT False s"
    by blast
  let ?sgs = "session_segments ip port y0 x q2 y (q3 + of_nat (length request)) (to_bytes msg)"
  have o: "concat outs = ?sgs" using s(4) unfolding answers_own [OF r own] session_segments_def by simp
  have "length msg \<le> 1994" using client(2) s(1-3) unfolding short_answer_def by blast
  then have fits: "length (to_bytes msg) \<le> 1994" by (simp add: to_bytes_def)
  have "\<forall>sg \<in> set (concat outs). sendable (arp_table st) sg"
    unfolding o using session_segments_to fits card(4) by (fastforce simp: sendable_def)
  moreover have "timeline 5 t (map (Pair ip) packets) = Segment ip p1 # ?es"
    by (subst timeline_no_tick [OF card(5)]) (simp add: p)
  moreover have "map tcp_of_frame (waiting (net_nic st)) = map Some (map (Pair ip) packets)"
    using card(3) by simp
  ultimately obtain st' t' fs where
    w: "network_rounds wire_hw 5 (st, t) = Some (st', t')" "wired.moves st tcp' fs st'"
      "waiting (net_nic st') = drop 5 (waiting (net_nic st))" "list_all2 (carried (arp_table st)) fs (concat outs)"
    using wired.rounds_on_wire [of st "map (Pair ip) packets" 5 t tcp' outs] card(1,2) r
    by (auto simp: net_ok_def)
  have "length (waiting (net_nic st)) = 5" using arg_cong [OF card(3), of length] by (simp add: p)
  then have e: "waiting (net_nic st') = []" using w(3) by simp
  have l: "list_all2 (frame_carries mac) fs ?sgs"
    using w(4) unfolding o by (rule list.rel_mono_strong) (use session_segments_to carried_to [OF card(4)] in blast)
  then have "http_answered mac ip port x q2 y q3 request n ps fs" unfolding http_answered_def using s(1-3) by blast
  moreover from l have "length fs = 6"
    by (auto dest!: list_all2_lengthD simp: session_segments_def request_answered_def Let_def)
  ultimately show ?thesis
    using w(1,2) s(5-7) e card(2)
    by (intro exI [of _ st'] exI [of _ t'] exI [of _ fs]) (auto simp: wired.moves_def serving_def net_ok_def)
qed

text \<open>
  An HTTP exchange from the receive ring to the wire. Five frames of a client with a known
  hardware address wait in the receive ring: the opening of a connection, the acknowledgement, a request, the
  acknowledgement of the answer and the closing. Five rounds of the network loop empty the ring and put exactly six frames
  on the wire, all addressed to the client and with checksums that verify: \<^verbatim>\<open>SYN|ACK\<close>,
  \<^verbatim>\<open>ACK\<close>, the acknowledgement of the request, the answer of the router rendered as HTTP,
  \<^verbatim>\<open>FIN|ACK\<close> and the last \<^verbatim>\<open>ACK\<close>. Afterwards the connection is gone and the
  card, the sockets and the server are in their invariants. The answer must fit one frame.
\<close>

theorem http_exchange_on_wire:
  assumes "link_ok (net_nic st)" "net_ok st" "map tcp_of_frame (waiting (net_nic st)) = map (\<lambda>p. Some (ip, p)) packets"
    "arp_find ip (arp_table st) = Some mac" "unat t + 5 < 100000" "serving ps (net_tcp st)" "can_connect ip port (net_tcp st)"
    "http_client ip port x q2 y q3 request n packets" "short_answer ps request n"
  shows "\<exists>st' t' fs. network_rounds wire_hw 5 (st, t) = Some (st', t') \<and>
    sent (net_nic st') = sent (net_nic st) @ fs \<and> length fs = 6 \<and>
    http_answered mac ip port x q2 y q3 request n ps fs \<and> waiting (net_nic st') = [] \<and>
    link_ok (net_nic st') \<and> net_ok st' \<and> serving ps (net_tcp st') \<and>
    (\<forall>s \<in> set (sockets (net_tcp st')). \<not> socket_match ip port HTTP_PORT False s)"
  using assms by (rule exchange)

text \<open>The machine after initialization, a peer that it knows, and the frames of a client on that peer.\<close>

definition wire_start :: "wire_card nic" where
  "wire_start =
     \<lparr>nic_devices = nic_devices sample_card, e1000_base = 0, nic_rings = nic_rings sample_card, rx_head = 0, tx_tail = 0,
      nic_dev = \<lparr>card_regs = (\<lambda>_. 0), card_config = (\<lambda>_. 0xFEBC0000), card_base = 0xFEBC0000, card_wire = []\<rparr>\<rparr>"

definition wire_nic :: "wire_card nic" where
  "wire_nic = snd (e1000_init wire_hw wire_start)"

definition wire_net :: "u8 list list \<Rightarrow> wire_card net" where
  "wire_net fs =
     \<lparr>net_nic = fold deliver fs wire_nic, arp_table = [sample_peer, blank_entry, blank_entry, blank_entry], ip_id = 1,
      icmp_id = 1, tcp_current_remote_ip = 0, net_tcp = boot_tcp\<rparr>"

definition client_frame :: "u8 list \<Rightarrow> u8 list" where
  "client_frame packet =
     eth_bytes \<lparr>eth_dst = NET_MAC_ADDR, eth_src = ae_mac sample_peer, eth_ethertype = be16 ETHERTYPE_IP\<rparr> @
     ip_bytes \<lparr>ip_ihl_version = 0x45, ip_tos = 0, ip_total_len = be16 (of_nat (20 + length packet)), ip_ident = 0,
       ip_flags_frag = 0, ip_ttl = 64, ip_proto = IP_PROTO_TCP, ip_checksum_field = 0, ip_src = be32 0x0A000202,
       ip_dst = be32 NET_IP_ADDR\<rparr> @ packet"

lemma client_frame_segment: "tcp_of_frame (client_frame packet) = Some (0x0A000202, packet)"
proof -
  let ?ip = "\<lparr>ip_ihl_version = 0x45, ip_tos = 0, ip_total_len = be16 (of_nat (20 + length packet)), ip_ident = 0,
       ip_flags_frag = 0, ip_ttl = 64, ip_proto = IP_PROTO_TCP, ip_checksum_field = 0, ip_src = be32 0x0A000202,
       ip_dst = be32 NET_IP_ADDR\<rparr>"
  let ?eth = "\<lparr>eth_dst = NET_MAC_ADDR, eth_src = ae_mac sample_peer, eth_ethertype = be16 ETHERTYPE_IP\<rparr>"
  have e: "eth_ok ?eth" by (simp add: header_simps sample_peer_def)
  have f: "client_frame packet = eth_bytes ?eth @ ip_bytes ?ip @ packet" by (simp add: client_frame_def)
  have "read_eth (client_frame packet) = ?eth" "drop 14 (client_frame packet) = ip_bytes ?ip @ packet"
    unfolding f by (rule eth_hdr.read_bytes [OF e], rule eth_hdr.rest_bytes [OF e])
  moreover have "read_ip (ip_bytes ?ip @ packet) = ?ip" "drop 20 (ip_bytes ?ip @ packet) = packet"
    by (rule ip_hdr.read_bytes [OF TrueI], rule ip_hdr.rest_bytes [OF TrueI])
  moreover have "length (client_frame packet) = 34 + length packet" by (simp add: client_frame_def sample_peer_def)
  moreover have "length (ip_bytes ?ip) = 20" by (rule ip_hdr.length_bytes [OF TrueI])
  ultimately show ?thesis
    by (simp add: tcp_of_frame_def net_sizes Let_def del: ip_bytes_def)
qed

lemma wire_nic_ready: "link_ok wire_nic" "waiting wire_nic = []" "sent wire_nic = []"
proof -
  have i: "e1000_init wire_hw wire_start = (0, wire_nic)"
    unfolding wire_nic_def
    by (simp add: e1000_init_def wire_start_def sample_card_def pci_find_device_def E1000_VENDOR_ID_def E1000_DEVICE_ID_def Let_def)
  have b: "e1000_base wire_nic = 0xFEBC0000"
    unfolding wire_nic_def
    by (simp add: e1000_init_def wire_start_def sample_card_def pci_find_device_def E1000_VENDOR_ID_def E1000_DEVICE_ID_def Let_def
        setup_address_def setup_tx_def setup_rx_def)
      (simp add: card_with_def pci_read_dword_def pci_config_read_def pci_write_word_def pci_config_write_def pci_address_def
        PCI_COMMAND_def PCI_BASE_ADDRESS_def)
  have "buffers_ok (nic_rings wire_start)" "length (tx_buffers (nic_rings wire_start)) = 32"
    by (simp_all add: wire_start_def sample_card_def buffers_ok_def RX_BUFFER_SIZE_def)
  moreover have "e1000_base wire_nic \<noteq> 0" "tx_tail wire_start = 0" "card_base (nic_dev wire_start) = e1000_base wire_nic"
    "card_regs (nic_dev wire_start) a = card_regs (nic_dev wire_start) a'" "sent wire_start = []" for a a'
    by (simp_all add: b) (simp_all add: wire_start_def sent_def)
  ultimately show "link_ok wire_nic" "waiting wire_nic = []" "sent wire_nic = []"
    using init_link [OF i] by metis+
qed

lemma length_uint_text: "length (uint_text v b u) \<le> 32"
proof -
  have "length (uint_digits k v b u) \<le> k" for k v by (induction k arbitrary: v) auto
  then show ?thesis by (simp add: uint_text_def)
qed

lemma length_cstr_of: "length (cstr_of s) \<le> length s"
  by (induction s) simp_all

lemma health_answer_short:
  assumes "serve_http (to_string sample_request) 24 sv = Some (resp, sv')"
    "http_generate_response resp RESPONSE_BUF_SIZE = Some msg"
  shows "length msg \<le> 1994"
proof -
  let ?r = "snd (measured (handle_health_check zero_response))"
  obtain req where req: "http_parse_request (to_string sample_request) 24 = Some req" "rq_path req = ''/health''"
    using sample_request_path by auto
  then have "serve_http (to_string sample_request) 24 sv = Some (?r, sv)"
    by (simp add: serve_http_def route_request_def str_eqn_iff legacy_def measured_def handle_health_check_def static_body_def Let_def)
  then have r: "resp = ?r" using assms(1) by simp
  have "rs_body_length ?r \<le> 100" "rs_status ?r = 200" "length (rs_headers ?r) \<le> 100" "length (rs_body ?r) \<le> 100"
    by (simp_all add: measured_def handle_health_check_def static_body_def Let_def scpy_def str_member_def json_content_type_def)
  moreover from this have "length (response_text ?r) \<le> 1994"
    using length_uint_text [of "rs_body_length ?r" 10 False] length_cstr_of [of "rs_headers ?r"]
    by (simp add: response_text_def status_line_def)
  ultimately show ?thesis using assms(2) http_generate_response_eq [of ?r RESPONSE_BUF_SIZE] r by (auto split: if_splits)
qed

definition client_packets :: "u8 list list" where
  "client_packets = [client_packet 7 0 TCP_FLAG_SYN [], client_packet 8 1101 TCP_FLAG_ACK [],
     client_packet 8 1101 TCP_FLAG_ACK sample_request, client_packet 32 1300 TCP_FLAG_ACK [],
     client_packet 32 1300 (TCP_FLAG_FIN OR TCP_FLAG_ACK) []]"

lemma wire_net_ready:
  assumes "\<forall>f \<in> set fs. length f \<le> 2048" "length fs \<le> 31"
  shows "link_ok (net_nic (wire_net fs))" "waiting (net_nic (wire_net fs)) = fs" "sent (net_nic (wire_net fs)) = []"
    "net_ok (wire_net fs)" "arp_find 0x0A000202 (arp_table (wire_net fs)) = Some (ae_mac sample_peer)"
proof -
  have "\<forall>f \<in> set fs. fits_buffer f" using assms(1) by (simp add: fits_buffer_def RX_BUFFER_SIZE_def)
  from deliver_all_link [OF wire_nic_ready(1) this] assms(2) wire_nic_ready(2,3)
  show "link_ok (net_nic (wire_net fs))" "waiting (net_nic (wire_net fs)) = fs" "sent (net_nic (wire_net fs)) = []"
    by (simp_all add: wire_net_def)
  have tab: "arp_table (wire_net fs) = arp_table (sample_net boot_tcp)" by (simp add: wire_net_def sample_net_def)
  then show "net_ok (wire_net fs)" using sample_ok [of boot_tcp] by (simp add: net_ok_def)
  have "arp_lookup 0x0A000202 (arp_table (wire_net fs)) = Some 0" unfolding tab by (rule sample_lookup)
  then show "arp_find 0x0A000202 (arp_table (wire_net fs)) = Some (ae_mac sample_peer)"
    by (simp add: arp_find_def wire_net_def)
qed

lemma client_frames_fit: "\<forall>f \<in> set (map client_frame client_packets). length f \<le> 2048"
  by (simp add: client_packets_def client_packet_def client_frame_def sample_peer_def sample_request_def to_bytes_def)

lemma sample_client: "http_client 0x0A000202 40000 7 8 1101 8 sample_request 24 client_packets"
  using sample_request unfolding http_client_def client_packets_def by (simp; blast intro: client_carries)

lemma sample_short: "short_answer ps sample_request 24"
  using health_answer_short by (auto simp: short_answer_def)

theorem http_exchange_on_wire_witness:
  "\<exists>st' t' fs. network_rounds wire_hw 5 (wire_net (map client_frame client_packets), 0) = Some (st', t') \<and>
     sent (net_nic st') = fs \<and> length fs = 6 \<and>
     http_answered (ae_mac sample_peer) 0x0A000202 40000 7 8 1101 8 sample_request 24 [] fs"
proof -
  let ?st = "wire_net (map client_frame client_packets)"
  have len: "length (map client_frame client_packets) \<le> 31" by (simp add: client_packets_def)
  note r = wire_net_ready [OF client_frames_fit len]
  have tcp: "net_tcp ?st = boot_tcp" by (simp add: wire_net_def)
  have sv: "serving [] (net_tcp ?st)" "can_connect 0x0A000202 40000 (net_tcp ?st)"
    using boot_serving boot_disconnected by (simp_all add: serving_def tcp can_connect_def)
  have f: "map tcp_of_frame (waiting (net_nic ?st)) = map (\<lambda>p. Some (0x0A000202, p)) client_packets"
    unfolding r(2) by (simp add: client_frame_segment)
  have "unat (0 :: u32) + 5 < 100000" by simp
  from http_exchange_on_wire [OF r(1,4) f r(5) this sv sample_client sample_short] show ?thesis unfolding r(3) by auto
qed

theorem network_output_on_wire_witness:
  "\<exists>st' t' f y0. network_rounds wire_hw 1 (wire_net [client_frame (client_packet 7 0 TCP_FLAG_SYN [])], 0) = Some (st', t') \<and>
     sent (net_nic st') = [f] \<and>
     frame_carries (ae_mac sample_peer) f (segment_to 0x0A000202 40000 y0 8 (TCP_FLAG_SYN OR TCP_FLAG_ACK) [])"
proof -
  let ?syn = "client_packet 7 0 TCP_FLAG_SYN []"
  let ?st = "wire_net [client_frame ?syn]"
  have "\<forall>f \<in> set [client_frame ?syn]. length f \<le> 2048"
    by (simp add: client_packet_def client_frame_def sample_peer_def)
  note r = wire_net_ready [OF this, simplified]
  have tcp: "net_tcp ?st = boot_tcp" by (simp add: wire_net_def)
  have d: "disconnected 0x0A000202 40000 [] boot_tcp"
    using boot_serving boot_disconnected(1) tcp_invD(1) [OF boot_serving(1)] by (simp add: disconnected_def)
  have "\<not> data_segment (read_tcp_header ?syn)"
    by (simp add: data_segment_def client_packet_def read_tcp_segment has_flag_def tcp_flags)
  then have "\<not> fatal ?syn ip st" for ip st by (auto simp: fatal_def completes_metadata_def Let_def)
  with receive_outcome [OF boot_serving, where packet = ?syn and ip = "0x0A000202"] obtain tcp' out where
    s: "event_step (Segment 0x0A000202 ?syn) boot_tcp = Some (tcp', out)" by auto
  from syn_opens [OF s d boot_disconnected(2) client_carries] obtain y0 where
    o: "out = [segment_to 0x0A000202 40000 y0 8 (TCP_FLAG_SYN OR TCP_FLAG_ACK) []]" by auto
  have line: "timeline 1 0 [(0x0A000202, ?syn)] = [Segment 0x0A000202 ?syn]" by (subst timeline_no_tick) simp_all
  have run: "tcp_run (timeline 1 0 [(0x0A000202, ?syn)]) (net_tcp ?st) = Some (tcp', [out])" unfolding line using s by (simp add: tcp)
  have f: "map tcp_of_frame (waiting (net_nic ?st)) = map Some [(0x0A000202, ?syn)]"
    unfolding r(2) by (simp add: client_frame_segment)
  have "\<forall>sg \<in> set (concat [out]). sendable (arp_table ?st) sg" using r(5) by (simp add: o sendable_def segment_to_def)
  from network_output_on_wire [OF r(1,4) f run this] obtain st' t' fs where
    w: "network_rounds wire_hw 1 (?st, 0) = Some (st', t')" "sent (net_nic st') = fs" "list_all2 (carried (arp_table ?st)) fs out"
    unfolding r(3) by auto
  from w(3) carried_to [OF r(5)] obtain f where "fs = [f]"
    "frame_carries (ae_mac sample_peer) f (segment_to 0x0A000202 40000 y0 8 (TCP_FLAG_SYN OR TCP_FLAG_ACK) [])"
    by (auto simp: o list_all2_Cons2 segment_to_def)
  with w(1,2) show ?thesis by blast
qed

text \<open>The peer asks for the address of this machine.\<close>

definition peer_asks :: arp_packet_t where
  "peer_asks = \<lparr>arp_htype = be16 1, arp_ptype = be16 ETHERTYPE_IP, arp_hlen = 6, arp_plen = 4, arp_oper = be16 1,
     arp_sha = ae_mac sample_peer, arp_spa = be32 0x0A000202, arp_tha = replicate 6 0, arp_tpa = be32 NET_IP_ADDR\<rparr>"

definition peer_eth :: eth_header where
  "peer_eth = \<lparr>eth_dst = broadcast_mac, eth_src = ae_mac sample_peer, eth_ethertype = be16 ETHERTYPE_ARP\<rparr>"

lemma peer_asks_ok: "eth_ok peer_eth" "be16 (eth_ethertype peer_eth) = ETHERTYPE_ARP" "arp_valid peer_asks" "asks_us peer_asks"
  by (simp_all add: peer_eth_def peer_asks_def arp_valid_def asks_us_def header_simps sample_peer_def)

theorem arp_exchange_witness:
  "\<exists>st' f st2 f2. dispatch wire_hw (eth_bytes peer_eth @ arp_bytes peer_asks @ replicate 18 0) (wire_net []) = Some st' \<and>
     sent (net_nic st') = [f] \<and> answers_arp peer_asks f \<and>
     net_send_tcp wire_hw (sample_segment\<lparr>sg_dst_ip := 0x0A000203\<rparr>) (wire_net []) = Some (-1, st2) \<and>
     sent (net_nic st2) = [f2] \<and> asks_for 0x0A000203 f2"
proof -
  note r = wire_net_ready [of "[]", simplified]
  have tab: "arp_table (wire_net []) = [sample_peer, blank_entry, blank_entry, blank_entry]" by (simp add: wire_net_def)
  have "length (sg_payload (sample_segment\<lparr>sg_dst_ip := 0x0A000203\<rparr>)) \<le> 1994"
    "arp_find (sg_dst_ip (sample_segment\<lparr>sg_dst_ip := 0x0A000203\<rparr>)) (arp_table (wire_net [])) = None"
    by (simp_all add: sample_segment_def arp_find_def arp_lookup_def tab ARP_TABLE_SIZE_def upt_conv_Cons sample_peer_def
        blank_entry_def)
  with arp_exchange [OF r(1,4), of "sample_segment\<lparr>sg_dst_ip := 0x0A000203\<rparr>" peer_eth peer_asks "replicate 18 0"] peer_asks_ok r(3)
  show ?thesis by (auto simp del: eth_bytes_def arp_bytes_def)
qed

section \<open>A peer that introduces itself first\<close>

lemma arp_round:
  assumes "link_ok (net_nic st)" "net_ok st" "waiting (net_nic st) = (eth_bytes e @ arp_bytes a @ pad) # fs"
    "eth_ok e" "be16 (eth_ethertype e) = ETHERTYPE_ARP" "arp_valid a" "asks_us a" "unat t + 1 < 100000"
  shows "\<exists>st' f. network_round wire_hw (st, t) = Some (st', t + 1) \<and> waiting (net_nic st') = fs \<and>
    sent (net_nic st') = sent (net_nic st) @ [f] \<and> answers_arp a f \<and>
    arp_find (be32 (arp_spa a)) (arp_table st') = Some (arp_sha a) \<and> net_tcp st' = net_tcp st \<and>
    link_ok (net_nic st') \<and> net_ok st'"
proof -
  let ?f = "eth_bytes e @ arp_bytes a @ pad"
  obtain nic' where n: "e1000_receive_packet wire_hw (net_nic st) = Some (?f, nic')" "link_ok nic'" "waiting nic' = fs"
    "sent nic' = sent (net_nic st)" using wire_receive [OF assms(1,3)] by blast
  let ?st = "st\<lparr>net_nic := nic'\<rparr>"
  have "link_ok (net_nic ?st)" "net_ok ?st" using n(2) assms(2) by (simp_all add: net_ok_def)
  from arp_heard [OF this assms(4-6), of pad] assms(7) obtain st' f where
    s: "dispatch wire_hw ?f ?st = Some st'" "arp_find (be32 (arp_spa a)) (arp_table st') = Some (arp_sha a)"
      "sent (net_nic st') = sent (net_nic ?st) @ [f]" "answers_arp a f" "net_tcp st' = net_tcp ?st"
      "waiting (net_nic st') = waiting (net_nic ?st)" "link_ok (net_nic st')" "net_ok st'"
    by auto
  have "unat (t + 1) = unat t + 1" using assms(8) by (simp add: unat_word_ariths(1))
  then have "\<not> 100000 \<le> t + 1" using assms(8) by (simp add: word_le_nat_alt)
  then have "network_round wire_hw (st, t) = Some (st', t + 1)"
    using n(1) s(1) by (simp add: network_round_def network_receive_packet_def Let_def del: eth_bytes_def arp_bytes_def)
  with s n(3,4) show ?thesis by (intro exI [of _ st'] exI [of _ f]) simp
qed

lemma exchange_after_arp:
  assumes card: "link_ok (net_nic st)" "net_ok st"
      "waiting (net_nic st) = (eth_bytes e @ arp_bytes a @ pad) # fs" "map tcp_of_frame fs = map (\<lambda>p. Some (be32 (arp_spa a), p)) packets"
    and arp: "eth_ok e" "be16 (eth_ethertype e) = ETHERTYPE_ARP" "arp_valid a" "asks_us a"
    and tcp: "serving ps (net_tcp st)" "can_connect (be32 (arp_spa a)) port (net_tcp st)"
    and client: "http_client (be32 (arp_spa a)) port x q2 y q3 request n packets" "short_answer ps request n"
  shows "\<exists>st' t' f fs. network_rounds wire_hw 6 (st, 0) = Some (st', t') \<and>
    sent (net_nic st') = sent (net_nic st) @ f # fs \<and> answers_arp a f \<and> length fs = 6 \<and>
    http_answered (arp_sha a) (be32 (arp_spa a)) port x q2 y q3 request n ps fs \<and> waiting (net_nic st') = [] \<and>
    link_ok (net_nic st') \<and> net_ok st' \<and> serving ps (net_tcp st')"
proof -
  obtain st1 f where 1: "network_round wire_hw (st, 0) = Some (st1, 1)" "waiting (net_nic st1) = fs"
    "sent (net_nic st1) = sent (net_nic st) @ [f]" "answers_arp a f"
    "arp_find (be32 (arp_spa a)) (arp_table st1) = Some (arp_sha a)" "net_tcp st1 = net_tcp st"
    "link_ok (net_nic st1)" "net_ok st1" using arp_round [OF card(1-3) arp, of 0] by auto
  have "unat (1 :: u32) + 5 < 100000" by simp
  from exchange [OF 1(7,8) card(4) [folded 1(2)] 1(5) this tcp [folded 1(6)] client] obtain st' t' gs where
    2: "network_rounds wire_hw 5 (st1, 1) = Some (st', t')" "sent (net_nic st') = sent (net_nic st1) @ gs" "length gs = 6"
      "http_answered (arp_sha a) (be32 (arp_spa a)) port x q2 y q3 request n ps gs" "waiting (net_nic st') = []"
      "link_ok (net_nic st')" "net_ok st'" "serving ps (net_tcp st')" by blast
  have "network_rounds wire_hw (Suc 5) (st, 0) = Some (st', t')" using 1(1) 2(1) by (simp only: network_rounds.simps Option.bind.simps)
  then have "network_rounds wire_hw 6 (st, 0) = Some (st', t')" by simp
  with 1(3,4) 2 show ?thesis by (intro exI [of _ st'] exI [of _ t'] exI [of _ f] exI [of _ gs]) simp
qed

end
