(* ===== verification/AllocatorTests.thy ===== *)
theory AllocatorTests
  imports Allocator Printf
begin

text \<open>
  The allocator's own unit tests, \<^verbatim>\<open>tests/host/test_allocator.c\<close>, run against the
  model of the allocator.

  The state is the heap, the bytes the tests write through their pointers, the two counters and the text
  printed. \<open>base\<close> is the address the linker gave the array behind the heap, and
  \<open>show_pointer\<close> is the C library's \<^verbatim>\<open>%p\<close>. The 32-bit build of the file's
  header comment is meant, as for the kernel.
\<close>

section \<open>The test program\<close>

record suite =
  t_heap :: heap
  t_mem :: "nat \<Rightarrow> u8"
  t_passed :: nat
  t_failed :: nat
  t_out :: string

definition test_print :: "string \<Rightarrow> suite \<Rightarrow> suite" where
  "test_print s st = st\<lparr>t_out := t_out st @ s\<rparr>"

definition test_begin :: "string \<Rightarrow> suite \<Rightarrow> suite" where
  "test_begin name = test_print (''  '' @ name @ replicate (40 - length name) CHR '' '' @ '' '')"

definition test_pass :: "suite \<Rightarrow> suite" where
  "test_pass st = (test_print (''PASS'' @ [CHR 0x0A]) st)\<lparr>t_passed := Suc (t_passed st)\<rparr>"

definition test_fail :: "string \<Rightarrow> suite \<Rightarrow> suite" where
  "test_fail s st = (test_print (''FAIL: '' @ s @ [CHR 0x0A]) st)\<lparr>t_failed := Suc (t_failed st)\<rparr>"

fun check_pattern_loop :: "(nat \<Rightarrow> u8) \<Rightarrow> nat \<Rightarrow> u8 \<Rightarrow> nat list \<Rightarrow> bool" where
  "check_pattern_loop mem p v [] = True"
| "check_pattern_loop mem p v (i # is) = (if mem (p + i) \<noteq> v then False else check_pattern_loop mem p v is)"

definition check_pattern :: "(nat \<Rightarrow> u8) \<Rightarrow> nat \<Rightarrow> nat \<Rightarrow> u8 \<Rightarrow> bool" where
  "check_pattern mem p len v = check_pattern_loop mem p v [0 ..< len]"

text \<open>The three calls of the allocator, and the loops that fill and copy memory.\<close>

definition test_malloc :: "nat \<Rightarrow> suite \<Rightarrow> (nat option \<times> suite) option" where
  "test_malloc n st = map_option (\<lambda>(p, h). (p, st\<lparr>t_heap := h\<rparr>)) (malloc n (t_heap st))"

definition test_free :: "nat option \<Rightarrow> suite \<Rightarrow> suite option" where
  "test_free p st = map_option (\<lambda>h. st\<lparr>t_heap := h\<rparr>) (free p (t_heap st))"

definition fill_mem :: "nat \<Rightarrow> (nat \<Rightarrow> u8) \<Rightarrow> nat \<Rightarrow> (nat \<Rightarrow> u8) \<Rightarrow> nat \<Rightarrow> u8" where
  "fill_mem p f n mem = fold (\<lambda>i m. m(p + i := f i)) [0 ..< n] mem"

definition copy_mem :: "nat \<Rightarrow> nat \<Rightarrow> nat \<Rightarrow> (nat \<Rightarrow> u8) \<Rightarrow> nat \<Rightarrow> u8" where
  "copy_mem p q n mem = fold (\<lambda>i m. m(q + i := m (p + i))) [0 ..< n] mem"

definition test_realloc :: "nat option \<Rightarrow> nat \<Rightarrow> suite \<Rightarrow> (nat option \<times> suite) option" where
  "test_realloc p n st =
     map_option (\<lambda>(q, h, copied).
         (q, st\<lparr>t_heap := h, t_mem := (case copied of None \<Rightarrow> t_mem st | Some (a, b, k) \<Rightarrow> copy_mem a b k (t_mem st))\<rparr>))
       (realloc p n (t_heap st))"

definition test_usable :: "suite \<Rightarrow> suite option" where
  "test_usable st =
     Option.bind (test_malloc 64 (test_begin ''malloc returns usable memory'' st)) (\<lambda>(p, st).
       case p of
         None \<Rightarrow> Some (test_fail ''malloc(64) returned NULL'' st)
       | Some a \<Rightarrow>
           let st = st\<lparr>t_mem := fill_mem a (\<lambda>_. 0xAB) 64 (t_mem st)\<rparr>;
               st = (if check_pattern (t_mem st) a 64 0xAB then test_pass st
                     else test_fail ''memory pattern mismatch'' st)
           in test_free p st)"

definition test_aligned :: "nat \<Rightarrow> (nat \<Rightarrow> string) \<Rightarrow> suite \<Rightarrow> suite option" where
  "test_aligned base show_pointer st =
     Option.bind (test_malloc 1 (test_begin ''malloc returns aligned pointers'' st)) (\<lambda>(p, st).
       case p of
         None \<Rightarrow> Some (test_fail ''malloc(1) returned NULL'' st)
       | Some a \<Rightarrow>
           if (base + a) mod 8 \<noteq> 0
           then test_free p (test_fail (''pointer '' @ show_pointer (base + a) @ '' is not 8-byte aligned'') st)
           else test_free p (test_pass st))"

definition test_reuse :: "suite \<Rightarrow> suite option" where
  "test_reuse st =
     Option.bind (test_malloc 64 (test_begin ''free allows reuse'' st)) (\<lambda>(p1, st).
       if p1 = None then Some (test_fail ''first malloc failed'' st)
       else Option.bind (test_free p1 st) (\<lambda>st.
         Option.bind (test_malloc 64 st) (\<lambda>(p2, st).
           if p2 = None then Some (test_fail ''second malloc failed after free'' st)
           else test_free p2 (if p1 = p2 then test_pass st else test_pass st))))"

definition test_distinct :: "suite \<Rightarrow> suite option" where
  "test_distinct st =
     Option.bind (test_malloc 16 (test_begin ''multiple allocations are distinct'' st)) (\<lambda>(a, st).
     Option.bind (test_malloc 16 st) (\<lambda>(b, st).
     Option.bind (test_malloc 16 st) (\<lambda>(c, st).
       let st = (if a = None \<or> b = None \<or> c = None then test_fail ''one of the allocations failed'' st
                 else if a = b \<or> b = c \<or> a = c then test_fail ''allocations overlap'' st
                 else test_pass st)
       in Option.bind (test_free a st) (\<lambda>st. Option.bind (test_free b st) (test_free c)))))"

definition test_coalescing :: "suite \<Rightarrow> suite option" where
  "test_coalescing st =
     Option.bind (test_malloc 1024 (test_begin ''coalescing after freeing all'' st)) (\<lambda>(a, st).
     Option.bind (test_malloc 1024 st) (\<lambda>(b, st).
     Option.bind (test_malloc 1024 st) (\<lambda>(c, st).
       if a = None \<or> b = None \<or> c = None then Some (test_fail ''initial allocations failed'' st)
       else Option.bind (test_free a st) (\<lambda>st.
            Option.bind (test_free b st) (\<lambda>st.
            Option.bind (test_free c st) (\<lambda>st.
            Option.bind (test_malloc 3072 st) (\<lambda>(big, st).
              if big = None then Some (test_fail ''large allocation failed after coalescing'' st)
              else test_free big (test_pass st))))))))"

fun ramp_ok :: "(nat \<Rightarrow> u8) \<Rightarrow> nat \<Rightarrow> nat list \<Rightarrow> bool" where
  "ramp_ok mem q [] = True"
| "ramp_ok mem q (i # is) = (if mem (q + i) \<noteq> of_nat i then False else ramp_ok mem q is)"

definition test_grows :: "suite \<Rightarrow> suite option" where
  "test_grows st =
     Option.bind (test_malloc 16 (test_begin ''realloc grows and preserves data'' st)) (\<lambda>(p, st).
       case p of
         None \<Rightarrow> Some (test_fail ''malloc(16) failed'' st)
       | Some a \<Rightarrow>
           let st = st\<lparr>t_mem := fill_mem a of_nat 16 (t_mem st)\<rparr> in
           Option.bind (test_realloc p 64 st) (\<lambda>(q, st).
             case q of
               None \<Rightarrow> test_free p (test_fail ''realloc failed'' st)
             | Some b \<Rightarrow>
                 test_free q (if ramp_ok (t_mem st) b [0 ..< 16] then test_pass st
                              else test_fail ''realloc did not preserve data'' st)))"

definition test_oom :: "suite \<Rightarrow> suite option" where
  "test_oom st =
     Option.bind (test_malloc (16 * 1024 * 1024) (test_begin ''out of memory returns NULL'' st)) (\<lambda>(p, st).
       if p \<noteq> None then test_free p (test_fail ''oversized allocation did not return NULL'' st)
       else Some (test_pass st))"

definition test_double_free :: "suite \<Rightarrow> suite option" where
  "test_double_free st =
     Option.bind (test_malloc 16 (test_begin ''double free is handled'' st)) (\<lambda>(p, st).
       if p = None then Some (test_fail ''malloc failed'' st)
       else Option.bind (test_free p st) (\<lambda>st.
            Option.bind (test_free p st) (\<lambda>st.
            Option.bind (test_malloc 16 st) (\<lambda>(q, st).
              if q \<noteq> None then test_free q (test_pass st)
              else Some (test_fail ''heap corrupted after double free'' st)))))"

definition test_rule :: "suite \<Rightarrow> suite" where
  "test_rule = test_print (replicate 20 CHR ''='' @ [CHR 0x0A])"

definition test_main :: "nat \<Rightarrow> (nat \<Rightarrow> string) \<Rightarrow> suite \<Rightarrow> (int \<times> suite) option" where
  "test_main base show_pointer st =
     (let st = test_rule (test_print (''Allocator unit tests'' @ [CHR 0x0A]) st);
          st = st\<lparr>t_heap := memory_init_heap (t_heap st)\<rparr> in
      Option.bind (test_usable st) (\<lambda>st.
      Option.bind (test_aligned base show_pointer st) (\<lambda>st.
      Option.bind (test_reuse st) (\<lambda>st.
      Option.bind (test_distinct st) (\<lambda>st.
      Option.bind (test_coalescing st) (\<lambda>st.
      Option.bind (test_grows st) (\<lambda>st.
      Option.bind (test_oom st) (\<lambda>st.
      map_option (\<lambda>st.
          (if 0 < t_failed st then 1 else 0,
           test_print (''Results: '' @ uint_text (t_passed st) 10 False @ '' passed, '' @
               uint_text (t_failed st) 10 False @ '' failed'' @ [CHR 0x0A]) (test_rule st)))
        (test_double_free st)))))))))"

section \<open>Every test passes\<close>

definition rest :: "nat \<Rightarrow> block" where
  "rest a = (a, HEAP_SIZE - HEADER_SIZE - a)"

definition whole :: "block list" where
  "whole = [rest 0]"

text \<open>A test starts and ends with the whole heap free; \<open>passes\<close> is what it prints and counts.\<close>

definition fresh :: "suite \<Rightarrow> bool" where
  "fresh st \<longleftrightarrow> heap_full (t_heap st) whole []"

definition passes :: "string \<Rightarrow> suite \<Rightarrow> suite \<Rightarrow> bool" where
  "passes name st st' \<longleftrightarrow> t_passed st' = Suc (t_passed st) \<and> t_failed st' = t_failed st \<and>
     t_out st' = t_out (test_pass (test_begin name st))"

named_theorems suite_simps

lemmas [suite_simps] = test_malloc_def test_free_def test_realloc_def test_begin_def test_pass_def test_fail_def
  test_print_def passes_def fresh_def Let_def

lemma malloc_top:
  assumes "heap_full h [rest a] al" "0 < n" "a + align8 n + 56 \<le> HEAP_SIZE"
  shows "\<exists>h'. malloc n h = Some (Some (a + 16), h') \<and> heap_full h' [rest (a + 16 + align8 n)] ((a, align8 n) # al)"
proof -
  have "heap_full h ([] @ rest a # []) al" "align8 n + 40 \<le> HEAP_SIZE - HEADER_SIZE - a" "align8 n \<le> snd (rest a)"
    using assms by (simp_all add: rest_def HEADER_SIZE_def)
  from malloc_full_at [OF this(1) assms(2) _ this(3)] obtain h' where
    "malloc n h = Some (Some (fst (rest a) + HEADER_SIZE), h')"
    "heap_full h' (split_rest (align8 n) (rest a)) (split_taken (align8 n) (rest a) # al)" by auto
  moreover have "split_rest (align8 n) (rest a) = [rest (a + 16 + align8 n)]" "split_taken (align8 n) (rest a) = (a, align8 n)"
    using \<open>align8 n + 40 \<le> _\<close> by (simp_all add: rest_def split_rest_def split_taken_def HEADER_SIZE_def)
  ultimately show ?thesis by (simp add: rest_def HEADER_SIZE_def)
qed

lemma align8_tests: "align8 (Suc 0) = 8" "align8 16 = 16" "align8 64 = 64" "align8 1024 = 1024" "align8 3072 = 3072"
  by (simp_all add: align8_def)

lemma malloc_whole:
  assumes "heap_full h whole []" "0 < n" "align8 n + 56 \<le> HEAP_SIZE"
  shows "\<exists>h'. malloc n h = Some (Some 16, h') \<and> heap_full h' [rest (16 + align8 n)] [(0, align8 n)]"
  using malloc_top [of h 0 "[]" n] assms by (simp add: whole_def)

lemma free_at:
  assumes "heap_full h fl (xs @ (a, m) # ys)"
  obtains h' fl' where "free (Some (a + 16)) h = Some h'" "heap_full h' fl' (xs @ ys)"
  using free_full [OF assms] by (auto simp: HEADER_SIZE_def)

lemma free_only:
  assumes "heap_full h fl [(a, m)]"
  obtains h' where "free (Some (a + 16)) h = Some h'" "heap_full h' whole []"
  using free_last [OF assms] by (auto simp: HEADER_SIZE_def whole_def rest_def)

lemma free_only_16:
  assumes "heap_full h fl [(0, m)]"
  obtains h' where "free (Some 16) h = Some h'" "heap_full h' whole []"
  using free_only [OF assms] by auto

lemma fill_mem_eq: "fill_mem p f n mem = (\<lambda>a. if p \<le> a \<and> a < p + n then f (a - p) else mem a)"
  by (induction n) (auto simp: fill_mem_def fun_eq_iff le_less_Suc_eq)

lemma copy_mem_up:
  assumes "p + n \<le> q"
  shows "copy_mem p q n mem = (\<lambda>a. if q \<le> a \<and> a < q + n then mem (p + (a - q)) else mem a)"
  using assms
proof (induction n)
  case (Suc n)
  then have "copy_mem p q n mem = (\<lambda>a. if q \<le> a \<and> a < q + n then mem (p + (a - q)) else mem a)" by simp
  with Suc.prems show ?case by (auto simp: copy_mem_def fun_eq_iff not_le less_Suc_eq)
qed (auto simp: copy_mem_def fun_eq_iff)

lemma check_pattern_loop_iff: "check_pattern_loop mem p v is \<longleftrightarrow> (\<forall>i \<in> set is. mem (p + i) = v)"
  by (induction "is") auto

lemma ramp_ok_iff: "ramp_ok mem q is \<longleftrightarrow> (\<forall>i \<in> set is. mem (q + i) = of_nat i)"
  by (induction "is") auto

lemma usable_passes:
  assumes "fresh st"
  shows "\<exists>st'. test_usable st = Some st' \<and> fresh st' \<and> passes ''malloc returns usable memory'' st st'"
proof -
  obtain h1 where h1: "malloc 64 (t_heap st) = Some (Some 16, h1)"
    "heap_full h1 [rest 80] [(0, 64)]"
    using assms malloc_whole [of "t_heap st" 64] by (auto simp: fresh_def align8_tests HEAP_SIZE_def)
  obtain h2 where "free (Some 16) h1 = Some h2" "heap_full h2 whole []" using free_only_16 [OF h1(2)] .
  with h1(1) show ?thesis
    by (simp add: test_usable_def suite_simps check_pattern_def check_pattern_loop_iff fill_mem_eq)
qed

lemma aligned_passes:
  assumes "fresh st" "8 dvd base"
  shows "\<exists>st'. test_aligned base show_pointer st = Some st' \<and> fresh st' \<and> passes ''malloc returns aligned pointers'' st st'"
proof -
  obtain h1 where h1: "malloc 1 (t_heap st) = Some (Some 16, h1)"
    "heap_full h1 [rest 24] [(0, 8)]"
    using assms malloc_whole [of "t_heap st" 1] by (auto simp: fresh_def align8_tests HEAP_SIZE_def)
  obtain h2 where "free (Some 16) h1 = Some h2" "heap_full h2 whole []" using free_only_16 [OF h1(2)] .
  moreover have "(base + 16) mod 8 = 0" using assms(2) by (auto elim!: dvdE)
  ultimately show ?thesis using h1(1) by (simp add: test_aligned_def suite_simps)
qed

lemma reuse_passes:
  assumes "fresh st"
  shows "\<exists>st'. test_reuse st = Some st' \<and> fresh st' \<and> passes ''free allows reuse'' st st'"
proof -
  have m: "\<exists>h1 h2. malloc 64 h = Some (Some 16, h1) \<and> free (Some 16) h1 = Some h2 \<and> heap_full h2 whole []"
    if h: "heap_full h whole []" for h
  proof -
    obtain h1 where h1: "malloc 64 h = Some (Some 16, h1)" "heap_full h1 [rest 80] [(0, 64)]"
      using malloc_whole [OF h, of 64] by (auto simp: align8_tests HEAP_SIZE_def)
    with free_only_16 [OF h1(2)] show ?thesis by blast
  qed
  from m [of "t_heap st"] assms obtain h1 h2 where
    1: "malloc 64 (t_heap st) = Some (Some 16, h1)" "free (Some 16) h1 = Some h2" "heap_full h2 whole []"
    by (auto simp: fresh_def)
  from m [OF 1(3)] 1 show ?thesis by (auto simp: test_reuse_def suite_simps)
qed

text \<open>Three blocks of \<open>n\<close> bytes on top of each other, released in the order they were taken.\<close>

lemma three_blocks:
  assumes "heap_full h whole []" "0 < n" "3 * align8 n + 88 \<le> HEAP_SIZE"
  shows "\<exists>h1 h2 h3 h4 h5 h6. malloc n h = Some (Some 16, h1) \<and>
    malloc n h1 = Some (Some (32 + align8 n), h2) \<and> malloc n h2 = Some (Some (48 + 2 * align8 n), h3) \<and>
    free (Some 16) h3 = Some h4 \<and> free (Some (32 + align8 n)) h4 = Some h5 \<and>
    free (Some (48 + 2 * align8 n)) h5 = Some h6 \<and> heap_full h6 whole []"
proof -
  let ?m = "align8 n"
  obtain h1 where h1: "malloc n h = Some (Some 16, h1)" "heap_full h1 [rest (16 + ?m)] [(0, ?m)]"
    using malloc_whole [OF assms(1,2)] assms(3) by auto
  obtain h2 where h2: "malloc n h1 = Some (Some (32 + ?m), h2)" "heap_full h2 [rest (32 + 2 * ?m)] [(16 + ?m, ?m), (0, ?m)]"
    using malloc_top [OF h1(2) assms(2)] assms(3) by (auto simp: ac_simps)
  obtain h3 where h3: "malloc n h2 = Some (Some (48 + 2 * ?m), h3)"
    "heap_full h3 [rest (48 + 3 * ?m)] ([(32 + 2 * ?m, ?m), (16 + ?m, ?m)] @ (0, ?m) # [])"
    using malloc_top [OF h2(2) assms(2)] assms(3) by (auto simp: ac_simps)
  obtain h4 fl4 where h4: "free (Some 16) h3 = Some h4" "heap_full h4 fl4 ([(32 + 2 * ?m, ?m)] @ (16 + ?m, ?m) # [])"
    using free_at [OF h3(2)] by auto
  obtain h5 fl5 where h5: "free (Some (32 + ?m)) h4 = Some h5" "heap_full h5 fl5 [(32 + 2 * ?m, ?m)]"
    using free_at [OF h4(2)] by (auto simp: ac_simps)
  obtain h6 where "free (Some (48 + 2 * ?m)) h5 = Some h6" "heap_full h6 whole []"
    using free_only [OF h5(2)] by (auto simp: ac_simps)
  with h1(1) h2(1) h3(1) h4(1) h5(1) show ?thesis by blast
qed

lemma distinct_passes:
  assumes "fresh st"
  shows "\<exists>st'. test_distinct st = Some st' \<and> fresh st' \<and> passes ''multiple allocations are distinct'' st st'"
  using three_blocks [of "t_heap st" 16] assms
  by (auto simp: test_distinct_def suite_simps align8_tests HEAP_SIZE_def)

lemma coalescing_passes:
  assumes "fresh st"
  shows "\<exists>st'. test_coalescing st = Some st' \<and> fresh st' \<and> passes ''coalescing after freeing all'' st st'"
proof -
  from three_blocks [of "t_heap st" 1024] assms obtain h1 h2 h3 h4 h5 h6 where
    h: "malloc 1024 (t_heap st) = Some (Some 16, h1)" "malloc 1024 h1 = Some (Some 1056, h2)"
      "malloc 1024 h2 = Some (Some 2096, h3)" "free (Some 16) h3 = Some h4" "free (Some 1056) h4 = Some h5"
      "free (Some 2096) h5 = Some h6" "heap_full h6 whole []"
    by (auto simp: fresh_def align8_tests HEAP_SIZE_def)
  obtain h7 where h7: "malloc 3072 h6 = Some (Some 16, h7)" "heap_full h7 [rest 3088] [(0, 3072)]"
    using malloc_whole [OF h(7), of 3072] by (auto simp: align8_tests HEAP_SIZE_def)
  obtain h8 where "free (Some 16) h7 = Some h8" "heap_full h8 whole []" using free_only_16 [OF h7(2)] .
  with h h7(1) show ?thesis by (simp add: test_coalescing_def suite_simps)
qed

text \<open>The block that grows is full, so its bytes are copied to a new block above it.\<close>

lemma grows_passes:
  assumes "fresh st"
  shows "\<exists>st'. test_grows st = Some st' \<and> fresh st' \<and> passes ''realloc grows and preserves data'' st st'"
proof -
  obtain h1 where h1: "malloc 16 (t_heap st) = Some (Some 16, h1)" "heap_full h1 [rest 32] [(0, 16)]"
    using assms malloc_whole [of "t_heap st" 16] by (auto simp: fresh_def align8_tests HEAP_SIZE_def)
  obtain h2 where h2: "malloc 64 h1 = Some (Some 48, h2)" "heap_full h2 [rest 112] ([(32, 64)] @ (0, 16) # [])"
    using malloc_top [OF h1(2), of 64] by (auto simp: align8_tests HEAP_SIZE_def)
  obtain h3 fl where h3: "free (Some 16) h2 = Some h3" "heap_full h3 fl [(32, 64)]" using free_at [OF h2(2)] by auto
  obtain h4 where h4: "free (Some 48) h3 = Some h4" "heap_full h4 whole []" using free_only [OF h3(2)] by auto
  have "heap_inv h1 [rest 32] [(0, 16)]" using h1(2) by (simp add: heap_full_def)
  then obtain nx where "hdr h1 0 = Some \<lparr>b_size = 16, b_free = False, b_next = nx\<rparr>"
    using heap_invD(7) [of h1 "[rest 32]" "[(0, 16)]" "(0, 16)"] by auto
  then have "realloc (Some 16) 64 h1 = Some (Some 48, h3, Some (16, 48, 16))"
    using h2(1) h3(1) by (simp add: realloc_def HEADER_SIZE_def)
  moreover have "ramp_ok (copy_mem 16 48 16 (fill_mem 16 of_nat 16 mem)) 48 [0 ..< 16]" for mem
    by (simp only: ramp_ok_iff copy_mem_up fill_mem_eq) simp
  ultimately show ?thesis using h1(1) h4 by (simp add: test_grows_def suite_simps)
qed

lemma oom_passes:
  assumes "fresh st"
  shows "\<exists>st'. test_oom st = Some st' \<and> fresh st' \<and> passes ''out of memory returns NULL'' st st'"
proof -
  have "heap_inv (t_heap st) whole []" using assms by (simp add: fresh_def heap_full_def)
  then have "malloc (16 * 1024 * 1024) (t_heap st) = Some (None, t_heap st)"
    by (rule malloc_none) (simp_all add: whole_def rest_def align8_def HEAP_SIZE_def)
  then show ?thesis using assms by (simp add: test_oom_def suite_simps)
qed

text \<open>The second release finds the block marked free and does nothing.\<close>

lemma double_free_passes:
  assumes "fresh st"
  shows "\<exists>st'. test_double_free st = Some st' \<and> fresh st' \<and> passes ''double free is handled'' st st'"
proof -
  obtain h1 where h1: "malloc 16 (t_heap st) = Some (Some 16, h1)" "heap_full h1 [rest 32] [(0, 16)]"
    using assms malloc_whole [of "t_heap st" 16] by (auto simp: fresh_def align8_tests HEAP_SIZE_def)
  obtain h2 where h2: "free (Some 16) h1 = Some h2" "heap_full h2 whole []" using free_only_16 [OF h1(2)] .
  have "chain (hdr h2) whole None" using h2(2) by (simp add: heap_full_def heap_inv_def)
  then have again: "free (Some 16) h2 = Some h2" by (simp add: free_def whole_def rest_def HEADER_SIZE_def)
  obtain h3 where h3: "malloc 16 h2 = Some (Some 16, h3)" "heap_full h3 [rest 32] [(0, 16)]"
    using malloc_whole [OF h2(2), of 16] by (auto simp: align8_tests HEAP_SIZE_def)
  obtain h4 where "free (Some 16) h3 = Some h4" "heap_full h4 whole []" using free_only_16 [OF h3(2)] .
  with h1(1) h2(1) again h3(1) show ?thesis by (simp add: test_double_free_def suite_simps)
qed

section \<open>The whole run\<close>

definition test_boot :: "(nat \<Rightarrow> u8) \<Rightarrow> suite" where
  "test_boot mem = \<lparr>t_heap = boot_heap, t_mem = mem, t_passed = 0, t_failed = 0, t_out = []\<rparr>"

definition test_names :: "string list" where
  "test_names = [''malloc returns usable memory'', ''malloc returns aligned pointers'', ''free allows reuse'',
     ''multiple allocations are distinct'', ''coalescing after freeing all'',
     ''realloc grows and preserves data'', ''out of memory returns NULL'', ''double free is handled'']"

definition test_line :: "string \<Rightarrow> string" where
  "test_line name = ''  '' @ name @ replicate (40 - length name) CHR '' '' @ '' PASS'' @ [CHR 0x0A]"

lemma passes_line:
  "passes name st st' \<longleftrightarrow> t_passed st' = Suc (t_passed st) \<and> t_failed st' = t_failed st \<and>
     t_out st' = t_out st @ test_line name"
  by (simp add: suite_simps test_line_def)

lemma test_begin_boot:
  "fresh (test_rule (test_print s (test_boot mem))\<lparr>t_heap := memory_init_heap boot_heap\<rparr>)"
  using heap_full_init by (simp add: fresh_def whole_def rest_def)



text \<open>
  The arena is an array of \<^verbatim>\<open>char\<close>, which C lets the linker put at any address:
  that payloads are aligned, as the allocator's comment promises, rests on where it lands. At any other
  address the test of the alignment fails.
\<close>

theorem alignment_rests_on_the_linker:
  assumes "fresh st" "\<not> 8 dvd base"
  shows "\<exists>st'. test_aligned base show_pointer st = Some st' \<and> t_failed st' = Suc (t_failed st) \<and>
    t_passed st' = t_passed st"
proof -
  obtain h1 where h1: "malloc 1 (t_heap st) = Some (Some 16, h1)" "heap_full h1 [rest 24] [(0, 8)]"
    using assms malloc_whole [of "t_heap st" 1] by (auto simp: fresh_def align8_tests HEAP_SIZE_def)
  obtain h2 where "free (Some 16) h1 = Some h2" "heap_full h2 whole []" using free_only_16 [OF h1(2)] .
  moreover have "0 < (base + 16) mod 8" using assms(2) by presburger
  ultimately show ?thesis using h1(1) by (simp add: test_aligned_def suite_simps)
qed

theorem alignment_rests_on_the_linker_witness:
  "\<exists>st'. test_aligned 0x8001 (\<lambda>_. ''p'') ((test_boot (\<lambda>_. 0))\<lparr>t_heap := memory_init_heap boot_heap\<rparr>) = Some st' \<and>
     t_failed st' = 1"
proof -
  let ?s = "(test_boot (\<lambda>_. 0))\<lparr>t_heap := memory_init_heap boot_heap\<rparr>"
  have "fresh ?s" using heap_full_init by (simp add: fresh_def whole_def rest_def)
  from alignment_rests_on_the_linker [OF this, of "0x8001" "\<lambda>_. ''p''"] show ?thesis by (auto simp: test_boot_def)
qed

end
