(* ===== verification/LlamaApiTest.thy ===== *)
theory LlamaApiTest
  imports LlamaBridge Printf
begin

text \<open>
  \<^verbatim>\<open>tests/llama/test_llama_api.cpp\<close>, the program that tests on the host whether the llama.cpp library can
  be used. The library is the record \<open>llama\<close> of theory LlamaBridge. The program runs with the host's C library,
  whose allocator is an argument too: two functions on a state of which nothing is known but what
  \<open>c_manages\<close> says. The result \<^term>\<open>None\<close> is a call of the library that its documentation does not allow.
\<close>

section \<open>The program\<close>

record 'c c_library =
  c_malloc :: "nat \<Rightarrow> 'c \<Rightarrow> nat option \<times> 'c"
  c_free :: "nat option \<Rightarrow> 'c \<Rightarrow> 'c"

text \<open>The state of the library, that of the C library, and the text printed.\<close>

record ('l, 'c) host =
  h_world :: "'l world"
  h_memory :: 'c
  h_out :: string

definition host_print :: "string \<Rightarrow> ('l, 'c) host \<Rightarrow> ('l, 'c) host" where
  "host_print s st = st\<lparr>h_out := h_out st @ s @ [LF]\<rparr>"

definition decimal :: "int \<Rightarrow> string" where
  "decimal n = (if n < 0 then CHR ''-'' # uint_text (nat (- n)) 10 False else uint_text (nat n) 10 False)"

definition model_path :: "string list \<Rightarrow> string option" where
  "model_path argv = (if 1 < length argv then Some (argv ! 1) else None)"

definition load_model :: "'l llama \<Rightarrow> string option \<Rightarrow> 'l world \<Rightarrow> nat option \<times> 'l world" where
  "load_model L path w =
     (case path of
        None \<Rightarrow> (None, w)
      | Some path \<Rightarrow> llama_model_load_from_file L path ((llama_model_default_params L)\<lparr>n_gpu_layers := 0\<rparr>) w)"

definition test_context_params :: "'l llama \<Rightarrow> llama_context_params" where
  "test_context_params L =
     (llama_context_default_params L)\<lparr>n_ctx := 128, n_batch := 32, n_threads := 1, n_threads_batch := 1\<rparr>"

text \<open>The result of the allocation is not checked before the tokens are written.\<close>

definition test_tokens ::
  "'l llama \<Rightarrow> 'c c_library \<Rightarrow> nat \<Rightarrow> nat \<Rightarrow> ('l, 'c) host \<Rightarrow> (int \<times> ('l, 'c) host) option" where
  "test_tokens L C model ctx st =
     (let text = ''Hello, world!''; n_tokens = 64;
          (tokens, c) = c_malloc C (n_tokens * 4) (h_memory st);
          st = st\<lparr>h_memory := c\<rparr>; l = fst (h_world st)
      in if tokens = None then None
         else
           let n_tokens = fst (llama_tokenize L l (llama_model_get_vocab L l model) text (int (length text)) (int n_tokens) True False);
               st = host_print (''Tokenized '' @ [CHR 0x27] @ text @ [CHR 0x27] @ '' into '' @ decimal n_tokens @ '' tokens'') st;
               st = st\<lparr>h_world := llama_model_free L model (llama_free L ctx (h_world st))\<rparr>;
               st = st\<lparr>h_memory := c_free C tokens (h_memory st)\<rparr>
           in Some (0, host_print ''llama.cpp API integration test passed.'' st))"

definition llama_test_main ::
  "'l llama \<Rightarrow> 'c c_library \<Rightarrow> string list \<Rightarrow> ('l, 'c) host \<Rightarrow> (int \<times> ('l, 'c) host) option" where
  "llama_test_main L C argv st =
     (let st = host_print ''llama.cpp API integration test'' (host_print ''llama.cpp host API test'' st);
          (model, w) = load_model L (model_path argv) (h_world st);
          st = st\<lparr>h_world := w\<rparr>
      in case model of
           None \<Rightarrow>
             Some (0, host_print (''No model loaded (model_path='' @
               (case model_path argv of Some p \<Rightarrow> p | None \<Rightarrow> ''(none)'') @ ''); build integration succeeded.'') st)
         | Some model \<Rightarrow>
             let (ctx, w) = llama_init_from_model L model (test_context_params L) (h_world st);
                 st = st\<lparr>h_world := w\<rparr>
             in case ctx of
                  None \<Rightarrow>
                    let st = host_print ''Failed to create context'' st
                    in Some (1, st\<lparr>h_world := llama_model_free L model (h_world st)\<rparr>)
                | Some ctx \<Rightarrow> test_tokens L C model ctx st)"

section \<open>What it takes it gives back\<close>

text \<open>The documented behaviour of \<^verbatim>\<open>malloc\<close> and \<^verbatim>\<open>free\<close>, on the program's own blocks.\<close>

definition c_manages :: "'c c_library \<Rightarrow> ('c \<Rightarrow> nat multiset) \<Rightarrow> bool" where
  "c_manages C blocks \<longleftrightarrow>
     (\<forall>n c r c'. c_malloc C n c = (r, c') \<longrightarrow> blocks c' = blocks c + (case r of None \<Rightarrow> {#} | Some p \<Rightarrow> {#p#})) \<and>
     (\<forall>p c. p \<in># blocks c \<longrightarrow> blocks (c_free C (Some p) c) = blocks c - {#p#})"

definition test_banner :: string where
  "test_banner = ''llama.cpp host API test'' @ [LF] @ ''llama.cpp API integration test'' @ [LF]"

lemma load_model_performs:
  assumes "llama_manages L live" "load_model L path w = (r, w')"
  shows "live (fst w') = live (fst w) + created Model r"
proof (cases path)
  case (Some p)
  with assms(2) have "performs live w w' (created Model r) {#}"
    by (auto simp: load_model_def intro: managesD(1) [OF assms(1)])
  then show ?thesis by (auto dest: performsD(1) [where X = "live (fst w)"])
qed (use assms(2) in \<open>simp add: load_model_def created_def\<close>)

lemma test_tokens_balanced:
  assumes "llama_manages L live" "c_manages C blocks" "live (fst (h_world st)) = X + {#Model m, Context x#}"
  shows "case test_tokens L C m x st of
      None \<Rightarrow> fst (c_malloc C 256 (h_memory st)) = None
    | Some (rc, st') \<Rightarrow> rc = 0 \<and> live (fst (h_world st')) = X \<and> blocks (h_memory st') = blocks (h_memory st) \<and>
        (\<exists>n. h_out st' = h_out st @ ''Tokenized '' @ [CHR 0x27] @ ''Hello, world!'' @ [CHR 0x27] @ '' into '' @ decimal n @
           '' tokens'' @ [LF] @ ''llama.cpp API integration test passed.'' @ [LF])"
proof -
  obtain r c where m: "c_malloc C 256 (h_memory st) = (r, c)" by (metis surj_pair)
  have b: "blocks c = blocks (h_memory st) + (case r of None \<Rightarrow> {#} | Some p \<Rightarrow> {#p#})"
    "p \<in># blocks c \<Longrightarrow> blocks (c_free C (Some p) c) = blocks c - {#p#}" for p
    using assms(2) m by (auto simp: c_manages_def)
  have f: "performs live w (llama_free L x w) {#} {#Context x#}" "performs live w (llama_model_free L m w) {#} {#Model m#}" for w
    using managesD(3,4) [OF assms(1)] by blast+
  have "live (fst (llama_free L x (h_world st))) = X + {#Model m#} + {#}"
    using performsD(1) [OF f(1), where X = "X + {#Model m#}"] assms(3) by simp
  then have "live (fst (llama_model_free L m (llama_free L x (h_world st)))) = X"
    using performsD(1) [OF f(2), where X = X] by simp
  with m b show ?thesis by (cases r) (auto simp: test_tokens_def host_print_def Let_def)
qed

text \<open>
  The program gives back everything it takes, on every branch: without a model, without a context, and to the end. It
  reports what happened and exits with 1 exactly when it reports that no context could be made. Only when the C library
  has no 256 bytes for the tokens, and the program has a model and a context, does it write through a null pointer.
\<close>

theorem llama_test_balanced:
  assumes "llama_manages L live" "c_manages C blocks"
  shows "case llama_test_main L C argv st of
      None \<Rightarrow> model_path argv \<noteq> None \<and> fst (c_malloc C 256 (h_memory st)) = None
    | Some (rc, st') \<Rightarrow> live (fst (h_world st')) = live (fst (h_world st)) \<and> blocks (h_memory st') = blocks (h_memory st) \<and>
        (\<exists>report. h_out st' = h_out st @ test_banner @ report @ [LF] \<and>
           (rc = 1 \<and> report = ''Failed to create context'' \<or>
            rc = 0 \<and> report = ''No model loaded (model_path='' @ (case model_path argv of Some p \<Rightarrow> p | None \<Rightarrow> ''(none)'') @
              ''); build integration succeeded.'' \<or>
            rc = 0 \<and> (\<exists>n. report = ''Tokenized '' @ [CHR 0x27] @ ''Hello, world!'' @ [CHR 0x27] @ '' into '' @ decimal n @
              '' tokens'' @ [LF] @ ''llama.cpp API integration test passed.'')))"
proof -
  obtain r w1 where load: "load_model L (model_path argv) (h_world st) = (r, w1)" by (metis surj_pair)
  note l = load_model_performs [OF assms(1) load]
  show ?thesis
  proof (cases r)
    case None
    with load l show ?thesis by (auto simp: llama_test_main_def host_print_def created_def test_banner_def)
  next
    case (Some m)
    obtain x w2 where i: "llama_init_from_model L m (test_context_params L) w1 = (x, w2)" by (metis surj_pair)
    have l2: "live (fst w2) = live (fst (h_world st)) + {#Model m#} + created Context x"
      using performsD(1) [OF managesD(2) [OF assms(1) i], where X = "live (fst w1)"] l Some by (simp add: created_def)
    have path: "model_path argv \<noteq> None" using load Some by (auto simp: load_model_def split: option.splits)
    show ?thesis
    proof (cases x)
      case None
      have "live (fst (llama_model_free L m w2)) = live (fst (h_world st))"
        using performsD(1) [OF managesD(3) [OF assms(1)]] l2 None by (simp add: created_def)
      with load Some i None show ?thesis by (simp add: llama_test_main_def host_print_def test_banner_def)
    next
      case ctx: (Some x)
      let ?st = "st\<lparr>h_out := h_out st @ test_banner, h_world := w2\<rparr>"
      have "llama_test_main L C argv st = test_tokens L C m x ?st"
        using load Some i ctx by (simp add: llama_test_main_def host_print_def test_banner_def)
      moreover have "live (fst (h_world ?st)) = live (fst (h_world st)) + {#Model m, Context x#}"
        using l2 ctx by (simp add: created_def)
      ultimately show ?thesis
        using path test_tokens_balanced [OF assms, of ?st "live (fst (h_world st))" m x] by (fastforce split: option.splits)
    qed
  qed
qed

text \<open>The library of the examples, and an allocator that counts.\<close>

definition counting :: "nat c_library" where
  "counting = \<lparr>c_malloc = (\<lambda>n k. (Some 8, Suc k)), c_free = (\<lambda>p k. k - 1)\<rparr>"

theorem llama_test_balanced_witness:
  "\<exists>st'. llama_test_main sample_llama counting [''test'', ''m.gguf''] \<lparr>h_world = (({#}, 0, {}), boot_heap), h_memory = 0, h_out = []\<rparr> =
      Some (0, st') \<and> fst (fst (h_world st')) = {#} \<and> replicate_mset (h_memory st') (8 :: nat) = {#}"
proof -
  have "c_manages counting (\<lambda>k. replicate_mset k 8)" by (auto simp: c_manages_def counting_def gr0_conv_Suc)
  from llama_test_balanced [OF sample_manages this, of "[''test'', ''m.gguf'']" "\<lparr>h_world = (({#}, 0, {}), boot_heap), h_memory = 0, h_out = []\<rparr>"]
  show ?thesis
    by (auto simp: llama_test_main_def load_model_def model_path_def test_tokens_def sample_llama_def counting_def make_def
        host_print_def Let_def split: option.splits)
qed

end
