(* ===== verification/Spec2Isabelle.thy ===== *)
theory Spec2Isabelle
  imports Prelude CString SafeString Printf Floats JsonWriter JsonParser JsonRoundTrip JsonDoc ApiParse
    ApiDecode Http Allocator Llm ApiV1 ApiV1Props Api NetBytes Tcp TcpProps Pci E1000 E1000Queue Ip IpProps
    Sync Terminal Serial ErrorLog ModelInfo Kernel Cuda LlamaBridge Session
    NetHeaders WireCard Wire Exchange AllocatorTests LlamaApiTest
begin

text \<open>
  A model of a unikernel that serves a language model over HTTP (\<^verbatim>\<open>src/\<close>, in C, for a
  32-bit x86 machine with an e1000 network card), and what is proved about it.

  \<^bold>\<open>The program.\<close> \<^verbatim>\<open>kernel_main\<close> initializes the screen, the heap and
  the network, runs self tests and then polls the card for ever. A frame goes up from the driver
  (\<^verbatim>\<open>network/e1000.c\<close>) through the loop (\<^verbatim>\<open>network.c\<close>) to ARP
  (\<^verbatim>\<open>network/arp.c\<close>) or IP and ICMP (\<^verbatim>\<open>network/ip.c\<close>) and TCP
  (\<^verbatim>\<open>network/tcp.c\<close>). TCP collects a request in one of four sockets; at the blank line it
  calls the HTTP parser (\<^verbatim>\<open>http.c\<close>), the router (\<^verbatim>\<open>api.c\<close>) and through it
  an endpoint (\<^verbatim>\<open>api_v1.c\<close>), which reads its JSON body and writes its JSON response
  (\<^verbatim>\<open>json.c\<close>) around calls of the language model (\<^verbatim>\<open>llm.c\<close>), whose memory
  comes from the allocator (\<^verbatim>\<open>allocator.c\<close>). The response is rendered by
  \<^verbatim>\<open>http.c\<close> and goes down the same way. All text is formatted by the program's own
  \<^verbatim>\<open>vsnprintf\<close> (\<^verbatim>\<open>string.c\<close>).

  \<^bold>\<open>How it is modelled.\<close> One function per C function, under its name; a loop is a function of
  its own. A C structure is a record, its static variables a record that is passed and returned. An array is a
  list, and every access outside it, every null dereference and every format that disagrees with its arguments
  is \<^term>\<open>None\<close>: a theorem that concludes \<^term>\<open>Some\<close> therefore contains the memory
  safety of the code and its termination. Registers and addresses are words of their width. Where the code
  returns an error the model returns it too. Hardware is an argument: the registers of the card and the PCI bus
  are functions on a state of which nothing is assumed, except where a property names it.

  \<^bold>\<open>Theories, from the bottom up.\<close>
  \<^item> Prelude: C arrays (\<open>rd\<close>, \<open>wr\<close>, \<open>overwrite\<close>), terminated strings
    (\<open>cstr_of\<close>), and the rewriting collections of the component theories.
  \<^item> CString, SafeString, Printf: \<^verbatim>\<open>string.c\<close> and \<^verbatim>\<open>safestring.c\<close>.
    The lemmas reduce every routine to list operations; \<open>render\<close> is the text a format denotes, and
    \<^verbatim>\<open>vsnprintf\<close> is \<open>render\<close> cut to the array.
  \<^item> Floats, JsonWriter, JsonParser, JsonRoundTrip, JsonDoc: \<^verbatim>\<open>json.c\<close>. The abstract
    side is a document \<open>jval\<close> and its text. The calls of a document write exactly its text; no
    sequence of calls overflows; the tokenizer reads back what was written; skipping a value returns.
  \<^item> ApiParse, ApiDecode: the five request parsers of \<^verbatim>\<open>api_v1.c\<close> and the types of
    \<^verbatim>\<open>api_types.h\<close>. They return, keep within the limits of the request types, and compute
    the fold of the members over the defaults (locales \<open>field_handler\<close> and \<open>field_reader\<close>,
    interpreted for each of the requests).
  \<^item> Http: \<^verbatim>\<open>http.c\<close>. Every well-formed request is parsed to its parts; a response
    is rendered or refused when it does not fit.
  \<^item> Allocator: \<^verbatim>\<open>allocator.c\<close>. The invariant \<open>heap_full\<close> relates the
    linked headers to the lists of free and used blocks, which tile the arena. First fit, splitting, merging;
    what is released becomes one block again (locale \<open>allocator\<close>).
  \<^item> Llm: \<^verbatim>\<open>llm.c\<close>, \<^verbatim>\<open>c_model_interface.c\<close> and
    \<^verbatim>\<open>model_embedding.c\<close>. Generation keeps the heap sound, whatever allocation fails.
  \<^item> ApiV1, ApiV1Props, Api: the endpoints and the router. Each endpoint always answers with a complete
    document (locale \<open>endpoint\<close>, interpreted for the six handlers); end-to-end results for completion,
    tokenizing and detokenizing.
  \<^item> NetBytes: byte order, packed headers and the Internet checksum.
  \<^item> Tcp, TcpProps: \<^verbatim>\<open>network/tcp.c\<close>. The environment is the step relation
    \<open>tcp_step\<close>: any packet from anywhere, any tick. Reachable states satisfy \<open>tcp_inv\<close> and
    each socket follows the machine \<open>tcp_edge\<close>.
  \<^item> Pci, E1000, E1000Queue: \<^verbatim>\<open>network/pci.c\<close> and
    \<^verbatim>\<open>network/e1000.c\<close>. The receive ring with the card on its other side implements a
    bounded queue (locale \<open>fifo\<close>).
  \<^item> Ip, IpProps: \<^verbatim>\<open>network/ip.c\<close>, \<^verbatim>\<open>network/arp.c\<close> and
    \<^verbatim>\<open>network.c\<close>. What is sent verifies and decodes; no frame leaves a buffer; the ARP
    table is a cache (locale \<open>address_table\<close>).
  \<^item> Sync: \<^verbatim>\<open>spinlock.c\<close> and \<^verbatim>\<open>interrupts.c\<close> (locale
    \<open>interrupt_lock\<close>).
  \<^item> Terminal, Kernel: \<^verbatim>\<open>kernel.c\<close> and \<^verbatim>\<open>memory.c\<close>. The
    terminal refines a screen of 2000 cells; from power-on the machine gets into the network loop with the
    invariants of the components established.
  \<^item> Serial: the serial line of \<^verbatim>\<open>kernel.c\<close> down to its ports, under the lock of Sync;
    what the terminal records arrives on the wire.
  \<^item> Session: the server as its clients see it. A run is a sequence of segments from any addresses and of
    ticks; \<open>fatal\<close> are the segments that stop it. Connections do not disturb each other, a client gets the
    answer to its request whoever else talks to the server, and the rounds of the network loop do to the connections
    what the segments in the frames received do.
  \<^item> NetHeaders: the packed headers of Ethernet, IP and ARP as records with their bytes (locale
    \<open>struct_io\<close>, interpreted for the three).
  \<^item> WireCard, Wire, Exchange: what a peer sees. WireCard is a card that puts the buffer of every descriptor it is handed on a wire;
    the locale \<open>link\<close> of Wire says what the stack needs of a card and concludes that TCP's segments become exactly their frames,
    in order, and that ARP is answered; its interpretation is the driver on that card. Exchange derives a whole HTTP
    exchange on the wire; the theorem \<open>power_on_to_answer\<close> of this theory starts it from power-on.
  \<^item> AllocatorTests, LlamaApiTest: the programs of \<^verbatim>\<open>tests/host\<close> and
    \<^verbatim>\<open>tests/llama\<close>. The first passes on the model of the allocator, the second gives back what it takes.
  \<^item> LlamaBridge: \<^verbatim>\<open>llm.cpp\<close>, built instead of \<^verbatim>\<open>llm.c\<close> with the llama.cpp library.
    The library is an argument, a record of functions on a state of which nothing is known; what its documentation
    promises are the predicates \<open>llama_manages\<close> (objects and memory) and \<open>llama_decodes\<close> (evaluation and
    sampling), which the library \<open>sample_llama\<close> of the examples has. The bridge gives back what it takes,
    hands on the batch meant, and generates one token as documented, but not two.
  \<^item> ErrorLog, ModelInfo, Cuda: \<^verbatim>\<open>error.c\<close>, the reporting functions of
    \<^verbatim>\<open>model_embedding.c\<close> and \<^verbatim>\<open>cuda_interface.c\<close>.

  \<^bold>\<open>Bounds and termination.\<close> There is no fuel. A loop over an array terminates by the distance
  to its end. The walks along the free list, the member loops of the request parsers and the skipping of a JSON
  value are partial functions, and it is proved that they return (\<open>malloc_correct\<close>,
  \<open>request_parsers_return\<close>, \<open>json_skip_value_returns\<close>). The two polling loops of the driver
  run 1000 times at most, as in the code. The endless loop of \<^verbatim>\<open>network.c\<close> is modelled by its
  round; what is proved holds of any number of rounds. Waiting for a lock takes a list with one entry for each round;
  a list that ends too early stands for a wait that goes on. The wait for the serial port is a partial function:
  it returns when the port gets ready in the end, and it is proved that it does not return otherwise.

  \<^bold>\<open>What the proofs showed of the code.\<close> Besides the correctness theorems there are theorems on
  what does not work as meant, each stated as the code behaves: a POST body never reaches its endpoint over TCP
  (\<open>tcp_post_body_is_lost\<close>), sockets in TIME_WAIT are never released
  (\<open>tcp_exhaustion_is_permanent\<close>), responses above 1994 bytes vanish
  (\<open>long_segments_vanish\<close>), the answer to \<^verbatim>\<open>/v1/models\<close> is no JSON
  (\<open>models_response_is_no_json\<close>), a request for the metadata stops the server
  (\<open>network_loop_serves\<close>), the bridge to llama.cpp writes behind a batch that is too small
  (\<open>llm_eval_cpp_batch\<close>), shrinking an allocation loses memory
  (\<open>realloc_shrink_loses_memory\<close>), the alignment of allocations is left to the linker
  (\<open>alignment_rests_on_the_linker\<close>), and others.

  \<^bold>\<open>Not modelled.\<close> \<^verbatim>\<open>boot.S\<close> is assembly.
  Of \<^verbatim>\<open>llm.cpp\<close> the handler of pure virtual calls, which halts, is left out. The scripts under \<^verbatim>\<open>tests\<close> and
  \<^verbatim>\<open>build\<close> run on the host. The response types of \<^verbatim>\<open>api_types.h\<close> are used by no code. The lines the components log on the serial
  port are left out of their states, those of \<^verbatim>\<open>kernel.c\<close>, of \<^verbatim>\<open>error.c\<close>
  and of ModelInfo apart. The stack is
  unbounded: the depth of \<^verbatim>\<open>json_skip_value\<close> and the size of local structures are not
  compared with the 64 KB that \<^verbatim>\<open>boot.S\<close> reserves. Floating-point arithmetic is that of SSE or of a compiler that
  rounds at every operation.
\<close>

section \<open>From power-on to serving\<close>

text \<open>
  \<^bold>\<open>C1.\<close> The whole program: from power-on, with any content of fresh memory and any hardware on which the
  network card is found, \<open>kernel_main\<close> gets into the network loop, and from there the loop serves for ever,
  with the ARP table, the sockets and the heap in their invariants after every round, unless the card hands
  over a frame that completes a request below \<^verbatim>\<open>/model/metadata\<close>: exactly then a round
  runs into undefined behaviour.
\<close>

theorem power_on_to_serving:
  assumes "fresh_kernel k" "64 \<le> length mem" "fst (network_init hw (k_net (memory_init k))) = 0"
  shows "\<exists>k'. kernel_main hw mem request response k = Some (True, k') \<and>
    (\<forall>n. (network_rounds hw n (k_net k', 0) = None \<longleftrightarrow>
        (\<exists>m < n. \<exists>st t. network_rounds hw m (k_net k', 0) = Some (st, t) \<and> fatal_frame hw st)) \<and>
      (\<forall>st t. network_rounds hw n (k_net k', 0) = Some (st, t) \<longrightarrow> net_ok st \<and> serving [] (net_tcp st)))"
proof -
  from boots [OF assms(1,2), of hw request response] assms(3) obtain k' where
    k': "kernel_main hw mem request response k = Some (True, k')" "fst (k_server k') = boot_api_context"
      "heap_full (snd (k_server k')) [(0, HEAP_SIZE - HEADER_SIZE)] []" "net_ok (k_net k')" "tcp_inv (net_tcp (k_net k'))"
    by blast
  have "server_ok (k_server k') []"
    using k'(2,3) by (auto simp: server_ok_def boot_api_context_def heap_owns_def)
  with k'(5) have s: "serving [] (net_tcp (k_net k'))" by (simp add: serving_def k_server_def)
  have "net_ok st \<and> serving [] (net_tcp st)" if "network_rounds hw n (k_net k', 0) = Some (st, t)" for n st t
    using rounds_serve [OF k'(4) s, of n hw 0] that by simp
  with k'(1) rounds_stop [OF k'(4) s] show ?thesis by metis
qed

lemma card_found:
  assumes "pci_find_device E1000_VENDOR_ID E1000_DEVICE_ID (pci_enumerate_devices (hw_inl hw) (nic_dev (net_nic st))) \<noteq> None"
  shows "fst (network_init hw st) = 0"
proof -
  have "fst (e1000_init hw nic) = 0" if "pci_find_device E1000_VENDOR_ID E1000_DEVICE_ID (nic_devices nic) \<noteq> None" for nic :: "'a nic"
    using that by (auto simp: e1000_init_def Let_def)
  from this [of "(net_nic st)\<lparr>nic_devices := pci_enumerate_devices (hw_inl hw) (nic_dev (net_nic st))\<rparr>"] assms
  show ?thesis by (simp add: network_init_def Let_def split_beta)
qed

text \<open>A machine on whose bus every function is the network card.\<close>

definition every_card :: "u32 \<Rightarrow> u32" where
  "every_card = (\<lambda>_. 0x100E8086)"

lemma every_card_found:
  assumes "\<And>a. hw_inl hw (nic_dev (net_nic net)) a = 0x100E8086"
  shows "fst (network_init hw net) = 0"
proof -
  let ?d = "nic_dev (net_nic net)"
  have ne: "x \<in> set xs \<Longrightarrow> xs \<noteq> []" and hds: "xs \<noteq> [] \<Longrightarrow> hd xs \<in> set (take 32 xs)" "xs \<noteq> [] \<Longrightarrow> hd xs \<in> set xs"
    for x :: pci_device and xs by (cases xs; simp)+
  have ids: "pd_vendor_id (pci_entry (hw_inl hw) ?d b s f) = E1000_VENDOR_ID"
    "pd_device_id (pci_entry (hw_inl hw) ?d b s f) = E1000_DEVICE_ID" for b s f
    by (simp_all add: pci_entry_def pci_read_word_def pci_config_read_def assms PCI_VENDOR_ID_def PCI_DEVICE_ID_def
        E1000_VENDOR_ID_def E1000_DEVICE_ID_def)
  have "present (hw_inl hw) ?d 0 0 0"
    by (simp add: present_def pci_read_word_def pci_config_read_def assms PCI_VENDOR_ID_def)
  then have "pci_entry (hw_inl hw) ?d 0 0 0 \<in> set (pci_entries (hw_inl hw) ?d)"
    unfolding in_entries by (intro exI [of _ 0]) simp
  then have "pci_entries (hw_inl hw) ?d \<noteq> []" by (rule ne)
  moreover define es where "es = pci_entries (hw_inl hw) ?d"
  ultimately have "es \<noteq> []" by (simp only: not_False_eq_True)
  then have some: "hd es \<in> set (take 32 es)" "hd es \<in> set (pci_entries (hw_inl hw) ?d)"
    unfolding es_def [symmetric] by (rule hds)+
  from some(2) obtain b s f where "hd es = pci_entry (hw_inl hw) ?d b s f" unfolding in_entries by blast
  then have "(E1000_VENDOR_ID, E1000_DEVICE_ID) = (pd_vendor_id (hd es), pd_device_id (hd es))" by (simp only: ids)
  then have "(E1000_VENDOR_ID, E1000_DEVICE_ID) \<in> (\<lambda>e. (pd_vendor_id e, pd_device_id e)) ` set (take 32 es)"
    using some(1) by (rule image_eqI)
  then have "pci_find_device E1000_VENDOR_ID E1000_DEVICE_ID (pci_enumerate_devices (hw_inl hw) ?d) \<noteq> None"
    by (simp only: find_device_None enumerate_entries es_def not_not)
  then show ?thesis by (rule card_found)
qed

definition sample_machine :: "card kernel" where
  "sample_machine = \<lparr>k_terminal = boot_terminal,
     k_net = \<lparr>net_nic = sample_card\<lparr>nic_dev := \<lparr>card_regs = (\<lambda>_. 0), card_config = every_card\<rparr>\<rparr>, arp_table = [], ip_id = 1,
       icmp_id = 1, tcp_current_remote_ip = 0,
       net_tcp = \<lparr>sockets = [], tcp_now = 0, tcp_server = (boot_api_context, boot_heap)\<rparr>\<rparr>\<rparr>"

lemma power_on_to_serving_witness:
  "\<exists>k'. kernel_main card_hw (replicate 64 0xCC) empty_request zero_response sample_machine = Some (True, k') \<and>
     (\<forall>n st t. network_rounds card_hw n (k_net k', 0) = Some (st, t) \<longrightarrow> serving [] (net_tcp st))"
proof -
  have "hw_inl card_hw (nic_dev (net_nic (k_net (memory_init sample_machine)))) a = 0x100E8086" for a
    by (simp add: memory_init_def set_server_def sample_machine_def card_with_def every_card_def)
  then have "fst (network_init card_hw (k_net (memory_init sample_machine))) = 0" by (rule every_card_found)
  moreover have "fresh_kernel sample_machine" by (simp add: fresh_kernel_def sample_machine_def k_server_def)
  moreover have "64 \<le> length (replicate 64 (0xCC :: u8))" by simp
  ultimately show ?thesis
    using power_on_to_serving [of sample_machine "replicate 64 0xCC" card_hw empty_request zero_response] by metis
qed

section \<open>From power-on to an answer on the wire\<close>

text \<open>
  The transmitting card at power-on: quiet, with nothing sent; the driver's buffers are there, and the card is
  found on the bus with its base address in the first address register.
\<close>

definition card_at_rest :: "wire_card net \<Rightarrow> bool" where
  "card_at_rest net \<longleftrightarrow>
     (let nic = net_nic net; base = card_base (nic_dev nic) in
      buffers_ok (nic_rings nic) \<and> length (tx_buffers (nic_rings nic)) = 32 \<and> tx_tail nic = 0 \<and> sent nic = [] \<and> base \<noteq> 0 \<and>
      card_regs (nic_dev nic) (base + E1000_TXDESCHEAD) = card_regs (nic_dev nic) (base + E1000_TXDESCTAIL) \<and>
      fst (network_init wire_hw net) = 0 \<and> e1000_base (net_nic (snd (network_init wire_hw net))) = base)"

lemma network_init_link:
  assumes "card_at_rest net"
  defines "net' \<equiv> snd (network_init wire_hw net)"
  shows "link_ok (net_nic net')" "waiting (net_nic net') = []" "sent (net_nic net') = []" "net_ok net'"
    "net_tcp net' = tcp_init (net_tcp net)"
proof -
  let ?nic = "(net_nic net)\<lparr>nic_devices := pci_enumerate_devices (hw_inl wire_hw) (nic_dev (net_nic net))\<rparr>"
  have z: "fst (network_init wire_hw net) = 0" using assms(1) by (simp add: card_at_rest_def Let_def)
  then have i: "e1000_init wire_hw ?nic = (0, net_nic net')" "net_tcp net' = tcp_init (net_tcp net)"
    by (auto simp: net'_def network_init_def arp_init_def Let_def split: prod.splits if_splits)
  have b: "e1000_base (net_nic net') = card_base (nic_dev (net_nic net))" "card_base (nic_dev (net_nic net)) \<noteq> 0"
    using assms(1) unfolding card_at_rest_def net'_def by (simp_all add: Let_def)
  have c: "e1000_base (net_nic net') \<noteq> 0" "buffers_ok (nic_rings ?nic)" "length (tx_buffers (nic_rings ?nic)) = 32" "tx_tail ?nic = 0"
    "card_base (nic_dev ?nic) = e1000_base (net_nic net')"
    "card_regs (nic_dev ?nic) (e1000_base (net_nic net') + E1000_TXDESCHEAD) =
     card_regs (nic_dev ?nic) (e1000_base (net_nic net') + E1000_TXDESCTAIL)" "sent ?nic = []"
    unfolding b(1) using assms(1) b(2) by (simp_all add: card_at_rest_def Let_def sent_def)
  note l = init_link [OF i(1) c(1-6)]
  show "link_ok (net_nic net')" "waiting (net_nic net') = []" by (rule l)+
  show "sent (net_nic net') = []" using l(3) c(7) by (rule trans)
  show "net_ok net'" using network_init_ok [OF z] by (simp add: net'_def)
  show "net_tcp net' = tcp_init (net_tcp net)" by (rule i(2))
qed

lemma fresh_sockets: "port \<noteq> 0 \<Longrightarrow> can_connect ip port (tcp_init tcp)"
  by (simp add: can_connect_def tcp_init_def socket_alloc_def TCP_MAX_SOCKETS_def numeral_eq_Suc upt_rec zero_socket_def
      socket_match_def)

lemma memory_init_net: "net_nic (k_net (memory_init k)) = net_nic (k_net k)"
  by (simp add: memory_init_def set_server_def)

text \<open>
  \<^bold>\<open>C2.\<close> From power-on to the answer on the wire. The kernel boots on the transmitting card, whatever
  fresh memory contains; then the card receives six frames: an ARP request of a peer for the address of this machine and
  five frames of an HTTP client on that peer. After six rounds of the network loop exactly seven frames have been sent since
  power-on: the reply to the ARP request, and the six frames of the exchange, with checksums that verify, which carry
  the answer of the router to the request. The machine is then in its invariants and ready for the next client.
\<close>

theorem power_on_to_answer:
  assumes boot: "fresh_kernel k" "64 \<le> length mem" "card_at_rest (k_net (memory_init k))"
    and arp: "eth_ok e" "be16 (eth_ethertype e) = ETHERTYPE_ARP" "arp_valid a" "asks_us a" "length pad \<le> 2006"
    and client: "\<forall>f \<in> set frames. length f \<le> 2048" "map tcp_of_frame frames = map (\<lambda>p. Some (be32 (arp_spa a), p)) packets"
      "http_client (be32 (arp_spa a)) port x q2 y q3 request n packets" "short_answer [] request n" "port \<noteq> 0"
  shows "\<exists>k' st t f fs. kernel_main wire_hw mem rq rs k = Some (True, k') \<and>
    network_rounds wire_hw 6 ((k_net k')\<lparr>net_nic :=
        fold deliver ((eth_bytes e @ arp_bytes a @ pad) # frames) (net_nic (k_net k'))\<rparr>, 0) = Some (st, t) \<and>
    sent (net_nic st) = f # fs \<and> answers_arp a f \<and> length fs = 6 \<and>
    http_answered (arp_sha a) (be32 (arp_spa a)) port x q2 y q3 request n [] fs \<and>
    waiting (net_nic st) = [] \<and> link_ok (net_nic st) \<and> net_ok st \<and> serving [] (net_tcp st)"
proof -
  let ?arp = "eth_bytes e @ arp_bytes a @ pad" and ?net = "snd (network_init wire_hw (k_net (memory_init k)))"
  note l = network_init_link [OF boot(3)]
  from boots_into [OF boot(1,2), of wire_hw rq rs] obtain k' where
    k': "kernel_main wire_hw mem rq rs k = Some (True, k')" "fst (k_server k') = boot_api_context"
      "heap_full (snd (k_server k')) [(0, HEAP_SIZE - HEADER_SIZE)] []"
      "k_net k' = ?net\<lparr>net_tcp := (net_tcp ?net)\<lparr>tcp_server := k_server k'\<rparr>\<rparr>" by blast
  let ?st = "(k_net k')\<lparr>net_nic := fold deliver (?arp # frames) (net_nic (k_net k'))\<rparr>"
  have nic: "net_nic (k_net k') = net_nic ?net" by (subst k'(4)) simp
  have len: "length ?arp \<le> 2048"
    using arp(5) arp_hdr.length_bytes [of a] eth_hdr.length_bytes [OF arp(1)] arp(3)
    by (simp add: arp_valid_def del: eth_bytes_def arp_bytes_def)
  have "length packets = 5" using client(3) by (auto simp: http_client_def)
  then have "length (?arp # frames) \<le> 31" using arg_cong [OF client(2), of length] by simp
  moreover have "\<forall>f \<in> set (?arp # frames). fits_buffer f" using len client(1) by (auto simp: fits_buffer_def RX_BUFFER_SIZE_def)
  ultimately have d: "link_ok (net_nic ?st)" "waiting (net_nic ?st) = ?arp # frames" "sent (net_nic ?st) = []"
    using deliver_all_link [OF l(1), of "?arp # frames"] l(2,3) by (simp_all add: nic del: fold_simps)
  have ok: "net_ok ?st" using l(4) by (subst k'(4)) (simp add: net_ok_def)
  have tcp: "net_tcp ?st = (tcp_init (net_tcp (k_net (memory_init k))))\<lparr>tcp_server := k_server k'\<rparr>"
    using l(5) by (subst k'(4)) simp
  have "server_ok (k_server k') []"
    using k'(2,3) by (auto simp: server_ok_def boot_api_context_def heap_owns_def)
  then have "serving [] (net_tcp ?st)"
    unfolding tcp using tcp_init_inv by (simp add: serving_def tcp_inv_def)
  moreover have "can_connect (be32 (arp_spa a)) port (net_tcp ?st)"
    unfolding tcp using fresh_sockets [OF client(5)] by (simp add: can_connect_def)
  ultimately obtain st t f fs where "network_rounds wire_hw 6 (?st, 0) = Some (st, t)"
    "sent (net_nic st) = sent (net_nic ?st) @ f # fs" "answers_arp a f" "length fs = 6"
    "http_answered (arp_sha a) (be32 (arp_spa a)) port x q2 y q3 request n [] fs" "waiting (net_nic st) = []"
    "link_ok (net_nic st)" "net_ok st" "serving [] (net_tcp st)"
    using exchange_after_arp [OF d(1) ok d(2) client(2) arp(1-4) _ _ client(3,4)] by blast
  with k'(1) d(3) show ?thesis by (metis append_Nil)
qed

definition wire_machine :: "wire_card kernel" where
  "wire_machine = \<lparr>k_terminal = boot_terminal,
     k_net = \<lparr>net_nic = wire_start\<lparr>nic_dev := \<lparr>card_regs = (\<lambda>_. 0), card_config = every_card, card_base = 0x100E8080, card_wire = []\<rparr>\<rparr>,
       arp_table = [], ip_id = 1, icmp_id = 1, tcp_current_remote_ip = 0,
       net_tcp = \<lparr>sockets = [], tcp_now = 0, tcp_server = (boot_api_context, boot_heap)\<rparr>\<rparr>\<rparr>"

text \<open>Enabling bus mastering writes the same value back.\<close>

lemma wire_machine_at_rest: "card_at_rest (k_net (memory_init wire_machine))"
proof -
  let ?net = "k_net (memory_init wire_machine)"
  let ?nic = "(net_nic ?net)\<lparr>nic_devices := pci_enumerate_devices (hw_inl wire_hw) (nic_dev (net_nic ?net))\<rparr>"
  have dev: "nic_dev (net_nic ?net) = \<lparr>card_regs = (\<lambda>_. 0), card_config = every_card, card_base = 0x100E8080, card_wire = []\<rparr>"
    by (simp add: memory_init_net wire_machine_def)
  have "hw_inl wire_hw (nic_dev (net_nic ?net)) a = 0x100E8086" for a by (simp add: dev card_with_def every_card_def)
  then have z: "fst (network_init wire_hw ?net) = 0" by (rule every_card_found)
  then have i: "e1000_init wire_hw ?nic = (0, net_nic (snd (network_init wire_hw ?net)))"
    by (auto simp: network_init_def arp_init_def Let_def split: prod.splits if_splits)
  obtain e where e: "pci_find_device E1000_VENDOR_ID E1000_DEVICE_ID (nic_devices ?nic) = Some e"
    using i by (auto simp: e1000_init_def split: option.splits)
  have same: "pci_write_word (hw_inl wire_hw) (hw_outl wire_hw) (nic_dev ?nic) b s f PCI_COMMAND
      (pci_read_word (hw_inl wire_hw) (nic_dev ?nic) b s f PCI_COMMAND OR 4) = nic_dev ?nic" for b s f
    by (simp add: dev pci_write_word_def pci_read_word_def pci_config_read_def pci_config_write_def card_with_def every_card_def
        replace_bits_def PCI_COMMAND_def fun_eq_iff)
  have base: "e1000_base (net_nic (snd (network_init wire_hw ?net))) = 0x100E8080"
    using init_base [OF i e] unfolding same by (simp add: pci_read_dword_def pci_config_read_def dev card_with_def every_card_def)
  have rest: "nic_rings (net_nic ?net) = nic_rings sample_card" "tx_tail (net_nic ?net) = 0"
    by (simp_all add: memory_init_net wire_machine_def wire_start_def)
  have "buffers_ok (nic_rings sample_card)" "length (tx_buffers (nic_rings sample_card)) = 32"
    by (simp_all add: sample_card_def buffers_ok_def RX_BUFFER_SIZE_def)
  with z base rest show ?thesis unfolding card_at_rest_def Let_def by (simp add: dev sent_def)
qed

theorem power_on_to_answer_witness:
  "\<exists>k' st t f fs. kernel_main wire_hw (replicate 64 0xCC) empty_request zero_response wire_machine = Some (True, k') \<and>
     network_rounds wire_hw 6 ((k_net k')\<lparr>net_nic := fold deliver
       ((eth_bytes peer_eth @ arp_bytes peer_asks @ replicate 18 0) # map client_frame client_packets) (net_nic (k_net k'))\<rparr>, 0) =
       Some (st, t) \<and>
     sent (net_nic st) = f # fs \<and> answers_arp peer_asks f \<and> length fs = 6 \<and>
     http_answered (ae_mac sample_peer) 0x0A000202 40000 7 8 1101 8 sample_request 24 [] fs"
proof -
  have "fresh_kernel wire_machine" by (simp add: fresh_kernel_def wire_machine_def k_server_def)
  moreover have "be32 (arp_spa peer_asks) = 0x0A000202" "arp_sha peer_asks = ae_mac sample_peer" by (simp_all add: peer_asks_def)
  moreover have "map tcp_of_frame (map client_frame client_packets) = map (\<lambda>p. Some (0x0A000202, p)) client_packets"
    by (simp add: client_frame_segment)
  moreover have "length (replicate 18 (0 :: u8)) \<le> 2006" "64 \<le> length (replicate 64 (0xCC :: u8))" "(40000 :: u16) \<noteq> 0" by simp_all
  ultimately show ?thesis
    using power_on_to_answer [of wire_machine "replicate 64 0xCC" peer_eth peer_asks "replicate 18 0" "map client_frame client_packets"
        client_packets 40000 7 8 1101 8 sample_request 24 empty_request zero_response]
      wire_machine_at_rest peer_asks_ok client_frames_fit sample_client sample_short
    by metis
qed

end
